(* ===== verification/Ob_Prelude.thy ===== *)
theory Ob_Prelude
  imports Main "HOL-Library.Word" "HOL-Library.Monad_Syntax"
begin

text \<open>
  Shared vocabulary of the storage-engine development: byte buffers, the
  little-endian encoding of machine words, \<^verbatim>\<open>memcpy\<close> into and out of a buffer,
  the check-then-copy pattern every \<^verbatim>\<open>serialize\<close>/\<^verbatim>\<open>deserialize\<close> pair of the
  sources uses (locale \<open>pod_layout\<close>), and POSIX files as the sources use them.

  Conventions.  An \<^verbatim>\<open>int\<close> return code is the type \<open>ret\<close>: \<open>0\<close> is success and
  \<open>-1\<close> failure, as in \<^verbatim>\<open>ob_define.h\<close>.  A result \<open>None\<close> of an option-valued
  operation means that the C++ has no defined result there: it reads outside an
  object, dereferences a dangling pointer, or never returns.
  The byte order and the padding of structs are those of x86-64.
\<close>

unbundle bit_operations_syntax

type_synonym byte = "8 word"
type_synonym bytes = "byte list"
type_synonym u16 = "16 word"
type_synonym u32 = "32 word"
type_synonym u64 = "64 word"
type_synonym ret = int

named_theorems layout \<open>rules that evaluate the fields of a byte layout\<close>
named_theorems byte_eval \<open>rules that compute the bytes of concrete words\<close>
named_theorems fs_simps \<open>rules for reading and writing files\<close>

section \<open>Slices and copies\<close>

text \<open>\<open>bslice p n b\<close> are the \<open>n\<close> bytes at \<open>b + p\<close>; \<open>blit p s b\<close> is \<open>b\<close> after
  \<^verbatim>\<open>memcpy(b + p, s, |s|)\<close>.  Both are meant for ranges inside the buffer.\<close>

definition bslice :: "nat \<Rightarrow> nat \<Rightarrow> 'a list \<Rightarrow> 'a list" where
  "bslice p n b = take n (drop p b)"

definition blit :: "nat \<Rightarrow> 'a list \<Rightarrow> 'a list \<Rightarrow> 'a list" where
  "blit p s b = take p b @ s @ drop (p + length s) b"

lemma length_bslice [simp]: "length (bslice p n b) = min n (length b - p)"
  by (simp add: bslice_def min.commute)

lemma length_blit [simp]: "p + length s \<le> length b \<Longrightarrow> length (blit p s b) = length b"
  by (simp add: blit_def)

lemma slice_skip [layout]: "length xs \<le> p \<Longrightarrow> bslice p n (xs @ ys) = bslice (p - length xs) n ys"
  by (simp add: bslice_def)

lemma slice_here [layout]: "length xs = n \<Longrightarrow> bslice 0 n (xs @ ys) = xs"
  by (simp add: bslice_def)

lemma slice_all [layout]: "length xs = n \<Longrightarrow> bslice 0 n xs = xs"
  by (simp add: bslice_def)

lemma slice_blit_same: "p + length s \<le> length b \<Longrightarrow> bslice p (length s) (blit p s b) = s"
  by (simp add: bslice_def blit_def)

lemma slice_blit_before:
  "q + n \<le> p \<Longrightarrow> p + length s \<le> length b \<Longrightarrow> bslice q n (blit p s b) = bslice q n b"
  by (simp add: bslice_def blit_def drop_take min_absorb1)

lemma slice_blit_after:
  assumes "p + length s \<le> q" "p + length s \<le> length b"
  shows "bslice q n (blit p s b) = bslice q n b"
proof -
  have "drop q (blit p s b) = drop (q - (p + length s)) (drop (p + length s) b)"
    using assms by (simp add: blit_def)
  then show ?thesis using assms by (simp add: bslice_def)
qed

lemma slice_slice: "a + n \<le> m \<Longrightarrow> bslice a n (bslice p m b) = bslice (p + a) n b"
  by (simp add: bslice_def drop_take add.commute min_absorb1)

lemma slice_append_first: "p + n \<le> length xs \<Longrightarrow> bslice p n (xs @ ys) = bslice p n xs"
  by (simp add: bslice_def)

lemma nth_slice: "i < n \<Longrightarrow> p + n \<le> length b \<Longrightarrow> bslice p n b ! i = b ! (p + i)"
  by (simp add: bslice_def)

lemma nth_blit:
  assumes "p + length s \<le> length b" "i < length b"
  shows "blit p s b ! i = (if p \<le> i \<and> i < p + length s then s ! (i - p) else b ! i)"
  using assms by (auto simp: blit_def nth_append)

lemma slice_blit_inside:
  assumes "p \<le> q" "q + length s \<le> p + n" "p + n \<le> length b"
  shows "bslice p n (blit q s b) = blit (q - p) s (bslice p n b)"
proof (rule nth_equalityI)
  show "length (bslice p n (blit q s b)) = length (blit (q - p) s (bslice p n b))"
    using assms by simp
  fix i
  assume "i < length (bslice p n (blit q s b))"
  then have "i < n" using assms by simp
  then show "bslice p n (blit q s b) ! i = blit (q - p) s (bslice p n b) ! i"
    using assms by (auto simp: nth_slice nth_blit add.commute)
qed

lemma bslice_split: "bslice p (m + n) b = bslice p m b @ bslice (p + m) n b"
  by (simp add: bslice_def take_add add.commute)

lemma blit_0: "blit 0 s b = s @ drop (length s) b"
  by (simp add: blit_def)

section \<open>Little-endian encoding\<close>

primrec le_bytes :: "nat \<Rightarrow> nat \<Rightarrow> bytes" where
  "le_bytes 0 x = []"
| "le_bytes (Suc n) x = word_of_nat x # le_bytes n (x div 256)"

primrec le_value :: "bytes \<Rightarrow> nat" where
  "le_value [] = 0"
| "le_value (b # bs) = unat b + 256 * le_value bs"

definition put_word :: "'a::len word \<Rightarrow> bytes" where
  "put_word w = le_bytes (LENGTH('a) div 8) (unat w)"

definition get_word :: "bytes \<Rightarrow> 'a::len word" where
  "get_word bs = word_of_nat (le_value bs)"

lemma le_bytes_numeral [byte_eval]:
  "le_bytes (numeral k) x = word_of_nat x # le_bytes (pred_numeral k) (x div 256)"
  by (simp only: numeral_eq_Suc [of k] le_bytes.simps)

lemma length_le_bytes [simp]: "length (le_bytes n x) = n"
  by (induction n arbitrary: x) auto

lemma le_value_le_bytes: "le_value (le_bytes n x) = x mod 256 ^ n"
proof (induction n arbitrary: x)
  case 0
  then show ?case by simp
next
  case (Suc n)
  have "le_value (le_bytes (Suc n) x) = x mod 256 + 256 * (x div 256 mod 256 ^ n)"
    by (simp add: Suc.IH unsigned_of_nat take_bit_eq_mod)
  also have "\<dots> = x mod (256 * 256 ^ n)"
    by (simp add: mod_mult2_eq)
  finally show ?case by simp
qed

lemma le_value_less: "le_value bs < 256 ^ length bs"
proof (induction bs)
  case Nil
  then show ?case by simp
next
  case (Cons b bs)
  have "unat b < 256" using unsigned_less[of b] by simp
  then have "unat b + 256 * le_value bs < 256 * (le_value bs + 1)" by simp
  also have "\<dots> \<le> 256 * 256 ^ length bs"
    using Cons.IH by (intro mult_le_mono2) simp
  finally show ?case by simp
qed

lemma byte_256: "(256 :: byte) = 0"
  by simp

lemma le_bytes_le_value: "le_bytes (length bs) (le_value bs) = bs"
proof (induction bs)
  case Nil
  then show ?case by simp
next
  case (Cons b bs)
  have lt: "unat b < 256" using unsigned_less[of b] by simp
  have "(unat b + 256 * le_value bs) div 256 = le_value bs" using lt by simp
  moreover have "(word_of_nat (unat b + 256 * le_value bs) :: byte) = b"
    by (simp add: byte_256)
  ultimately show ?case using Cons.IH by simp
qed

lemma le_value_append: "le_value (xs @ ys) = le_value xs + 256 ^ length xs * le_value ys"
  by (induction xs) (auto simp: algebra_simps)

lemma drop_le_bytes: "drop k (le_bytes n x) = le_bytes (n - k) (x div 256 ^ k)"
proof (induction k arbitrary: n x)
  case (Suc k)
  then show ?case by (cases n) (auto simp: div_mult2_eq)
qed simp

lemma take_le_bytes: "take k (le_bytes n x) = le_bytes (min k n) x"
proof (induction n arbitrary: k x)
  case (Suc n)
  then show ?case by (cases k) simp_all
qed simp

lemma le_bytes_mod_self: "le_bytes n (x mod 256 ^ n) = le_bytes n x"
  using le_bytes_le_value [of "le_bytes n x"] by (simp add: le_value_le_bytes)

lemma le_bytes_mod: "n \<le> m \<Longrightarrow> le_bytes n (x mod 256 ^ m) = le_bytes n x"
  using le_bytes_mod_self [of n "x mod 256 ^ m"] le_bytes_mod_self [of n x]
  by (simp add: mod_mod_cancel le_imp_power_dvd)

lemma length_put_word [simp, layout]: "length (put_word (w :: 'a::len word)) = LENGTH('a) div 8"
  by (simp add: put_word_def)

lemma get_put_word [simp, layout]:
  assumes "8 dvd LENGTH('a::len)"
  shows "get_word (put_word (w :: 'a word)) = w"
proof -
  obtain k where k: "LENGTH('a) = 8 * k" using assms by blast
  have "(256::nat) ^ k = 2 ^ (8 * k)" by (simp add: power_mult)
  then have "(256::nat) ^ (LENGTH('a) div 8) = 2 ^ LENGTH('a)" using k by simp
  then show ?thesis
    by (simp add: get_word_def put_word_def le_value_le_bytes unsigned_less)
qed

lemma unat_plus_1:
  fixes w :: "'a::len word"
  assumes "w < - 1"
  shows "unat (w + 1) = unat w + 1"
proof -
  have "1 + w \<noteq> 0" using assms by (metis add_eq_0_iff add.commute less_irrefl)
  then show ?thesis using unatSuc [of w] by (simp add: add.commute)
qed

lemma unat_add_nat:
  fixes a :: "'a::len word"
  assumes "unat a + n < 2 ^ LENGTH('a)"
  shows "unat (a + word_of_nat n) = unat a + n"
  using assms by (simp add: unat_word_ariths unsigned_of_nat take_bit_eq_mod mod_add_right_eq)

lemma sint_nat32: "n < 2 ^ 31 \<Longrightarrow> sint (word_of_nat n :: u32) = int n"
  by (simp add: signed_of_nat signed_take_bit_int_eq_self)

lemma sint_nat64: "n < 2 ^ 63 \<Longrightarrow> sint (word_of_nat n :: u64) = int n"
  by (simp add: signed_of_nat signed_take_bit_int_eq_self)

section \<open>Check-then-copy serialisation\<close>

text \<open>
  The serialise/deserialise pairs of the sources share one shape: compare the
  room left in the buffer with the size of the object, return \<open>-1\<close> leaving
  everything untouched when it is too small, and otherwise copy the object
  representation and advance the position.  The buffer length that the C++ passes
  beside the pointer is the length of the list.
\<close>

definition pod_serialize :: "bytes \<Rightarrow> bytes \<Rightarrow> nat \<Rightarrow> ret \<times> bytes \<times> nat" where
  "pod_serialize obj buf pos =
     (if length buf < pos + length obj then (-1, buf, pos)
      else (0, blit pos obj buf, pos + length obj))"

definition pod_deserialize :: "nat \<Rightarrow> (bytes \<Rightarrow> 'a) \<Rightarrow> 'a \<Rightarrow> bytes \<Rightarrow> nat \<Rightarrow> ret \<times> 'a \<times> nat" where
  "pod_deserialize sz dec old buf pos =
     (if length buf < pos + sz then (-1, old, pos)
      else (0, dec (bslice pos sz buf), pos + sz))"

locale pod_layout =
  fixes enc :: "'a \<Rightarrow> bytes" and dec :: "bytes \<Rightarrow> 'a" and sz :: nat
  assumes length_enc: "length (enc x) = sz"
    and dec_enc: "dec (enc x) = x"
begin

lemma serialize_ok:
  "pos + sz \<le> length buf \<Longrightarrow> pod_serialize (enc x) buf pos = (0, blit pos (enc x) buf, pos + sz)"
  by (simp add: pod_serialize_def length_enc)

lemma serialize_error:
  "length buf < pos + sz \<Longrightarrow> pod_serialize (enc x) buf pos = (-1, buf, pos)"
  by (simp add: pod_serialize_def length_enc)

lemma serialize_succeeds_iff: "fst (pod_serialize (enc x) buf pos) = 0 \<longleftrightarrow> pos + sz \<le> length buf"
  by (simp add: pod_serialize_def length_enc)

lemma serialize_elim:
  assumes "pod_serialize (enc x) buf pos = (0, buf', pos')"
  shows "pos + sz \<le> length buf" "buf' = blit pos (enc x) buf" "pos' = pos + sz"
    "length buf' = length buf" "bslice pos sz buf' = enc x"
  using assms slice_blit_same [of pos "enc x" buf]
  by (auto simp: pod_serialize_def length_enc split: if_splits)

lemma roundtrip:
  assumes "pod_serialize (enc x) buf pos = (0, buf', pos')"
  shows "pod_deserialize sz dec old buf' pos = (0, x, pos')"
  using serialize_elim [OF assms] by (simp add: pod_deserialize_def dec_enc)

lemma roundtrip_slice:
  assumes "bslice pos sz buf = enc x" "pos + sz \<le> length buf"
  shows "pod_deserialize sz dec old buf pos = (0, x, pos + sz)"
  using assms by (simp add: pod_deserialize_def dec_enc)

lemma serialize_frame:
  assumes "pod_serialize (enc x) buf pos = (r, buf', pos')" "q + n \<le> pos \<or> pos + sz \<le> q"
  shows "bslice q n buf' = bslice q n buf"
proof (cases "length buf < pos + sz")
  case True
  then show ?thesis using assms by (simp add: serialize_error)
next
  case False
  then show ?thesis
    using assms slice_blit_before [of q n pos "enc x" buf] slice_blit_after [of pos "enc x" q buf n]
    by (auto simp: serialize_ok length_enc)
qed

lemma enc_inject: "enc x = enc y \<longleftrightarrow> x = y"
  by (metis dec_enc)

end

section \<open>Files\<close>

text \<open>A regular file: its size and its bytes (a hole, or a byte past the end, is 0).
  \<open>file_wf\<close> says the representation is canonical; every operation keeps it.\<close>

record posix_file =
  f_data :: "nat \<Rightarrow> byte"
  f_size :: nat

definition new_file :: posix_file where
  "new_file = \<lparr>f_data = (\<lambda>_. 0), f_size = 0\<rparr>"

definition file_wf :: "posix_file \<Rightarrow> bool" where
  "file_wf f \<longleftrightarrow> (\<forall>i\<ge>f_size f. f_data f i = 0)"

definition pwrite_file :: "nat \<Rightarrow> bytes \<Rightarrow> posix_file \<Rightarrow> posix_file" where
  "pwrite_file off bs f =
     \<lparr>f_data = (\<lambda>i. if off \<le> i \<and> i < off + length bs then bs ! (i - off) else f_data f i),
      f_size = (if bs = [] then f_size f else max (f_size f) (off + length bs))\<rparr>"

definition pread_file :: "nat \<Rightarrow> nat \<Rightarrow> posix_file \<Rightarrow> bytes" where
  "pread_file off n f = map (f_data f) [off ..< min (off + n) (f_size f)]"

definition ftruncate_file :: "nat \<Rightarrow> posix_file \<Rightarrow> posix_file" where
  "ftruncate_file n f =
     \<lparr>f_data = (\<lambda>i. if i < n then f_data f i else 0), f_size = n\<rparr>"

lemma file_wf_new [simp]: "file_wf new_file"
  by (simp add: file_wf_def new_file_def)

lemma file_wf_pwrite [simp]: "file_wf f \<Longrightarrow> file_wf (pwrite_file off bs f)"
  by (auto simp: file_wf_def pwrite_file_def)

lemma file_wf_ftruncate [simp]: "file_wf f \<Longrightarrow> file_wf (ftruncate_file n f)"
  by (simp add: file_wf_def ftruncate_file_def)

lemma f_size_pwrite [fs_simps]:
  "f_size (pwrite_file off bs f) = (if bs = [] then f_size f else max (f_size f) (off + length bs))"
  by (simp add: pwrite_file_def)

lemma f_size_ftruncate [simp, fs_simps]: "f_size (ftruncate_file n f) = n"
  by (simp add: ftruncate_file_def)

lemma length_pread [simp]: "length (pread_file off n f) = min n (f_size f - off)"
  by (simp add: pread_file_def)

lemma pwrite_Nil [simp]: "pwrite_file off [] f = f"
  by (cases f) (auto simp: pwrite_file_def fun_eq_iff)

lemma nth_pread: "i < length (pread_file off n f) \<Longrightarrow> pread_file off n f ! i = f_data f (off + i)"
  by (simp add: pread_file_def less_diff_conv add.commute)

lemma pread_eqI:
  assumes "off + n \<le> f_size f" "off + n \<le> f_size g"
    and "\<And>i. off \<le> i \<Longrightarrow> i < off + n \<Longrightarrow> f_data f i = f_data g i"
  shows "pread_file off n f = pread_file off n g"
  using assms by (simp add: pread_file_def min_absorb1)

lemma pread_pwrite_same [fs_simps]: "pread_file off (length bs) (pwrite_file off bs f) = bs"
  by (rule nth_equalityI) (auto simp: pread_file_def pwrite_file_def)

lemma pread_pwrite_other:
  assumes "off + n \<le> f_size f" "off + n \<le> p \<or> p + length bs \<le> off"
  shows "pread_file off n (pwrite_file p bs f) = pread_file off n f"
  using assms by (intro pread_eqI) (auto simp: pwrite_file_def)

lemma pread_slice:
  assumes "a + n \<le> m" "off + m \<le> f_size f"
  shows "bslice a n (pread_file off m f) = pread_file (off + a) n f"
  using assms by (intro nth_equalityI) (auto simp: bslice_def pread_file_def min_absorb1 add.assoc)

lemma pread_ftruncate_grow:
  assumes "off + n \<le> f_size f" "f_size f \<le> m"
  shows "pread_file off n (ftruncate_file m f) = pread_file off n f"
  using assms by (intro pread_eqI) (auto simp: ftruncate_file_def)

lemma pread_ftruncate_keep:
  assumes "off + n \<le> m" "off + n \<le> f_size f"
  shows "pread_file off n (ftruncate_file m f) = pread_file off n f"
  using assms by (intro pread_eqI) (auto simp: ftruncate_file_def)

text \<open>Files that are only ever read and written as a whole or appended to: a map from paths
  to contents.\<close>

type_synonym file_store = "string \<rightharpoonup> bytes"

section \<open>Ordered associative containers\<close>

text \<open>\<^verbatim>\<open>std::map\<close> as the list of its entries in iteration order, which is the order of
  the keys: \<open>omap_set\<close> is \<^verbatim>\<open>m[k] = v\<close>, \<open>omap_find\<close> is \<^verbatim>\<open>m.find(k)\<close> and
  \<open>omap_lower_bound\<close> the suffix of entries from \<^verbatim>\<open>m.lower_bound(k)\<close> to the end.\<close>

fun omap_set :: "'k::linorder \<Rightarrow> 'v \<Rightarrow> ('k \<times> 'v) list \<Rightarrow> ('k \<times> 'v) list" where
  "omap_set k v [] = [(k, v)]"
| "omap_set k v ((k', v') # m) =
     (if k < k' then (k, v) # (k', v') # m
      else if k = k' then (k, v) # m
      else (k', v') # omap_set k v m)"

fun omap_find :: "('k::linorder \<times> 'v) list \<Rightarrow> 'k \<Rightarrow> 'v option" where
  "omap_find [] k = None"
| "omap_find ((k', v') # m) k = (if k = k' then Some v' else omap_find m k)"

definition omap_lower_bound :: "'k::linorder \<Rightarrow> ('k \<times> 'v) list \<Rightarrow> ('k \<times> 'v) list" where
  "omap_lower_bound k m = dropWhile (\<lambda>e. fst e < k) m"

definition omap_wf :: "('k::linorder \<times> 'v) list \<Rightarrow> bool" where
  "omap_wf m \<longleftrightarrow> sorted_wrt (<) (map fst m)"

lemma omap_find_map_of: "omap_find m k = map_of m k"
  by (induction m k rule: omap_find.induct) auto

lemma set_omap_set: "set (map fst (omap_set k v m)) = insert k (set (map fst m))"
  by (induction k v m rule: omap_set.induct) auto

lemma omap_wf_set [simp]: "omap_wf m \<Longrightarrow> omap_wf (omap_set k v m)"
proof (induction k v m rule: omap_set.induct)
  case (2 k v k' v' m)
  then have "omap_wf (omap_set k v m)" if "\<not> k < k'" "k \<noteq> k'"
    using that by (simp add: omap_wf_def)
  then show ?case using 2(2) set_omap_set [of k v m]
    by (auto simp: omap_wf_def)
qed (simp add: omap_wf_def)

lemma omap_find_set [simp]: "omap_find (omap_set k v m) k' = (if k' = k then Some v else omap_find m k')"
  by (induction k v m rule: omap_set.induct) auto

lemma omap_find_Some: "omap_wf m \<Longrightarrow> omap_find m k = Some v \<longleftrightarrow> (k, v) \<in> set m"
proof (induction m)
  case (Cons e m)
  then show ?case by (cases e) (auto simp: omap_wf_def)
qed simp

lemma set_omap_lower_bound: "omap_wf m \<Longrightarrow> set (omap_lower_bound k m) = {e \<in> set m. k \<le> fst e}"
proof (induction m)
  case (Cons e m)
  then show ?case by (cases e) (auto simp: omap_wf_def omap_lower_bound_def)
qed (simp add: omap_lower_bound_def)

lemma omap_wf_distinct: "omap_wf m \<Longrightarrow> distinct (map fst m)"
  by (simp add: omap_wf_def strict_sorted_iff)

lemma takeWhile_sorted_filter:
  assumes "sorted_wrt (<) (map fst m)" "\<And>a b :: 'k::linorder. a \<le> b \<Longrightarrow> P b \<Longrightarrow> P a"
  shows "takeWhile (\<lambda>e. P (fst e)) m = filter (\<lambda>e. P (fst e)) m"
  using assms(1)
proof (induction m)
  case (Cons e m)
  have "filter (\<lambda>e. P (fst e)) m = []" if "\<not> P (fst e)"
    using Cons.prems that assms(2) [of "fst e"] by (fastforce simp: filter_empty_conv intro: less_imp_le)
  then show ?case using Cons by auto
qed simp

lemma omap_range:
  assumes "omap_wf m" "\<And>a b :: 'k::linorder. a \<le> b \<Longrightarrow> P b \<Longrightarrow> P a"
  shows "takeWhile (\<lambda>e. P (fst e)) (omap_lower_bound k m) = filter (\<lambda>e. k \<le> fst e \<and> P (fst e)) m"
  using assms(1)
proof (induction m)
  case Nil
  then show ?case by (simp add: omap_lower_bound_def)
next
  case (Cons e m)
  show ?case
  proof (cases "fst e < k")
    case True
    then show ?thesis using Cons by (auto simp: omap_lower_bound_def omap_wf_def)
  next
    case False
    then have "\<forall>e' \<in> set (e # m). k \<le> fst e'" using Cons.prems by (auto simp: omap_wf_def)
    then have "filter (\<lambda>e. k \<le> fst e \<and> P (fst e)) (e # m) = filter (\<lambda>e. P (fst e)) (e # m)"
      by (intro filter_cong) auto
    moreover have "omap_lower_bound k (e # m) = e # m" using False by (simp add: omap_lower_bound_def)
    ultimately show ?thesis
      using takeWhile_sorted_filter [of "e # m" P] Cons.prems assms(2) by (simp add: omap_wf_def)
  qed
qed

section \<open>Keyed stores\<close>

text \<open>What a client of a keyed store relies on: after \<open>put k v\<close> a lookup of \<open>k\<close> finds
  \<open>v\<close> and every other key is as before, and the store stays well formed.  A whole
  sequence of writes is then the sequence of updates of one finite map.\<close>

locale kv_store =
  fixes put :: "'k \<Rightarrow> 'v \<Rightarrow> 's \<Rightarrow> 's" and lookup :: "'s \<Rightarrow> 'k \<Rightarrow> 'v option" and ok :: "'s \<Rightarrow> bool"
  assumes ok_put: "ok s \<Longrightarrow> ok (put k v s)"
    and lookup_put: "ok s \<Longrightarrow> lookup (put k v s) k' = (if k' = k then Some v else lookup s k')"
begin

definition puts :: "('k \<times> 'v) list \<Rightarrow> 's \<Rightarrow> 's" where
  "puts kvs s = fold (\<lambda>(k, v). put k v) kvs s"

lemma ok_puts: "ok s \<Longrightarrow> ok (puts kvs s)"
  unfolding puts_def by (induction kvs arbitrary: s) (auto simp: ok_put)

lemma lookup_puts: "ok s \<Longrightarrow> lookup (puts kvs s) = lookup s ++ map_of (rev kvs)"
  unfolding puts_def
proof (induction kvs arbitrary: s)
  case (Cons kv kvs)
  obtain k v where kv: "kv = (k, v)" by (cases kv)
  have upd: "lookup (put k v s) = (lookup s)(k \<mapsto> v)"
    using Cons.prems by (auto simp: lookup_put)
  have "lookup (fold (\<lambda>(k, v). put k v) kvs (put k v s)) = lookup (put k v s) ++ map_of (rev kvs)"
    using Cons.IH Cons.prems by (simp add: ok_put)
  then show ?case unfolding upd using kv by simp
qed simp

lemma last_put_wins:
  "ok s \<Longrightarrow> k \<notin> fst ` set kvs \<Longrightarrow> lookup (puts kvs (put k v s)) k = Some v"
  by (simp add: lookup_puts ok_put lookup_put map_add_Some_iff map_of_eq_None_iff)

end

interpretation omap: kv_store omap_set omap_find omap_wf
  by unfold_locales auto

section \<open>C strings\<close>

text \<open>The characters of a C string, up to its terminator.\<close>

definition c_str :: "bytes \<Rightarrow> bytes" where
  "c_str s = takeWhile (\<lambda>b. b \<noteq> 0) s"

text \<open>The bytes of a string literal.\<close>

definition str :: "string \<Rightarrow> bytes" where
  "str s = map of_char s"

section \<open>Return codes of the SQL layer\<close>

text \<open>The values of \<^verbatim>\<open>enum class RC\<close> that the models return, by their position in the enumeration.\<close>

type_synonym RC = int

definition SUCCESS :: RC where "SUCCESS = 0"
definition INVALID_ARGUMENT :: RC where "INVALID_ARGUMENT = 1"
definition UNIMPLEMENTED :: RC where "UNIMPLEMENTED = 2"
definition SQL_SYNTAX :: RC where "SQL_SYNTAX = 3"
definition INTERNAL :: RC where "INTERNAL = 4"
definition RECORD_EOF :: RC where "RECORD_EOF = 19"
definition SCHEMA_DB_NOT_EXIST :: RC where "SCHEMA_DB_NOT_EXIST = 23"
definition SCHEMA_TABLE_NOT_EXIST :: RC where "SCHEMA_TABLE_NOT_EXIST = 26"
definition SCHEMA_FIELD_TYPE_MISMATCH :: RC where "SCHEMA_FIELD_TYPE_MISMATCH = 30"
definition IOERR_READ :: RC where "IOERR_READ = 32"
definition IOERR_CLOSE :: RC where "IOERR_CLOSE = 36"
definition IOERR_TOO_LONG :: RC where "IOERR_TOO_LONG = 38"
definition IOERR_WRITE :: RC where "IOERR_WRITE = 33"
definition VARIABLE_NOT_EXISTS :: RC where "VARIABLE_NOT_EXISTS = 52"
definition VARIABLE_NOT_VALID :: RC where "VARIABLE_NOT_VALID = 53"
definition UNSUPPORTED :: RC where "UNSUPPORTED = 65"

lemmas rc_defs =
  SUCCESS_def INVALID_ARGUMENT_def UNIMPLEMENTED_def SQL_SYNTAX_def INTERNAL_def
  RECORD_EOF_def SCHEMA_DB_NOT_EXIST_def SCHEMA_TABLE_NOT_EXIST_def SCHEMA_FIELD_TYPE_MISMATCH_def IOERR_READ_def
  IOERR_WRITE_def IOERR_CLOSE_def IOERR_TOO_LONG_def VARIABLE_NOT_EXISTS_def VARIABLE_NOT_VALID_def UNSUPPORTED_def

lemma rc_neq [simp]:
  "SUCCESS \<noteq> INVALID_ARGUMENT" "SUCCESS \<noteq> UNIMPLEMENTED" "SUCCESS \<noteq> INTERNAL"
  "SUCCESS \<noteq> RECORD_EOF" "SUCCESS \<noteq> SCHEMA_DB_NOT_EXIST" "INVALID_ARGUMENT \<noteq> SUCCESS"
  "INVALID_ARGUMENT \<noteq> UNIMPLEMENTED" "INVALID_ARGUMENT \<noteq> INTERNAL" "INVALID_ARGUMENT \<noteq> RECORD_EOF"
  "INVALID_ARGUMENT \<noteq> SCHEMA_DB_NOT_EXIST" "UNIMPLEMENTED \<noteq> SUCCESS" "UNIMPLEMENTED \<noteq> INVALID_ARGUMENT"
  "UNIMPLEMENTED \<noteq> INTERNAL" "UNIMPLEMENTED \<noteq> RECORD_EOF" "UNIMPLEMENTED \<noteq> SCHEMA_DB_NOT_EXIST"
  "INTERNAL \<noteq> SUCCESS" "INTERNAL \<noteq> INVALID_ARGUMENT" "INTERNAL \<noteq> UNIMPLEMENTED"
  "INTERNAL \<noteq> RECORD_EOF" "INTERNAL \<noteq> SCHEMA_DB_NOT_EXIST" "RECORD_EOF \<noteq> SUCCESS"
  "RECORD_EOF \<noteq> INVALID_ARGUMENT" "RECORD_EOF \<noteq> UNIMPLEMENTED" "RECORD_EOF \<noteq> INTERNAL"
  "RECORD_EOF \<noteq> SCHEMA_DB_NOT_EXIST" "SCHEMA_DB_NOT_EXIST \<noteq> SUCCESS" "SCHEMA_DB_NOT_EXIST \<noteq> INVALID_ARGUMENT"
  "SCHEMA_DB_NOT_EXIST \<noteq> UNIMPLEMENTED" "SCHEMA_DB_NOT_EXIST \<noteq> INTERNAL" "SCHEMA_DB_NOT_EXIST \<noteq> RECORD_EOF"
  by (simp_all add: rc_defs)

section \<open>Folds that may stop\<close>

fun foldo :: "('b \<Rightarrow> 's \<Rightarrow> 's option) \<Rightarrow> 'b list \<Rightarrow> 's \<Rightarrow> 's option" where
  "foldo f [] s = Some s"
| "foldo f (b # bs) s = Option.bind (f b s) (foldo f bs)"

lemma foldo_append: "foldo f (xs @ ys) s = Option.bind (foldo f xs s) (foldo f ys)"
proof (induction xs arbitrary: s)
  case (Cons x xs)
  show ?case by (cases "f x s") (simp_all add: Cons.IH)
qed simp

end
