(* ===== verification/Ob_Define.thy ===== *)
theory Ob_Define
  imports Ob_Prelude
begin

text \<open>
  The types every layer of the engine shares: \<^verbatim>\<open>storage/ob_define.h\<close> (enumerations
  and constants), \<^verbatim>\<open>storage/ob_i_store.h\<close> and \<^verbatim>\<open>.cpp\<close> (row keys with their order and
  hash, rows, read/write contexts) and \<^verbatim>\<open>storage/ob_i_table.h\<close> (table kinds).

  An enumeration with a fixed underlying type can hold any value of that type
  after a \<^verbatim>\<open>static_cast\<close>; \<open>DF_RAW\<close> stands for the unnamed values, which log replay can
  produce.  Signed 64-bit quantities that are never encoded are \<open>int\<close>.
\<close>

section \<open>Enumerations and constants\<close>

datatype ObDmlFlag =
  DF_NOT_SET | DF_INSERT | DF_UPDATE | DF_DELETE | DF_LOCK | DF_MAX | DF_RAW int

fun dml_to_int :: "ObDmlFlag \<Rightarrow> int" where
  "dml_to_int DF_NOT_SET = 0"
| "dml_to_int DF_INSERT = 1"
| "dml_to_int DF_UPDATE = 2"
| "dml_to_int DF_DELETE = 3"
| "dml_to_int DF_LOCK = 4"
| "dml_to_int DF_MAX = 5"
| "dml_to_int (DF_RAW i) = i"

definition dml_of_int :: "int \<Rightarrow> ObDmlFlag" where
  "dml_of_int i =
     (if i = 0 then DF_NOT_SET else if i = 1 then DF_INSERT else if i = 2 then DF_UPDATE
      else if i = 3 then DF_DELETE else if i = 4 then DF_LOCK else if i = 5 then DF_MAX
      else DF_RAW i)"

definition dml_named :: "ObDmlFlag \<Rightarrow> bool" where
  "dml_named d \<longleftrightarrow> d \<in> {DF_NOT_SET, DF_INSERT, DF_UPDATE, DF_DELETE, DF_LOCK, DF_MAX}"

lemma dml_to_of_int [simp]: "dml_to_int (dml_of_int i) = i"
  by (simp add: dml_of_int_def)

lemma dml_of_to_int [simp]: "dml_named d \<Longrightarrow> dml_of_int (dml_to_int d) = d"
  by (auto simp: dml_named_def dml_of_int_def)

lemma dml_named_range: "dml_named d \<Longrightarrow> 0 \<le> dml_to_int d \<and> dml_to_int d \<le> 5"
  by (auto simp: dml_named_def)

definition OB_SUCCESS :: ret where "OB_SUCCESS = 0"
definition OB_ENTRY_EXIST :: ret where "OB_ENTRY_EXIST = -1"
definition OB_ENTRY_NOT_EXIST :: ret where "OB_ENTRY_NOT_EXIST = -1"
definition OB_ITER_END :: ret where "OB_ITER_END = -1"

definition DEFAULT_MACRO_BLOCK_SIZE :: nat where "DEFAULT_MACRO_BLOCK_SIZE = 2 * 1024 * 1024"
definition DEFAULT_MICRO_BLOCK_SIZE :: nat where "DEFAULT_MICRO_BLOCK_SIZE = 256 * 1024"
definition DEFAULT_MEMTABLE_SIZE :: nat where "DEFAULT_MEMTABLE_SIZE = 64 * 1024 * 1024"

datatype ObTableType =
  DATA_MEMTABLE | TX_DATA_MEMTABLE | MINI_SSTABLE | MINOR_SSTABLE | MAJOR_SSTABLE | MAX_TABLE_TYPE

fun is_memtable :: "ObTableType \<Rightarrow> bool" where
  "is_memtable t = (t = DATA_MEMTABLE \<or> t = TX_DATA_MEMTABLE)"

fun is_sstable :: "ObTableType \<Rightarrow> bool" where
  "is_sstable t = (t = MINI_SSTABLE \<or> t = MINOR_SSTABLE \<or> t = MAJOR_SSTABLE)"

definition is_major_sstable :: "ObTableType \<Rightarrow> bool" where
  "is_major_sstable t \<longleftrightarrow> t = MAJOR_SSTABLE"

definition is_mini_sstable :: "ObTableType \<Rightarrow> bool" where
  "is_mini_sstable t \<longleftrightarrow> t = MINI_SSTABLE"

definition is_minor_sstable :: "ObTableType \<Rightarrow> bool" where
  "is_minor_sstable t \<longleftrightarrow> t = MINOR_SSTABLE"

datatype ObMergeType = MINI_MERGE | MINOR_MERGE | MAJOR_MERGE | NOT_INIT

definition OB_INVALID_TRANS_ID :: int where "OB_INVALID_TRANS_ID = -1"
definition OB_INVALID_VERSION :: int where "OB_INVALID_VERSION = 2 ^ 63 - 1"

section \<open>Row keys\<close>

text \<open>\<open>rk_buf\<close> is the owned buffer and \<open>rk_length\<close> the separately kept length; a key built
  from a null pointer with a positive length has the two out of step, and
  \<open>rk_wf\<close> is the condition under which no read leaves the buffer.\<close>

record ObStoreRowkey =
  rk_buf :: bytes
  rk_length :: int

definition rk_empty :: ObStoreRowkey where
  "rk_empty = \<lparr>rk_buf = [], rk_length = 0\<rparr>"

definition rk_make :: "bytes option \<Rightarrow> int \<Rightarrow> ObStoreRowkey" where
  "rk_make data len =
     (case data of
        None \<Rightarrow> \<lparr>rk_buf = [], rk_length = len\<rparr>
      | Some bs \<Rightarrow> \<lparr>rk_buf = (if len > 0 then take (nat len) bs else []), rk_length = len\<rparr>)"

definition rk_of_bytes :: "bytes \<Rightarrow> ObStoreRowkey" where
  "rk_of_bytes bs = \<lparr>rk_buf = bs, rk_length = int (length bs)\<rparr>"

definition rk_get_data :: "ObStoreRowkey \<Rightarrow> bytes option" where
  "rk_get_data k = (if rk_length k > 0 then Some (rk_buf k) else None)"

definition rk_is_valid :: "ObStoreRowkey \<Rightarrow> bool" where
  "rk_is_valid k \<longleftrightarrow> rk_length k > 0 \<and> rk_buf k \<noteq> []"

definition rk_wf :: "ObStoreRowkey \<Rightarrow> bool" where
  "rk_wf k \<longleftrightarrow> rk_length k = int (length (rk_buf k))"

text \<open>\<^verbatim>\<open>memcmp\<close> over unsigned bytes, with its result reduced to its sign.\<close>

fun memcmp :: "nat \<Rightarrow> bytes \<Rightarrow> bytes \<Rightarrow> int" where
  "memcmp (Suc n) (x # xs) (y # ys) = (if x < y then -1 else if y < x then 1 else memcmp n xs ys)"
| "memcmp _ _ _ = 0"

definition rk_compare :: "ObStoreRowkey \<Rightarrow> ObStoreRowkey \<Rightarrow> int" where
  "rk_compare a b =
     (if rk_length a < rk_length b then -1
      else if rk_length a > rk_length b then 1
      else if rk_length a = 0 then 0
      else memcmp (nat (rk_length a)) (rk_buf a) (rk_buf b))"

definition rk_equal :: "ObStoreRowkey \<Rightarrow> ObStoreRowkey \<Rightarrow> bool" where
  "rk_equal a b =
     (if rk_length a \<noteq> rk_length b then False
      else if rk_length a = 0 then True
      else memcmp (nat (rk_length a)) (rk_buf a) (rk_buf b) = 0)"

section \<open>MurmurHash64A\<close>

definition murmur_m :: u64 where "murmur_m = 0xc6a4a7935bd1e995"

definition murmur_mix :: "u64 \<Rightarrow> u64" where
  "murmur_mix k0 =
     (let k = k0 * murmur_m;
          k = k XOR drop_bit 47 k
      in k * murmur_m)"

primrec murmur_blocks :: "nat \<Rightarrow> bytes \<Rightarrow> u64 \<Rightarrow> u64" where
  "murmur_blocks 0 d h = h"
| "murmur_blocks (Suc n) d h =
     murmur_blocks n (drop 8 d) ((h XOR murmur_mix (get_word (take 8 d))) * murmur_m)"

definition murmur_tail :: "nat \<Rightarrow> bytes \<Rightarrow> u64 \<Rightarrow> u64" where
  "murmur_tail n d h =
     (let h = (if n \<ge> 7 then h XOR push_bit 48 (ucast (d ! 6)) else h);
          h = (if n \<ge> 6 then h XOR push_bit 40 (ucast (d ! 5)) else h);
          h = (if n \<ge> 5 then h XOR push_bit 32 (ucast (d ! 4)) else h);
          h = (if n \<ge> 4 then h XOR push_bit 24 (ucast (d ! 3)) else h);
          h = (if n \<ge> 3 then h XOR push_bit 16 (ucast (d ! 2)) else h);
          h = (if n \<ge> 2 then h XOR push_bit 8 (ucast (d ! 1)) else h)
      in if n \<ge> 1 then (h XOR ucast (d ! 0)) * murmur_m else h)"

definition murmur_final :: "u64 \<Rightarrow> u64" where
  "murmur_final h0 =
     (let h = h0 XOR drop_bit 47 h0;
          h = h * murmur_m
      in h XOR drop_bit 47 h)"

definition murmurhash64 :: "bytes \<Rightarrow> nat \<Rightarrow> u64 \<Rightarrow> u64" where
  "murmurhash64 d len seed =
     (let h = seed XOR (word_of_nat len * murmur_m);
          h = murmur_blocks (len div 8) d h;
          h = murmur_tail (len mod 8) (drop (8 * (len div 8)) d) h
      in murmur_final h)"

definition rk_murmurhash :: "ObStoreRowkey \<Rightarrow> u64 \<Rightarrow> u64" where
  "rk_murmurhash k seed =
     (case rk_get_data k of
        None \<Rightarrow> seed
      | Some d \<Rightarrow> murmurhash64 d (nat (rk_length k)) seed)"

section \<open>Rows and contexts\<close>

record ObStoreRow =
  row_dml_flag :: ObDmlFlag
  row_trans_version :: int
  row_trans_id :: int
  row_rowkey :: ObStoreRowkey
  row_value :: bytes
  row_is_deleted :: bool

definition row_init :: ObStoreRow where
  "row_init = \<lparr>row_dml_flag = DF_MAX, row_trans_version = 0, row_trans_id = OB_INVALID_TRANS_ID,
     row_rowkey = rk_empty, row_value = [], row_is_deleted = False\<rparr>"

record ObStoreCtx =
  ctx_tx_id :: int
  ctx_snapshot_version :: int
  ctx_timeout :: int

definition ctx_init :: ObStoreCtx where
  "ctx_init = \<lparr>ctx_tx_id = OB_INVALID_TRANS_ID, ctx_snapshot_version = OB_INVALID_VERSION,
     ctx_timeout = 0\<rparr>"

definition ctx_reset :: ObStoreCtx where
  "ctx_reset = \<lparr>ctx_tx_id = OB_INVALID_TRANS_ID, ctx_snapshot_version = 0, ctx_timeout = 0\<rparr>"

definition ctx_is_valid :: "ObStoreCtx \<Rightarrow> bool" where
  "ctx_is_valid c \<longleftrightarrow> ctx_tx_id c \<ge> 0"

section \<open>The order of row keys\<close>

lemma rk_wf_make: "0 \<le> len \<Longrightarrow> nat len \<le> length bs \<Longrightarrow> rk_wf (rk_make (Some bs) len)"
  by (simp add: rk_wf_def rk_make_def)

lemma rk_wf_of_bytes [simp]: "rk_wf (rk_of_bytes bs)"
  by (simp add: rk_wf_def rk_of_bytes_def)

lemma memcmp_refl [simp]: "memcmp n xs xs = 0"
proof (induction xs arbitrary: n)
  case (Cons x xs)
  then show ?case by (cases n) auto
qed simp

lemma memcmp_eq_0:
  "length xs = n \<Longrightarrow> length ys = n \<Longrightarrow> memcmp n xs ys = 0 \<longleftrightarrow> xs = ys"
  by (induction n xs ys rule: memcmp.induct) auto

lemma memcmp_antisym: "memcmp n xs ys = - memcmp n ys xs"
  by (induction n xs ys rule: memcmp.induct) auto

lemma memcmp_range: "memcmp n xs ys \<in> {-1, 0, 1}"
  by (induction n xs ys rule: memcmp.induct) auto

lemma memcmp_trans:
  assumes "length xs = n" "length ys = n" "length zs = n"
    and "memcmp n xs ys \<le> 0" "memcmp n ys zs \<le> 0"
  shows "memcmp n xs zs \<le> 0"
  using assms
proof (induction n xs ys arbitrary: zs rule: memcmp.induct)
  case (1 n x xs y ys)
  then obtain z zs' where zs: "zs = z # zs'" by (cases zs) auto
  show ?case
  proof (cases "x = y \<and> y = z")
    case True
    then show ?thesis using 1 zs by auto
  next
    case False
    then have "x < z" using 1(5,6) zs by (auto split: if_splits)
    then show ?thesis using zs by simp
  qed
qed auto

lemma rk_equal_iff_compare: "rk_equal a b \<longleftrightarrow> rk_compare a b = 0"
  by (simp add: rk_equal_def rk_compare_def)

lemma rk_eqI: "rk_buf a = rk_buf b \<Longrightarrow> rk_wf a \<Longrightarrow> rk_wf b \<Longrightarrow> a = (b :: ObStoreRowkey)"
  by (simp add: rk_wf_def)

lemma rk_compare_eq_0: "rk_wf a \<Longrightarrow> rk_wf b \<Longrightarrow> rk_compare a b = 0 \<longleftrightarrow> a = b"
  by (auto simp: rk_compare_def rk_wf_def memcmp_eq_0)

lemma rk_compare_antisym: "rk_compare a b = - rk_compare b a"
  using memcmp_antisym [of "nat (rk_length a)" "rk_buf a" "rk_buf b"]
  by (auto simp: rk_compare_def)

lemma rk_compare_trans:
  assumes "rk_wf a" "rk_wf b" "rk_wf c" "rk_compare a b \<le> 0" "rk_compare b c \<le> 0"
  shows "rk_compare a c \<le> 0"
  using assms memcmp_trans [of "rk_buf a" "nat (rk_length a)" "rk_buf b" "rk_buf c"]
  by (auto simp: rk_compare_def rk_wf_def split: if_splits)

section \<open>Evaluation of the hash\<close>

text \<open>The steps of the hash on 64-bit words, as arithmetic on integers.\<close>

lemma u64_times_int: "(word_of_int i :: u64) * word_of_int j = word_of_int (i * j mod 2 ^ 64)"
  by transfer (simp add: take_bit_eq_mod mod_mult_eq)

lemma u64_xor_int:  "(word_of_int i :: u64) XOR word_of_int j = word_of_int (i XOR j)"
  by transfer simp

lemma u64_shift_int:  "drop_bit n (word_of_int i :: u64) = word_of_int ((i mod 2 ^ 64) div 2 ^ n)"
  by transfer (simp add: take_bit_eq_mod drop_bit_eq_div)

definition mix_int :: "int \<Rightarrow> int" where
  "mix_int k0 = (let k = k0 * 0xc6a4a7935bd1e995 mod 2^64; k = k XOR (k div 2^47) in k * 0xc6a4a7935bd1e995 mod 2^64)"

definition step_int :: "int \<Rightarrow> int \<Rightarrow> int" where
  "step_int h k = (h XOR mix_int k) * 0xc6a4a7935bd1e995 mod 2 ^ 64"

lemma murmur_mix_int: "murmur_mix (word_of_int k) = word_of_int (mix_int k)"
proof -
  have m: "murmur_m = word_of_int 0xc6a4a7935bd1e995" by (simp add: murmur_m_def)
  show ?thesis unfolding murmur_mix_def mix_int_def Let_def m u64_times_int u64_shift_int u64_xor_int
   by (simp only: mod_mod_trivial)
qed

lemma murmur_step_int:
  "(word_of_int h XOR murmur_mix (word_of_int k)) * murmur_m = word_of_int (step_int h k)"
proof -
  have m: "murmur_m = word_of_int 0xc6a4a7935bd1e995" by (simp add: murmur_m_def)
  show ?thesis unfolding murmur_mix_int step_int_def m u64_times_int u64_xor_int by (rule refl)
qed

lemma murmur_16:
  "murmurhash64 d 16 0 = murmur_final
     (((word_of_int 7659067388010076496 XOR murmur_mix (get_word (take 8 d))) * murmur_m
        XOR murmur_mix (get_word (take 8 (drop 8 d)))) * murmur_m)"
proof -
  have "16 * murmur_m = word_of_int 7659067388010076496" by (simp add: murmur_m_def)
  then show ?thesis
    by (simp add: murmurhash64_def murmur_tail_def numeral_eq_Suc [of "num.Bit0 num.One"] Let_def)
qed

end
