(* ===== verification/Ob_Mvcc.thy ===== *)
theory Ob_Mvcc
  imports Ob_Define
begin

text \<open>
  The multi-version memory index: \<^verbatim>\<open>memtable/ob_memtable_key\<close> and
  \<^verbatim>\<open>ob_memtable_data.h\<close> (keys and row images), \<^verbatim>\<open>memtable/mvcc/ob_mvcc_row\<close>
  (doubly linked version chains), \<^verbatim>\<open>ob_mt_hash.h\<close> and \<^verbatim>\<open>ob_query_engine\<close> (the hash and
  btree indexes) and \<^verbatim>\<open>ob_mvcc_engine\<close> (reads and writes).

  Nodes and rows live in an explicit heap, because \<^verbatim>\<open>mvcc_write\<close> relinks
  nodes through their \<^verbatim>\<open>prev_\<close> and \<^verbatim>\<open>next_\<close> pointers.  An address is a \<open>nat\<close>, a
  pointer an \<open>addr option\<close> with \<open>None\<close> the null pointer.  The loops over a version
  chain are \<open>partial_function (option)\<close>: on a cyclic chain they would not return.
  Allocation does not fail (\<^verbatim>\<open>new\<close> throws instead of returning null), and each
  operation is one atomic step, as it runs under the latch of its row.
\<close>

type_synonym addr = nat

section \<open>Memtable keys\<close>

text \<open>\<open>mk_data\<close> is what the unowned \<^verbatim>\<open>key_data_\<close> pointer points to.  Lengths are
  non-negative.\<close>

record ObMemtableKey =
  mk_data :: "bytes option"
  mk_len :: int
  mk_hash :: u64
  mk_rowkey :: "ObStoreRowkey option"

definition mk_init :: ObMemtableKey where
  "mk_init = \<lparr>mk_data = None, mk_len = 0, mk_hash = 0, mk_rowkey = None\<rparr>"

definition mk_murmurhash :: "ObMemtableKey \<Rightarrow> u64 \<Rightarrow> u64" where
  "mk_murmurhash k seed =
     (case mk_data k of
        None \<Rightarrow> seed
      | Some d \<Rightarrow> if mk_len k = 0 then seed else murmurhash64 d (nat (mk_len k)) seed)"

definition mk_make :: "bytes option \<Rightarrow> int \<Rightarrow> ObMemtableKey" where
  "mk_make data len =
     (let k = \<lparr>mk_data = data, mk_len = len, mk_hash = 0, mk_rowkey = None\<rparr>
      in if len > 0 \<and> data \<noteq> None then k\<lparr>mk_hash := mk_murmurhash k 0\<rparr> else k)"

definition mk_encode :: "ObStoreRowkey option \<Rightarrow> ObMemtableKey \<Rightarrow> ret \<times> ObMemtableKey" where
  "mk_encode rowkey k =
     (case rowkey of
        None \<Rightarrow> (-1, k)
      | Some rk \<Rightarrow>
          if \<not> rk_is_valid rk then (-1, k)
          else let k = \<lparr>mk_data = rk_get_data rk, mk_len = rk_length rk, mk_hash = mk_hash k,
                        mk_rowkey = Some rk\<rparr>
               in (0, k\<lparr>mk_hash := mk_murmurhash k 0\<rparr>))"

definition mk_dup :: "ObMemtableKey \<Rightarrow> ret \<times> ObMemtableKey option" where
  "mk_dup k =
     (case mk_data k of
        None \<Rightarrow> (0, None)
      | Some d \<Rightarrow>
          if mk_len k = 0 then (0, None)
          else (0, Some ((mk_make (Some (take (nat (mk_len k)) d)) (mk_len k))\<lparr>mk_hash := mk_hash k\<rparr>)))"

definition mk_bytes :: "ObMemtableKey \<Rightarrow> bytes" where
  "mk_bytes k = (case mk_data k of None \<Rightarrow> [] | Some d \<Rightarrow> d)"

definition mk_compare :: "ObMemtableKey \<Rightarrow> ObMemtableKey \<Rightarrow> int" where
  "mk_compare a b =
     (if mk_len a < mk_len b then -1
      else if mk_len a > mk_len b then 1
      else if mk_len a = 0 then 0
      else memcmp (nat (mk_len a)) (mk_bytes a) (mk_bytes b))"

definition mk_equal :: "ObMemtableKey \<Rightarrow> ObMemtableKey \<Rightarrow> bool" where
  "mk_equal a b =
     (if mk_hash a \<noteq> 0 \<and> mk_hash b \<noteq> 0 \<and> mk_hash a \<noteq> mk_hash b then False
      else if mk_len a \<noteq> mk_len b then False
      else if mk_len a = 0 then True
      else memcmp (nat (mk_len a)) (mk_bytes a) (mk_bytes b) = 0)"

text \<open>\<^verbatim>\<open>ObStoreRowkeyWrapper\<close> is the row-key pointer it wraps.\<close>

definition rkw_compare :: "ObStoreRowkey option \<Rightarrow> ObStoreRowkey option \<Rightarrow> int" where
  "rkw_compare a b =
     (case (a, b) of (Some x, Some y) \<Rightarrow> rk_compare x y | _ \<Rightarrow> -1)"

definition rkw_equal :: "ObStoreRowkey option \<Rightarrow> ObStoreRowkey option \<Rightarrow> bool" where
  "rkw_equal a b =
     (case (a, b) of (Some x, Some y) \<Rightarrow> rk_equal x y | _ \<Rightarrow> False)"

definition rkw_hash :: "ObStoreRowkey option \<Rightarrow> u64" where
  "rkw_hash a = (case a of None \<Rightarrow> 0 | Some x \<Rightarrow> rk_murmurhash x 0)"

definition generate_memtable_key :: "ObStoreRow \<Rightarrow> ObMemtableKey \<Rightarrow> ret \<times> ObMemtableKey" where
  "generate_memtable_key row k =
     (if \<not> rk_is_valid (row_rowkey row) then (-1, k) else mk_encode (Some (row_rowkey row)) k)"

section \<open>Row images\<close>

record ObMemtableDataHeader =
  hd_dml_flag :: ObDmlFlag
  hd_buf_len :: int
  hd_buf :: bytes

definition mdh_build :: "ObMemtableDataHeader \<Rightarrow> ObDmlFlag \<Rightarrow> int \<Rightarrow> bytes option \<Rightarrow> ret \<times> ObMemtableDataHeader" where
  "mdh_build new_data dml_flag buf_len buf =
     (if buf_len < 0 then (-1, new_data)
      else case buf of
        None \<Rightarrow> (0, new_data)
      | Some b \<Rightarrow>
          if buf_len = 0 then (0, new_data)
          else (0, \<lparr>hd_dml_flag = dml_flag, hd_buf_len = buf_len, hd_buf = take (nat buf_len) b\<rparr>))"

record ObMemtableData =
  md_dml_flag :: ObDmlFlag
  md_buf_len :: int
  md_buf :: "bytes option"

definition md_init :: ObMemtableData where
  "md_init = \<lparr>md_dml_flag = DF_MAX, md_buf_len = 0, md_buf = None\<rparr>"

definition md_size :: "ObMemtableData \<Rightarrow> int" where
  "md_size d = 16 + md_buf_len d"

section \<open>Version chains\<close>

definition F_INIT :: byte where "F_INIT = 0x01"
definition F_COMMITTED :: byte where "F_COMMITTED = 0x02"
definition F_ABORTED :: byte where "F_ABORTED = 0x04"

record ObMvccTransNode =
  nd_tx_id :: int
  nd_trans_version :: int
  nd_prev :: "addr option"
  nd_next :: "addr option"
  nd_type :: byte
  nd_flag :: byte
  nd_hdr :: ObMemtableDataHeader

definition node_is_committed :: "ObMvccTransNode \<Rightarrow> bool" where
  "node_is_committed n \<longleftrightarrow> nd_flag n AND F_COMMITTED \<noteq> 0"

definition node_is_aborted :: "ObMvccTransNode \<Rightarrow> bool" where
  "node_is_aborted n \<longleftrightarrow> nd_flag n AND F_ABORTED \<noteq> 0"

definition trans_commit :: "int \<Rightarrow> ObMvccTransNode \<Rightarrow> ObMvccTransNode" where
  "trans_commit commit_version n =
     n\<lparr>nd_trans_version := commit_version,
       nd_flag := (nd_flag n OR F_COMMITTED) AND NOT F_ABORTED\<rparr>"

definition trans_abort :: "ObMvccTransNode \<Rightarrow> ObMvccTransNode" where
  "trans_abort n = n\<lparr>nd_flag := (nd_flag n OR F_ABORTED) AND NOT F_COMMITTED\<rparr>"

definition node_get_data_size :: "ObMvccTransNode \<Rightarrow> int" where
  "node_get_data_size n = 16 + hd_buf_len (nd_hdr n)"

definition F_HASH_INDEX :: byte where "F_HASH_INDEX = 0x01"
definition F_BTREE_INDEX :: byte where "F_BTREE_INDEX = 0x02"

record ObMvccRow =
  mr_flag :: byte
  mr_max_trans_version :: int
  mr_list_head :: "addr option"

definition mr_init :: ObMvccRow where
  "mr_init = \<lparr>mr_flag = 0, mr_max_trans_version = 0, mr_list_head = None\<rparr>"

definition mr_is_empty :: "ObMvccRow \<Rightarrow> bool" where
  "mr_is_empty r \<longleftrightarrow> mr_list_head r = None"

definition is_hash_indexed :: "ObMvccRow \<Rightarrow> bool" where
  "is_hash_indexed r \<longleftrightarrow> mr_flag r AND F_HASH_INDEX \<noteq> 0"

definition set_hash_indexed :: "ObMvccRow \<Rightarrow> ObMvccRow" where
  "set_hash_indexed r = r\<lparr>mr_flag := mr_flag r OR F_HASH_INDEX\<rparr>"

definition is_btree_indexed :: "ObMvccRow \<Rightarrow> bool" where
  "is_btree_indexed r \<longleftrightarrow> mr_flag r AND F_BTREE_INDEX \<noteq> 0"

definition set_btree_indexed :: "ObMvccRow \<Rightarrow> ObMvccRow" where
  "set_btree_indexed r = r\<lparr>mr_flag := mr_flag r OR F_BTREE_INDEX\<rparr>"

definition is_transaction_set_violation :: "ObMvccRow \<Rightarrow> int \<Rightarrow> bool" where
  "is_transaction_set_violation r snapshot_version \<longleftrightarrow>
     (if snapshot_version = OB_INVALID_VERSION then False
      else mr_max_trans_version r > snapshot_version)"

type_synonym nodes = "addr \<rightharpoonup> ObMvccTransNode"

text \<open>The walk of \<^verbatim>\<open>mvcc_write\<close> down the chain: where the new node goes, or a conflict.\<close>

datatype walk_result = Write_conflict | Insert_above "addr option"

partial_function (option) mvcc_walk :: "nodes \<Rightarrow> int \<Rightarrow> addr option \<Rightarrow> walk_result option" where
  [code]: "mvcc_walk nodes tx head =
     (case head of
        None \<Rightarrow> Some (Insert_above None)
      | Some a \<Rightarrow>
          (case nodes a of
             None \<Rightarrow> None
           | Some n \<Rightarrow>
               if node_is_aborted n then mvcc_walk nodes tx (nd_prev n)
               else if node_is_committed n then Some (Insert_above (Some a))
               else if nd_tx_id n = tx then Some (Insert_above (Some a))
               else Some Write_conflict))"

definition upd_node :: "addr \<Rightarrow> (ObMvccTransNode \<Rightarrow> ObMvccTransNode) \<Rightarrow> nodes \<Rightarrow> nodes option" where
  "upd_node a f nodes = (case nodes a of None \<Rightarrow> None | Some n \<Rightarrow> Some (nodes(a \<mapsto> f n)))"

text \<open>The relinking of \<^verbatim>\<open>mvcc_write\<close>, assignment by assignment.\<close>

definition link_node :: "addr \<Rightarrow> addr option \<Rightarrow> nodes \<Rightarrow> nodes option" where
  "link_node a head nodes = do {
     nodes \<leftarrow> upd_node a (\<lambda>n. n\<lparr>nd_next := None\<rparr>) nodes;
     nodes \<leftarrow> upd_node a (\<lambda>n. n\<lparr>nd_prev := head\<rparr>) nodes;
     (case head of
        None \<Rightarrow> Some nodes
      | Some h \<Rightarrow> do {
          hn \<leftarrow> nodes h;
          let old_next_of_head = nd_next hn;
          nodes \<leftarrow> upd_node a (\<lambda>n. n\<lparr>nd_prev := Some h\<rparr>) nodes;
          nodes \<leftarrow> (case old_next_of_head of
                      None \<Rightarrow> Some nodes
                    | Some o1 \<Rightarrow> do {
                        nodes \<leftarrow> upd_node o1 (\<lambda>n. n\<lparr>nd_prev := Some a\<rparr>) nodes;
                        upd_node a (\<lambda>n. n\<lparr>nd_next := Some o1\<rparr>) nodes
                      });
          nodes \<leftarrow> upd_node h (\<lambda>n. n\<lparr>nd_next := Some a\<rparr>) nodes;
          upd_node a (\<lambda>n. n\<lparr>nd_prev := Some h\<rparr>) nodes
        })
   }"

text \<open>The memory of one memtable index: the heap with its allocation counter, and the
  two indexes of \<^verbatim>\<open>ObQueryEngine\<close>.\<close>

record ObMvcc =
  mv_nodes :: nodes
  mv_rows :: "addr \<rightharpoonup> ObMvccRow"
  mv_fresh :: addr
  mv_keyhash :: "u64 \<rightharpoonup> addr"
  mv_btree :: "(u64 \<times> addr) list"

definition mv_init :: ObMvcc where
  "mv_init = \<lparr>mv_nodes = Map.empty, mv_rows = Map.empty, mv_fresh = 0,
     mv_keyhash = Map.empty, mv_btree = []\<rparr>"

definition row_mvcc_write :: "ObStoreCtx \<Rightarrow> addr \<Rightarrow> addr \<Rightarrow> bool \<Rightarrow> ObMvcc \<Rightarrow> (ret \<times> bool \<times> ObMvcc) option" where
  "row_mvcc_write ctx r a check_exist st = do {
     row \<leftarrow> mv_rows st r;
     w \<leftarrow> mvcc_walk (mv_nodes st) (ctx_tx_id ctx) (mr_list_head row);
     (case w of
        Write_conflict \<Rightarrow> Some (-1, True, st)
      | Insert_above head \<Rightarrow>
          if is_transaction_set_violation row (ctx_snapshot_version ctx) then Some (-1, False, st)
          else do {
            nodes \<leftarrow> link_node a head (mv_nodes st);
            let row = row\<lparr>mr_list_head := Some a\<rparr>;
            let row = (if ctx_snapshot_version ctx > mr_max_trans_version row \<and>
                          ctx_snapshot_version ctx \<noteq> OB_INVALID_VERSION
                       then row\<lparr>mr_max_trans_version := ctx_snapshot_version ctx\<rparr> else row);
            Some (0, False, st\<lparr>mv_nodes := nodes, mv_rows := (mv_rows st)(r \<mapsto> row)\<rparr>)
          })
   }"

section \<open>The hash index\<close>

text \<open>\<^verbatim>\<open>ObMtHash\<close> is an \<^verbatim>\<open>unordered_map\<close> from the 64-bit hash of the key to the row.
  The creator of \<^verbatim>\<open>get_or_create\<close> is a callback over some state.\<close>

definition mt_hash_set :: "ObStoreRowkey option \<Rightarrow> addr \<Rightarrow> (u64 \<rightharpoonup> addr) \<Rightarrow> ret \<times> (u64 \<rightharpoonup> addr)" where
  "mt_hash_set key value m =
     (case m (rkw_hash key) of
        Some _ \<Rightarrow> (-1, m)
      | None \<Rightarrow> (0, m(rkw_hash key \<mapsto> value)))"

definition mt_hash_get :: "ObStoreRowkey option \<Rightarrow> (u64 \<rightharpoonup> addr) \<Rightarrow> ret \<times> addr option" where
  "mt_hash_get key m =
     (case m (rkw_hash key) of None \<Rightarrow> (-1, None) | Some v \<Rightarrow> (0, Some v))"

definition mt_hash_get_or_create ::
    "ObStoreRowkey option \<Rightarrow> ('s \<Rightarrow> ret \<times> addr option \<times> 's) \<Rightarrow> (u64 \<rightharpoonup> addr) \<Rightarrow> 's
      \<Rightarrow> ret \<times> addr option \<times> (u64 \<rightharpoonup> addr) \<times> 's" where
  "mt_hash_get_or_create key creator m s =
     (case m (rkw_hash key) of
        Some v \<Rightarrow> (0, Some v, m, s)
      | None \<Rightarrow>
          (case creator s of (ret, value, s') \<Rightarrow>
             (ret, value,
              (case value of
                 Some v \<Rightarrow> if ret = 0 then m(rkw_hash key \<mapsto> v) else m
               | None \<Rightarrow> m), s')))"

definition mt_hash_erase :: "ObStoreRowkey option \<Rightarrow> (u64 \<rightharpoonup> addr) \<Rightarrow> ret \<times> (u64 \<rightharpoonup> addr)" where
  "mt_hash_erase key m = (0, m(rkw_hash key := None))"

section \<open>The query engine\<close>

definition upd_row :: "addr \<Rightarrow> (ObMvccRow \<Rightarrow> ObMvccRow) \<Rightarrow> ObMvcc \<Rightarrow> ObMvcc option" where
  "upd_row r f st =
     (case mv_rows st r of
        None \<Rightarrow> None
      | Some row \<Rightarrow> Some (st\<lparr>mv_rows := (mv_rows st)(r \<mapsto> f row)\<rparr>))"

definition btree_set :: "ObMemtableKey \<Rightarrow> addr \<Rightarrow> ObMvcc \<Rightarrow> ObMvcc" where
  "btree_set key value st = st\<lparr>mv_btree := omap_set (mk_hash key) value (mv_btree st)\<rparr>"

definition qe_set :: "ObMemtableKey option \<Rightarrow> addr option \<Rightarrow> ObMvcc \<Rightarrow> (ret \<times> ObMvcc) option" where
  "qe_set key value st =
     (case (key, value) of
        (Some k, Some v) \<Rightarrow>
          (case mt_hash_set (mk_rowkey k) v (mv_keyhash st) of (ret, kh) \<Rightarrow>
             if ret = -1 then Some (-1, st)
             else do {
               let st = st\<lparr>mv_keyhash := kh\<rparr>;
               let st = btree_set k v st;
               st \<leftarrow> upd_row v set_btree_indexed st;
               st \<leftarrow> upd_row v set_hash_indexed st;
               Some (0, st)
             })
      | _ \<Rightarrow> Some (-1, st))"

definition qe_ensure :: "ObMemtableKey option \<Rightarrow> addr option \<Rightarrow> ObMvcc \<Rightarrow> (ret \<times> ObMvcc) option" where
  "qe_ensure key value st =
     (case (key, value) of
        (Some k, Some v) \<Rightarrow> do {
          row \<leftarrow> mv_rows st v;
          if is_btree_indexed row then Some (0, st)
          else do {
            st \<leftarrow> upd_row v set_btree_indexed (btree_set k v st);
            Some (0, st)
          }
        }
      | _ \<Rightarrow> Some (-1, st))"

definition qe_get :: "ObMemtableKey option \<Rightarrow> addr option \<Rightarrow> ObMvcc \<Rightarrow> ret \<times> addr option" where
  "qe_get parameter_key row st =
     (case parameter_key of
        None \<Rightarrow> (-1, row)
      | Some k \<Rightarrow> mt_hash_get (mk_rowkey k) (mv_keyhash st))"

definition create_btree_kv ::
    "ObMemtableKey option \<Rightarrow> (ObStoreRowkey option \<Rightarrow> addr option \<Rightarrow> ObMvcc \<Rightarrow> ret \<times> addr option \<times> ObMvcc)
      \<Rightarrow> addr option \<Rightarrow> ObMvcc \<Rightarrow> (ret \<times> addr option \<times> ObMvcc) option" where
  "create_btree_kv key row_creator row st =
     (case key of
        None \<Rightarrow> Some (-1, row, st)
      | Some k \<Rightarrow>
          (case omap_find (mv_btree st) (mk_hash k) of
             Some r \<Rightarrow> Some (0, Some r, st)
           | None \<Rightarrow>
               (case row_creator (mk_rowkey k) row st of (ret, row', st') \<Rightarrow>
                  (case row' of
                     Some r \<Rightarrow>
                       if ret = 0 then do {
                         st'' \<leftarrow> upd_row r set_btree_indexed (btree_set k r st');
                         Some (ret, row', st'')
                       } else Some (ret, row', st')
                   | None \<Rightarrow> Some (ret, row', st')))))"

text \<open>The btree iterator: \<open>it_curr\<close> is the suffix of the tree from the current position
  (empty at \<^verbatim>\<open>end()\<close>).  \<^verbatim>\<open>start_exclude_\<close> and \<^verbatim>\<open>reverse_\<close> are stored and never read by \<^verbatim>\<open>next\<close>.\<close>

record btree_iter =
  it_start_hash :: u64
  it_end_hash :: u64
  it_start_exclude :: bool
  it_end_exclude :: bool
  it_reverse :: bool
  it_curr :: "(u64 \<times> addr) list"
  it_is_init :: bool

fun it_skip :: "(addr \<rightharpoonup> ObMvccRow) \<Rightarrow> u64 \<Rightarrow> bool \<Rightarrow> (u64 \<times> addr) list
    \<Rightarrow> (ret \<times> (u64 \<times> addr) list) option" where
  "it_skip rows end_h end_ex [] = Some (-1, [])"
| "it_skip rows end_h end_ex ((k, r) # m) =
     (if k > end_h then Some (-1, [])
      else if end_ex \<and> k = end_h then Some (-1, [])
      else case rows r of
        None \<Rightarrow> None
      | Some row \<Rightarrow> if \<not> mr_is_empty row then Some (0, (k, r) # m) else it_skip rows end_h end_ex m)"

definition it_next :: "ObMvcc \<Rightarrow> btree_iter \<Rightarrow> (ret \<times> btree_iter) option" where
  "it_next st it =
     (let curr = (if \<not> it_is_init it then omap_lower_bound (it_start_hash it) (mv_btree st)
                  else tl (it_curr it));
          it = it\<lparr>it_is_init := True\<rparr>
      in do {
        (ret, curr) \<leftarrow> it_skip (mv_rows st) (it_end_hash it) (it_end_exclude it) curr;
        Some (ret, it\<lparr>it_curr := curr\<rparr>)
      })"

definition it_get_value :: "btree_iter \<Rightarrow> addr option" where
  "it_get_value it = (case it_curr it of [] \<Rightarrow> None | e # _ \<Rightarrow> Some (snd e))"

definition start_hash :: "ObMemtableKey option \<Rightarrow> u64" where
  "start_hash key = (case key of None \<Rightarrow> 0 | Some k \<Rightarrow> mk_hash k)"

definition end_hash :: "ObMemtableKey option \<Rightarrow> u64" where
  "end_hash key = (case key of None \<Rightarrow> - 1 | Some k \<Rightarrow> mk_hash k)"

definition qe_scan :: "ObMemtableKey option \<Rightarrow> bool \<Rightarrow> ObMemtableKey option \<Rightarrow> bool \<Rightarrow> ret \<times> btree_iter" where
  "qe_scan start_key start_exclude end_key end_exclude =
     (0, \<lparr>it_start_hash = start_hash start_key, it_end_hash = end_hash end_key,
          it_start_exclude = start_exclude, it_end_exclude = end_exclude, it_reverse = False,
          it_curr = [], it_is_init = False\<rparr>)"

fun range_collect :: "(addr \<rightharpoonup> ObMvccRow) \<Rightarrow> u64 \<Rightarrow> bool \<Rightarrow> (u64 \<times> addr) list
    \<Rightarrow> (ObMemtableKey \<times> addr) list option" where
  "range_collect rows end_h end_ex [] = Some []"
| "range_collect rows end_h end_ex ((k, r) # m) =
     (if k > end_h then Some []
      else if end_ex \<and> k = end_h then Some []
      else do {
        row \<leftarrow> rows r;
        rest \<leftarrow> range_collect rows end_h end_ex m;
        Some (if \<not> mr_is_empty row then (mk_init, r) # rest else rest)
      })"

definition scan_range :: "ObMemtableKey option \<Rightarrow> bool \<Rightarrow> ObMemtableKey option \<Rightarrow> bool \<Rightarrow> ObMvcc
    \<Rightarrow> (ObMemtableKey \<times> addr) list \<Rightarrow> (ret \<times> (ObMemtableKey \<times> addr) list) option" where
  "scan_range start_key start_exclude end_key end_exclude st results =
     (let start_h = start_hash start_key;
          end_h = end_hash end_key;
          it = omap_lower_bound start_h (mv_btree st);
          it = (if start_exclude \<and> it \<noteq> [] \<and> fst (hd it) = start_h then tl it else it)
      in do {
        found \<leftarrow> range_collect (mv_rows st) end_h end_exclude it;
        Some (0, results @ found)
      })"

section \<open>The MVCC engine\<close>

record ObTxNodeArg =
  arg_tx_id :: int
  arg_data :: "ObMemtableData option"
  arg_column_cnt :: int

record ObMvccWriteResult =
  wr_can_insert :: bool
  wr_need_insert :: bool
  wr_is_mvcc_undo :: bool
  wr_tx_node :: "addr option"
  wr_value :: "addr option"
  wr_mtk :: ObMemtableKey

definition wr_init :: ObMvccWriteResult where
  "wr_init = \<lparr>wr_can_insert = False, wr_need_insert = False, wr_is_mvcc_undo = False,
     wr_tx_node = None, wr_value = None, wr_mtk = mk_init\<rparr>"

definition wr_has_insert :: "ObMvccWriteResult \<Rightarrow> bool" where
  "wr_has_insert res \<longleftrightarrow> wr_can_insert res \<and> wr_need_insert res \<and> \<not> wr_is_mvcc_undo res"

definition wr_reset :: "ObMvccWriteResult \<Rightarrow> ObMvccWriteResult" where
  "wr_reset res = res\<lparr>wr_can_insert := False, wr_need_insert := False, wr_is_mvcc_undo := False,
     wr_tx_node := None, wr_value := None\<rparr>"

definition create_kv :: "ObMemtableKey option \<Rightarrow> addr option \<Rightarrow> ObMvcc \<Rightarrow> (ret \<times> addr option \<times> ObMvcc) option" where
  "create_kv key value st =
     (case qe_get key value st of (ret, value) \<Rightarrow>
        if ret \<noteq> 0 \<or> value = None then do {
          let a = mv_fresh st;
          let st = st\<lparr>mv_rows := (mv_rows st)(a \<mapsto> mr_init), mv_fresh := a + 1\<rparr>;
          (ret, st) \<leftarrow> qe_set key (Some a) st;
          if ret = -1 then
            let st = st\<lparr>mv_rows := (mv_rows st)(a := None)\<rparr>
            in (case qe_get key (Some a) st of (ret, value) \<Rightarrow> Some (ret, value, st))
          else Some (0, Some a, st)
        } else Some (0, value, st))"

definition ensure_kv :: "ObMemtableKey option \<Rightarrow> addr option \<Rightarrow> ObMvcc \<Rightarrow> (ret \<times> ObMvcc) option" where
  "ensure_kv stored_key value st = qe_ensure stored_key value st"

text \<open>The node of a write carries the header and the copied image; a header that announces
  bytes of a null image leaves them uninitialised, here the empty list, and reading them
  has no defined result (\<open>node_row\<close> below).\<close>

definition build_tx_node :: "ObTxNodeArg \<Rightarrow> ObMvcc \<Rightarrow> ret \<times> addr option \<times> ObMvcc" where
  "build_tx_node arg st =
     (case arg_data arg of
        None \<Rightarrow> (-1, None, st)
      | Some d \<Rightarrow>
          let a = mv_fresh st;
              hdr = \<lparr>hd_dml_flag = md_dml_flag d, hd_buf_len = md_buf_len d,
                     hd_buf = (case md_buf d of
                                 Some b \<Rightarrow> if md_buf_len d > 0 then take (nat (md_buf_len d)) b else []
                               | None \<Rightarrow> [])\<rparr>;
              node = \<lparr>nd_tx_id = arg_tx_id arg, nd_trans_version = OB_INVALID_VERSION,
                      nd_prev = None, nd_next = None, nd_type = 0, nd_flag = F_INIT, nd_hdr = hdr\<rparr>;
              node = trans_commit 1 node
          in (0, Some a, st\<lparr>mv_nodes := (mv_nodes st)(a \<mapsto> node), mv_fresh := a + 1\<rparr>))"

definition engine_mvcc_write :: "ObStoreCtx \<Rightarrow> addr \<Rightarrow> ObTxNodeArg \<Rightarrow> bool \<Rightarrow> ObMvccWriteResult \<Rightarrow> ObMvcc
    \<Rightarrow> (ret \<times> ObMvccWriteResult \<times> ObMvcc) option" where
  "engine_mvcc_write ctx value arg check_exist res st =
     (let res = wr_reset res
      in case build_tx_node arg st of
           (ret, None, st) \<Rightarrow> Some (-1, res, st)
         | (ret, Some node, st) \<Rightarrow>
             if ret \<noteq> 0 then Some (-1, res, st)
             else do {
               (ret, write_conflict, st) \<leftarrow> row_mvcc_write ctx value node check_exist st;
               if ret \<noteq> 0 then
                 let st = st\<lparr>mv_nodes := (mv_nodes st)(node := None)\<rparr>
                 in Some (if write_conflict then -1 else ret, res, st)
               else Some (0, res\<lparr>wr_can_insert := True, wr_need_insert := True,
                                 wr_tx_node := Some node, wr_value := Some value\<rparr>, st)
             })"

definition mvcc_undo :: "addr option \<Rightarrow> ObMvcc \<Rightarrow> ObMvcc option" where
  "mvcc_undo value st =
     (case value of
        None \<Rightarrow> Some st
      | Some r \<Rightarrow> do {
          row \<leftarrow> mv_rows st r;
          (case mr_list_head row of
             None \<Rightarrow> Some st
           | Some h \<Rightarrow> do {
               nodes \<leftarrow> upd_node h trans_abort (mv_nodes st);
               hn \<leftarrow> nodes h;
               nodes \<leftarrow> (case nd_prev hn of
                           None \<Rightarrow> Some nodes
                         | Some p \<Rightarrow> upd_node p (\<lambda>n. n\<lparr>nd_next := None\<rparr>) nodes);
               Some (st\<lparr>mv_nodes := nodes(h := None),
                        mv_rows := (mv_rows st)(r \<mapsto> row\<lparr>mr_list_head := nd_prev hn\<rparr>)\<rparr>)
             })
        })"

definition finish_kv :: "ObMvccWriteResult \<Rightarrow> ObMvccWriteResult" where
  "finish_kv res = res\<lparr>wr_can_insert := False\<rparr>"

text \<open>The row a reader builds from a node; reading past the image has no result.\<close>

definition node_row :: "ObMvccTransNode \<Rightarrow> ObStoreRow option" where
  "node_row n =
     (let hdr = nd_hdr n
      in if 0 \<le> hd_buf_len hdr \<and> nat (hd_buf_len hdr) \<le> length (hd_buf hdr)
         then Some (row_init\<lparr>row_dml_flag := hd_dml_flag hdr,
                             row_trans_version := nd_trans_version n,
                             row_trans_id := nd_tx_id n,
                             row_value := take (nat (hd_buf_len hdr)) (hd_buf hdr),
                             row_is_deleted := (hd_dml_flag hdr = DF_DELETE)\<rparr>)
         else None)"

definition snapshot_visible :: "ObStoreCtx \<Rightarrow> ObMvccTransNode \<Rightarrow> bool" where
  "snapshot_visible ctx n \<longleftrightarrow>
     ctx_snapshot_version ctx = OB_INVALID_VERSION \<or> nd_trans_version n \<le> ctx_snapshot_version ctx"

partial_function (option) get_walk :: "nodes \<Rightarrow> ObStoreCtx \<Rightarrow> addr option \<Rightarrow> ObMvccTransNode option option" where
  [code]: "get_walk nodes ctx p =
     (case p of
        None \<Rightarrow> Some None
      | Some a \<Rightarrow>
          (case nodes a of
             None \<Rightarrow> None
           | Some n \<Rightarrow>
               if node_is_committed n then
                 (if snapshot_visible ctx n then Some (Some n) else get_walk nodes ctx (nd_prev n))
               else if node_is_aborted n then get_walk nodes ctx (nd_prev n)
               else if nd_tx_id n = ctx_tx_id ctx then Some (Some n)
               else get_walk nodes ctx (nd_prev n)))"

definition engine_get :: "ObStoreCtx \<Rightarrow> ObMemtableKey option \<Rightarrow> ObMvcc \<Rightarrow> ObStoreRow list
    \<Rightarrow> (ret \<times> ObStoreRow list) option" where
  "engine_get ctx parameter_key st results =
     (case qe_get parameter_key None st of (ret, row) \<Rightarrow>
        (case row of
           None \<Rightarrow> Some (-1, results)
         | Some r \<Rightarrow>
             if ret \<noteq> 0 then Some (-1, results)
             else do {
               rw \<leftarrow> mv_rows st r;
               found \<leftarrow> get_walk (mv_nodes st) ctx (mr_list_head rw);
               (case found of
                  None \<Rightarrow> Some (-1, results)
                | Some n \<Rightarrow> do { srow \<leftarrow> node_row n; Some (0, results @ [srow]) })
             }))"

partial_function (option) scan_walk :: "nodes \<Rightarrow> ObStoreCtx \<Rightarrow> addr option \<Rightarrow> ObMvccTransNode option option" where
  [code]: "scan_walk nodes ctx p =
     (case p of
        None \<Rightarrow> Some None
      | Some a \<Rightarrow>
          (case nodes a of
             None \<Rightarrow> None
           | Some n \<Rightarrow>
               if node_is_committed n \<and> snapshot_visible ctx n then Some (Some n)
               else if node_is_aborted n then scan_walk nodes ctx (nd_prev n)
               else if nd_tx_id n = ctx_tx_id ctx then Some (Some n)
               else scan_walk nodes ctx (nd_prev n)))"

partial_function (option) scan_loop :: "ObStoreCtx \<Rightarrow> ObMvcc \<Rightarrow> btree_iter \<Rightarrow> ObStoreRow list
    \<Rightarrow> ObStoreRow list option" where
  [code]: "scan_loop ctx st it results =
     Option.bind (it_next st it) (\<lambda>(ret, it).
       if ret \<noteq> 0 then Some results
       else case it_get_value it of
         None \<Rightarrow> scan_loop ctx st it results
       | Some r \<Rightarrow>
           Option.bind (mv_rows st r) (\<lambda>rw.
             if mr_is_empty rw then scan_loop ctx st it results
             else Option.bind (scan_walk (mv_nodes st) ctx (mr_list_head rw)) (\<lambda>found.
               case found of
                 None \<Rightarrow> scan_loop ctx st it results
               | Some n \<Rightarrow> Option.bind (node_row n) (\<lambda>srow. scan_loop ctx st it (results @ [srow])))))"

definition engine_scan :: "ObStoreCtx \<Rightarrow> ObMemtableKey option \<Rightarrow> bool \<Rightarrow> ObMemtableKey option \<Rightarrow> bool \<Rightarrow> ObMvcc
    \<Rightarrow> ObStoreRow list \<Rightarrow> (ret \<times> ObStoreRow list) option" where
  "engine_scan ctx start_key start_exclude end_key end_exclude st results =
     (case qe_scan start_key start_exclude end_key end_exclude of (ret, it) \<Rightarrow>
        if ret \<noteq> 0 then Some (ret, results)
        else do { results \<leftarrow> scan_loop ctx st it results; Some (0, results) })"

definition check_row_locked :: "ObMemtableKey option \<Rightarrow> ObMvcc \<Rightarrow> int \<Rightarrow> (ret \<times> bool \<times> int) option" where
  "check_row_locked key st lock_trans_id =
     (case qe_get key None st of (ret, row) \<Rightarrow>
        (case row of
           None \<Rightarrow> Some (0, False, lock_trans_id)
         | Some r \<Rightarrow>
             if ret \<noteq> 0 then Some (0, False, lock_trans_id)
             else do {
               rw \<leftarrow> mv_rows st r;
               (case mr_list_head rw of
                  None \<Rightarrow> Some (0, False, lock_trans_id)
                | Some h \<Rightarrow> do {
                    n \<leftarrow> mv_nodes st h;
                    if \<not> node_is_committed n \<and> \<not> node_is_aborted n then Some (0, True, nd_tx_id n)
                    else Some (0, False, lock_trans_id)
                  })
             }))"

end
