(* ===== verification/Ob_Mvcc_Chain.thy ===== *)
theory Ob_Mvcc_Chain
  imports Ob_Mvcc
begin

text \<open>
  Version chains as lists.  \<open>chain\<close> relates a \<^verbatim>\<open>list_head_\<close> pointer to the
  addresses reached through \<^verbatim>\<open>prev_\<close>, newest first; \<open>linked\<close> says that the \<^verbatim>\<open>next_\<close>
  pointers run back; \<open>newest_ok\<close> constrains the \<^verbatim>\<open>next_\<close> pointer of the newest node, which
  may point to an aborted node that was dropped from the chain.
  \<open>row_mvcc_write_correct\<close> shows that \<^verbatim>\<open>ObMvccRow::mvcc_write\<close> implements
  \<open>spec_row_write\<close>, an operation on the list of versions.
\<close>

section \<open>Chains as lists\<close>

fun chain :: "nodes \<Rightarrow> addr option \<Rightarrow> addr list \<Rightarrow> bool" where
  "chain ns p [] \<longleftrightarrow> p = None"
| "chain ns p (a # as) \<longleftrightarrow>
     p = Some a \<and> (case ns a of None \<Rightarrow> False | Some n \<Rightarrow> chain ns (nd_prev n) as)"

fun linked :: "nodes \<Rightarrow> addr list \<Rightarrow> bool" where
  "linked ns (a # b # as) \<longleftrightarrow>
     (case ns b of None \<Rightarrow> False | Some n \<Rightarrow> nd_next n = Some a) \<and> linked ns (b # as)"
| "linked ns [a] \<longleftrightarrow> True"
| "linked ns [] \<longleftrightarrow> True"

definition newest_ok :: "nodes \<Rightarrow> addr list \<Rightarrow> bool" where
  "newest_ok ns as \<longleftrightarrow>
     (case as of
        [] \<Rightarrow> True
      | a # _ \<Rightarrow>
          (case ns a of
             None \<Rightarrow> False
           | Some n \<Rightarrow> (case nd_next n of None \<Rightarrow> True | Some q \<Rightarrow> q \<notin> set as \<and> ns q \<noteq> None)))"

definition newest_next :: "nodes \<Rightarrow> addr list \<Rightarrow> addr option" where
  "newest_next ns as = (case as of [] \<Rightarrow> None | a # _ \<Rightarrow> nd_next (the (ns a)))"

lemma chain_unique: "chain ns p as \<Longrightarrow> chain ns p bs \<Longrightarrow> as = bs"
proof (induction as arbitrary: p bs)
  case Nil
  then show ?case by (cases bs) auto
next
  case (Cons a as)
  then show ?case by (cases bs) (auto split: option.splits)
qed

lemma chain_suffix: "chain ns p (as @ b # bs) \<Longrightarrow> chain ns (Some b) (b # bs)"
proof (induction as arbitrary: p)
  case (Cons a as)
  then obtain n where "ns a = Some n" "chain ns (nd_prev n) (as @ b # bs)"
    by (auto split: option.splits)
  then show ?case using Cons.IH by blast
qed simp

lemma chain_in_dom: "chain ns p as \<Longrightarrow> a \<in> set as \<Longrightarrow> \<exists>n. ns a = Some n"
  by (induction as arbitrary: p) (auto split: option.splits)

lemma chain_distinct: "chain ns p as \<Longrightarrow> distinct as"
proof (induction as arbitrary: p)
  case (Cons a as)
  then obtain n where n: "ns a = Some n" "chain ns (nd_prev n) as" by (auto split: option.splits)
  have "a \<notin> set as"
  proof
    assume "a \<in> set as"
    then obtain xs ys where as: "as = xs @ a # ys" by (meson split_list)
    then have "chain ns (Some a) (a # ys)" using n(2) chain_suffix by blast
    moreover have "chain ns (Some a) (a # as)" using n by simp
    ultimately have "as = ys" using chain_unique by blast
    then show False using as by simp
  qed
  then show ?case using Cons.IH n(2) by auto
qed simp

lemma chain_cong:
  assumes "\<And>a. a \<in> set as \<Longrightarrow> map_option nd_prev (ns' a) = map_option nd_prev (ns a)"
  shows "chain ns' p as = chain ns p as"
  using assms
proof (induction as arbitrary: p)
  case (Cons a as)
  have "map_option nd_prev (ns' a) = map_option nd_prev (ns a)" using Cons.prems by simp
  then show ?case using Cons.IH Cons.prems by (cases "ns a"; cases "ns' a") auto
qed simp

lemma linked_cong:
  assumes "\<And>a. a \<in> set (tl as) \<Longrightarrow> map_option nd_next (ns' a) = map_option nd_next (ns a)"
  shows "linked ns' as = linked ns as"
  using assms
proof (induction ns as rule: linked.induct)
  case (1 ns a b as)
  have "map_option nd_next (ns' b) = map_option nd_next (ns b)" using 1(2) by simp
  then show ?case using 1 by (cases "ns b"; cases "ns' b") auto
qed auto

lemma linked_append: "linked ns (as @ b # bs) \<Longrightarrow> linked ns (b # bs)"
proof (induction as)
  case (Cons a as)
  then show ?case by (cases as) auto
qed simp

lemma linked_next: "linked ns (as @ a # b # bs) \<Longrightarrow> \<exists>n. ns b = Some n \<and> nd_next n = Some a"
  using linked_append [of ns as a "b # bs"] by (auto split: option.splits)

section \<open>Abstract versions\<close>

definition erase :: "ObMvccTransNode \<Rightarrow> ObMvccTransNode" where
  "erase n = n\<lparr>nd_prev := None, nd_next := None\<rparr>"

definition vers :: "nodes \<Rightarrow> addr list \<Rightarrow> ObMvccTransNode list" where
  "vers ns as = map (\<lambda>a. erase (the (ns a))) as"

lemma erase_simps [simp]:
  "node_is_aborted (erase n) = node_is_aborted n"
  "node_is_committed (erase n) = node_is_committed n"
  "nd_tx_id (erase n) = nd_tx_id n"
  "nd_hdr (erase n) = nd_hdr n"
  "nd_trans_version (erase n) = nd_trans_version n"
  "snapshot_visible ctx (erase n) = snapshot_visible ctx n"
  "node_row (erase n) = node_row n"
  "erase (erase n) = erase n"
  "erase (n\<lparr>nd_prev := p\<rparr>) = erase n"
  "erase (n\<lparr>nd_next := p\<rparr>) = erase n"
  by (auto simp: erase_def node_is_aborted_def node_is_committed_def snapshot_visible_def
      node_row_def Let_def)

lemma vers_Cons [simp]: "vers ns (a # as) = erase (the (ns a)) # vers ns as"
  by (simp add: vers_def)

lemma vers_cong:
  "(\<And>a. a \<in> set as \<Longrightarrow> erase (the (ns' a)) = erase (the (ns a))) \<Longrightarrow> vers ns' as = vers ns as"
  by (simp add: vers_def)

lemma vers_dropWhile:
  "vers ns (dropWhile (\<lambda>a. node_is_aborted (the (ns a))) as) = dropWhile node_is_aborted (vers ns as)"
  by (induction as) (auto simp: vers_def)

definition spec_row_write :: "ObStoreCtx \<Rightarrow> ObMvccTransNode \<Rightarrow> int \<times> ObMvccTransNode list
    \<Rightarrow> ret \<times> bool \<times> int \<times> ObMvccTransNode list" where
  "spec_row_write ctx v rs =
     (case rs of (mx, vs) \<Rightarrow>
        let live = dropWhile node_is_aborted vs;
            snap = ctx_snapshot_version ctx
        in if live \<noteq> [] \<and> \<not> node_is_committed (hd live) \<and> nd_tx_id (hd live) \<noteq> ctx_tx_id ctx
           then (-1, True, mx, vs)
           else if snap \<noteq> OB_INVALID_VERSION \<and> mx > snap then (-1, False, mx, vs)
           else (0, False, if snap = OB_INVALID_VERSION then mx else max mx snap, v # live))"

abbreviation live_addrs :: "nodes \<Rightarrow> addr list \<Rightarrow> addr list" where
  "live_addrs ns as \<equiv> dropWhile (\<lambda>a. node_is_aborted (the (ns a))) as"

lemma mvcc_walk_chain:
  "chain ns p as \<Longrightarrow>
     mvcc_walk ns tx p =
       Some (case live_addrs ns as of
               [] \<Rightarrow> Insert_above None
             | h # _ \<Rightarrow> if node_is_committed (the (ns h)) \<or> nd_tx_id (the (ns h)) = tx
                        then Insert_above (Some h) else Write_conflict)"
proof (induction as arbitrary: p)
  case Nil
  then show ?case by (simp add: mvcc_walk.simps)
next
  case (Cons a as)
  then obtain n where "p = Some a" "ns a = Some n" "chain ns (nd_prev n) as"
    by (auto split: option.splits)
  then show ?case using Cons.IH [of "nd_prev n"] by (subst mvcc_walk.simps) auto
qed

lemma link_node_None:
  "ns a = Some n \<Longrightarrow>
     link_node a None ns = Some (ns(a \<mapsto> n\<lparr>nd_next := None, nd_prev := None\<rparr>))"
  by (simp add: link_node_def upd_node_def)

lemma link_node_Some:
  assumes "ns a = Some n" "ns h = Some hn" "a \<noteq> h" "nd_next hn = None"
  shows "link_node a (Some h) ns =
    Some (ns(a \<mapsto> n\<lparr>nd_prev := Some h, nd_next := None\<rparr>, h \<mapsto> hn\<lparr>nd_next := Some a\<rparr>))"
  using assms by (auto simp: link_node_def upd_node_def fun_upd_def fun_eq_iff)

lemma link_node_Some_next:
  assumes "ns a = Some n" "ns h = Some hn" "ns q = Some qn" "a \<noteq> h" "a \<noteq> q" "h \<noteq> q"
    "nd_next hn = Some q"
  shows "link_node a (Some h) ns =
    Some (ns(a \<mapsto> n\<lparr>nd_prev := Some h, nd_next := Some q\<rparr>, h \<mapsto> hn\<lparr>nd_next := Some a\<rparr>,
             q \<mapsto> qn\<lparr>nd_prev := Some a\<rparr>))"
  using assms by (auto simp: link_node_def upd_node_def fun_upd_def fun_eq_iff)

lemma link_live:
  assumes ch: "chain ns (Some h) (h # t)" and li: "linked ns (h # t)"
    and a: "ns a = Some n" "a \<notin> set (h # t)"
    and nx: "\<And>q. nd_next (the (ns h)) = Some q \<Longrightarrow> q \<notin> set (h # t) \<and> q \<noteq> a \<and> ns q \<noteq> None"
  shows "\<exists>ns'. link_node a (Some h) ns = Some ns' \<and> chain ns' (Some a) (a # h # t) \<and>
    linked ns' (a # h # t) \<and> newest_ok ns' (a # h # t) \<and>
    vers ns' (a # h # t) = erase n # vers ns (h # t) \<and>
    newest_next ns' (a # h # t) = nd_next (the (ns h)) \<and> dom ns' = dom ns \<and>
    (\<forall>b. b \<noteq> a \<and> b \<noteq> h \<and> nd_next (the (ns h)) \<noteq> Some b \<longrightarrow> ns' b = ns b)"
proof -
  obtain hn where hn: "ns h = Some hn" "chain ns (nd_prev hn) t"
    using ch by (auto split: option.splits)
  have d: "h \<notin> set t" using chain_distinct [OF ch] by simp
  define ns1 where "ns1 = ns(a \<mapsto> n\<lparr>nd_prev := Some h, nd_next := nd_next hn\<rparr>, h \<mapsto> hn\<lparr>nd_next := Some a\<rparr>)"
  define ns' where "ns' = (case nd_next hn of None \<Rightarrow> ns1 | Some q \<Rightarrow> ns1(q \<mapsto> (the (ns q))\<lparr>nd_prev := Some a\<rparr>))"
  have link: "link_node a (Some h) ns = Some ns'"
  proof (cases "nd_next hn")
    case None
    then show ?thesis using link_node_Some [of ns a n h hn] a hn
      by (auto simp: ns'_def ns1_def)
  next
    case (Some q)
    then obtain qn where "ns q = Some qn" "q \<notin> set (h # t)" "q \<noteq> a" using nx hn by auto
    then show ?thesis using link_node_Some_next [of ns a n h hn q qn] a hn Some
      by (auto simp: ns'_def ns1_def)
  qed
  have t: "ns' b = ns b" if "b \<in> set t" for b
    using that d a(2) nx hn by (auto simp: ns'_def ns1_def split: option.splits)
  have h': "ns' h = Some (hn\<lparr>nd_next := Some a\<rparr>)"
    using a nx hn by (auto simp: ns'_def ns1_def split: option.splits)
  have a': "ns' a = Some (n\<lparr>nd_prev := Some h, nd_next := nd_next hn\<rparr>)"
    using a nx hn by (auto simp: ns'_def ns1_def split: option.splits)
  have "chain ns' (nd_prev hn) t" using hn(2) t by (subst chain_cong) auto
  then have c: "chain ns' (Some a) (a # h # t)" using a' h' by simp
  have "linked ns' (h # t)" using li t by (subst linked_cong) auto
  then have l: "linked ns' (a # h # t)" using h' by simp
  have o: "newest_ok ns' (a # h # t)"
    using a' nx hn by (auto simp: newest_ok_def ns'_def ns1_def split: option.splits)
  have "vers ns' t = vers ns t" using t by (intro vers_cong) simp
  then have v: "vers ns' (a # h # t) = erase n # vers ns (h # t)" using a' h' hn by simp
  have f: "\<forall>b. b \<noteq> a \<and> b \<noteq> h \<and> nd_next (the (ns h)) \<noteq> Some b \<longrightarrow> ns' b = ns b"
    using hn by (auto simp: ns'_def ns1_def split: option.splits)
  have m: "newest_next ns' (a # h # t) = nd_next (the (ns h))"
    using a' hn by (simp add: newest_next_def)
  have dm: "dom ns' = dom ns"
    using a hn nx by (auto simp: ns'_def ns1_def split: option.splits)
  show ?thesis using link c l o v m dm f by blast
qed

lemma link_empty:
  assumes "ns a = Some n"
  shows "\<exists>ns'. link_node a None ns = Some ns' \<and> chain ns' (Some a) [a] \<and>
    linked ns' [a] \<and> newest_ok ns' [a] \<and> vers ns' [a] = [erase n] \<and>
    newest_next ns' [a] = None \<and> dom ns' = dom ns \<and> (\<forall>b. b \<noteq> a \<longrightarrow> ns' b = ns b)"
  using assms by (auto simp: link_node_None newest_ok_def newest_next_def vers_def)

definition row_rep :: "ObMvcc \<Rightarrow> addr \<Rightarrow> addr list \<Rightarrow> bool" where
  "row_rep st r as \<longleftrightarrow>
     (case mv_rows st r of
        None \<Rightarrow> False
      | Some row \<Rightarrow> chain (mv_nodes st) (mr_list_head row) as \<and> linked (mv_nodes st) as \<and>
                    newest_ok (mv_nodes st) as)"

definition row_state :: "ObMvcc \<Rightarrow> addr \<Rightarrow> addr list \<Rightarrow> int \<times> ObMvccTransNode list" where
  "row_state st r as = (mr_max_trans_version (the (mv_rows st r)), vers (mv_nodes st) as)"

lemma live_next:
  assumes "row_rep st r as" "newest_next (mv_nodes st) as \<noteq> Some a" "a \<notin> set as"
    and "live_addrs (mv_nodes st) as = h # t" "nd_next (the (mv_nodes st h)) = Some q"
  shows "q \<notin> set (h # t) \<and> q \<noteq> a \<and> mv_nodes st q \<noteq> None"
proof -
  let ?ns = "mv_nodes st"
  obtain row where row: "mv_rows st r = Some row" "chain ?ns (mr_list_head row) as" "linked ?ns as"
      "newest_ok ?ns as"
    using assms(1) by (auto simp: row_rep_def split: option.splits)
  define D where "D = takeWhile (\<lambda>a. node_is_aborted (the (?ns a))) as"
  have as: "as = D @ h # t" using assms(4) takeWhile_dropWhile_id unfolding D_def by metis
  then obtain hn where hn: "?ns h = Some hn" using chain_in_dom [OF row(2)] by auto
  show ?thesis
  proof (cases D rule: rev_cases)
    case Nil
    then show ?thesis using row(4) as assms(2,5) hn by (auto simp: newest_ok_def newest_next_def)
  next
    case (snoc D' l)
    then have "linked ?ns (D' @ l # h # t)" using row(3) as by simp
    then have "q = l" using linked_next assms(5) hn by fastforce
    moreover have "l \<notin> set (h # t)" using chain_distinct [OF row(2)] as snoc by auto
    moreover have "?ns l \<noteq> None" using chain_in_dom [OF row(2), of l] as snoc by auto
    ultimately show ?thesis using assms(3) as snoc by auto
  qed
qed


text \<open>What a successful relinking gives, whichever node it was placed above.\<close>

lemma link_live_addrs:
  assumes rep: "row_rep st r as" and a: "mv_nodes st a = Some n" "a \<notin> set as"
    and un: "newest_next (mv_nodes st) as \<noteq> Some a"
    and L: "L = live_addrs (mv_nodes st) as"
  shows "\<exists>ns'. link_node a (case L of [] \<Rightarrow> None | h # _ \<Rightarrow> Some h) (mv_nodes st) = Some ns' \<and>
    chain ns' (Some a) (a # L) \<and> linked ns' (a # L) \<and> newest_ok ns' (a # L) \<and>
    vers ns' (a # L) = erase n # vers (mv_nodes st) L \<and>
    newest_next ns' (a # L) = newest_next (mv_nodes st) L \<and> dom ns' = dom (mv_nodes st) \<and>
    (\<forall>b. b \<noteq> a \<and> b \<notin> set as \<and> newest_next (mv_nodes st) as \<noteq> Some b
       \<longrightarrow> ns' b = mv_nodes st b)"
proof (cases L)
  case Nil
  then show ?thesis using link_empty [of "mv_nodes st" a n] a(1) by (auto simp: vers_def newest_next_def)
next
  case (Cons h t)
  let ?ns = "mv_nodes st"
  obtain row where row: "mv_rows st r = Some row" "chain ?ns (mr_list_head row) as" "linked ?ns as"
    using rep by (auto simp: row_rep_def split: option.splits)
  define D where "D = takeWhile (\<lambda>a. node_is_aborted (the (?ns a))) as"
  have as: "as = D @ h # t" using Cons L takeWhile_dropWhile_id unfolding D_def by metis
  have c: "chain ?ns (Some h) (h # t)" using chain_suffix row(2) as by blast
  have l: "linked ?ns (h # t)" using linked_append row(3) as by blast
  have nx: "q \<notin> set (h # t) \<and> q \<noteq> a \<and> ?ns q \<noteq> None" if "nd_next (the (?ns h)) = Some q" for q
    using live_next [OF rep un a(2) L [symmetric, unfolded Cons] that] .
  have fr: "nd_next (the (?ns h)) \<noteq> Some b"
    if "b \<notin> set as" "newest_next ?ns as \<noteq> Some b" for b
  proof (cases D rule: rev_cases)
    case Nil
    then show ?thesis using that as by (simp add: newest_next_def)
  next
    case (snoc D' l)
    then show ?thesis using linked_next [of ?ns D' l h t] row(3) as that(1) by auto
  qed
  show ?thesis
  proof -
    have "a \<notin> set (h # t)" using a(2) as by simp
    from link_live [OF c l a(1) this nx] obtain ns' where ns': "link_node a (Some h) ?ns = Some ns'"
      "chain ns' (Some a) (a # h # t)" "linked ns' (a # h # t)" "newest_ok ns' (a # h # t)"
      "vers ns' (a # h # t) = erase n # vers ?ns (h # t)"
      "newest_next ns' (a # h # t) = nd_next (the (?ns h))" "dom ns' = dom ?ns"
      "\<And>b. b \<noteq> a \<and> b \<noteq> h \<and> nd_next (the (?ns h)) \<noteq> Some b \<Longrightarrow> ns' b = ?ns b"
      by blast
    have "ns' b = ?ns b" if "b \<noteq> a" "b \<notin> set as" "newest_next ?ns as \<noteq> Some b" for b
      using ns'(8) [of b] that fr [of b] as by simp
    then show ?thesis using ns'(1-7) Cons by (intro exI [of _ ns']) (simp add: newest_next_def)
  qed
qed

lemma row_mvcc_write_correct:
  assumes rep: "row_rep st r as" and a: "mv_nodes st a = Some n" "a \<notin> set as"
    and un: "newest_next (mv_nodes st) as \<noteq> Some a"
  obtains rc cf st' as' where
    "row_mvcc_write ctx r a ce st = Some (rc, cf, st')" "row_rep st' r as'"
    "(rc, cf, row_state st' r as') = spec_row_write ctx (erase n) (row_state st r as)"
    "rc \<noteq> 0 \<longrightarrow> st' = st"
    "rc = 0 \<longrightarrow> as' = a # live_addrs (mv_nodes st) as"
    "rc = 0 \<longrightarrow> newest_next (mv_nodes st') as' = newest_next (mv_nodes st) (live_addrs (mv_nodes st) as)"
    "dom (mv_nodes st') = dom (mv_nodes st)"
    "map_option mr_flag (mv_rows st' r) = map_option mr_flag (mv_rows st r)"
    "\<forall>r'. r' \<noteq> r \<longrightarrow> mv_rows st' r' = mv_rows st r'"
    "mv_keyhash st' = mv_keyhash st" "mv_btree st' = mv_btree st" "mv_fresh st' = mv_fresh st"
    "\<forall>b. b \<noteq> a \<and> b \<notin> set as \<and> newest_next (mv_nodes st) as \<noteq> Some b
       \<longrightarrow> mv_nodes st' b = mv_nodes st b"
proof -
  let ?ns = "mv_nodes st" and ?snap = "ctx_snapshot_version ctx"
  define L where "L = live_addrs ?ns as"
  obtain row where row: "mv_rows st r = Some row" "chain ?ns (mr_list_head row) as"
    using rep by (auto simp: row_rep_def split: option.splits)
  have vL: "dropWhile node_is_aborted (vers ?ns as) = vers ?ns L"
    by (simp add: vers_dropWhile L_def)
  define conf where "conf \<longleftrightarrow> L \<noteq> [] \<and> \<not> node_is_committed (the (?ns (hd L))) \<and> nd_tx_id (the (?ns (hd L))) \<noteq> ctx_tx_id ctx"
  have walk: "mvcc_walk ?ns (ctx_tx_id ctx) (mr_list_head row) =
      Some (if conf then Write_conflict else Insert_above (case L of [] \<Rightarrow> None | h # _ \<Rightarrow> Some h))"
    unfolding mvcc_walk_chain [OF row(2)] L_def [symmetric]
    by (cases L) (auto simp: conf_def)
  have conf': "conf \<longleftrightarrow> vers ?ns L \<noteq> [] \<and> \<not> node_is_committed (hd (vers ?ns L)) \<and> nd_tx_id (hd (vers ?ns L)) \<noteq> ctx_tx_id ctx"
    by (cases L) (auto simp: conf_def vers_def)
  have tsv: "is_transaction_set_violation row ?snap \<longleftrightarrow> ?snap \<noteq> OB_INVALID_VERSION \<and> mr_max_trans_version row > ?snap"
    by (simp add: is_transaction_set_violation_def)
  have spec: "spec_row_write ctx (erase n) (row_state st r as) =
      (if conf then (-1, True, row_state st r as)
       else if is_transaction_set_violation row ?snap then (-1, False, row_state st r as)
       else (0, False, if ?snap = OB_INVALID_VERSION then mr_max_trans_version row
                       else max (mr_max_trans_version row) ?snap, erase n # vers ?ns L))"
    unfolding spec_row_write_def row_state_def prod.case Let_def vL conf' tsv row(1) option.sel ..
  consider "conf" | "\<not> conf" "is_transaction_set_violation row ?snap"
    | "\<not> conf" "\<not> is_transaction_set_violation row ?snap" by blast
  then show ?thesis
  proof cases
    case 1
    then show ?thesis using that [of "-1" True st as] rep row walk spec
      by (auto simp: row_mvcc_write_def)
  next
    case 2
    then show ?thesis using that [of "-1" False st as] rep row walk spec
      by (auto simp: row_mvcc_write_def)
  next
    case 3
    obtain ns' where ns': "link_node a (case L of [] \<Rightarrow> None | h # _ \<Rightarrow> Some h) ?ns = Some ns'"
      "chain ns' (Some a) (a # L)" "linked ns' (a # L)" "newest_ok ns' (a # L)"
      "vers ns' (a # L) = erase n # vers ?ns L"
      "newest_next ns' (a # L) = newest_next ?ns L" "dom ns' = dom ?ns"
      "\<And>b. b \<noteq> a \<and> b \<notin> set as \<and> newest_next ?ns as \<noteq> Some b \<Longrightarrow> ns' b = ?ns b"
      using link_live_addrs [OF rep a un L_def] by blast
    define row' where "row' = row\<lparr>mr_list_head := Some a,
      mr_max_trans_version := (if ?snap = OB_INVALID_VERSION then mr_max_trans_version row
        else max (mr_max_trans_version row) ?snap)\<rparr>"
    let ?st = "st\<lparr>mv_nodes := ns', mv_rows := (mv_rows st)(r \<mapsto> row')\<rparr>"
    have w: "row_mvcc_write ctx r a ce st = Some (0, False, ?st)"
      using 3 row walk ns'(1) by (auto simp: row_mvcc_write_def row'_def Let_def max_def)
    have r': "row_rep ?st r (a # L)" using ns' by (simp add: row_rep_def row'_def)
    have s: "(0, False, row_state ?st r (a # L)) = spec_row_write ctx (erase n) (row_state st r as)"
      unfolding spec using 3 ns'(5) by (simp add: row_state_def row'_def)
    show ?thesis
      by (rule that [OF w r' s]) (use ns'(6-8) row(1) in \<open>auto simp: L_def row'_def\<close>)
  qed
qed
end
