(* ===== verification/Ob_Mvcc_Engine.thy ===== *)
theory Ob_Mvcc_Engine
  imports Ob_Mvcc_Chain
begin

text \<open>
  The MVCC engine against an abstract store.  \<open>mvcc_abs\<close> maps a 64-bit hash to the row
  state of its key: the largest write snapshot and the list of versions, newest first.
  \<open>mvcc_wf\<close> is the invariant of the heap and of the two indexes; the
  \<open>..._correct\<close> lemmas give every operation of \<^verbatim>\<open>ObMvccEngine\<close> as an operation on the
  abstract store and show that it keeps the invariant.
\<close>

section \<open>Abstraction and invariant\<close>

partial_function (option) chain_list :: "nodes \<Rightarrow> addr option \<Rightarrow> addr list option" where
  [code]: "chain_list ns p =
     (case p of
        None \<Rightarrow> Some []
      | Some a \<Rightarrow>
          (case ns a of
             None \<Rightarrow> None
           | Some n \<Rightarrow> Option.bind (chain_list ns (nd_prev n)) (\<lambda>as. Some (a # as))))"

lemma chain_list_chain: "chain ns p as \<Longrightarrow> chain_list ns p = Some as"
proof (induction as arbitrary: p)
  case Nil
  then show ?case by (simp add: chain_list.simps)
next
  case (Cons a as)
  then show ?case by (subst chain_list.simps) (auto split: option.splits)
qed

definition row_chain :: "ObMvcc \<Rightarrow> addr \<Rightarrow> addr list" where
  "row_chain st r =
     (case mv_rows st r of
        None \<Rightarrow> []
      | Some row \<Rightarrow> (case chain_list (mv_nodes st) (mr_list_head row) of None \<Rightarrow> [] | Some as \<Rightarrow> as))"

definition mvcc_abs :: "ObMvcc \<Rightarrow> u64 \<Rightarrow> (int \<times> ObMvccTransNode list) option" where
  "mvcc_abs st h =
     (case mv_keyhash st h of None \<Rightarrow> None | Some r \<Rightarrow> Some (row_state st r (row_chain st r)))"

definition node_ok :: "ObMvccTransNode \<Rightarrow> bool" where
  "node_ok n \<longleftrightarrow> node_is_committed n \<and> \<not> node_is_aborted n \<and> nd_trans_version n = 1 \<and> node_row n \<noteq> None"

definition row_ok :: "ObMvcc \<Rightarrow> addr \<Rightarrow> bool" where
  "row_ok st r \<longleftrightarrow>
     row_rep st r (row_chain st r) \<and> newest_next (mv_nodes st) (row_chain st r) = None \<and>
     (\<forall>v \<in> set (vers (mv_nodes st) (row_chain st r)). node_ok v) \<and>
     is_btree_indexed (the (mv_rows st r))"

definition mvcc_wf :: "ObMvcc \<Rightarrow> bool" where
  "mvcc_wf st \<longleftrightarrow>
     (\<forall>a \<in> dom (mv_nodes st). a < mv_fresh st) \<and> (\<forall>r \<in> dom (mv_rows st). r < mv_fresh st) \<and>
     ran (mv_keyhash st) = dom (mv_rows st) \<and> inj_on (mv_keyhash st) (dom (mv_keyhash st)) \<and>
     omap_wf (mv_btree st) \<and> (\<forall>h. omap_find (mv_btree st) h = mv_keyhash st h) \<and>
     (\<forall>r \<in> dom (mv_rows st). row_ok st r) \<and>
     (\<forall>r \<in> dom (mv_rows st). \<forall>r' \<in> dom (mv_rows st). r \<noteq> r' \<longrightarrow>
        set (row_chain st r) \<inter> set (row_chain st r') = {})"

lemma mvcc_wf_fresh:
  assumes "mvcc_wf st"
  shows "mv_rows st (mv_fresh st) = None" "mv_nodes st (mv_fresh st) = None"
proof -
  have "mv_fresh st \<notin> dom (mv_rows st)" "mv_fresh st \<notin> dom (mv_nodes st)"
    using assms unfolding mvcc_wf_def by blast+
  then show "mv_rows st (mv_fresh st) = None" "mv_nodes st (mv_fresh st) = None" by auto
qed

lemma mvcc_wf_rowD:
  assumes "mvcc_wf st" "mv_keyhash st h = Some r"
  shows "r \<in> dom (mv_rows st)" "row_ok st r" "omap_find (mv_btree st) h = Some r"
proof -
  show r: "r \<in> dom (mv_rows st)" using assms unfolding mvcc_wf_def ran_def by blast
  show "row_ok st r" "omap_find (mv_btree st) h = Some r" using assms r by (auto simp: mvcc_wf_def)
qed

lemma inj_on_map_upd:
  assumes "inj_on m (dom m)" "v \<notin> ran m"
  shows "inj_on (m(k \<mapsto> v)) (dom (m(k \<mapsto> v)))"
proof (rule inj_onI)
  fix x y
  assume xy: "x \<in> dom (m(k \<mapsto> v))" "y \<in> dom (m(k \<mapsto> v))" "(m(k \<mapsto> v)) x = (m(k \<mapsto> v)) y"
  have "m z \<noteq> Some v" for z using assms(2) by (auto simp: ran_def)
  then show "x = y" using xy inj_onD [OF assms(1), of x y] by (auto split: if_splits)
qed

lemma row_rep_chain: "row_rep st r as \<Longrightarrow> row_chain st r = as"
  by (auto simp: row_rep_def row_chain_def chain_list_chain split: option.splits)

lemma row_rep_dom: "row_rep st r as \<Longrightarrow> set as \<subseteq> dom (mv_nodes st)"
  using chain_in_dom by (fastforce simp: row_rep_def split: option.splits)

text \<open>A row does not notice changes outside its chain.\<close>

lemma row_frame:
  assumes "row_rep st r as" "newest_next (mv_nodes st) as = None"
    and "mv_rows st' r = mv_rows st r" "\<And>a. a \<in> set as \<Longrightarrow> mv_nodes st' a = mv_nodes st a"
  shows "row_rep st' r as" "newest_next (mv_nodes st') as = None" "row_chain st' r = as"
    "row_state st' r as = row_state st r as"
proof -
  obtain row where row: "mv_rows st r = Some row" "chain (mv_nodes st) (mr_list_head row) as"
    "linked (mv_nodes st) as" "newest_ok (mv_nodes st) as"
    using assms(1) by (auto simp: row_rep_def split: option.splits)
  have "chain (mv_nodes st') (mr_list_head row) as" using row(2) assms(4) by (subst chain_cong) auto
  moreover have "linked (mv_nodes st') as"
    using row(3) assms(4) by (subst linked_cong) (cases as; auto)+
  moreover show nn: "newest_next (mv_nodes st') as = None"
    using assms(2,4) by (auto simp: newest_next_def split: list.splits)
  moreover have "newest_ok (mv_nodes st') as"
    using row(4) assms(2,4) by (auto simp: newest_ok_def newest_next_def split: list.splits option.splits)
  ultimately show rep: "row_rep st' r as" using row(1) assms(3) by (simp add: row_rep_def)
  show "row_chain st' r = as" using row_rep_chain [OF rep] .
  show "row_state st' r as = row_state st r as"
    using assms(3,4) by (auto simp: row_state_def intro: vers_cong)
qed

lemma row_ok_frame:
  assumes "row_ok st r" "mv_rows st' r = mv_rows st r"
    and "\<And>a. a \<in> set (row_chain st r) \<Longrightarrow> mv_nodes st' a = mv_nodes st a"
  shows "row_ok st' r" "row_chain st' r = row_chain st r"
    "row_state st' r (row_chain st' r) = row_state st r (row_chain st r)"
proof -
  have r: "row_rep st r (row_chain st r)" "newest_next (mv_nodes st) (row_chain st r) = None"
    using assms(1) by (auto simp: row_ok_def)
  note f = row_frame [OF r assms(2,3)]
  show "row_ok st' r" "row_chain st' r = row_chain st r"
    "row_state st' r (row_chain st' r) = row_state st r (row_chain st r)"
    using f assms by (auto simp: row_ok_def row_state_def)
qed

lemma mvcc_wf_init: "mvcc_wf mv_init"
  by (simp add: mvcc_wf_def mv_init_def omap_wf_def)

lemma set_btree_indexed_ok: "is_btree_indexed (set_hash_indexed (set_btree_indexed mr_init))"
  by (simp add: is_btree_indexed_def set_hash_indexed_def set_btree_indexed_def mr_init_def
      F_HASH_INDEX_def F_BTREE_INDEX_def)

text \<open>A key as \<^verbatim>\<open>generate_memtable_key\<close> builds it: the cached hash is the hash of the row key.\<close>

definition key_ok :: "ObMemtableKey \<Rightarrow> bool" where
  "key_ok k \<longleftrightarrow> mk_hash k = rkw_hash (mk_rowkey k)"

lemma create_kv_old:
  assumes "mv_keyhash st (rkw_hash (mk_rowkey k)) = Some r"
  shows "create_kv (Some k) v st = Some (0, Some r, st)"
  using assms by (simp add: create_kv_def qe_get_def mt_hash_get_def)

definition st_new_row :: "u64 \<Rightarrow> ObMvcc \<Rightarrow> ObMvcc" where
  "st_new_row h st = st\<lparr>mv_rows := (mv_rows st)(mv_fresh st \<mapsto> set_hash_indexed (set_btree_indexed mr_init)),
     mv_fresh := mv_fresh st + 1, mv_keyhash := (mv_keyhash st)(h \<mapsto> mv_fresh st),
     mv_btree := omap_set h (mv_fresh st) (mv_btree st)\<rparr>"

lemma create_kv_new:
  assumes "mv_keyhash st (mk_hash k) = None" "key_ok k"
  shows "create_kv (Some k) v st = Some (0, Some (mv_fresh st), st_new_row (mk_hash k) st)"
  using assms
  by (simp add: create_kv_def qe_get_def mt_hash_get_def qe_set_def mt_hash_set_def key_ok_def
      upd_row_def btree_set_def st_new_row_def Let_def)

lemma mvcc_wf_new_row:
  assumes wf: "mvcc_wf st" and h: "mv_keyhash st h = None"
  shows "mvcc_wf (st_new_row h st)" "mvcc_abs (st_new_row h st) = (mvcc_abs st)(h \<mapsto> (0, []))"
proof -
  let ?st = "st_new_row h st" and ?a = "mv_fresh st"
  have fresh: "mv_rows st ?a = None" using mvcc_wf_fresh [OF wf] by simp
  have rows: "mv_rows ?st r = mv_rows st r" if "r \<noteq> ?a" for r using that by (simp add: st_new_row_def)
  have nodes: "mv_nodes ?st = mv_nodes st" by (simp add: st_new_row_def)
  have old: "row_ok ?st r" "row_chain ?st r = row_chain st r"
      "row_state ?st r (row_chain ?st r) = row_state st r (row_chain st r)"
    if "r \<in> dom (mv_rows st)" for r
  proof -
    have "row_ok st r" "r \<noteq> ?a" using wf that fresh by (auto simp: mvcc_wf_def)
    note row_ok_frame [OF this(1) rows [OF this(2)]]
    then show "row_ok ?st r" "row_chain ?st r = row_chain st r"
      "row_state ?st r (row_chain ?st r) = row_state st r (row_chain st r)" using nodes by auto
  qed
  have new: "row_rep ?st ?a []"
    by (simp add: row_rep_def st_new_row_def set_hash_indexed_def set_btree_indexed_def mr_init_def newest_ok_def)
  have newc: "row_chain ?st ?a = []" using row_rep_chain [OF new] .
  have new_ok: "row_ok ?st ?a"
    using new newc set_btree_indexed_ok by (simp add: row_ok_def newest_next_def vers_def st_new_row_def)
  have dom: "dom (mv_rows ?st) = insert ?a (dom (mv_rows st))" by (auto simp: st_new_row_def)
  have na: "?a \<notin> ran (mv_keyhash st)" using wf fresh by (auto simp: mvcc_wf_def)
  show "mvcc_wf ?st"
    unfolding mvcc_wf_def
  proof (intro conjI)
    show "\<forall>a\<in>dom (mv_nodes ?st). a < mv_fresh ?st" "\<forall>r\<in>dom (mv_rows ?st). r < mv_fresh ?st"
      using wf by (auto simp: mvcc_wf_def st_new_row_def less_Suc_eq)
    show "ran (mv_keyhash ?st) = dom (mv_rows ?st)"
      using wf h dom by (simp add: mvcc_wf_def st_new_row_def)
    show "inj_on (mv_keyhash ?st) (dom (mv_keyhash ?st))"
      using wf inj_on_map_upd [OF _ na, of h] by (simp add: mvcc_wf_def st_new_row_def)
    show "omap_wf (mv_btree ?st)" "\<forall>g. omap_find (mv_btree ?st) g = mv_keyhash ?st g"
      using wf by (auto simp: mvcc_wf_def st_new_row_def)
    show "\<forall>r\<in>dom (mv_rows ?st). row_ok ?st r" using old new_ok dom by auto
    show "\<forall>r\<in>dom (mv_rows ?st). \<forall>r'\<in>dom (mv_rows ?st). r \<noteq> r' \<longrightarrow>
        set (row_chain ?st r) \<inter> set (row_chain ?st r') = {}"
      using wf old(2) newc dom by (auto simp: mvcc_wf_def)
  qed
  show "mvcc_abs ?st = (mvcc_abs st)(h \<mapsto> (0, []))"
  proof
    fix g
    have "mv_keyhash st g = Some r \<Longrightarrow> r \<in> dom (mv_rows st)" for r
      using mvcc_wf_rowD [OF wf] by blast
    moreover have "mv_keyhash ?st = (mv_keyhash st)(h \<mapsto> ?a)" by (simp add: st_new_row_def)
    moreover have "row_state ?st ?a (row_chain ?st ?a) = (0, [])"
      unfolding newc by (simp add: row_state_def vers_def st_new_row_def set_hash_indexed_def
          set_btree_indexed_def mr_init_def)
    ultimately show "mvcc_abs ?st g = ((mvcc_abs st)(h \<mapsto> (0, []))) g"
      using old(3) by (cases "mv_keyhash st g") (auto simp: mvcc_abs_def)
  qed
qed

text \<open>An operation that touches the chain of one row, and at most one fresh node, keeps
  the index well formed and changes the abstract state at that row only.\<close>

lemma mvcc_update_row:
  assumes wf: "mvcc_wf st" and h: "mv_keyhash st h = Some r"
    and same: "mv_keyhash st' = mv_keyhash st" "mv_btree st' = mv_btree st"
    and fr: "mv_fresh st \<le> mv_fresh st'" "\<forall>a \<in> dom (mv_nodes st'). a < mv_fresh st'"
    and dom: "dom (mv_rows st') = dom (mv_rows st)"
    and ok: "row_ok st' r" "set (row_chain st' r) \<subseteq> insert a (set (row_chain st r))" "a \<notin> dom (mv_nodes st)"
    and rows: "\<And>r'. r' \<noteq> r \<Longrightarrow> mv_rows st' r' = mv_rows st r'"
    and nodes: "\<And>b. b \<in> dom (mv_nodes st) \<Longrightarrow> b \<notin> set (row_chain st r) \<Longrightarrow> mv_nodes st' b = mv_nodes st b"
  shows "mvcc_wf st'" "mvcc_abs st' = (mvcc_abs st)(h \<mapsto> row_state st' r (row_chain st' r))"
proof -
  have rd: "r \<in> dom (mv_rows st)" using mvcc_wf_rowD [OF wf h] by simp
  have cd: "set (row_chain st q) \<subseteq> dom (mv_nodes st)" if "q \<in> dom (mv_rows st)" for q
    using that wf row_rep_dom [of st q "row_chain st q"] by (simp add: mvcc_wf_def row_ok_def)
  have other: "row_ok st' q" "row_chain st' q = row_chain st q"
      "row_state st' q (row_chain st' q) = row_state st q (row_chain st q)"
    if "q \<in> dom (mv_rows st)" "q \<noteq> r" for q
  proof -
    have "set (row_chain st q) \<inter> set (row_chain st r) = {}" "row_ok st q"
      using wf that rd unfolding mvcc_wf_def by blast+
    then show "row_ok st' q" "row_chain st' q = row_chain st q"
      "row_state st' q (row_chain st' q) = row_state st q (row_chain st q)"
      using row_ok_frame [of st q st'] rows [OF that(2)] nodes cd [OF that(1)] by blast+
  qed
  have disj: "set (row_chain st' q) \<inter> set (row_chain st' r) = {}" if "q \<in> dom (mv_rows st)" "q \<noteq> r" for q
  proof -
    have "set (row_chain st q) \<inter> set (row_chain st r) = {}"
      using wf that rd unfolding mvcc_wf_def by blast
    then show ?thesis using other(2) [OF that] ok(2,3) cd [OF that(1)] by auto
  qed
  show "mvcc_wf st'"
    unfolding mvcc_wf_def
  proof (intro conjI)
    show "\<forall>q\<in>dom (mv_rows st'). q < mv_fresh st'"
      using wf fr(1) unfolding mvcc_wf_def dom by (meson order.strict_trans2)
    show "\<forall>q\<in>dom (mv_rows st'). row_ok st' q" using other(1) ok(1) dom by metis
    show "\<forall>q\<in>dom (mv_rows st'). \<forall>q'\<in>dom (mv_rows st'). q \<noteq> q' \<longrightarrow>
        set (row_chain st' q) \<inter> set (row_chain st' q') = {}"
    proof (intro ballI impI)
      fix q q'
      assume q: "q \<in> dom (mv_rows st')" "q' \<in> dom (mv_rows st')" "q \<noteq> q'"
      show "set (row_chain st' q) \<inter> set (row_chain st' q') = {}"
      proof (cases "q = r \<or> q' = r")
        case True
        then show ?thesis using disj [of q] disj [of q'] q dom by auto
      next
        case False
        then show ?thesis using wf q dom other(2) unfolding mvcc_wf_def by simp
      qed
    qed
  qed (use wf fr(2) same dom in \<open>simp_all add: mvcc_wf_def\<close>)
  show "mvcc_abs st' = (mvcc_abs st)(h \<mapsto> row_state st' r (row_chain st' r))"
  proof
    fix g
    show "mvcc_abs st' g = ((mvcc_abs st)(h \<mapsto> row_state st' r (row_chain st' r))) g"
    proof (cases "mv_keyhash st g")
      case None
      then show ?thesis using h same by (auto simp: mvcc_abs_def)
    next
      case (Some q)
      then have "q \<in> dom (mv_rows st)" using mvcc_wf_rowD [OF wf] by blast
      moreover have "g = h" if "q = r"
        using wf Some h that inj_onD [of "mv_keyhash st" "dom (mv_keyhash st)" g h]
        by (auto simp: mvcc_wf_def)
      ultimately show ?thesis using Some h same other(3) by (auto simp: mvcc_abs_def)
    qed
  qed
qed

lemma create_kv_correct:
  assumes wf: "mvcc_wf st" and k: "key_ok k"
  obtains r st' where "create_kv (Some k) v st = Some (0, Some r, st')" "mvcc_wf st'"
    "mv_keyhash st' (mk_hash k) = Some r"
    "mvcc_abs st' = (mvcc_abs st)(mk_hash k \<mapsto> (case mvcc_abs st (mk_hash k) of None \<Rightarrow> (0, []) | Some s \<Rightarrow> s))"
proof (cases "mv_keyhash st (mk_hash k)")
  case None
  then show ?thesis
    using that [OF create_kv_new [OF None k]] mvcc_wf_new_row [OF wf None]
    by (simp add: st_new_row_def mvcc_abs_def)
next
  case (Some r)
  then have "create_kv (Some k) v st = Some (0, Some r, st)"
    using k create_kv_old by (simp add: key_ok_def)
  moreover have "mvcc_abs st (mk_hash k) = Some (row_state st r (row_chain st r))"
    using Some by (simp add: mvcc_abs_def)
  ultimately show ?thesis using that wf Some by (simp add: fun_upd_idem)
qed

section \<open>Writes\<close>

definition data_ok :: "ObMemtableData \<Rightarrow> bool" where
  "data_ok d \<longleftrightarrow> 0 \<le> md_buf_len d \<and>
     (md_buf_len d > 0 \<longrightarrow> (case md_buf d of None \<Rightarrow> False | Some b \<Rightarrow> nat (md_buf_len d) \<le> length b))"

definition data_image :: "ObMemtableData \<Rightarrow> bytes" where
  "data_image d = (case md_buf d of None \<Rightarrow> [] | Some b \<Rightarrow> take (nat (md_buf_len d)) b)"

definition new_version :: "int \<Rightarrow> ObMemtableData \<Rightarrow> ObMvccTransNode" where
  "new_version tx d =
     \<lparr>nd_tx_id = tx, nd_trans_version = 1, nd_prev = None, nd_next = None, nd_type = 0, nd_flag = 3,
      nd_hdr = \<lparr>hd_dml_flag = md_dml_flag d, hd_buf_len = md_buf_len d, hd_buf = data_image d\<rparr>\<rparr>"

definition version_row :: "int \<Rightarrow> ObMemtableData \<Rightarrow> ObStoreRow" where
  "version_row tx d = row_init\<lparr>row_dml_flag := md_dml_flag d, row_trans_version := 1,
     row_trans_id := tx, row_value := data_image d, row_is_deleted := (md_dml_flag d = DF_DELETE)\<rparr>"

lemma erase_new_version [simp]: "erase (new_version tx d) = new_version tx d"
  by (simp add: erase_def new_version_def)

lemma node_row_new_version: "data_ok d \<Longrightarrow> node_row (new_version tx d) = Some (version_row tx d)"
  by (auto simp: node_row_def new_version_def version_row_def data_ok_def data_image_def Let_def
      split: option.splits)

lemma node_ok_new_version: "data_ok d \<Longrightarrow> node_ok (new_version tx d)"
  using node_row_new_version [of d tx]
  by (simp add: node_ok_def node_is_committed_def node_is_aborted_def F_COMMITTED_def F_ABORTED_def
      new_version_def)

lemma build_tx_node_ok:
  assumes "arg_data arg = Some d" "data_ok d"
  shows "build_tx_node arg st =
    (0, Some (mv_fresh st),
     st\<lparr>mv_nodes := (mv_nodes st)(mv_fresh st \<mapsto> new_version (arg_tx_id arg) d), mv_fresh := mv_fresh st + 1\<rparr>)"
  using assms
  by (auto simp: build_tx_node_def new_version_def trans_commit_def F_INIT_def F_COMMITTED_def
      F_ABORTED_def data_ok_def data_image_def Let_def split: option.splits)

lemma committed_live:
  assumes "\<forall>v \<in> set (vers ns as). node_ok v"
  shows "live_addrs ns as = as"
  using assms by (cases as) (auto simp: node_ok_def)

lemma fresh_irrelevant [simp]:
  "row_ok (st\<lparr>mv_fresh := n\<rparr>) q = row_ok st q" "row_chain (st\<lparr>mv_fresh := n\<rparr>) q = row_chain st q"
  by (simp_all add: row_ok_def row_chain_def row_rep_def cong: option.case_cong)

text \<open>Versions are auto-committed, so no write conflicts; the one error is the
  transaction-set check.\<close>

definition spec_write :: "ObStoreCtx \<Rightarrow> ObMvccTransNode \<Rightarrow> int \<times> ObMvccTransNode list
    \<Rightarrow> ret \<times> int \<times> ObMvccTransNode list" where
  "spec_write ctx v rs =
     (case rs of (mx, vs) \<Rightarrow>
        let snap = ctx_snapshot_version ctx
        in if snap = OB_INVALID_VERSION then (0, mx, v # vs)
           else if mx > snap then (-1, mx, vs)
           else (0, snap, v # vs))"

lemma spec_row_write_committed:
  assumes "\<forall>v \<in> set (snd rs). node_ok v"
  shows "spec_row_write ctx v rs = (fst (spec_write ctx v rs), False, snd (spec_write ctx v rs))"
proof -
  obtain mx vs where rs: "rs = (mx, vs)" by (cases rs)
  have "dropWhile node_is_aborted vs = vs" using assms rs by (cases vs) (auto simp: node_ok_def)
  moreover have "vs = [] \<or> node_is_committed (hd vs)" using assms rs by (cases vs) (auto simp: node_ok_def)
  ultimately show ?thesis
    unfolding rs spec_row_write_def spec_write_def prod.case Let_def by (auto simp del: dropWhile_eq_self_iff)
qed

lemma engine_mvcc_write_correct:
  assumes wf: "mvcc_wf st" and h: "mv_keyhash st h = Some r" "mvcc_abs st h = Some rs"
    and d: "arg_data arg = Some d" "data_ok d"
  obtains rc res' st' where
    "engine_mvcc_write ctx r arg ce res st = Some (rc, res', st')" "mvcc_wf st'"
    "(rc, the (mvcc_abs st' h)) = spec_write ctx (new_version (arg_tx_id arg) d) rs"
    "mvcc_abs st' = (mvcc_abs st)(h \<mapsto> the (mvcc_abs st' h))"
    "wr_has_insert res' \<longleftrightarrow> rc = 0" "wr_value res' = (if rc = 0 then Some r else None)"
    "mv_keyhash st' = mv_keyhash st"
proof -
  let ?a = "mv_fresh st" and ?n = "new_version (arg_tx_id arg) d" and ?as = "row_chain st r"
  let ?st1 = "st\<lparr>mv_nodes := (mv_nodes st)(?a \<mapsto> ?n), mv_fresh := ?a + 1\<rparr>"
  note rD = mvcc_wf_rowD [OF wf h(1)]
  have ok: "row_rep st r ?as" "newest_next (mv_nodes st) ?as = None"
    "\<forall>v \<in> set (vers (mv_nodes st) ?as). node_ok v" "is_btree_indexed (the (mv_rows st r))"
    using rD(2) by (auto simp: row_ok_def)
  have rs: "rs = row_state st r ?as" using h by (simp add: mvcc_abs_def)
  have cd: "set ?as \<subseteq> dom (mv_nodes st)" using row_rep_dom [OF ok(1)] .
  have an: "?a \<notin> dom (mv_nodes st)" using mvcc_wf_fresh [OF wf] by auto
  have fr1: "mv_rows ?st1 r = mv_rows st r" "\<And>b. b \<in> set ?as \<Longrightarrow> mv_nodes ?st1 b = mv_nodes st b"
    using cd an by auto
  have st1: "row_rep ?st1 r ?as" "newest_next (mv_nodes ?st1) ?as = None" "row_state ?st1 r ?as = rs"
    using row_frame [OF ok(1,2) fr1] rs by simp_all
  have a1: "mv_nodes ?st1 ?a = Some ?n" "?a \<notin> set ?as" "newest_next (mv_nodes ?st1) ?as \<noteq> Some ?a"
    using cd an st1(2) by auto
  obtain rc cf st2 as2 where w: "row_mvcc_write ctx r ?a ce ?st1 = Some (rc, cf, st2)"
    and rep2: "row_rep st2 r as2"
    and sp: "(rc, cf, row_state st2 r as2) = spec_row_write ctx (erase ?n) (row_state ?st1 r ?as)"
    and err: "rc \<noteq> 0 \<longrightarrow> st2 = ?st1"
    and as2: "rc = 0 \<longrightarrow> as2 = ?a # live_addrs (mv_nodes ?st1) ?as"
    and nn2: "rc = 0 \<longrightarrow> newest_next (mv_nodes st2) as2 = newest_next (mv_nodes ?st1) (live_addrs (mv_nodes ?st1) ?as)"
    and dm2: "dom (mv_nodes st2) = dom (mv_nodes ?st1)"
    and fl2: "map_option mr_flag (mv_rows st2 r) = map_option mr_flag (mv_rows ?st1 r)"
    and ro2: "\<forall>r'. r' \<noteq> r \<longrightarrow> mv_rows st2 r' = mv_rows ?st1 r'"
    and kh2: "mv_keyhash st2 = mv_keyhash ?st1" "mv_btree st2 = mv_btree ?st1" "mv_fresh st2 = mv_fresh ?st1"
    and no2: "\<forall>b. b \<noteq> ?a \<and> b \<notin> set ?as \<and> newest_next (mv_nodes ?st1) ?as \<noteq> Some b
       \<longrightarrow> mv_nodes st2 b = mv_nodes ?st1 b"
    by (rule row_mvcc_write_correct [OF st1(1) a1]) (rule that; assumption)
  have vs: "\<forall>v \<in> set (snd rs). node_ok v" using ok(3) rs by (simp add: row_state_def)
  have sp': "(rc, row_state st2 r as2) = spec_write ctx ?n rs" "cf = False"
    using sp unfolding st1(3) spec_row_write_committed [OF vs] by (auto simp: prod_eq_iff)
  have lt: "\<forall>a \<in> dom (mv_nodes st2). a < mv_fresh st2"
    using wf dm2 kh2(3) by (auto simp: mvcc_wf_def less_Suc_eq)
  have build: "build_tx_node arg st = (0, Some ?a, ?st1)" using build_tx_node_ok [OF d] .
  show ?thesis
  proof (cases "rc = 0")
    case True
    have live: "live_addrs (mv_nodes ?st1) ?as = ?as"
      using vs unfolding st1(3) [symmetric] row_state_def snd_conv by (rule committed_live)
    have c2: "row_chain st2 r = as2" using row_rep_chain [OF rep2] .
    have "snd (row_state st2 r as2) = ?n # snd rs"
      using sp'(1) True by (auto simp: spec_write_def Let_def split: prod.splits if_splits)
    then have "\<forall>v \<in> set (vers (mv_nodes st2) as2). node_ok v"
      using vs node_ok_new_version [OF d(2)] by (simp add: row_state_def)
    moreover have "is_btree_indexed (the (mv_rows st2 r))"
      using fl2 ok(4) rD(1) by (auto simp: is_btree_indexed_def)
    ultimately have ok2: "row_ok st2 r" using rep2 nn2 True live st1(2) c2 by (simp add: row_ok_def)
    have dr: "dom (mv_rows st2) = dom (mv_rows st)"
      using fl2 ro2 rD(1) by (force simp: dom_def)
    have nodes2: "mv_nodes st2 b = mv_nodes st b" if "b \<in> dom (mv_nodes st)" "b \<notin> set ?as" for b
    proof -
      have "b \<noteq> ?a" using that(1) an by blast
      then show ?thesis using no2 st1(2) that(2) by simp
    qed
    have sub: "set (row_chain st2 r) \<subseteq> insert ?a (set ?as)" using c2 as2 True live by auto
    have same2: "mv_keyhash st2 = mv_keyhash st" "mv_btree st2 = mv_btree st" "mv_fresh st \<le> mv_fresh st2"
        "\<And>q. q \<noteq> r \<Longrightarrow> mv_rows st2 q = mv_rows st q"
      using kh2 ro2 by auto
    note up = mvcc_update_row [OF wf h(1) same2(1-3) lt dr ok2 sub an same2(4) nodes2]
    have "engine_mvcc_write ctx r arg ce res st = Some (0, (wr_reset res)\<lparr>wr_can_insert := True,
        wr_need_insert := True, wr_tx_node := Some ?a, wr_value := Some r\<rparr>, st2)"
      using build w True by (simp add: engine_mvcc_write_def Let_def)
    then show ?thesis using that up sp' True c2 kh2 by (simp add: wr_has_insert_def wr_reset_def)
  next
    case False
    have st2: "st2 = ?st1" using err False by simp
    let ?st3 = "st\<lparr>mv_fresh := ?a + 1\<rparr>"
    have rc: "rc = -1" "row_state st2 r as2 = rs"
      using sp'(1) False by (auto simp: spec_write_def Let_def split: prod.splits if_splits)
    have eq: "st2\<lparr>mv_nodes := (mv_nodes st2)(?a := None)\<rparr> = ?st3"
      using st2 an by (auto simp: fun_upd_idem domIff)
    have wf3: "mvcc_wf ?st3" using wf by (auto simp: mvcc_wf_def less_Suc_eq)
    have abs3: "mvcc_abs ?st3 = mvcc_abs st"
      by (auto simp: mvcc_abs_def row_state_def split: option.splits)
    have "engine_mvcc_write ctx r arg ce res st = Some (-1, wr_reset res, ?st3)"
      using build w False rc eq sp'(2) by (simp add: engine_mvcc_write_def Let_def)
    then show ?thesis using that wf3 abs3 h(2) sp' rc
      by (auto simp: wr_has_insert_def wr_reset_def fun_upd_idem)
  qed
qed

section \<open>Reads\<close>

definition get_sees :: "ObStoreCtx \<Rightarrow> ObMvccTransNode \<Rightarrow> bool" where
  "get_sees ctx v \<longleftrightarrow>
     (if node_is_committed v then snapshot_visible ctx v
      else \<not> node_is_aborted v \<and> nd_tx_id v = ctx_tx_id ctx)"

definition scan_sees :: "ObStoreCtx \<Rightarrow> ObMvccTransNode \<Rightarrow> bool" where
  "scan_sees ctx v \<longleftrightarrow>
     node_is_committed v \<and> snapshot_visible ctx v \<or>
     \<not> node_is_aborted v \<and> nd_tx_id v = ctx_tx_id ctx"

lemma sees_erase [simp]: "get_sees ctx (erase v) = get_sees ctx v" "scan_sees ctx (erase v) = scan_sees ctx v"
  by (simp_all add: get_sees_def scan_sees_def)

lemma get_walk_chain:
  "chain ns p as \<Longrightarrow>
     (case get_walk ns ctx p of None \<Rightarrow> False | Some found \<Rightarrow> map_option erase found = find (get_sees ctx) (vers ns as))"
proof (induction as arbitrary: p)
  case Nil
  then show ?case by (simp add: get_walk.simps vers_def)
next
  case (Cons a as)
  then obtain n where n: "p = Some a" "ns a = Some n" "chain ns (nd_prev n) as"
    by (auto split: option.splits)
  then show ?case using Cons.IH [of "nd_prev n"]
    by (subst get_walk.simps) (auto simp: get_sees_def split: option.splits)
qed

lemma scan_walk_chain:
  "chain ns p as \<Longrightarrow>
     (case scan_walk ns ctx p of None \<Rightarrow> False | Some found \<Rightarrow> map_option erase found = find (scan_sees ctx) (vers ns as))"
proof (induction as arbitrary: p)
  case Nil
  then show ?case by (simp add: scan_walk.simps vers_def)
next
  case (Cons a as)
  then obtain n where n: "p = Some a" "ns a = Some n" "chain ns (nd_prev n) as"
    by (auto split: option.splits)
  then show ?case using Cons.IH [of "nd_prev n"]
    by (subst scan_walk.simps) (auto simp: scan_sees_def split: option.splits)
qed

text \<open>The row an abstract row state shows to a reader.\<close>

definition read_row :: "(ObMvccTransNode \<Rightarrow> bool) \<Rightarrow> int \<times> ObMvccTransNode list \<Rightarrow> ObStoreRow option" where
  "read_row sees rs = map_option (\<lambda>v. the (node_row v)) (find sees (snd rs))"

lemma found_row:
  assumes "\<forall>v \<in> set vs. node_ok v" "map_option erase found = find P vs" "found = Some n"
  shows "find P vs = Some (erase n)" "\<exists>row. node_row n = Some row"
proof -
  show "find P vs = Some (erase n)" using assms by simp
  then have "node_ok (erase n)" using assms(1) by (auto simp: find_Some_iff)
  then show "\<exists>row. node_row n = Some row" by (auto simp: node_ok_def)
qed

lemma wf_row_read:
  assumes "mvcc_wf st" "mv_keyhash st h = Some r"
  obtains rw rs where "mv_rows st r = Some rw" "mvcc_abs st h = Some rs"
    "chain (mv_nodes st) (mr_list_head rw) (row_chain st r)" "snd rs = vers (mv_nodes st) (row_chain st r)"
    "\<forall>v \<in> set (snd rs). node_ok v" "mr_is_empty rw \<longleftrightarrow> snd rs = []"
proof -
  have ok: "row_ok st r" using mvcc_wf_rowD [OF assms] by simp
  then obtain rw where rw: "mv_rows st r = Some rw" "chain (mv_nodes st) (mr_list_head rw) (row_chain st r)"
    by (auto simp: row_ok_def row_rep_def split: option.splits)
  have "mr_is_empty rw \<longleftrightarrow> row_chain st r = []"
    using rw(2) by (cases "row_chain st r") (auto simp: mr_is_empty_def)
  then show ?thesis
    using that [of rw "row_state st r (row_chain st r)"] rw ok assms(2)
    by (simp add: mvcc_abs_def row_state_def row_ok_def vers_def)
qed

lemma engine_get_correct:
  assumes wf: "mvcc_wf st"
  shows "engine_get ctx (Some k) st results =
    Some (case Option.bind (mvcc_abs st (rkw_hash (mk_rowkey k))) (read_row (get_sees ctx)) of
            None \<Rightarrow> (-1, results)
          | Some row \<Rightarrow> (0, results @ [row]))"
proof (cases "mv_keyhash st (rkw_hash (mk_rowkey k))")
  case None
  then show ?thesis by (simp add: engine_get_def qe_get_def mt_hash_get_def mvcc_abs_def)
next
  case (Some r)
  obtain rw rs where rw: "mv_rows st r = Some rw" "mvcc_abs st (rkw_hash (mk_rowkey k)) = Some rs"
    "chain (mv_nodes st) (mr_list_head rw) (row_chain st r)" "snd rs = vers (mv_nodes st) (row_chain st r)"
    "\<forall>v \<in> set (snd rs). node_ok v"
    using wf_row_read [OF wf Some] by blast
  obtain found where f: "get_walk (mv_nodes st) ctx (mr_list_head rw) = Some found"
    "map_option erase found = find (get_sees ctx) (snd rs)"
    using get_walk_chain [OF rw(3), of ctx] rw(4) by (auto split: option.splits)
  have "engine_get ctx (Some k) st results =
      (case found of None \<Rightarrow> Some (-1, results) | Some n \<Rightarrow> Option.bind (node_row n) (\<lambda>srow. Some (0, results @ [srow])))"
    using Some rw(1) f(1) by (simp add: engine_get_def qe_get_def mt_hash_get_def)
  then show ?thesis
    using found_row [OF rw(5) f(2)] f(2) rw(2) by (cases found) (auto simp: read_row_def dest: sym)
qed

section \<open>Scans\<close>

definition scan_result :: "ObStoreCtx \<Rightarrow> ObMvcc \<Rightarrow> u64 \<Rightarrow> ObStoreRow list" where
  "scan_result ctx st h =
     (case Option.bind (mvcc_abs st h) (read_row (scan_sees ctx)) of None \<Rightarrow> [] | Some row \<Rightarrow> [row])"

definition in_end :: "u64 \<Rightarrow> bool \<Rightarrow> u64 \<Rightarrow> bool" where
  "in_end end_h end_ex k \<longleftrightarrow> \<not> k > end_h \<and> \<not> (end_ex \<and> k = end_h)"

lemma scan_loop_next_eq: "it_next st it = it_next st it2 \<Longrightarrow> scan_loop ctx st it results = scan_loop ctx st it2 results"
  by (simp add: scan_loop.simps)

lemma scan_loop_entries:
  assumes wf: "mvcc_wf st"
  shows "\<forall>e \<in> set m. mv_keyhash st (fst e) = Some (snd e) \<Longrightarrow> it_is_init it \<Longrightarrow> tl (it_curr it) = m \<Longrightarrow>
    scan_loop ctx st it results =
      Some (results @ concat (map (\<lambda>e. scan_result ctx st (fst e))
                                  (takeWhile (\<lambda>e. in_end (it_end_hash it) (it_end_exclude it) (fst e)) m)))"
proof (induction m arbitrary: it results)
  case Nil
  then show ?case by (subst scan_loop.simps) (simp add: it_next_def Let_def)
next
  case (Cons e m)
  obtain k r where e: "e = (k, r)" by (cases e)
  show ?case
  proof (cases "in_end (it_end_hash it) (it_end_exclude it) k")
    case False
    then have "it_next st it = Some (-1, it\<lparr>it_is_init := True, it_curr := []\<rparr>)"
      using Cons.prems e by (auto simp: it_next_def in_end_def Let_def)
    then show ?thesis using False e by (subst scan_loop.simps) simp
  next
    case True
    obtain rw rs where rw: "mv_rows st r = Some rw" "mvcc_abs st k = Some rs"
      "chain (mv_nodes st) (mr_list_head rw) (row_chain st r)" "snd rs = vers (mv_nodes st) (row_chain st r)"
      "\<forall>v \<in> set (snd rs). node_ok v" "mr_is_empty rw \<longleftrightarrow> snd rs = []"
      using wf_row_read [OF wf, of k r] Cons.prems(1) e by auto
    have rest: "\<forall>e \<in> set m. mv_keyhash st (fst e) = Some (snd e)" using Cons.prems(1) by simp
    show ?thesis
    proof (cases "mr_is_empty rw")
      case empty: True
      let ?it = "it\<lparr>it_curr := e # m\<rparr>"
      have "it_next st it = it_next st ?it"
        using True empty Cons.prems e rw(1) by (auto simp: it_next_def in_end_def Let_def)
      then have "scan_loop ctx st it results = scan_loop ctx st ?it results" by (rule scan_loop_next_eq)
      then show ?thesis
        using Cons.IH [of ?it results] rest Cons.prems(2) True empty e rw(2,6)
        by (simp add: scan_result_def read_row_def)
    next
      case False
      let ?it = "it\<lparr>it_is_init := True, it_curr := (k, r) # m\<rparr>"
      have nx: "it_next st it = Some (0, ?it)"
        using True False Cons.prems e rw(1) by (auto simp: it_next_def in_end_def Let_def)
      obtain found where f: "scan_walk (mv_nodes st) ctx (mr_list_head rw) = Some found"
        "map_option erase found = find (scan_sees ctx) (snd rs)"
        using scan_walk_chain [OF rw(3), of ctx] rw(4) by (auto simp: split: option.splits)
      have "scan_loop ctx st it results =
          (case found of None \<Rightarrow> scan_loop ctx st ?it results
           | Some n \<Rightarrow> Option.bind (node_row n) (\<lambda>srow. scan_loop ctx st ?it (results @ [srow])))"
        using nx rw(1) f(1) False e by (subst scan_loop.simps) (simp add: it_get_value_def)
      also have "\<dots> = scan_loop ctx st ?it (results @ scan_result ctx st k)"
        using found_row [OF rw(5) f(2)] f(2) rw(2)
        by (cases found) (auto simp: scan_result_def read_row_def dest: sym)
      finally show ?thesis using Cons.IH [of ?it] rest Cons.prems(2) True e by simp
    qed
  qed
qed

lemma engine_scan_correct:
  assumes wf: "mvcc_wf st"
  shows "engine_scan ctx sk se ek ee st results =
    Some (0, results @ concat (map (\<lambda>e. scan_result ctx st (fst e))
      (filter (\<lambda>e. start_hash sk \<le> fst e \<and> in_end (end_hash ek) ee (fst e)) (mv_btree st))))"
proof -
  define lb where "lb = omap_lower_bound (start_hash sk) (mv_btree st)"
  let ?it = "snd (qe_scan sk se ek ee)"
  let ?it2 = "?it\<lparr>it_is_init := True, it_curr := undefined # lb\<rparr>"
  have bt: "omap_wf (mv_btree st)" "\<And>h. omap_find (mv_btree st) h = mv_keyhash st h"
    using wf by (auto simp: mvcc_wf_def)
  have "it_next st ?it = it_next st ?it2" by (simp add: it_next_def qe_scan_def lb_def Let_def)
  then have "scan_loop ctx st ?it results = scan_loop ctx st ?it2 results" by (rule scan_loop_next_eq)
  moreover have "\<forall>e \<in> set lb. mv_keyhash st (fst e) = Some (snd e)"
    using omap_find_Some [OF bt(1)] bt(2) set_omap_lower_bound [OF bt(1)] unfolding lb_def by fastforce
  moreover have "takeWhile (\<lambda>e. in_end (end_hash ek) ee (fst e)) lb =
      filter (\<lambda>e. start_hash sk \<le> fst e \<and> in_end (end_hash ek) ee (fst e)) (mv_btree st)"
    unfolding lb_def by (rule omap_range [OF bt(1)]) (auto simp: in_end_def)
  ultimately show ?thesis
    using scan_loop_entries [OF wf, of lb ?it2 ctx results]
    by (simp add: engine_scan_def qe_scan_def)
qed

section \<open>Undo\<close>

lemma undo_nodes:
  assumes ch: "chain ns p (a # t)" and li: "linked ns (a # t)"
  obtains n ns' where "ns a = Some n" "p = Some a"
    "(case nd_prev n of None \<Rightarrow> Some (ns(a \<mapsto> trans_abort n))
      | Some q \<Rightarrow> upd_node q (\<lambda>n. n\<lparr>nd_next := None\<rparr>) (ns(a \<mapsto> trans_abort n))) = Some ns'"
    "chain (ns'(a := None)) (nd_prev n) t" "linked (ns'(a := None)) t" "newest_ok (ns'(a := None)) t"
    "newest_next (ns'(a := None)) t = None" "vers (ns'(a := None)) t = vers ns t"
    "dom (ns'(a := None)) \<subseteq> dom ns" "\<forall>b. b \<noteq> a \<and> b \<notin> set t \<longrightarrow> (ns'(a := None)) b = ns b"
proof -
  obtain n where n: "ns a = Some n" "p = Some a" "chain ns (nd_prev n) t"
    using ch by (auto split: option.splits)
  have d: "distinct (a # t)" using chain_distinct [OF ch] .
  show ?thesis
  proof (cases t)
    case Nil
    then show ?thesis
      using that [of n "ns(a \<mapsto> trans_abort n)"] n by (auto simp: newest_ok_def newest_next_def vers_def)
  next
    case (Cons b t')
    then obtain bn where bn: "nd_prev n = Some b" "ns b = Some bn" "chain ns (nd_prev bn) t'"
      using n(3) by (auto split: option.splits)
    let ?ns = "(ns(a \<mapsto> trans_abort n))(b \<mapsto> bn\<lparr>nd_next := None\<rparr>)"
    have ab: "a \<noteq> b" "b \<notin> set t'" "a \<notin> set t'" using d Cons by auto
    have t': "(?ns(a := None)) c = ns c" if "c \<in> set t'" for c using that ab by auto
    have c: "chain (?ns(a := None)) (nd_prev n) t"
      using bn ab chain_cong [of t' "?ns(a := None)" ns] t' Cons by simp
    have "linked ns t" using li Cons by simp
    then have l: "linked (?ns(a := None)) t"
      using linked_cong [of t "?ns(a := None)" ns] t' Cons by simp
    have v: "vers (?ns(a := None)) t = vers ns t"
      using t' vers_cong [of t' "?ns(a := None)" ns] Cons bn ab by simp
    show ?thesis
      using that [of n ?ns] n bn ab c l v Cons
      by (auto simp: upd_node_def newest_ok_def newest_next_def)
  qed
qed

lemma mvcc_undo_correct:
  assumes wf: "mvcc_wf st" and h: "mv_keyhash st h = Some r" "mvcc_abs st h = Some (mx, vs)"
  obtains st' where "mvcc_undo (Some r) st = Some st'" "mvcc_wf st'"
    "mvcc_abs st' = (mvcc_abs st)(h \<mapsto> (mx, tl vs))"
proof -
  note rD = mvcc_wf_rowD [OF wf h(1)]
  obtain row where row: "mv_rows st r = Some row" "chain (mv_nodes st) (mr_list_head row) (row_chain st r)"
    "linked (mv_nodes st) (row_chain st r)" "\<forall>v \<in> set (vers (mv_nodes st) (row_chain st r)). node_ok v"
    "is_btree_indexed row"
    using rD(2) by (auto simp: row_ok_def row_rep_def split: option.splits)
  have abs: "mx = mr_max_trans_version row" "vs = vers (mv_nodes st) (row_chain st r)"
    using h row(1) by (auto simp: mvcc_abs_def row_state_def)
  show ?thesis
  proof (cases "row_chain st r")
    case Nil
    then have "mvcc_undo (Some r) st = Some st" using row by (simp add: mvcc_undo_def)
    then show ?thesis using that wf h(2) abs(2) Nil by (simp add: vers_def fun_upd_idem)
  next
    case (Cons a t)
    obtain n ns1 where u: "mv_nodes st a = Some n" "mr_list_head row = Some a"
      "(case nd_prev n of None \<Rightarrow> Some ((mv_nodes st)(a \<mapsto> trans_abort n))
        | Some q \<Rightarrow> upd_node q (\<lambda>n. n\<lparr>nd_next := None\<rparr>) ((mv_nodes st)(a \<mapsto> trans_abort n))) = Some ns1"
      "chain (ns1(a := None)) (nd_prev n) t" "linked (ns1(a := None)) t" "newest_ok (ns1(a := None)) t"
      "newest_next (ns1(a := None)) t = None" "vers (ns1(a := None)) t = vers (mv_nodes st) t"
      "dom (ns1(a := None)) \<subseteq> dom (mv_nodes st)"
      "\<forall>b. b \<noteq> a \<and> b \<notin> set t \<longrightarrow> (ns1(a := None)) b = mv_nodes st b"
      by (rule undo_nodes [OF row(2,3) [unfolded Cons]]) (rule that; assumption)
    define st' where "st' = st\<lparr>mv_nodes := ns1(a := None),
      mv_rows := (mv_rows st)(r \<mapsto> row\<lparr>mr_list_head := nd_prev n\<rparr>)\<rparr>"
    have w: "mvcc_undo (Some r) st = Some st'"
    proof -
      have "nd_prev (trans_abort n) = nd_prev n" by (simp add: trans_abort_def)
      then show ?thesis using row(1) u(1-3) by (simp add: mvcc_undo_def upd_node_def [of a] st'_def)
    qed
    have rep: "row_rep st' r t" using u(4-6) by (simp add: row_rep_def st'_def)
    note c' = row_rep_chain [OF rep]
    have ok: "row_ok st' r"
      using rep u(7,8) row(4,5) Cons c' by (simp add: row_ok_def st'_def is_btree_indexed_def)
    have lt: "\<forall>b \<in> dom (mv_nodes st'). b < mv_fresh st'"
      using wf u(9) unfolding mvcc_wf_def st'_def by auto
    have dom: "dom (mv_rows st') = dom (mv_rows st)" using row(1) by (auto simp: st'_def)
    have sub: "set (row_chain st' r) \<subseteq> insert (mv_fresh st) (set (row_chain st r))" using c' Cons by auto
    have fr: "mv_fresh st \<notin> dom (mv_nodes st)" using mvcc_wf_fresh [OF wf] by auto
    have nodes: "mv_nodes st' b = mv_nodes st b" if "b \<in> dom (mv_nodes st)" "b \<notin> set (row_chain st r)" for b
      using u(10) that Cons by (simp add: st'_def)
    have same: "mv_keyhash st' = mv_keyhash st" "mv_btree st' = mv_btree st" "mv_fresh st \<le> mv_fresh st'"
      "\<And>q. q \<noteq> r \<Longrightarrow> mv_rows st' q = mv_rows st q"
      by (simp_all add: st'_def)
    note up = mvcc_update_row [OF wf h(1) same(1-3) lt dom ok sub fr same(4) nodes]
    have "row_state st' r (row_chain st' r) = (mx, tl vs)"
      using c' u(8) abs Cons by (simp add: row_state_def st'_def)
    then show ?thesis using that [OF w] up by simp
  qed
qed
section \<open>Keys as the engine generates them\<close>

lemma mk_rk_murmurhash:
  "rk_is_valid rk \<Longrightarrow> mk_data k = rk_get_data rk \<Longrightarrow> mk_len k = rk_length rk \<Longrightarrow> mk_murmurhash k 0 = rk_murmurhash rk 0"
  by (simp add: mk_murmurhash_def rk_murmurhash_def rk_is_valid_def rk_get_data_def)

lemma generate_key_ok:
  assumes "generate_memtable_key row k = (0, k')"
  shows "key_ok k'" "mk_hash k' = rk_murmurhash (row_rowkey row) 0" "mk_rowkey k' = Some (row_rowkey row)"
  using assms mk_rk_murmurhash [of "row_rowkey row"]
  by (auto simp: generate_memtable_key_def mk_encode_def key_ok_def rkw_hash_def Let_def split: if_splits)

lemma generate_key_fails: "\<not> rk_is_valid (row_rowkey row) \<Longrightarrow> generate_memtable_key row k = (-1, k)"
  by (simp add: generate_memtable_key_def)

definition key_of :: "bytes \<Rightarrow> ObMemtableKey" where
  "key_of bs = snd (mk_encode (Some (rk_of_bytes bs)) mk_init)"

lemma key_ok_key_of: "bs \<noteq> [] \<Longrightarrow> key_ok (key_of bs)"
  using mk_rk_murmurhash [of "rk_of_bytes bs"]
  by (auto simp: key_of_def mk_encode_def key_ok_def rkw_hash_def Let_def rk_is_valid_def rk_of_bytes_def)

text \<open>A write through the engine: \<^verbatim>\<open>create_kv\<close> and \<^verbatim>\<open>mvcc_write\<close> in one step.\<close>

lemma engine_write_effect:
  assumes wf: "mvcc_wf st" and k: "key_ok k" and d: "arg_data arg = Some d" "data_ok d"
  obtains r st1 rc res' st2 s where
    "create_kv (Some k) v st = Some (0, Some r, st1)"
    "engine_mvcc_write ctx r arg ce res st1 = Some (rc, res', st2)" "mvcc_wf st2"
    "(rc, s) = spec_write ctx (new_version (arg_tx_id arg) d)
                (case mvcc_abs st (mk_hash k) of None \<Rightarrow> (0, []) | Some s \<Rightarrow> s)"
    "mvcc_abs st2 = (mvcc_abs st)(mk_hash k \<mapsto> s)" "wr_has_insert res' \<longleftrightarrow> rc = 0"
proof -
  let ?s = "case mvcc_abs st (mk_hash k) of None \<Rightarrow> (0, []) | Some s \<Rightarrow> s"
  obtain r st1 where 1: "create_kv (Some k) v st = Some (0, Some r, st1)" "mvcc_wf st1"
    "mv_keyhash st1 (mk_hash k) = Some r" "mvcc_abs st1 = (mvcc_abs st)(mk_hash k \<mapsto> ?s)"
    using create_kv_correct [OF wf k] .
  then have abs1: "mvcc_abs st1 (mk_hash k) = Some ?s" by simp
  obtain rc res' st2 where 2: "engine_mvcc_write ctx r arg ce res st1 = Some (rc, res', st2)" "mvcc_wf st2"
    "(rc, the (mvcc_abs st2 (mk_hash k))) = spec_write ctx (new_version (arg_tx_id arg) d) ?s"
    "mvcc_abs st2 = (mvcc_abs st1)(mk_hash k \<mapsto> the (mvcc_abs st2 (mk_hash k)))" "wr_has_insert res' \<longleftrightarrow> rc = 0"
    using engine_mvcc_write_correct [OF 1(2,3) abs1 d] .
  have "mvcc_abs st2 = (mvcc_abs st)(mk_hash k \<mapsto> the (mvcc_abs st2 (mk_hash k)))"
    using 2(4) 1(4) by simp
  then show ?thesis using that 1(1) 2(1-3,5) by blast
qed


lemma get_sees_new_version [simp]: "get_sees ctx_init (new_version tx d)"
  by (simp add: get_sees_def new_version_def node_is_committed_def F_COMMITTED_def snapshot_visible_def ctx_init_def)

lemma btree_hashes:
  assumes wf: "mvcc_wf st"
  shows "sorted_wrt (<) (map fst (mv_btree st))" "set (map fst (mv_btree st)) = dom (mvcc_abs st)"
proof -
  have b: "omap_wf (mv_btree st)" "\<And>h. omap_find (mv_btree st) h = mv_keyhash st h"
    using wf by (auto simp: mvcc_wf_def)
  show "sorted_wrt (<) (map fst (mv_btree st))" using b(1) by (simp add: omap_wf_def)
  have "h \<in> fst ` set (mv_btree st) \<longleftrightarrow> h \<in> dom (mvcc_abs st)" for h
  proof -
    have "h \<in> fst ` set (mv_btree st) \<longleftrightarrow> (\<exists>v. mv_keyhash st h = Some v)"
      using omap_find_Some [OF b(1), of h] by (force simp: b(2))
    then show ?thesis by (simp add: mvcc_abs_def dom_def split: option.splits)
  qed
  then show "set (map fst (mv_btree st)) = dom (mvcc_abs st)" by auto
qed

section \<open>Properties of the engine\<close>

text \<open>
  C2. A write through the engine, \<^verbatim>\<open>create_kv\<close> followed by \<^verbatim>\<open>mvcc_write\<close>, refines
  \<open>spec_write\<close> on the abstract store: it always returns, keeps the invariant of heap and
  indexes, touches the abstract row of its key only, and pushes the new version or reports
  the transaction-set violation exactly as the specification does.
\<close>

theorem engine_write_refines:
  assumes wf: "mvcc_wf st" and k: "key_ok k" and d: "arg_data arg = Some d" "data_ok d"
  shows "\<exists>r st1 rc res' st2 s.
    create_kv (Some k) None st = Some (0, Some r, st1) \<and>
    engine_mvcc_write ctx r arg ce res st1 = Some (rc, res', st2) \<and> mvcc_wf st2 \<and>
    (rc, s) = spec_write ctx (new_version (arg_tx_id arg) d)
                (case mvcc_abs st (mk_hash k) of None \<Rightarrow> (0, []) | Some s \<Rightarrow> s) \<and>
    mvcc_abs st2 = (mvcc_abs st)(mk_hash k \<mapsto> s) \<and> (wr_has_insert res' \<longleftrightarrow> rc = 0)"
  using engine_write_effect [OF assms] by metis

definition sample_data :: "byte \<Rightarrow> ObMemtableData" where
  "sample_data x = \<lparr>md_dml_flag = DF_INSERT, md_buf_len = 2, md_buf = Some [x, 7]\<rparr>"

lemma sample_data_ok: "data_ok (sample_data x)"
  by (simp add: data_ok_def sample_data_def)

theorem engine_write_refines_witness:
  "\<exists>r st1 rc res' st2 s.
    create_kv (Some (key_of [97])) None mv_init = Some (0, Some r, st1) \<and>
    engine_mvcc_write ctx_init r \<lparr>arg_tx_id = 5, arg_data = Some (sample_data 1), arg_column_cnt = 0\<rparr> False wr_init st1
      = Some (rc, res', st2) \<and> mvcc_wf st2 \<and>
    (rc, s) = spec_write ctx_init (new_version 5 (sample_data 1)) (0, []) \<and>
    mvcc_abs st2 = [mk_hash (key_of [97]) \<mapsto> s] \<and> (wr_has_insert res' \<longleftrightarrow> rc = 0)"
proof -
  have "mvcc_abs mv_init = Map.empty" by (auto simp: mvcc_abs_def mv_init_def fun_eq_iff)
  then show ?thesis
    using engine_write_refines [OF mvcc_wf_init key_ok_key_of [of "[97]"] _ sample_data_ok,
        of "\<lparr>arg_tx_id = 5, arg_data = Some (sample_data 1), arg_column_cnt = 0\<rparr>" 1 ctx_init False wr_init]
    by simp
qed

text \<open>
  C22. A range scan returns, for the keys whose hash lies in the range, in the order of the
  hashes and without repetition, the newest version each of them shows to the reader.
\<close>

theorem engine_scan_newest:
  assumes wf: "mvcc_wf st"
  shows "\<exists>hs. sorted_wrt (<) hs \<and>
      set hs = {h \<in> dom (mvcc_abs st). start_hash sk \<le> h \<and> in_end (end_hash ek) ee h} \<and>
      engine_scan ctx sk se ek ee st results = Some (0, results @ concat (map (scan_result ctx st) hs))"
proof -
  let ?P = "\<lambda>h. start_hash sk \<le> h \<and> in_end (end_hash ek) ee h"
  let ?hs = "filter ?P (map fst (mv_btree st))"
  have "set ?hs = {h \<in> dom (mvcc_abs st). ?P h}" "sorted_wrt (<) ?hs"
    using btree_hashes [OF wf] by (simp_all add: sorted_wrt_filter)
  moreover have "engine_scan ctx sk se ek ee st results = Some (0, results @ concat (map (scan_result ctx st) ?hs))"
    by (simp add: engine_scan_correct [OF wf] filter_map comp_def)
  ultimately show ?thesis by blast
qed

theorem engine_scan_newest_witness:
  "\<exists>hs. sorted_wrt (<) hs \<and> set hs = {h \<in> dom (mvcc_abs (st_new_row 9 mv_init)). start_hash None \<le> h \<and> in_end (end_hash None) False h} \<and>
     engine_scan ctx_init None False None False (st_new_row 9 mv_init) [] =
       Some (0, concat (map (scan_result ctx_init (st_new_row 9 mv_init)) hs))"
  using engine_scan_newest [OF mvcc_wf_new_row(1) [OF mvcc_wf_init, of 9], of None None False ctx_init False "[]"]
  by (simp add: mv_init_def)

text \<open>
  C23. Undoing the last write of a row takes exactly that version away: after a write that
  succeeded, \<^verbatim>\<open>mvcc_undo\<close> brings the version list of every key back to what it was, keeps
  the invariant, and leaves only the recorded largest snapshot behind.
\<close>

theorem undo_write:
  assumes wf: "mvcc_wf st" and h: "mv_keyhash st h = Some r" "mvcc_abs st h = Some (mx, vs)"
    and d: "arg_data arg = Some d" "data_ok d"
    and w: "engine_mvcc_write ctx r arg ce res st = Some (0, res', st1)"
  shows "\<exists>st2. mvcc_undo (wr_value res') st1 = Some st2 \<and> mvcc_wf st2 \<and>
    mvcc_abs st2 = (mvcc_abs st)(h \<mapsto> (if ctx_snapshot_version ctx = OB_INVALID_VERSION then mx
                                        else ctx_snapshot_version ctx, vs))"
proof -
  obtain rc res2 st1' where 1: "engine_mvcc_write ctx r arg ce res st = Some (rc, res2, st1')" "mvcc_wf st1'"
    "(rc, the (mvcc_abs st1' h)) = spec_write ctx (new_version (arg_tx_id arg) d) (mx, vs)"
    "mvcc_abs st1' = (mvcc_abs st)(h \<mapsto> the (mvcc_abs st1' h))"
    "wr_value res2 = (if rc = 0 then Some r else None)" "mv_keyhash st1' = mv_keyhash st"
    using engine_mvcc_write_correct [OF wf h d] .
  let ?mx = "if ctx_snapshot_version ctx = OB_INVALID_VERSION then mx else ctx_snapshot_version ctx"
  have eq: "rc = 0" "res2 = res'" "st1' = st1" using 1(1) w by auto
  have s: "the (mvcc_abs st1 h) = (?mx, new_version (arg_tx_id arg) d # vs)"
    using 1(3) unfolding eq by (auto simp: spec_write_def Let_def split: if_splits)
  have a1: "mvcc_abs st1 = (mvcc_abs st)(h \<mapsto> (?mx, new_version (arg_tx_id arg) d # vs))"
    using 1(4) unfolding eq s .
  obtain st2 where 2: "mvcc_undo (Some r) st1 = Some st2" "mvcc_wf st2"
    "mvcc_abs st2 = (mvcc_abs st1)(h \<mapsto> (?mx, tl (new_version (arg_tx_id arg) d # vs)))"
    using mvcc_undo_correct [of st1 h r ?mx "new_version (arg_tx_id arg) d # vs"] 1(2,6) h(1) a1 eq by auto
  show ?thesis using 2 a1 1(5) eq by auto
qed

theorem undo_write_witness:
  "\<exists>res' st1 st2. engine_mvcc_write ctx_init 0 \<lparr>arg_tx_id = 5, arg_data = Some (sample_data 1), arg_column_cnt = 0\<rparr>
        False wr_init (st_new_row 9 mv_init) = Some (0, res', st1) \<and>
     mvcc_undo (wr_value res') st1 = Some st2 \<and> mvcc_abs st2 = mvcc_abs (st_new_row 9 mv_init)"
proof -
  let ?st = "st_new_row 9 mv_init" and ?arg = "\<lparr>arg_tx_id = 5, arg_data = Some (sample_data 1), arg_column_cnt = 0\<rparr>"
  have n: "mv_keyhash mv_init 9 = None" by (simp add: mv_init_def)
  have wf: "mvcc_wf ?st" and ab: "mvcc_abs ?st = (mvcc_abs mv_init)(9 \<mapsto> (0, []))"
    using mvcc_wf_new_row [OF mvcc_wf_init n] by auto
  have k: "mv_keyhash ?st 9 = Some 0" by (simp add: st_new_row_def mv_init_def)
  have a: "mvcc_abs ?st 9 = Some (0, [])" using ab by simp
  obtain rc res' st1 where w: "engine_mvcc_write ctx_init 0 ?arg False wr_init ?st = Some (rc, res', st1)"
    "(rc, the (mvcc_abs st1 9)) = spec_write ctx_init (new_version 5 (sample_data 1)) (0, [])"
    using engine_mvcc_write_correct [OF wf k a, of ?arg "sample_data 1" ctx_init False wr_init] sample_data_ok
    by (metis ObTxNodeArg.select_convs(1,2))
  have rc: "rc = 0" using w(2) by (simp add: spec_write_def ctx_init_def)
  have "(mvcc_abs ?st)(9 \<mapsto> (0, [])) = mvcc_abs ?st" using ab by simp
  then show ?thesis
    using undo_write [OF wf k a, of ?arg "sample_data 1" ctx_init False wr_init res' st1] w(1) rc sample_data_ok
    by (auto simp: ctx_init_def)
qed

definition collide_a :: bytes where
  "collide_a = [65, 65, 65, 65, 65, 65, 65, 65, 67, 67, 67, 67, 67, 67, 67, 67]"

definition collide_b :: bytes where
  "collide_b = [66, 66, 66, 66, 66, 66, 66, 66, 31, 49, 90, 9, 46, 117, 41, 215]"

lemma collide_words:
  "get_word (take 8 collide_a) = (word_of_int 0x4141414141414141 :: u64)"
  "get_word (take 8 (drop 8 collide_a)) = (word_of_int 0x4343434343434343 :: u64)"
  "get_word (take 8 collide_b) = (word_of_int 0x4242424242424242 :: u64)"
  "get_word (take 8 (drop 8 collide_b)) = (word_of_int 0xd729752e095a311f :: u64)"
  by (simp_all add: collide_a_def collide_b_def get_word_def)

lemma collide_steps: "step_int 7659067388010076496 4702111234474983745 = 8775458321019967326" "step_int 7659067388010076496 4774451407313060418 = 10553384297186700081" "step_int 8775458321019967326 4846791580151137091 = step_int 10553384297186700081 15504052032785494303"
  by (simp_all add: step_int_def mix_int_def)

lemma collide_hash: "mk_hash (key_of collide_a) = mk_hash (key_of collide_b)"
proof -
  have h: "mk_hash (key_of bs) = murmurhash64 bs 16 0" if "length bs = 16" for bs
    using that by (auto simp: key_of_def mk_encode_def Let_def rk_is_valid_def rk_of_bytes_def mk_murmurhash_def
        rk_get_data_def)
  have "murmurhash64 collide_a 16 0 = murmurhash64 collide_b 16 0"
    unfolding murmur_16 collide_words murmur_step_int collide_steps ..
  then show ?thesis by (simp add: h collide_a_def collide_b_def)
qed

text \<open>
  The hash index does not compare keys.  Two different row keys with the same 64-bit hash
  share one row: a read of the second returns what was written under the first.
\<close>

theorem hash_collision_aliases:
  "\<not> rk_equal (rk_of_bytes collide_a) (rk_of_bytes collide_b) \<and>
   (\<exists>r st1 res st2. create_kv (Some (key_of collide_a)) None mv_init = Some (0, Some r, st1) \<and>
     engine_mvcc_write ctx_init r \<lparr>arg_tx_id = 5, arg_data = Some (sample_data 1), arg_column_cnt = 0\<rparr> False wr_init st1
       = Some (0, res, st2) \<and>
     engine_get ctx_init (Some (key_of collide_b)) st2 [] = Some (0, [version_row 5 (sample_data 1)]))"
proof -
  let ?arg = "\<lparr>arg_tx_id = 5, arg_data = Some (sample_data 1), arg_column_cnt = 0\<rparr>"
  have k: "key_ok (key_of collide_a)" "key_ok (key_of collide_b)"
    by (simp_all add: key_ok_key_of collide_a_def collide_b_def)
  obtain r st1 rc res' st2 s where w: "create_kv (Some (key_of collide_a)) None mv_init = Some (0, Some r, st1)"
    "engine_mvcc_write ctx_init r ?arg False wr_init st1 = Some (rc, res', st2)" "mvcc_wf st2"
    "(rc, s) = spec_write ctx_init (new_version (arg_tx_id ?arg) (sample_data 1))
       (case mvcc_abs mv_init (mk_hash (key_of collide_a)) of None \<Rightarrow> (0, []) | Some s \<Rightarrow> s)"
    "mvcc_abs st2 = (mvcc_abs mv_init)(mk_hash (key_of collide_a) \<mapsto> s)"
    by (rule engine_write_effect [OF mvcc_wf_init k(1), of ?arg "sample_data 1" None ctx_init False wr_init])
       (simp_all add: sample_data_ok)
  have "rc = 0" "s = (0, [new_version 5 (sample_data 1)])"
    using w(4) by (simp_all add: spec_write_def ctx_init_def mvcc_abs_def mv_init_def)
  moreover have "engine_get ctx_init (Some (key_of collide_b)) st2 [] = Some (0, [version_row 5 (sample_data 1)])"
    using k(2) calculation collide_hash
    by (simp add: engine_get_correct [OF w(3)] w(5) key_ok_def read_row_def get_sees_new_version
        node_row_new_version sample_data_ok)
  moreover have "\<not> rk_equal (rk_of_bytes collide_a) (rk_of_bytes collide_b)"
    by (simp add: rk_equal_def rk_of_bytes_def collide_a_def collide_b_def memcmp_eq_0)
  ultimately show ?thesis using w(1,2) by blast
qed

end
