(* ===== verification/Ob_Palf_Log.thy ===== *)
theory Ob_Palf_Log
  imports Ob_Define
begin

text \<open>
  The data structures of the replicated log: \<^verbatim>\<open>palf/lsn.h\<close>, \<^verbatim>\<open>log_define.h\<close>,
  \<^verbatim>\<open>log_entry\<close> (entry and group headers, entries), \<^verbatim>\<open>log_meta\<close> and \<^verbatim>\<open>log_meta_entry\<close>,
  \<^verbatim>\<open>log_cache.h\<close>, \<^verbatim>\<open>log_io_worker\<close> and the \<^verbatim>\<open>ObLogBaseHeader\<close> every log payload starts with.
  A struct that is copied with \<^verbatim>\<open>memcpy\<close> has an encoder and a decoder for its object
  representation, and is an interpretation of \<open>pod_layout\<close>.
\<close>

section \<open>Log sequence numbers\<close>

datatype LSN = LSN (lsn_val: u64)

instantiation LSN :: linorder
begin

definition less_eq_LSN :: "LSN \<Rightarrow> LSN \<Rightarrow> bool" where
  "less_eq_LSN a b \<longleftrightarrow> lsn_val a \<le> lsn_val b"

definition less_LSN :: "LSN \<Rightarrow> LSN \<Rightarrow> bool" where
  "less_LSN a b \<longleftrightarrow> lsn_val a < lsn_val b"

instance
  by standard (auto simp: less_eq_LSN_def less_LSN_def intro: LSN.expand)

end

definition LOG_INVALID_LSN_VAL :: u64 where "LOG_INVALID_LSN_VAL = - 1"
definition PALF_INITIAL_LSN_VAL :: u64 where "PALF_INITIAL_LSN_VAL = 0"
definition MAX_INFO_BLOCK_SIZE :: nat where "MAX_INFO_BLOCK_SIZE = 4 * 1024"
definition PALF_PHY_BLOCK_SIZE :: nat where "PALF_PHY_BLOCK_SIZE = 67108864"
definition PALF_BLOCK_SIZE :: u64 where "PALF_BLOCK_SIZE = 67108864 - 4096"
definition LOG_INVALID_BLOCK_ID :: u64 where "LOG_INVALID_BLOCK_ID = (- 1) div PALF_BLOCK_SIZE"
definition INVALID_PALF_ID :: int where "INVALID_PALF_ID = -1"
definition FIRST_VALID_LOG_ID :: u64 where "FIRST_VALID_LOG_ID = 1"

definition lsn_init :: LSN where "lsn_init = LSN PALF_INITIAL_LSN_VAL"

definition lsn_is_valid :: "LSN \<Rightarrow> bool" where
  "lsn_is_valid l \<longleftrightarrow> lsn_val l < LOG_INVALID_LSN_VAL"

definition lsn_add :: "LSN \<Rightarrow> u64 \<Rightarrow> LSN" where
  "lsn_add l len = LSN (lsn_val l + len)"

definition lsn_sub :: "LSN \<Rightarrow> u64 \<Rightarrow> LSN" where
  "lsn_sub l len = LSN (lsn_val l - len)"

definition lsn_diff :: "LSN \<Rightarrow> LSN \<Rightarrow> u64" where
  "lsn_diff a b = lsn_val a - lsn_val b"

definition lsn_2_block :: "LSN \<Rightarrow> u64 \<Rightarrow> u64" where
  "lsn_2_block l block_size = lsn_val l div block_size"

definition lsn_2_offset :: "LSN \<Rightarrow> u64 \<Rightarrow> u64" where
  "lsn_2_offset l block_size = lsn_val l mod block_size"

lemma lsn_block_offset: "lsn_val l = lsn_2_block l bs * bs + lsn_2_offset l bs"
  unfolding lsn_2_block_def lsn_2_offset_def by (rule div_mult_mod_eq [symmetric])

section \<open>Log entry header\<close>

record LogEntryHeader =
  leh_magic :: u16
  leh_version :: u16
  leh_data_len :: u32
  leh_data_checksum :: u32

definition LEH_MAGIC :: u16 where "LEH_MAGIC = 0x4C48"

definition leh_init :: LogEntryHeader where
  "leh_init = \<lparr>leh_magic = LEH_MAGIC, leh_version = 1, leh_data_len = 0, leh_data_checksum = 0\<rparr>"

definition leh_is_valid :: "LogEntryHeader \<Rightarrow> bool" where
  "leh_is_valid h \<longleftrightarrow> leh_magic h = LEH_MAGIC"

definition leh_size :: nat where "leh_size = 12"

definition leh_enc :: "LogEntryHeader \<Rightarrow> bytes" where
  "leh_enc h = put_word (leh_magic h) @ put_word (leh_version h) @ put_word (leh_data_len h) @
     put_word (leh_data_checksum h)"

definition leh_dec :: "bytes \<Rightarrow> LogEntryHeader" where
  "leh_dec b = \<lparr>leh_magic = get_word (bslice 0 2 b), leh_version = get_word (bslice 2 2 b),
     leh_data_len = get_word (bslice 4 4 b), leh_data_checksum = get_word (bslice 8 4 b)\<rparr>"

definition leh_serialize :: "LogEntryHeader \<Rightarrow> bytes \<Rightarrow> nat \<Rightarrow> ret \<times> bytes \<times> nat" where
  "leh_serialize h buf pos = pod_serialize (leh_enc h) buf pos"

definition leh_deserialize :: "LogEntryHeader \<Rightarrow> bytes \<Rightarrow> nat \<Rightarrow> ret \<times> LogEntryHeader \<times> nat" where
  "leh_deserialize old buf pos = pod_deserialize leh_size leh_dec old buf pos"

interpretation leh: pod_layout leh_enc leh_dec leh_size
  by unfold_locales (simp_all add: leh_enc_def leh_dec_def leh_size_def layout)

section \<open>Group entry header\<close>

text \<open>\<^verbatim>\<open>serialize\<close> stores field by field.  Its last store goes through \<^verbatim>\<open>pu32\<close>, which still
  points behind \<^verbatim>\<open>group_entry_size_\<close>, at offset 8; nothing is stored at offsets 40 to 47,
  where \<^verbatim>\<open>deserialize\<close> looks for the checksum.\<close>

record LogGroupEntryHeader =
  lgh_magic :: u16
  lgh_version :: u16
  lgh_group_entry_size :: u32
  lgh_log_id :: u64
  lgh_log_proposal_id :: u64
  lgh_prev_lsn :: LSN
  lgh_committed_end_lsn :: LSN
  lgh_data_checksum :: u32

definition LGH_MAGIC :: u16 where "LGH_MAGIC = 0x4752"

definition lgh_init :: LogGroupEntryHeader where
  "lgh_init = \<lparr>lgh_magic = LGH_MAGIC, lgh_version = 1, lgh_group_entry_size = 0, lgh_log_id = 0,
     lgh_log_proposal_id = 1, lgh_prev_lsn = lsn_init, lgh_committed_end_lsn = lsn_init,
     lgh_data_checksum = 0\<rparr>"

definition lgh_is_valid :: "LogGroupEntryHeader \<Rightarrow> bool" where
  "lgh_is_valid h \<longleftrightarrow> lgh_magic h = LGH_MAGIC"

definition lgh_size :: nat where "lgh_size = 48"

definition lgh_fields :: "LogGroupEntryHeader \<Rightarrow> bytes" where
  "lgh_fields h = put_word (lgh_magic h) @ put_word (lgh_version h) @ put_word (lgh_group_entry_size h) @
     put_word (lgh_log_id h) @ put_word (lgh_log_proposal_id h) @
     put_word (lsn_val (lgh_prev_lsn h)) @ put_word (lsn_val (lgh_committed_end_lsn h))"

definition lgh_serialize :: "LogGroupEntryHeader \<Rightarrow> bytes \<Rightarrow> nat \<Rightarrow> ret \<times> bytes \<times> nat" where
  "lgh_serialize h buf pos =
     (if length buf < pos + lgh_size then (-1, buf, pos)
      else let buf = blit pos (lgh_fields h) buf;
               buf = blit (pos + 8) (put_word (lgh_data_checksum h)) buf
           in (0, buf, pos + lgh_size))"

definition lgh_dec :: "bytes \<Rightarrow> LogGroupEntryHeader" where
  "lgh_dec b = \<lparr>lgh_magic = get_word (bslice 0 2 b), lgh_version = get_word (bslice 2 2 b),
     lgh_group_entry_size = get_word (bslice 4 4 b), lgh_log_id = get_word (bslice 8 8 b),
     lgh_log_proposal_id = get_word (bslice 16 8 b), lgh_prev_lsn = LSN (get_word (bslice 24 8 b)),
     lgh_committed_end_lsn = LSN (get_word (bslice 32 8 b)),
     lgh_data_checksum = get_word (bslice 40 4 b)\<rparr>"

definition lgh_deserialize :: "LogGroupEntryHeader \<Rightarrow> bytes \<Rightarrow> nat \<Rightarrow> ret \<times> LogGroupEntryHeader \<times> nat" where
  "lgh_deserialize old buf pos = pod_deserialize lgh_size lgh_dec old buf pos"

section \<open>Log entries\<close>

text \<open>\<^verbatim>\<open>buf_len_\<close> is the length of \<open>le_buf\<close>.\<close>

record LogEntry =
  le_header :: LogEntryHeader
  le_buf :: bytes

definition le_reset :: LogEntry where
  "le_reset = \<lparr>le_header = leh_init, le_buf = []\<rparr>"

definition le_init :: "bytes \<Rightarrow> LogEntry" where
  "le_init data = \<lparr>le_header = leh_init\<lparr>leh_data_len := word_of_nat (length data)\<rparr>, le_buf = data\<rparr>"

definition le_serialize :: "LogEntry \<Rightarrow> bytes \<Rightarrow> nat \<Rightarrow> ret \<times> bytes \<times> nat" where
  "le_serialize e buf pos =
     (case leh_serialize (le_header e) buf pos of (ret, buf, pos) \<Rightarrow>
        if ret \<noteq> 0 then (ret, buf, pos)
        else if length buf < pos + length (le_buf e) then (-1, buf, pos)
        else (0, blit pos (le_buf e) buf, pos + length (le_buf e)))"

definition le_deserialize :: "LogEntry \<Rightarrow> bytes \<Rightarrow> nat \<Rightarrow> ret \<times> LogEntry \<times> nat" where
  "le_deserialize e buf pos =
     (case leh_deserialize (le_header e) buf pos of (ret, hdr, pos) \<Rightarrow>
        if ret \<noteq> 0 then (ret, e, pos)
        else let payload_len = unat (leh_data_len hdr)
             in if length buf < pos + payload_len then (-1, e\<lparr>le_header := hdr\<rparr>, pos)
                else (0, le_init (bslice pos payload_len buf), pos))"

definition le_get_serialize_size :: "LogEntry \<Rightarrow> nat" where
  "le_get_serialize_size e = leh_size + length (le_buf e)"

section \<open>The base header of a log payload\<close>

datatype ObLogBaseType =
  INVALID_LOG_BASE_TYPE | TRANS_SERVICE_LOG_BASE_TYPE | TABLET_OP_LOG_BASE_TYPE
  | STORAGE_SCHEMA_LOG_BASE_TYPE | DDL_LOG_BASE_TYPE | GC_LS_LOG_BASE_TYPE
  | MAJOR_FREEZE_LOG_BASE_TYPE | PADDING_LOG_BASE_TYPE | MAX_LOG_BASE_TYPE

fun base_type_val :: "ObLogBaseType \<Rightarrow> u16" where
  "base_type_val INVALID_LOG_BASE_TYPE = 0"
| "base_type_val TRANS_SERVICE_LOG_BASE_TYPE = 1"
| "base_type_val TABLET_OP_LOG_BASE_TYPE = 2"
| "base_type_val STORAGE_SCHEMA_LOG_BASE_TYPE = 3"
| "base_type_val DDL_LOG_BASE_TYPE = 5"
| "base_type_val GC_LS_LOG_BASE_TYPE = 9"
| "base_type_val MAJOR_FREEZE_LOG_BASE_TYPE = 10"
| "base_type_val PADDING_LOG_BASE_TYPE = 25"
| "base_type_val MAX_LOG_BASE_TYPE = 26"

definition is_valid_log_base_type :: "ObLogBaseType \<Rightarrow> bool" where
  "is_valid_log_base_type t \<longleftrightarrow>
     base_type_val t > base_type_val INVALID_LOG_BASE_TYPE \<and> base_type_val t < base_type_val MAX_LOG_BASE_TYPE"

lemma base_type_val_inject: "base_type_val s = base_type_val t \<longleftrightarrow> s = t"
  by (cases s; cases t) simp_all

record ObLogBaseHeader =
  blh_version :: u16
  blh_log_type :: u16
  blh_flag :: u32
  blh_replay_hint :: u64

definition blh_init :: ObLogBaseHeader where
  "blh_init = \<lparr>blh_version = 1, blh_log_type = base_type_val INVALID_LOG_BASE_TYPE, blh_flag = 0,
     blh_replay_hint = 0\<rparr>"

definition blh_make :: "ObLogBaseType \<Rightarrow> ObLogBaseHeader" where
  "blh_make t = blh_init\<lparr>blh_log_type := base_type_val t\<rparr>"

definition blh_is_valid :: "ObLogBaseHeader \<Rightarrow> bool" where
  "blh_is_valid h \<longleftrightarrow> blh_version h = 1"

definition blh_size :: nat where "blh_size = 16"

definition blh_enc :: "ObLogBaseHeader \<Rightarrow> bytes" where
  "blh_enc h = put_word (blh_version h) @ put_word (blh_log_type h) @ put_word (blh_flag h) @
     put_word (blh_replay_hint h)"

definition blh_dec :: "bytes \<Rightarrow> ObLogBaseHeader" where
  "blh_dec b = \<lparr>blh_version = get_word (bslice 0 2 b), blh_log_type = get_word (bslice 2 2 b),
     blh_flag = get_word (bslice 4 4 b), blh_replay_hint = get_word (bslice 8 8 b)\<rparr>"

definition blh_serialize :: "ObLogBaseHeader \<Rightarrow> bytes \<Rightarrow> nat \<Rightarrow> ret \<times> bytes \<times> nat" where
  "blh_serialize h buf pos = pod_serialize (blh_enc h) buf pos"

definition blh_deserialize :: "ObLogBaseHeader \<Rightarrow> bytes \<Rightarrow> nat \<Rightarrow> ret \<times> ObLogBaseHeader \<times> nat" where
  "blh_deserialize old buf pos = pod_deserialize blh_size blh_dec old buf pos"

interpretation blh: pod_layout blh_enc blh_dec blh_size
  by unfold_locales (simp_all add: blh_enc_def blh_dec_def blh_size_def layout)

section \<open>Round trips of the headers\<close>

lemma lgh_slice:
  assumes "pos + lgh_size \<le> length buf" "lgh_serialize h buf pos = (r, buf', pos')"
  shows "bslice pos lgh_size buf' = take 8 (lgh_fields h) @ put_word (lgh_data_checksum h) @
      drop 12 (lgh_fields h) @ bslice (pos + 40) 8 buf"
    "r = 0" "pos' = pos + lgh_size" "length buf' = length buf"
proof -
  let ?F = "lgh_fields h" and ?c = "put_word (lgh_data_checksum h)"
  have lF: "length ?F = 40" by (simp add: lgh_fields_def)
  have b': "buf' = blit (pos + 8) ?c (blit pos ?F buf)" "r = 0" "pos' = pos + lgh_size"
    using assms by (auto simp: lgh_serialize_def Let_def)
  show "r = 0" "pos' = pos + lgh_size" using b' by auto
  show "length buf' = length buf" using assms(1) lF by (simp add: b'(1) lgh_size_def)
  have "bslice pos 48 buf' = blit 8 ?c (blit 0 ?F (bslice pos 48 buf))"
    using assms(1) lF
    by (simp add: b'(1) slice_blit_inside lgh_size_def)
  also have "\<dots> = take 8 ?F @ ?c @ drop 12 ?F @ bslice (pos + 40) 8 buf"
    using assms(1) lF by (simp add: blit_0 blit_def bslice_def drop_take lgh_size_def add.commute)
  finally show "bslice pos lgh_size buf' = take 8 ?F @ ?c @ drop 12 ?F @ bslice (pos + 40) 8 buf"
    by (simp add: lgh_size_def)
qed

text \<open>What comes back: every field but \<^verbatim>\<open>log_id_\<close>, whose low half is the checksum, and the
  checksum, which is whatever the buffer held before.\<close>

definition lgh_garbled :: "LogGroupEntryHeader \<Rightarrow> u32 \<Rightarrow> LogGroupEntryHeader" where
  "lgh_garbled h stale = h\<lparr>
     lgh_log_id := word_of_nat (unat (lgh_data_checksum h) + 2 ^ 32 * (unat (lgh_log_id h) div 2 ^ 32)),
     lgh_data_checksum := stale\<rparr>"

lemma garbled_log_id:
  "get_word (put_word (c :: u32) @ drop 4 (put_word (l :: u64))) =
     (word_of_nat (unat c + 2 ^ 32 * (unat l div 2 ^ 32)) :: u64)"
proof -
  have "unat l < 18446744073709551616" using unsigned_less [of l] by simp
  then have "unat l div 2 ^ 32 < 2 ^ 32" by (simp add: less_mult_imp_div_less)
  moreover have "unat c < 4294967296" using unsigned_less [of c] by simp
  ultimately show ?thesis
    by (simp add: get_word_def put_word_def le_value_append drop_le_bytes le_value_le_bytes)
qed

lemma lgh_roundtrip:
  assumes "pos + lgh_size \<le> length buf" "lgh_serialize h buf pos = (r, buf', pos')"
  shows "lgh_deserialize old buf' pos = (0, lgh_garbled h (get_word (bslice (pos + 40) 4 buf)), pos + lgh_size)"
proof -
  note sl = lgh_slice [OF assms]
  let ?b = "bslice pos lgh_size buf'"
  have b: "?b = put_word (lgh_magic h) @ put_word (lgh_version h) @ put_word (lgh_group_entry_size h) @
      (put_word (lgh_data_checksum h) @ drop 4 (put_word (lgh_log_id h))) @ put_word (lgh_log_proposal_id h) @
      put_word (lsn_val (lgh_prev_lsn h)) @ put_word (lsn_val (lgh_committed_end_lsn h)) @
      bslice (pos + 40) 4 buf @ bslice (pos + 44) 4 buf"
  proof -
    have "bslice (pos + 40) 8 buf = bslice (pos + 40) 4 buf @ bslice (pos + 44) 4 buf"
      using bslice_split [of "pos + 40" 4 4 buf] by (simp add: add.commute)
    then show ?thesis unfolding sl(1) by (simp add: lgh_fields_def)
  qed
  have "lgh_dec ?b = lgh_garbled h (get_word (bslice (pos + 40) 4 buf))"
    using assms(1) unfolding b
    by (simp add: lgh_dec_def lgh_garbled_def layout garbled_log_id lgh_size_def del: append_assoc)
  then show ?thesis using assms(1) sl(4) by (simp add: lgh_deserialize_def pod_deserialize_def)
qed

lemma le_roundtrip:
  assumes "le_serialize (le_init data) buf pos = (0, buf', pos')" "length data < 2 ^ 32"
  shows "le_deserialize old buf' pos = (0, le_init data, pos + leh_size)" "pos' = pos + leh_size + length data"
proof -
  let ?h = "le_header (le_init data)"
  obtain buf1 where s1: "leh_serialize ?h buf pos = (0, buf1, pos + leh_size)"
    and room: "pos + leh_size + length data \<le> length buf1"
    and b': "buf' = blit (pos + leh_size) data buf1" "pos' = pos + leh_size + length data"
    using assms(1) leh.length_enc [of ?h]
    by (auto simp: le_serialize_def leh_serialize_def pod_serialize_def le_init_def split: if_splits)
  note e1 = leh.serialize_elim [OF s1 [unfolded leh_serialize_def]]
  have "bslice pos leh_size buf' = leh_enc ?h"
    using e1(4,5) room b'(1) slice_blit_before [of pos leh_size "pos + leh_size" data buf1] by simp
  then have d: "leh_deserialize (le_header old) buf' pos = (0, ?h, pos + leh_size)"
    using leh.roundtrip_slice [of pos buf' ?h "le_header old"] room b'(1) by (simp add: leh_deserialize_def)
  have "unat (leh_data_len ?h) = length data"
    using assms(2) by (simp add: le_init_def unsigned_of_nat take_bit_eq_mod)
  then show "le_deserialize old buf' pos = (0, le_init data, pos + leh_size)"
    using d room b'(1) slice_blit_same [of "pos + leh_size" data buf1] by (simp add: le_deserialize_def)
  show "pos' = pos + leh_size + length data" using b'(2) .
qed

section \<open>Log metadata\<close>

record LogConfigMeta =
  lcm_proposal_id :: u64
  lcm_prev_lsn :: LSN
  lcm_prev_log_proposal_id :: u64
  lcm_prev_mode_pid :: u64
  lcm_config_version :: u64
  lcm_config_seq :: u64
  lcm_member_count :: u32
  lcm_member_data :: bytes

record LogMeta =
  lm_config_meta :: LogConfigMeta
  lm_snapshot_lsn :: LSN
  lm_snapshot_version :: u64
  lm_mode_proposal_id :: u64
  lm_mode_access_mode :: u32
  lm_mode_is_applied :: bool
  lm_log_snapshot_lsn :: LSN

definition lcm_init :: "u64 \<Rightarrow> LSN \<Rightarrow> u64 \<Rightarrow> u64 \<Rightarrow> u64 \<times> u64 \<Rightarrow> LogConfigMeta \<Rightarrow> ret \<times> LogConfigMeta" where
  "lcm_init proposal_id prev_lsn prev_log_proposal_id prev_mode_pid config_version m =
     (0, m\<lparr>lcm_proposal_id := proposal_id, lcm_prev_lsn := prev_lsn,
           lcm_prev_log_proposal_id := prev_log_proposal_id, lcm_prev_mode_pid := prev_mode_pid,
           lcm_config_version := fst config_version, lcm_config_seq := snd config_version,
           lcm_member_count := 1\<rparr>)"

definition lcm_is_valid :: "LogConfigMeta \<Rightarrow> bool" where
  "lcm_is_valid m \<longleftrightarrow> sint (lcm_proposal_id m) > 0"

text \<open>\<^verbatim>\<open>sizeof(LogConfigMeta) + sizeof(LogSnapshotMeta) + sizeof(LogModeMeta) + sizeof(LSN)\<close>.\<close>

definition lm_get_serialize_size :: nat where
  "lm_get_serialize_size = 4152 + 16 + 16 + 8"

record LogMetaEntry =
  lme_magic :: u32
  lme_meta_size :: u32
  lme_checksum :: u32
  lme_meta :: LogMeta

definition LME_MAGIC :: u32 where "LME_MAGIC = 0x4D48"

definition lme_init :: "LogMeta \<Rightarrow> LogMetaEntry \<Rightarrow> ret \<times> LogMetaEntry" where
  "lme_init m e = (0, e\<lparr>lme_meta := m, lme_meta_size := word_of_nat lm_get_serialize_size\<rparr>)"

definition lme_get_serialize_size :: "LogMetaEntry \<Rightarrow> nat" where
  "lme_get_serialize_size e = 12 + unat (lme_meta_size e)"

definition lme_header_bytes :: "LogMetaEntry \<Rightarrow> bytes" where
  "lme_header_bytes e = put_word (lme_magic e) @ put_word (lme_meta_size e) @ put_word (lme_checksum e)"

definition lcm_bytes :: "LogConfigMeta \<Rightarrow> bytes" where
  "lcm_bytes m = put_word (lcm_proposal_id m) @ put_word (lsn_val (lcm_prev_lsn m)) @
     put_word (lcm_prev_log_proposal_id m) @ put_word (lcm_prev_mode_pid m) @
     put_word (lcm_config_version m) @ put_word (lcm_config_seq m) @ put_word (lcm_member_count m)"

definition lcm_read :: "bytes \<Rightarrow> LogConfigMeta \<Rightarrow> LogConfigMeta" where
  "lcm_read b m = m\<lparr>lcm_proposal_id := get_word (bslice 0 8 b), lcm_prev_lsn := LSN (get_word (bslice 8 8 b)),
     lcm_prev_log_proposal_id := get_word (bslice 16 8 b), lcm_prev_mode_pid := get_word (bslice 24 8 b),
     lcm_config_version := get_word (bslice 32 8 b), lcm_config_seq := get_word (bslice 40 8 b),
     lcm_member_count := get_word (bslice 48 4 b)\<rparr>"

text \<open>The body is stored at the absolute offset 12, whatever \<^verbatim>\<open>pos\<close> was, and \<^verbatim>\<open>pos\<close> is then set
  absolutely.  A body that does not fit the buffer has no defined result.\<close>

definition lme_serialize :: "LogMetaEntry \<Rightarrow> bytes \<Rightarrow> nat \<Rightarrow> (ret \<times> bytes \<times> nat) option" where
  "lme_serialize e buf pos =
     (let total = lme_get_serialize_size e
      in if length buf < pos + total then Some (-1, buf, pos)
         else if length buf < 12 + 52 then None
         else let buf = blit pos (lme_header_bytes e) buf;
                  buf = blit 12 (lcm_bytes (lm_config_meta (lme_meta e))) buf
              in Some (0, buf, total))"

definition lme_deserialize :: "LogMetaEntry \<Rightarrow> bytes \<Rightarrow> nat \<Rightarrow> LogMeta \<Rightarrow> (ret \<times> LogMetaEntry \<times> nat \<times> LogMeta) option" where
  "lme_deserialize e buf pos m =
     (if length buf < pos + 12 then Some (-1, e, pos, m)
      else let e = e\<lparr>lme_magic := get_word (bslice pos 4 buf), lme_meta_size := get_word (bslice (pos + 4) 4 buf),
                     lme_checksum := get_word (bslice (pos + 8) 4 buf)\<rparr>
           in if lme_magic e \<noteq> LME_MAGIC then Some (-1, e, 12, m)
              else if length buf < 12 + unat (lme_meta_size e) then Some (-1, e, 12, m)
              else if length buf < 12 + 52 then None
              else Some (0, e, length buf, m\<lparr>lm_config_meta := lcm_read (bslice 12 52 buf) (lm_config_meta m)\<rparr>))"

definition lcm_same :: "LogConfigMeta \<Rightarrow> LogConfigMeta \<Rightarrow> LogConfigMeta" where
  "lcm_same m old = m\<lparr>lcm_member_data := lcm_member_data old\<rparr>"

lemma length_lcm_bytes [simp]: "length (lcm_bytes m) = 52"
  by (simp add: lcm_bytes_def)

lemma length_lme_header_bytes [simp]: "length (lme_header_bytes e) = 12"
  by (simp add: lme_header_bytes_def)

lemma lcm_read_bytes: "lcm_read (lcm_bytes m) old = lcm_same m old"
  by (simp add: lcm_read_def lcm_bytes_def lcm_same_def layout)

text \<open>Deserialising finds the header where \<^verbatim>\<open>pos\<close> says, and the body of the last entry that was
  serialised anywhere in the buffer.\<close>

lemma lme_deserialize_bytes:
  assumes "bslice pos 12 buf = lme_header_bytes e" "bslice 12 52 buf = lcm_bytes c"
    and "lme_magic e = LME_MAGIC" "unat (lme_meta_size e) = lm_get_serialize_size"
    and "pos + 12 \<le> length buf" "12 + lm_get_serialize_size \<le> length buf"
  shows "lme_deserialize e0 buf pos m =
    Some (0, e0\<lparr>lme_magic := lme_magic e, lme_meta_size := lme_meta_size e, lme_checksum := lme_checksum e\<rparr>,
          length buf, m\<lparr>lm_config_meta := lcm_same c (lm_config_meta m)\<rparr>)"
proof -
  have f: "bslice (pos + k) 4 buf = bslice k 4 (lme_header_bytes e)" if "k + 4 \<le> 12" for k
    using slice_slice [OF that, of pos buf] assms(1) by simp
  have "bslice pos 4 buf = put_word (lme_magic e)" "bslice (pos + 4) 4 buf = put_word (lme_meta_size e)"
    "bslice (pos + 8) 4 buf = put_word (lme_checksum e)"
    using f [of 0] f [of 4] f [of 8] by (simp_all add: lme_header_bytes_def layout)
  then show ?thesis
    using assms(2-6) by (simp add: lme_deserialize_def Let_def lcm_read_bytes lm_get_serialize_size_def)
qed

section \<open>The read cache\<close>

record LogCache =
  lc_buf :: bytes
  lc_begin_lsn :: LSN
  lc_end_lsn :: LSN
  lc_is_inited :: bool

definition lc_new :: LogCache where
  "lc_new = \<lparr>lc_buf = [], lc_begin_lsn = lsn_init, lc_end_lsn = lsn_init, lc_is_inited = False\<rparr>"

definition lc_init :: "bytes \<Rightarrow> LogCache \<Rightarrow> ret \<times> LogCache" where
  "lc_init memory c = (0, c\<lparr>lc_buf := memory, lc_is_inited := True\<rparr>)"

definition lc_destroy :: "LogCache \<Rightarrow> LogCache" where
  "lc_destroy c = c\<lparr>lc_buf := [], lc_is_inited := False\<rparr>"

definition lc_put :: "LSN \<Rightarrow> bytes \<Rightarrow> LogCache \<Rightarrow> ret \<times> LogCache" where
  "lc_put lsn data c =
     (if length data > length (lc_buf c) then (-1, c)
      else (0, c\<lparr>lc_buf := blit 0 data (lc_buf c), lc_begin_lsn := lsn,
                 lc_end_lsn := lsn_add lsn (word_of_nat (length data))\<rparr>))"

text \<open>\<^verbatim>\<open>get\<close> returns the bytes it copies to the caller's buffer.\<close>

definition lc_get :: "LSN \<Rightarrow> nat \<Rightarrow> LogCache \<Rightarrow> ret \<times> bytes" where
  "lc_get lsn read_size c =
     (if \<not> lc_is_inited c then (-1, [])
      else if lsn \<ge> lc_begin_lsn c \<and> lsn < lc_end_lsn c then
        let offset = unat (lsn_diff lsn (lc_begin_lsn c));
            remain = unat (lsn_diff (lc_end_lsn c) lsn)
        in (0, bslice offset (min read_size remain) (lc_buf c))
      else (-1, []))"

section \<open>The I/O worker\<close>

text \<open>The background thread of \<^verbatim>\<open>LogIOWorker\<close> and its clients as a transition system.
  The thread is at the head of its loop, blocked in the wait, or gone; \<open>iw_done\<close> records the
  tasks it ran.\<close>

datatype iw_pc = Not_started | Loop_head | Waiting | Exited

record 'a LogIOWorker =
  iw_queue :: "'a list"
  iw_stop :: bool
  iw_pc :: iw_pc
  iw_done :: "'a list"

definition iw_new :: "'a LogIOWorker" where
  "iw_new = \<lparr>iw_queue = [], iw_stop = False, iw_pc = Not_started, iw_done = []\<rparr>"

inductive iw_step :: "'a LogIOWorker \<Rightarrow> 'a LogIOWorker \<Rightarrow> bool" where
  iw_init: "iw_pc w = Not_started \<Longrightarrow> iw_step w (w\<lparr>iw_stop := False, iw_pc := Loop_head\<rparr>)"
| iw_submit: "iw_step w (w\<lparr>iw_queue := iw_queue w @ [t]\<rparr>)"
| iw_destroy: "iw_pc w \<noteq> Not_started \<Longrightarrow> iw_step w (w\<lparr>iw_stop := True\<rparr>)"
| iw_loop: "iw_pc w = Loop_head \<Longrightarrow> \<not> iw_stop w \<Longrightarrow> iw_step w (w\<lparr>iw_pc := Waiting\<rparr>)"
| iw_exit: "iw_pc w = Loop_head \<Longrightarrow> iw_stop w \<Longrightarrow> iw_step w (w\<lparr>iw_pc := Exited\<rparr>)"
| iw_break: "iw_pc w = Waiting \<Longrightarrow> iw_stop w \<Longrightarrow> iw_queue w = [] \<Longrightarrow> iw_step w (w\<lparr>iw_pc := Exited\<rparr>)"
| iw_run: "iw_pc w = Waiting \<Longrightarrow> iw_queue w = t # q \<Longrightarrow>
    iw_step w (w\<lparr>iw_queue := q, iw_done := iw_done w @ [t], iw_pc := Loop_head\<rparr>)"

inductive_cases iw_step_cases: "iw_step w w'"

text \<open>Tasks run in the order of submission, none twice, none lost while it is queued.\<close>

lemma iw_step_order:
  assumes "iw_step w w'"
  shows "\<exists>new. iw_done w' @ iw_queue w' = (iw_done w @ iw_queue w) @ new"
  using assms by cases auto

lemma iw_steps_order:
  assumes "iw_step\<^sup>*\<^sup>* w w'"
  shows "\<exists>new. iw_done w' @ iw_queue w' = (iw_done w @ iw_queue w) @ new"
  using assms
proof (induction rule: rtranclp_induct)
  case (step y z)
  then show ?case using iw_step_order [OF step(2)] by (metis append.assoc)
qed simp

text \<open>Once the stop flag is set the thread runs at most the one task it is waiting for.\<close>

definition iw_budget :: "'a LogIOWorker \<Rightarrow> nat" where
  "iw_budget w = length (iw_done w) + (if iw_pc w = Waiting then 1 else 0)"

lemma iw_stop_budget:
  assumes "iw_step w w'" "iw_stop w" "iw_pc w \<noteq> Not_started"
  shows "iw_stop w' \<and> iw_pc w' \<noteq> Not_started \<and> iw_budget w' \<le> iw_budget w"
  using assms by cases (auto simp: iw_budget_def)

lemma iw_stop_bound:
  assumes "iw_step\<^sup>*\<^sup>* w w'" "iw_stop w" "iw_pc w \<noteq> Not_started"
  shows "length (iw_done w') \<le> length (iw_done w) + 1"
proof -
  have "iw_stop w' \<and> iw_pc w' \<noteq> Not_started \<and> iw_budget w' \<le> iw_budget w"
    using assms
  proof (induction rule: rtranclp_induct)
    case (step y z)
    then show ?case using iw_stop_budget [OF step(2)] by auto
  qed simp
  then show ?thesis by (auto simp: iw_budget_def split: if_splits)
qed

end
