(* ===== verification/Ob_Log_Storage.thy ===== *)
theory Ob_Log_Storage
  imports Ob_Palf_Log
begin

text \<open>
  Block files of the log: \<^verbatim>\<open>palf/log_storage\<close> and the same file operations in
  \<^verbatim>\<open>log_io_adapter\<close>.  A log directory maps block ids to inodes and inodes to files, because
  \<^verbatim>\<open>LogStorage\<close> keeps a descriptor open: a block that is unlinked while it is open stays
  writable through the descriptor and is invisible to readers.  What the operating system
  does with the calls of one operation is the argument \<open>io\<close>: which calls fail, and how
  many bytes a \<^verbatim>\<open>write\<close> transfers.
\<close>

section \<open>Directories and system calls\<close>

record log_fs =
  lf_dir :: "u64 \<rightharpoonup> nat"
  lf_files :: "nat \<Rightarrow> posix_file"
  lf_fresh :: nat

record io =
  io_open_ok :: bool
  io_lseek_ok :: bool
  io_ftruncate_ok :: bool
  io_read_ok :: bool
  io_written :: "nat \<Rightarrow> int"

definition io_good :: io where
  "io_good = \<lparr>io_open_ok = True, io_lseek_ok = True, io_ftruncate_ok = True, io_read_ok = True,
     io_written = int\<rparr>"

definition lf_empty :: log_fs where
  "lf_empty = \<lparr>lf_dir = Map.empty, lf_files = (\<lambda>_. new_file), lf_fresh = 0\<rparr>"

text \<open>\<^verbatim>\<open>open(path, O_RDWR | O_CREAT)\<close>, with or without \<^verbatim>\<open>O_TRUNC\<close>, when it succeeds.\<close>

definition fs_open :: "u64 \<Rightarrow> bool \<Rightarrow> log_fs \<Rightarrow> nat \<times> log_fs" where
  "fs_open b trunc fs =
     (case lf_dir fs b of
        Some i \<Rightarrow> (i, if trunc then fs\<lparr>lf_files := (lf_files fs)(i := new_file)\<rparr> else fs)
      | None \<Rightarrow> (lf_fresh fs, fs\<lparr>lf_dir := (lf_dir fs)(b \<mapsto> lf_fresh fs),
                                lf_files := (lf_files fs)(lf_fresh fs := new_file),
                                lf_fresh := lf_fresh fs + 1\<rparr>))"

definition fs_write :: "nat \<Rightarrow> nat \<Rightarrow> bytes \<Rightarrow> log_fs \<Rightarrow> log_fs" where
  "fs_write i off bs fs = fs\<lparr>lf_files := (lf_files fs)(i := pwrite_file off bs (lf_files fs i))\<rparr>"

definition fs_ftruncate :: "nat \<Rightarrow> nat \<Rightarrow> log_fs \<Rightarrow> log_fs" where
  "fs_ftruncate i n fs = fs\<lparr>lf_files := (lf_files fs)(i := ftruncate_file n (lf_files fs i))\<rparr>"

definition block_file :: "log_fs \<Rightarrow> u64 \<Rightarrow> posix_file option" where
  "block_file fs b = map_option (lf_files fs) (lf_dir fs b)"

section \<open>Log storage\<close>

record LogStorage =
  lst_block_size :: u64
  lst_cur_fd :: "nat option"
  lst_cur_block_id :: u64
  lst_max_block_id :: u64
  lst_min_block_id :: u64
  lst_is_inited :: bool

definition lst_new :: LogStorage where
  "lst_new = \<lparr>lst_block_size = PALF_BLOCK_SIZE, lst_cur_fd = None, lst_cur_block_id = LOG_INVALID_BLOCK_ID,
     lst_max_block_id = LOG_INVALID_BLOCK_ID, lst_min_block_id = LOG_INVALID_BLOCK_ID, lst_is_inited = False\<rparr>"

definition close_current_block :: "LogStorage \<Rightarrow> LogStorage" where
  "close_current_block st = st\<lparr>lst_cur_fd := None, lst_cur_block_id := LOG_INVALID_BLOCK_ID\<rparr>"

definition lst_destroy :: "LogStorage \<Rightarrow> LogStorage" where
  "lst_destroy st = (close_current_block st)\<lparr>lst_is_inited := False\<rparr>"

definition open_block :: "io \<Rightarrow> u64 \<Rightarrow> LogStorage \<Rightarrow> log_fs \<Rightarrow> ret \<times> LogStorage \<times> log_fs" where
  "open_block io b st fs =
     (let st = close_current_block st
      in if \<not> io_open_ok io then (-1, st, fs)
         else case fs_open b False fs of (i, fs) \<Rightarrow>
           (0, st\<lparr>lst_cur_fd := Some i, lst_cur_block_id := b\<rparr>, fs))"

definition create_next_block :: "io \<Rightarrow> LogStorage \<Rightarrow> log_fs \<Rightarrow> ret \<times> LogStorage \<times> log_fs" where
  "create_next_block io st fs =
     (let next_id = lst_max_block_id st + 1
      in if \<not> io_open_ok io then (-1, st, fs)
         else case fs_open next_id True fs of (i, fs) \<Rightarrow>
           if \<not> io_ftruncate_ok io then (-1, st, fs)
           else (0, st\<lparr>lst_max_block_id := next_id\<rparr>, fs_ftruncate i PALF_PHY_BLOCK_SIZE fs))"

text \<open>The scan of \<^verbatim>\<open>init\<close> over the consecutive block files; it never ends on a directory with
  a file for every id.\<close>

partial_function (option) scan_blocks :: "(u64 \<rightharpoonup> nat) \<Rightarrow> u64 \<Rightarrow> u64 \<Rightarrow> u64 \<Rightarrow> (u64 \<times> u64) option" where
  [code]: "scan_blocks dir bid mn mx =
     (case dir bid of
        Some _ \<Rightarrow> scan_blocks dir (bid + 1) (if mn = LOG_INVALID_BLOCK_ID then bid else mn) bid
      | None \<Rightarrow> Some (mn, mx))"

definition lst_init :: "io \<Rightarrow> io \<Rightarrow> u64 \<Rightarrow> LogStorage \<Rightarrow> log_fs \<Rightarrow> (ret \<times> LogStorage \<times> log_fs) option" where
  "lst_init io1 io2 block_size st fs =
     (if lst_is_inited st then Some (-1, st, fs)
      else do {
        (mn, mx) \<leftarrow> scan_blocks (lf_dir fs) 0 LOG_INVALID_BLOCK_ID LOG_INVALID_BLOCK_ID;
        let st = st\<lparr>lst_block_size := block_size, lst_min_block_id := mn, lst_max_block_id := mx\<rparr>;
        if mn = LOG_INVALID_BLOCK_ID then
          (case create_next_block io1 (st\<lparr>lst_min_block_id := 0, lst_max_block_id := - 1\<rparr>) fs of (ret, st, fs) \<Rightarrow>
             if ret \<noteq> 0 then Some (ret, st, fs)
             else (case open_block io2 0 st fs of (ret, st, fs) \<Rightarrow>
                     if ret \<noteq> 0 then Some (ret, st, fs)
                     else Some (0, st\<lparr>lst_is_inited := True\<rparr>, fs)))
        else Some (0, st\<lparr>lst_is_inited := True\<rparr>, fs)
      })"

definition lst_append :: "io \<Rightarrow> LSN \<Rightarrow> bytes \<Rightarrow> LogStorage \<Rightarrow> log_fs \<Rightarrow> ret \<times> LogStorage \<times> log_fs" where
  "lst_append io lsn buf st fs =
     (if \<not> lst_is_inited st then (-1, st, fs)
      else if buf = [] then (0, st, fs)
      else let target_block = lsn_2_block lsn (lst_block_size st);
               target_offset = lsn_2_offset lsn (lst_block_size st);
               (ret, st, fs) = (if lst_cur_block_id st \<noteq> target_block then open_block io target_block st fs
                                else (0, st, fs))
           in if ret \<noteq> 0 then (ret, st, fs)
              else case lst_cur_fd st of
                None \<Rightarrow> (-1, st, fs)
              | Some fd \<Rightarrow>
                  if \<not> io_lseek_ok io then (-1, st, fs)
                  else let written = io_written io (length buf);
                           fs = (if written < 0 then fs
                                 else fs_write fd (unat target_offset + MAX_INFO_BLOCK_SIZE)
                                        (take (nat written) buf) fs)
                       in if written < 0 then (-1, st, fs)
                          else if written \<noteq> int (length buf) then (-1, st, fs)
                          else (0, if target_block > lst_max_block_id st
                                   then st\<lparr>lst_max_block_id := target_block\<rparr> else st, fs))"

text \<open>\<^verbatim>\<open>read\<close> returns the bytes it stores into the caller's buffer of \<open>buf_len\<close> bytes; their
  number is \<^verbatim>\<open>out_read_size\<close>.\<close>

definition lst_read :: "io \<Rightarrow> LSN \<Rightarrow> nat \<Rightarrow> nat \<Rightarrow> LogStorage \<Rightarrow> log_fs \<Rightarrow> ret \<times> bytes" where
  "lst_read io lsn in_read_size buf_len st fs =
     (if \<not> lst_is_inited st then (-1, [])
      else let target_block = lsn_2_block lsn (lst_block_size st);
               target_offset = unat (lsn_2_offset lsn (lst_block_size st))
           in case lf_dir fs target_block of
                None \<Rightarrow> (-1, [])
              | Some i \<Rightarrow>
                  if \<not> io_open_ok io then (-1, [])
                  else let to_read = min in_read_size buf_len;
                           to_read = (if target_offset + to_read > unat (lst_block_size st)
                                      then unat (lst_block_size st) - target_offset else to_read)
                       in if \<not> io_lseek_ok io then (-1, [])
                          else if \<not> io_read_ok io then (-1, [])
                          else (0, pread_file (target_offset + MAX_INFO_BLOCK_SIZE) to_read (lf_files fs i)))"

definition read_block :: "io \<Rightarrow> u64 \<Rightarrow> nat \<Rightarrow> nat \<Rightarrow> log_fs \<Rightarrow> ret \<times> bytes" where
  "read_block io b offset buf_len fs =
     (case lf_dir fs b of
        None \<Rightarrow> (-1, [])
      | Some i \<Rightarrow>
          if \<not> io_open_ok io then (-1, [])
          else if \<not> io_lseek_ok io then (-1, [])
          else if \<not> io_read_ok io then (-1, [])
          else (0, pread_file offset buf_len (lf_files fs i)))"

text \<open>The header is read over the 48 bytes \<open>old\<close> of the caller's object.\<close>

definition read_group_entry_header :: "io \<Rightarrow> LSN \<Rightarrow> bytes \<Rightarrow> LogStorage \<Rightarrow> log_fs \<Rightarrow> ret \<times> bytes" where
  "read_group_entry_header io lsn old st fs =
     (case lst_read io lsn lgh_size lgh_size st fs of (ret, bs) \<Rightarrow>
        if ret \<noteq> 0 then (ret, old)
        else if length bs < lgh_size then (-1, blit 0 bs old)
        else (if lgh_is_valid (lgh_dec bs) then 0 else -1, bs))"

partial_function (option) unlink_up :: "u64 \<Rightarrow> u64 \<Rightarrow> (u64 \<rightharpoonup> nat) \<Rightarrow> (u64 \<rightharpoonup> nat) option" where
  [code]: "unlink_up bid mx dir =
     (if bid \<le> mx then unlink_up (bid + 1) mx (dir(bid := None)) else Some dir)"

partial_function (option) unlink_below :: "u64 \<Rightarrow> u64 \<Rightarrow> (u64 \<rightharpoonup> nat) \<Rightarrow> (u64 \<rightharpoonup> nat) option" where
  [code]: "unlink_below bid b dir =
     (if bid < b then unlink_below (bid + 1) b (dir(bid := None)) else Some dir)"

definition lst_truncate :: "io \<Rightarrow> LSN \<Rightarrow> LogStorage \<Rightarrow> log_fs \<Rightarrow> (ret \<times> LogStorage \<times> log_fs) option" where
  "lst_truncate io lsn st fs =
     (let block = lsn_2_block lsn (lst_block_size st);
          offset = lsn_2_offset lsn (lst_block_size st)
      in case lf_dir fs block of
           None \<Rightarrow> Some (-1, st, fs)
         | Some i \<Rightarrow>
             if \<not> io_open_ok io then Some (-1, st, fs)
             else if \<not> io_ftruncate_ok io then Some (-1, st, fs)
             else do {
               let fs = fs_ftruncate i (unat offset + MAX_INFO_BLOCK_SIZE) fs;
               dir \<leftarrow> unlink_up (block + 1) (lst_max_block_id st) (lf_dir fs);
               Some (0, st\<lparr>lst_max_block_id := block\<rparr>, fs\<lparr>lf_dir := dir\<rparr>)
             })"

definition truncate_prefix_blocks :: "LSN \<Rightarrow> LogStorage \<Rightarrow> log_fs \<Rightarrow> (ret \<times> LogStorage \<times> log_fs) option" where
  "truncate_prefix_blocks lsn st fs = do {
     let block = lsn_2_block lsn (lst_block_size st);
     dir \<leftarrow> unlink_below (lst_min_block_id st) block (lf_dir fs);
     Some (0, st\<lparr>lst_min_block_id := block\<rparr>, fs\<lparr>lf_dir := dir\<rparr>)
   }"

definition lst_get_begin_lsn :: "LogStorage \<Rightarrow> LSN" where
  "lst_get_begin_lsn st = LSN (lst_min_block_id st * lst_block_size st)"

definition get_block_id_range :: "LogStorage \<Rightarrow> ret \<times> u64 \<times> u64" where
  "get_block_id_range st = (0, lst_min_block_id st, lst_max_block_id st)"

section \<open>The I/O adapter\<close>

definition adapter_pwrite :: "io \<Rightarrow> u64 \<Rightarrow> bytes \<Rightarrow> nat \<Rightarrow> log_fs \<Rightarrow> ret \<times> log_fs" where
  "adapter_pwrite io file_id buf offset fs =
     (if \<not> io_open_ok io then (-1, fs)
      else case fs_open file_id False fs of (i, fs) \<Rightarrow>
        if \<not> io_lseek_ok io then (-1, fs)
        else let written = io_written io (length buf);
                 fs = (if written < 0 then fs else fs_write i offset (take (nat written) buf) fs)
             in (if written = int (length buf) then 0 else -1, fs))"

definition adapter_pread :: "io \<Rightarrow> u64 \<Rightarrow> nat \<Rightarrow> nat \<Rightarrow> log_fs \<Rightarrow> ret \<times> bytes" where
  "adapter_pread io file_id buf_len offset fs = read_block io file_id offset buf_len fs"

section \<open>Invariant and effect of the operations\<close>

definition fs_wf :: "log_fs \<Rightarrow> bool" where
  "fs_wf fs \<longleftrightarrow> inj_on (lf_dir fs) (dom (lf_dir fs)) \<and> (\<forall>i \<in> ran (lf_dir fs). i < lf_fresh fs)"

definition lst_wf :: "LogStorage \<Rightarrow> log_fs \<Rightarrow> bool" where
  "lst_wf st fs \<longleftrightarrow> lst_is_inited st \<and> 0 < lst_block_size st \<and> fs_wf fs \<and>
     (case lst_cur_fd st of
        None \<Rightarrow> lst_cur_block_id st = LOG_INVALID_BLOCK_ID
      | Some i \<Rightarrow> lf_dir fs (lst_cur_block_id st) = Some i)"

definition base_file :: "log_fs \<Rightarrow> u64 \<Rightarrow> posix_file" where
  "base_file fs b = (case block_file fs b of None \<Rightarrow> new_file | Some f \<Rightarrow> f)"

lemma fs_wf_inj: "fs_wf fs \<Longrightarrow> lf_dir fs b = Some i \<Longrightarrow> lf_dir fs c = Some i \<Longrightarrow> b = c"
  unfolding fs_wf_def by (metis domI inj_onD)

lemma fs_wf_fresh: "fs_wf fs \<Longrightarrow> lf_dir fs b \<noteq> Some (lf_fresh fs)"
  unfolding fs_wf_def by (metis less_irrefl ranI)

lemma inj_on_map_upd_fresh:
  assumes "fs_wf fs"
  shows "inj_on ((lf_dir fs)(b \<mapsto> lf_fresh fs)) (dom ((lf_dir fs)(b \<mapsto> lf_fresh fs)))"
proof (rule inj_onI)
  fix x y
  assume xy: "x \<in> dom ((lf_dir fs)(b \<mapsto> lf_fresh fs))" "y \<in> dom ((lf_dir fs)(b \<mapsto> lf_fresh fs))"
    "((lf_dir fs)(b \<mapsto> lf_fresh fs)) x = ((lf_dir fs)(b \<mapsto> lf_fresh fs)) y"
  then show "x = y"
    using fs_wf_fresh [OF assms, of x] fs_wf_fresh [OF assms, of y] fs_wf_inj [OF assms, of x _ y]
    by (auto split: if_splits)
qed

lemma fs_open_keep:
  assumes "fs_wf fs" "fs_open b False fs = (i, fs')"
  shows "fs_wf fs'" "lf_dir fs' b = Some i" "block_file fs' b = Some (base_file fs b)"
    "\<And>c. c \<noteq> b \<Longrightarrow> block_file fs' c = block_file fs c" "\<And>c j. lf_dir fs c = Some j \<Longrightarrow> lf_dir fs' c = Some j"
proof -
  show "fs_wf fs'"
  proof (cases "lf_dir fs b")
    case None
    then show ?thesis
      using assms inj_on_map_upd_fresh [OF assms(1), of b]
      by (auto simp: fs_open_def fs_wf_def less_Suc_eq)
  next
    case (Some j)
    then show ?thesis using assms by (simp add: fs_open_def)
  qed
  show "lf_dir fs' b = Some i" "block_file fs' b = Some (base_file fs b)"
    using assms(2) by (auto simp: fs_open_def block_file_def base_file_def split: option.splits)
  show "block_file fs' c = block_file fs c" if "c \<noteq> b" for c
    using assms(2) that fs_wf_fresh [OF assms(1), of c]
    by (cases "lf_dir fs c") (auto simp: fs_open_def block_file_def split: option.splits)
  show "lf_dir fs' c = Some j" if "lf_dir fs c = Some j" for c j
    using assms(2) that by (auto simp: fs_open_def split: option.splits)
qed

lemma fs_write_block:
  assumes "fs_wf fs" "lf_dir fs b = Some i"
  shows "fs_wf (fs_write i off bs fs)" "lf_dir (fs_write i off bs fs) = lf_dir fs"
    "block_file (fs_write i off bs fs) b = Some (pwrite_file off bs (base_file fs b))"
    "\<And>c. c \<noteq> b \<Longrightarrow> block_file (fs_write i off bs fs) c = block_file fs c"
proof -
  show "fs_wf (fs_write i off bs fs)" "lf_dir (fs_write i off bs fs) = lf_dir fs"
    using assms(1) by (simp_all add: fs_write_def fs_wf_def)
  show "block_file (fs_write i off bs fs) b = Some (pwrite_file off bs (base_file fs b))"
    using assms(2) by (simp add: fs_write_def block_file_def base_file_def)
  show "block_file (fs_write i off bs fs) c = block_file fs c" if "c \<noteq> b" for c
    using that fs_wf_inj [OF assms(1), of c i b] assms(2)
    by (cases "lf_dir fs c") (auto simp: fs_write_def block_file_def)
qed

lemma open_block_effect:
  assumes "lst_wf st fs" "open_block io b st fs = (r, st', fs')"
  shows "lst_wf st' fs'" "r = 0 \<Longrightarrow> lst_cur_block_id st' = b" "r = 0 \<Longrightarrow> \<exists>i. lst_cur_fd st' = Some i"
    "block_file fs' b = (if r = 0 then Some (base_file fs b) else block_file fs b)"
    "\<And>c. c \<noteq> b \<Longrightarrow> block_file fs' c = block_file fs c"
    "lst_block_size st' = lst_block_size st" "lst_min_block_id st' = lst_min_block_id st"
    "lst_max_block_id st' = lst_max_block_id st" "r = 0 \<longleftrightarrow> io_open_ok io"
proof -
  have "fs_wf fs" using assms(1) by (simp add: lst_wf_def)
  note k = fs_open_keep [OF this]
  obtain i fs1 where o: "fs_open b False fs = (i, fs1)" by (cases "fs_open b False fs")
  note eqs = assms(2) [unfolded open_block_def Let_def o prod.case]
  show "lst_wf st' fs'" "r = 0 \<Longrightarrow> lst_cur_block_id st' = b" "r = 0 \<Longrightarrow> \<exists>i. lst_cur_fd st' = Some i"
    "block_file fs' b = (if r = 0 then Some (base_file fs b) else block_file fs b)"
    "lst_block_size st' = lst_block_size st" "lst_min_block_id st' = lst_min_block_id st"
    "lst_max_block_id st' = lst_max_block_id st" "r = 0 \<longleftrightarrow> io_open_ok io"
    using eqs k [OF o] assms(1) by (auto simp: lst_wf_def close_current_block_def split: if_splits)
  show "block_file fs' c = block_file fs c" if "c \<noteq> b" for c
    using eqs k(4) [OF o that] by (auto split: if_splits)
qed

text \<open>The target of an append: the block, and the position in its file.\<close>

definition lst_block_of :: "LogStorage \<Rightarrow> LSN \<Rightarrow> u64" where
  "lst_block_of st lsn = lsn_2_block lsn (lst_block_size st)"

definition lst_pos :: "LogStorage \<Rightarrow> LSN \<Rightarrow> nat" where
  "lst_pos st lsn = unat (lsn_2_offset lsn (lst_block_size st)) + MAX_INFO_BLOCK_SIZE"

text \<open>What the three steps of an append do once the block is open.\<close>

definition write_step :: "io \<Rightarrow> nat \<Rightarrow> bytes \<Rightarrow> LogStorage \<Rightarrow> log_fs \<Rightarrow> u64 \<Rightarrow> ret \<times> LogStorage \<times> log_fs" where
  "write_step io pos buf st fs tb =
     (case lst_cur_fd st of
        None \<Rightarrow> (-1, st, fs)
      | Some fd \<Rightarrow>
          if \<not> io_lseek_ok io then (-1, st, fs)
          else let written = io_written io (length buf);
                   fs = (if written < 0 then fs else fs_write fd pos (take (nat written) buf) fs)
               in if written < 0 then (-1, st, fs)
                  else if written \<noteq> int (length buf) then (-1, st, fs)
                  else (0, if tb > lst_max_block_id st then st\<lparr>lst_max_block_id := tb\<rparr> else st, fs))"

lemma lst_append_steps:
  assumes "lst_is_inited st" "buf \<noteq> []"
  shows "lst_append io lsn buf st fs =
    (let tb = lst_block_of st lsn;
         (r1, st1, fs1) = (if lst_cur_block_id st \<noteq> tb then open_block io tb st fs else (0, st, fs))
     in if r1 \<noteq> 0 then (r1, st1, fs1) else write_step io (lst_pos st lsn) buf st1 fs1 tb)"
  using assms
  by (auto simp: lst_append_def write_step_def lst_block_of_def lst_pos_def Let_def split: prod.splits)

lemma write_step_effect:
  assumes "lst_wf st fs" "lst_cur_block_id st = tb"
    and "write_step io pos buf st fs tb = (r, st', fs')"
  shows "lst_wf st' fs'" "lst_block_size st' = lst_block_size st" "lst_min_block_id st' = lst_min_block_id st"
    "\<And>c. c \<noteq> tb \<Longrightarrow> block_file fs' c = block_file fs c"
    "r = 0 \<Longrightarrow> block_file fs' tb = Some (pwrite_file pos buf (base_file fs tb))"
    "r \<noteq> 0 \<Longrightarrow> block_file fs' tb = block_file fs tb \<or>
       (\<exists>k. block_file fs' tb = Some (pwrite_file pos (take k buf) (base_file fs tb)))"
    "io = io_good \<Longrightarrow> lst_cur_fd st \<noteq> None \<Longrightarrow> r = 0"
proof -
  have fw: "fs_wf fs" using assms(1) by (simp add: lst_wf_def)
  have fd: "lf_dir fs tb = Some i" if "lst_cur_fd st = Some i" for i
    using that assms(1,2) by (simp add: lst_wf_def)
  note W = fs_write_block [OF fw fd]
  show "lst_wf st' fs'" "lst_block_size st' = lst_block_size st" "lst_min_block_id st' = lst_min_block_id st"
    "r = 0 \<Longrightarrow> block_file fs' tb = Some (pwrite_file pos buf (base_file fs tb))"
    "r \<noteq> 0 \<Longrightarrow> block_file fs' tb = block_file fs tb \<or>
       (\<exists>k. block_file fs' tb = Some (pwrite_file pos (take k buf) (base_file fs tb)))"
    "io = io_good \<Longrightarrow> lst_cur_fd st \<noteq> None \<Longrightarrow> r = 0"
    using assms(1,3) W(1-3)
    by (auto simp: write_step_def Let_def lst_wf_def io_good_def split: option.splits if_splits)
  show "block_file fs' c = block_file fs c" if "c \<noteq> tb" for c
    using assms(3) W(4) that by (auto simp: write_step_def Let_def split: option.splits if_splits)
qed

lemma lst_append_effect:
  assumes wf: "lst_wf st fs" and ap: "lst_append io lsn buf st fs = (r, st', fs')" and ne: "buf \<noteq> []"
  shows "lst_wf st' fs'" "lst_block_size st' = lst_block_size st" "lst_min_block_id st' = lst_min_block_id st"
    "\<And>c. c \<noteq> lst_block_of st lsn \<Longrightarrow> block_file fs' c = block_file fs c"
    "r = 0 \<Longrightarrow> block_file fs' (lst_block_of st lsn) =
       Some (pwrite_file (lst_pos st lsn) buf (base_file fs (lst_block_of st lsn)))"
    "r \<noteq> 0 \<Longrightarrow> block_file fs' (lst_block_of st lsn) = block_file fs (lst_block_of st lsn) \<or>
       (\<exists>k. block_file fs' (lst_block_of st lsn) =
          Some (pwrite_file (lst_pos st lsn) (take k buf) (base_file fs (lst_block_of st lsn))))"
    "io = io_good \<Longrightarrow> lst_block_of st lsn \<noteq> LOG_INVALID_BLOCK_ID \<Longrightarrow> r = 0"
proof -
  let ?tb = "lst_block_of st lsn"
  have ini: "lst_is_inited st" using wf by (simp add: lst_wf_def)
  obtain r1 st1 fs1 where o:
    "(if lst_cur_block_id st \<noteq> ?tb then open_block io ?tb st fs else (0, st, fs)) = (r1, st1, fs1)"
    by (metis prod_cases3)
  have step: "(if r1 \<noteq> 0 then (r1, st1, fs1) else write_step io (lst_pos st lsn) buf st1 fs1 ?tb) = (r, st', fs')"
    using ap unfolding lst_append_steps [OF ini ne] Let_def o by simp
  have s1: "lst_wf st1 fs1" "lst_block_size st1 = lst_block_size st" "lst_min_block_id st1 = lst_min_block_id st"
    "r1 = 0 \<Longrightarrow> lst_cur_block_id st1 = ?tb" "\<And>c. c \<noteq> ?tb \<Longrightarrow> block_file fs1 c = block_file fs c"
    "block_file fs1 ?tb = block_file fs ?tb \<or> block_file fs1 ?tb = Some (base_file fs ?tb)"
    "io = io_good \<Longrightarrow> r1 = 0" "r1 = 0 \<Longrightarrow> ?tb \<noteq> LOG_INVALID_BLOCK_ID \<Longrightarrow> lst_cur_fd st1 \<noteq> None"
    using o open_block_effect [OF wf, of io ?tb r1 st1 fs1] wf
    by (auto simp: io_good_def lst_wf_def split: if_splits option.splits)
  have b1: "base_file fs1 ?tb = base_file fs ?tb"
    using s1(6) by (auto simp: base_file_def split: option.splits)
  have p0: "pwrite_file (lst_pos st lsn) (take 0 buf) (base_file fs ?tb) = base_file fs ?tb" by simp
  consider "r1 \<noteq> 0" "r = r1" "st' = st1" "fs' = fs1"
    | "r1 = 0" "write_step io (lst_pos st lsn) buf st1 fs1 ?tb = (r, st', fs')"
    using step by (auto split: if_splits)
  then have all: "lst_wf st' fs' \<and> lst_block_size st' = lst_block_size st \<and> lst_min_block_id st' = lst_min_block_id st \<and>
    (\<forall>c. c \<noteq> ?tb \<longrightarrow> block_file fs' c = block_file fs c) \<and>
    (r = 0 \<longrightarrow> block_file fs' ?tb = Some (pwrite_file (lst_pos st lsn) buf (base_file fs ?tb))) \<and>
    (r \<noteq> 0 \<longrightarrow> block_file fs' ?tb = block_file fs ?tb \<or>
       (\<exists>k. block_file fs' ?tb = Some (pwrite_file (lst_pos st lsn) (take k buf) (base_file fs ?tb)))) \<and>
    (io = io_good \<and> ?tb \<noteq> LOG_INVALID_BLOCK_ID \<longrightarrow> r = 0)"
  proof cases
    case 1
    then show ?thesis using s1 p0 by (metis (no_types, lifting))
  next
    case 2
    note w = write_step_effect [OF s1(1) s1(4) [OF 2(1)] 2(2), unfolded b1]
    have "block_file fs' ?tb = block_file fs ?tb \<or>
       (\<exists>k. block_file fs' ?tb = Some (pwrite_file (lst_pos st lsn) (take k buf) (base_file fs ?tb)))" if "r \<noteq> 0"
      using w(6) [OF that] s1(6) p0 by metis
    then show ?thesis using w(1-5,7) s1(2,3,5,7,8) 2(1) by simp
  qed
  show "lst_wf st' fs'" "lst_block_size st' = lst_block_size st" "lst_min_block_id st' = lst_min_block_id st"
    "\<And>c. c \<noteq> ?tb \<Longrightarrow> block_file fs' c = block_file fs c"
    "r = 0 \<Longrightarrow> block_file fs' ?tb = Some (pwrite_file (lst_pos st lsn) buf (base_file fs ?tb))"
    "r \<noteq> 0 \<Longrightarrow> block_file fs' ?tb = block_file fs ?tb \<or>
       (\<exists>k. block_file fs' ?tb = Some (pwrite_file (lst_pos st lsn) (take k buf) (base_file fs ?tb)))"
    "io = io_good \<Longrightarrow> ?tb \<noteq> LOG_INVALID_BLOCK_ID \<Longrightarrow> r = 0"
    using all by blast+
qed

lemma offset_less: "0 < lst_block_size st \<Longrightarrow> unat (lsn_2_offset lsn (lst_block_size st)) < unat (lst_block_size st)"
  by (simp add: lsn_2_offset_def unat_mod word_less_nat_alt)

definition lst_room :: "LogStorage \<Rightarrow> LSN \<Rightarrow> nat" where
  "lst_room st lsn = unat (lst_block_size st) - unat (lsn_2_offset lsn (lst_block_size st))"

lemma lst_read_good:
  assumes "lst_is_inited st" "0 < lst_block_size st"
  shows "lst_read io_good lsn n m st fs =
    (case block_file fs (lst_block_of st lsn) of
       None \<Rightarrow> (-1, [])
     | Some f \<Rightarrow> (0, pread_file (lst_pos st lsn) (min (min n m) (lst_room st lsn)) f))"
proof -
  have "(if off + x > bs then bs - off else x) = min x (bs - off)" if "off < bs" for off x bs :: nat
    using that by auto
  from this [OF offset_less [OF assms(2)]] show ?thesis
  using assms
  by (auto simp: lst_read_def io_good_def block_file_def lst_block_of_def lst_pos_def lst_room_def Let_def
      split: option.splits)
qed

section \<open>Initialisation and truncation\<close>

lemma unlink_up_result:
  assumes "mx < - 1"
  shows "unlink_up bid mx dir = Some (\<lambda>b. if bid \<le> b \<and> b \<le> mx then None else dir b)"
proof (induction "unat (mx + 1) - unat bid" arbitrary: bid dir rule: less_induct)
  case less
  show ?case
  proof (cases "bid \<le> mx")
    case False
    then show ?thesis by (subst unlink_up.simps) (auto simp: fun_eq_iff)
  next
    case True
    have mx1: "unat (mx + 1) = unat mx + 1"
      using unat_plus_1 [OF assms] .
    have b1: "unat (bid + 1) = unat bid + 1"
      using unat_plus_1 [OF le_less_trans [OF True assms]] .
    have "unlink_up (bid + 1) mx (dir(bid := None)) =
        Some (\<lambda>b. if bid + 1 \<le> b \<and> b \<le> mx then None else (dir(bid := None)) b)"
      by (rule less) (use True mx1 b1 in \<open>simp add: word_le_nat_alt\<close>)
    moreover have "bid + 1 \<le> b \<longleftrightarrow> bid < b" for b
      by (simp add: word_le_nat_alt word_less_nat_alt b1 Suc_le_eq)
    moreover have "unlink_up bid mx dir = unlink_up (bid + 1) mx (dir(bid := None))"
      using True by (subst unlink_up.simps) simp
    ultimately show ?thesis using True by (auto simp: fun_eq_iff order.order_iff_strict)
  qed
qed

lemma unlink_below_result:
  "unlink_below bid b dir = Some (\<lambda>c. if bid \<le> c \<and> c < b then None else dir c)"
proof (induction "unat b - unat bid" arbitrary: bid dir rule: less_induct)
  case less
  show ?case
  proof (cases "bid < b")
    case False
    then show ?thesis by (subst unlink_below.simps) (auto simp: fun_eq_iff)
  next
    case True
    have "bid < - 1" using True by (metis word_n1_ge linorder_not_le order.strict_trans1)
    note b1 = unat_plus_1 [OF this]
    have "unlink_below (bid + 1) b (dir(bid := None)) =
        Some (\<lambda>c. if bid + 1 \<le> c \<and> c < b then None else (dir(bid := None)) c)"
      by (rule less) (use True b1 in \<open>simp add: word_less_nat_alt\<close>)
    moreover have "bid + 1 \<le> c \<longleftrightarrow> bid < c" for c
      by (simp add: word_le_nat_alt word_less_nat_alt b1 Suc_le_eq)
    moreover have "unlink_below bid b dir = unlink_below (bid + 1) b (dir(bid := None))"
      using True by (subst unlink_below.simps) simp
    ultimately show ?thesis using True by (auto simp: fun_eq_iff order.order_iff_strict)
  qed
qed

lemma scan_blocks_result:
  assumes "\<And>b. b < m \<Longrightarrow> dir b \<noteq> None" "dir m = None" "m \<le> LOG_INVALID_BLOCK_ID" "bid \<le> m"
  shows "scan_blocks dir bid mn mx =
    Some (if bid = m then (mn, mx) else (if mn = LOG_INVALID_BLOCK_ID then bid else mn, m - 1))"
  using assms(4)
proof (induction "unat m - unat bid" arbitrary: bid mn mx rule: less_induct)
  case less
  show ?case
  proof (cases "bid = m")
    case True
    then show ?thesis using assms(2) by (subst scan_blocks.simps) simp
  next
    case False
    then have lt: "bid < m" using less.prems by simp
    then have ninv: "bid \<noteq> LOG_INVALID_BLOCK_ID" using assms(3) by auto
    have "bid < - 1" using lt by (metis word_n1_ge linorder_not_le order.strict_trans1)
    note b1 = unat_plus_1 [OF this]
    have le: "bid + 1 \<le> m" using lt b1 by (simp add: word_le_nat_alt word_less_nat_alt)
    obtain i where "dir bid = Some i" using assms(1) [OF lt] by auto
    then have "scan_blocks dir bid mn mx =
        scan_blocks dir (bid + 1) (if mn = LOG_INVALID_BLOCK_ID then bid else mn) bid"
      by (subst scan_blocks.simps) simp
    also have "\<dots> = Some (if bid + 1 = m then (if mn = LOG_INVALID_BLOCK_ID then bid else mn, bid)
        else (if mn = LOG_INVALID_BLOCK_ID then bid else mn, m - 1))"
    proof -
      have "unat m - unat (bid + 1) < unat m - unat bid" using lt b1 by (simp add: word_less_nat_alt)
      from less.hyps [OF this le] show ?thesis using ninv by auto
    qed
    finally show ?thesis using False by auto
  qed
qed

end
