(* ===== verification/Ob_Palf_Handle.thy ===== *)
theory Ob_Palf_Handle
  imports Ob_Log_Storage
begin

text \<open>
  One log stream and the environment that owns the streams: \<^verbatim>\<open>palf/palf_handle_impl\<close>,
  \<^verbatim>\<open>palf_handle\<close> and \<^verbatim>\<open>palf_env_impl\<close>.  A stream's directory is passed as the \<open>log_fs\<close> it
  works on; the environment holds one per palf id, and a heap of handle objects, since
  handles are shared by pointer.  \<open>junk\<close> is the content of freshly allocated memory.
\<close>

section \<open>Handle\<close>

record PalfHandleImpl =
  ph_palf_id :: int
  ph_epoch :: int
  ph_log_storage :: LogStorage
  ph_log_cache :: LogCache
  ph_end_lsn :: LSN
  ph_max_lsn :: LSN
  ph_log_id :: u64
  ph_proposal_id :: u64
  ph_role :: int
  ph_is_inited :: bool

definition ph_new :: PalfHandleImpl where
  "ph_new = \<lparr>ph_palf_id = INVALID_PALF_ID, ph_epoch = 0, ph_log_storage = lst_new, ph_log_cache = lc_new,
     ph_end_lsn = lsn_init, ph_max_lsn = lsn_init, ph_log_id = FIRST_VALID_LOG_ID, ph_proposal_id = 1,
     ph_role = 1, ph_is_inited = False\<rparr>"

definition SCAN_BUF :: nat where "SCAN_BUF = 4096"

text \<open>The recovery scan of \<^verbatim>\<open>init\<close>: follow \<^verbatim>\<open>committed_end_lsn_\<close> from header to header.\<close>

partial_function (option) init_scan :: "io \<Rightarrow> LogStorage \<Rightarrow> log_fs \<Rightarrow> LSN \<Rightarrow> LSN \<Rightarrow> LSN option" where
  [code]: "init_scan io st fs scan_lsn last_valid_lsn =
     (case lst_read io scan_lsn SCAN_BUF SCAN_BUF st fs of (ret, bs) \<Rightarrow>
        if ret \<noteq> 0 \<or> length bs < lgh_size then Some last_valid_lsn
        else case lgh_deserialize lgh_init bs 0 of (ret, hdr, pos) \<Rightarrow>
          if ret \<noteq> 0 \<or> \<not> lgh_is_valid hdr then Some last_valid_lsn
          else let last_valid_lsn = lgh_committed_end_lsn hdr
               in if lsn_val last_valid_lsn \<le> lsn_val scan_lsn then Some last_valid_lsn
                  else init_scan io st fs last_valid_lsn last_valid_lsn)"

definition ph_init :: "io \<Rightarrow> io \<Rightarrow> io \<Rightarrow> int \<Rightarrow> PalfHandleImpl \<Rightarrow> log_fs
    \<Rightarrow> (ret \<times> PalfHandleImpl \<times> log_fs) option" where
  "ph_init io1 io2 io3 palf_id ph fs =
     (if ph_is_inited ph then Some (-1, ph, fs)
      else do {
        let ph = ph\<lparr>ph_palf_id := palf_id, ph_epoch := 1\<rparr>;
        (ret, st, fs) \<leftarrow> lst_init io1 io2 PALF_BLOCK_SIZE (ph_log_storage ph) fs;
        let ph = ph\<lparr>ph_log_storage := st\<rparr>;
        if ret \<noteq> 0 then Some (ret, ph, fs)
        else do {
          let scan_lsn = lst_get_begin_lsn st;
          last \<leftarrow> init_scan io3 st fs scan_lsn scan_lsn;
          Some (0, ph\<lparr>ph_is_inited := True, ph_end_lsn := last, ph_max_lsn := last,
                      ph_log_id := (if lsn_val last > 0 then 2 else FIRST_VALID_LOG_ID)\<rparr>, fs)
        }
      })"

text \<open>The second scan, in \<^verbatim>\<open>load\<close>; its only progress check is that the next position is not 0.\<close>

partial_function (option) load_scan :: "io \<Rightarrow> LogStorage \<Rightarrow> log_fs \<Rightarrow> LSN \<Rightarrow> LSN option" where
  [code]: "load_scan io st fs scan_lsn =
     (case lst_read io scan_lsn SCAN_BUF SCAN_BUF st fs of (ret, bs) \<Rightarrow>
        if ret \<noteq> 0 \<or> length bs < lgh_size then Some scan_lsn
        else case lgh_deserialize lgh_init bs 0 of (ret, hdr, pos) \<Rightarrow>
          if ret \<noteq> 0 \<or> \<not> lgh_is_valid hdr then Some scan_lsn
          else let scan_lsn = lgh_committed_end_lsn hdr
               in if lsn_val scan_lsn \<le> 0 then Some scan_lsn
                  else load_scan io st fs scan_lsn)"

definition ph_load :: "io \<Rightarrow> io \<Rightarrow> io \<Rightarrow> int \<Rightarrow> PalfHandleImpl \<Rightarrow> log_fs
    \<Rightarrow> (ret \<times> PalfHandleImpl \<times> log_fs) option" where
  "ph_load io1 io2 io3 palf_id ph fs = do {
     (ret, ph, fs) \<leftarrow> ph_init io1 io2 io3 palf_id ph fs;
     if ret \<noteq> 0 then Some (ret, ph, fs)
     else let st = ph_log_storage ph;
              (_, min_id, max_id) = get_block_id_range st
          in if min_id = max_id \<and> min_id = 0 \<and> lsn_val (lst_get_begin_lsn st) = 0
             then Some (0, ph\<lparr>ph_end_lsn := LSN 0, ph_max_lsn := LSN 0\<rparr>, fs)
             else do {
               scan_lsn \<leftarrow> load_scan io3 st fs (lst_get_begin_lsn st);
               Some (0, ph\<lparr>ph_end_lsn := scan_lsn, ph_max_lsn := scan_lsn\<rparr>, fs)
             }
   }"

definition malloc_bytes :: "(nat \<Rightarrow> byte) \<Rightarrow> nat \<Rightarrow> bytes" where
  "malloc_bytes junk n = map junk [0..<n]"

lemma length_malloc_bytes [simp]: "length (malloc_bytes junk n) = n"
  by (simp add: malloc_bytes_def)

definition group_header :: "PalfHandleImpl \<Rightarrow> nat \<Rightarrow> LogGroupEntryHeader" where
  "group_header ph buf_len =
     lgh_init\<lparr>lgh_log_id := ph_log_id ph,
              lgh_log_proposal_id := ph_proposal_id ph,
              lgh_prev_lsn := (if lsn_val (ph_end_lsn ph) > 0 then ph_end_lsn ph else LSN 0),
              lgh_committed_end_lsn := LSN (lsn_val (ph_max_lsn ph) + word_of_nat buf_len + word_of_nat lgh_size),
              lgh_group_entry_size := word_of_nat (lgh_size + buf_len)\<rparr>"

text \<open>\<^verbatim>\<open>group_entry_size_\<close> has 32 bits: a payload that does not fit makes the \<^verbatim>\<open>memcpy\<close> overrun
  the write buffer, which has no defined result.\<close>

definition do_append :: "(nat \<Rightarrow> byte) \<Rightarrow> io \<Rightarrow> bytes \<Rightarrow> PalfHandleImpl \<Rightarrow> log_fs
    \<Rightarrow> (ret \<times> LSN \<times> PalfHandleImpl \<times> log_fs) option" where
  "do_append junk io buf ph fs =
     (let lsn = ph_max_lsn ph;
          hdr = group_header ph (length buf);
          ph = ph\<lparr>ph_log_id := ph_log_id ph + 1\<rparr>;
          total_size = unat (lgh_group_entry_size hdr);
          (_, write_buf, pos) = lgh_serialize hdr (malloc_bytes junk total_size) 0
      in if total_size < pos + length buf then None
         else let write_buf = blit pos buf write_buf
              in case lst_append io lsn write_buf (ph_log_storage ph) fs of (ret, st, fs) \<Rightarrow>
                   let ph = ph\<lparr>ph_log_storage := st\<rparr>
                   in if ret \<noteq> 0 then Some (ret, lsn, ph, fs)
                      else let end_lsn = LSN (lsn_val lsn + word_of_nat total_size)
                           in Some (0, lsn, ph\<lparr>ph_end_lsn := end_lsn, ph_max_lsn := end_lsn\<rparr>, fs))"

definition ph_append :: "(nat \<Rightarrow> byte) \<Rightarrow> io \<Rightarrow> bytes \<Rightarrow> LSN \<Rightarrow> u64 \<Rightarrow> PalfHandleImpl \<Rightarrow> log_fs
    \<Rightarrow> (ret \<times> LSN \<times> u64 \<times> PalfHandleImpl \<times> log_fs) option" where
  "ph_append junk io buf lsn scn ph fs =
     (if \<not> ph_is_inited ph then Some (-1, lsn, scn, ph, fs)
      else do {
        (ret, lsn, ph, fs) \<leftarrow> do_append junk io buf ph fs;
        Some (ret, lsn, if ret = 0 then ph_log_id ph - 1 else scn, ph, fs)
      })"

definition ph_read :: "io \<Rightarrow> LSN \<Rightarrow> nat \<Rightarrow> nat \<Rightarrow> PalfHandleImpl \<Rightarrow> log_fs \<Rightarrow> ret \<times> bytes" where
  "ph_read io lsn read_size buf_len ph fs =
     (if \<not> ph_is_inited ph then (-1, [])
      else case lc_get lsn read_size (ph_log_cache ph) of (ret, bs) \<Rightarrow>
        if ret = 0 then (0, bs)
        else lst_read io lsn read_size buf_len (ph_log_storage ph) fs)"

definition ph_seek :: "LSN \<Rightarrow> PalfHandleImpl \<Rightarrow> ret \<times> PalfHandleImpl" where
  "ph_seek lsn ph = (if \<not> ph_is_inited ph then (-1, ph) else (0, ph\<lparr>ph_end_lsn := lsn\<rparr>))"

definition ph_get_begin_lsn :: "PalfHandleImpl \<Rightarrow> LSN" where
  "ph_get_begin_lsn ph = lst_get_begin_lsn (ph_log_storage ph)"

section \<open>Environment\<close>

record PalfEnvImpl =
  pe_heap :: "nat \<rightharpoonup> PalfHandleImpl"
  pe_fresh :: nat
  pe_handles :: "int \<rightharpoonup> nat"
  pe_fs :: "int \<Rightarrow> log_fs"
  pe_is_inited :: bool
  pe_is_running :: bool

definition pe_new :: "(int \<Rightarrow> log_fs) \<Rightarrow> PalfEnvImpl" where
  "pe_new fs = \<lparr>pe_heap = Map.empty, pe_fresh = 0, pe_handles = Map.empty, pe_fs = fs,
     pe_is_inited = False, pe_is_running = False\<rparr>"

definition pe_init :: "PalfEnvImpl \<Rightarrow> ret \<times> PalfEnvImpl" where
  "pe_init env = (if pe_is_inited env then (-1, env) else (0, env\<lparr>pe_is_inited := True\<rparr>))"

definition pe_start :: "PalfEnvImpl \<Rightarrow> ret \<times> PalfEnvImpl" where
  "pe_start env =
     (if \<not> pe_is_inited env \<or> pe_is_running env then (-1, env) else (0, env\<lparr>pe_is_running := True\<rparr>))"

definition pe_stop :: "PalfEnvImpl \<Rightarrow> PalfEnvImpl" where
  "pe_stop env = env\<lparr>pe_is_running := False\<rparr>"

definition pe_destroy :: "PalfEnvImpl \<Rightarrow> PalfEnvImpl" where
  "pe_destroy env =
     (pe_stop env)\<lparr>pe_heap := (\<lambda>a. if a \<in> ran (pe_handles env) then None else pe_heap env a),
                   pe_handles := Map.empty, pe_is_inited := False\<rparr>"

definition create_palf_handle_impl :: "io \<Rightarrow> io \<Rightarrow> io \<Rightarrow> int \<Rightarrow> nat option \<Rightarrow> PalfEnvImpl
    \<Rightarrow> (ret \<times> nat option \<times> PalfEnvImpl) option" where
  "create_palf_handle_impl io1 io2 io3 palf_id impl env = do {
     (ret, ph, fs) \<leftarrow> ph_init io1 io2 io3 palf_id ph_new (pe_fs env palf_id);
     let env = env\<lparr>pe_fs := (pe_fs env)(palf_id := fs)\<rparr>;
     if ret \<noteq> 0 then Some (ret, impl, env)
     else let a = pe_fresh env
          in Some (0, Some a, env\<lparr>pe_heap := (pe_heap env)(a \<mapsto> ph), pe_fresh := a + 1,
                                  pe_handles := (pe_handles env)(palf_id \<mapsto> a)\<rparr>)
   }"

definition get_palf_handle_impl :: "int \<Rightarrow> nat option \<Rightarrow> PalfEnvImpl \<Rightarrow> ret \<times> nat option" where
  "get_palf_handle_impl palf_id impl env =
     (case pe_handles env palf_id of None \<Rightarrow> (-1, impl) | Some a \<Rightarrow> (0, Some a))"

definition remove_palf_handle_impl :: "int \<Rightarrow> PalfEnvImpl \<Rightarrow> ret \<times> PalfEnvImpl" where
  "remove_palf_handle_impl palf_id env =
     (case pe_handles env palf_id of
        None \<Rightarrow> (-1, env)
      | Some a \<Rightarrow> (0, env\<lparr>pe_heap := (pe_heap env)(a := None), pe_handles := (pe_handles env)(palf_id := None)\<rparr>))"

definition reload_palf_handle_impl :: "io \<Rightarrow> io \<Rightarrow> io \<Rightarrow> int \<Rightarrow> PalfEnvImpl \<Rightarrow> (ret \<times> PalfEnvImpl) option" where
  "reload_palf_handle_impl io1 io2 io3 palf_id env = do {
     (ret, ph, fs) \<leftarrow> ph_load io1 io2 io3 palf_id ph_new (pe_fs env palf_id);
     let env = env\<lparr>pe_fs := (pe_fs env)(palf_id := fs)\<rparr>;
     if ret \<noteq> 0 then Some (ret, env)
     else let a = pe_fresh env
          in Some (0, env\<lparr>pe_heap := (pe_heap env)(a \<mapsto> ph), pe_fresh := a + 1,
                          pe_handles := (pe_handles env)(palf_id \<mapsto> a)\<rparr>)
   }"

section \<open>The handle wrapper\<close>

text \<open>\<^verbatim>\<open>PalfHandle\<close> holds a pointer to the handle object and forwards; following a dangling
  pointer has no result.\<close>

definition palf_append :: "(nat \<Rightarrow> byte) \<Rightarrow> io \<Rightarrow> nat option \<Rightarrow> bytes \<Rightarrow> LSN \<Rightarrow> u64 \<Rightarrow> PalfEnvImpl
    \<Rightarrow> (ret \<times> LSN \<times> u64 \<times> PalfEnvImpl) option" where
  "palf_append junk io impl buf lsn scn env =
     (case impl of
        None \<Rightarrow> Some (-1, lsn, scn, env)
      | Some a \<Rightarrow> do {
          ph \<leftarrow> pe_heap env a;
          (ret, lsn, scn, ph', fs) \<leftarrow> ph_append junk io buf lsn scn ph (pe_fs env (ph_palf_id ph));
          Some (ret, lsn, scn, env\<lparr>pe_heap := (pe_heap env)(a \<mapsto> ph'),
                                  pe_fs := (pe_fs env)(ph_palf_id ph := fs)\<rparr>)
        })"

definition palf_read :: "io \<Rightarrow> nat option \<Rightarrow> LSN \<Rightarrow> nat \<Rightarrow> nat \<Rightarrow> PalfEnvImpl \<Rightarrow> (ret \<times> bytes) option" where
  "palf_read io impl lsn read_size buf_len env =
     (case impl of
        None \<Rightarrow> Some (-1, [])
      | Some a \<Rightarrow> do {
          ph \<leftarrow> pe_heap env a;
          Some (ph_read io lsn read_size buf_len ph (pe_fs env (ph_palf_id ph)))
        })"

definition palf_seek :: "nat option \<Rightarrow> LSN \<Rightarrow> PalfEnvImpl \<Rightarrow> (ret \<times> PalfEnvImpl) option" where
  "palf_seek impl lsn env =
     (case impl of
        None \<Rightarrow> Some (-1, env)
      | Some a \<Rightarrow> do {
          ph \<leftarrow> pe_heap env a;
          (case ph_seek lsn ph of (ret, ph') \<Rightarrow> Some (ret, env\<lparr>pe_heap := (pe_heap env)(a \<mapsto> ph')\<rparr>))
        })"

definition palf_get_end_lsn :: "nat option \<Rightarrow> LSN \<Rightarrow> PalfEnvImpl \<Rightarrow> (ret \<times> LSN) option" where
  "palf_get_end_lsn impl lsn env =
     (case impl of
        None \<Rightarrow> Some (-1, lsn)
      | Some a \<Rightarrow> do { ph \<leftarrow> pe_heap env a; Some (0, ph_end_lsn ph) })"

definition palf_get_max_lsn :: "nat option \<Rightarrow> LSN \<Rightarrow> PalfEnvImpl \<Rightarrow> (ret \<times> LSN) option" where
  "palf_get_max_lsn impl lsn env =
     (case impl of
        None \<Rightarrow> Some (-1, lsn)
      | Some a \<Rightarrow> do { ph \<leftarrow> pe_heap env a; Some (0, ph_max_lsn ph) })"

definition palf_get_begin_lsn :: "nat option \<Rightarrow> LSN \<Rightarrow> PalfEnvImpl \<Rightarrow> (ret \<times> LSN) option" where
  "palf_get_begin_lsn impl lsn env =
     (case impl of
        None \<Rightarrow> Some (-1, lsn)
      | Some a \<Rightarrow> do { ph \<leftarrow> pe_heap env a; Some (0, ph_get_begin_lsn ph) })"

section \<open>The contents of a log\<close>


text \<open>Positions are natural numbers below \<open>2 ^ 64\<close>; \<open>lsn_at\<close> is the LSN of a position.\<close>

abbreviation lsn_at :: "nat \<Rightarrow> LSN" where
  "lsn_at L \<equiv> LSN (word_of_nat L)"

abbreviation bsize :: "LogStorage \<Rightarrow> nat" where
  "bsize st \<equiv> unat (lst_block_size st)"

definition entry_size :: "bytes \<Rightarrow> nat" where
  "entry_size p = lgh_size + length p"

definition log_size :: "bytes list \<Rightarrow> nat" where
  "log_size ps = sum_list (map entry_size ps)"

definition header_ok :: "bytes \<Rightarrow> nat \<Rightarrow> bytes \<Rightarrow> bool" where
  "header_ok w L p \<longleftrightarrow>
     length w = lgh_size \<and> lgh_is_valid (lgh_dec w) \<and>
     lgh_committed_end_lsn (lgh_dec w) = lsn_at (L + entry_size p) \<and>
     lgh_group_entry_size (lgh_dec w) = word_of_nat (entry_size p)"

definition entry_at :: "LogStorage \<Rightarrow> log_fs \<Rightarrow> nat \<Rightarrow> bytes \<Rightarrow> bool" where
  "entry_at st fs L p \<longleftrightarrow>
     (case block_file fs (lst_block_of st (lsn_at L)) of
        None \<Rightarrow> False
      | Some f \<Rightarrow>
          lst_pos st (lsn_at L) + entry_size p \<le> f_size f \<and>
          header_ok (pread_file (lst_pos st (lsn_at L)) lgh_size f) L p \<and>
          pread_file (lst_pos st (lsn_at L) + lgh_size) (length p) f = p)"

fun log_holds :: "LogStorage \<Rightarrow> log_fs \<Rightarrow> nat \<Rightarrow> bytes list \<Rightarrow> bool" where
  "log_holds st fs L [] \<longleftrightarrow> True"
| "log_holds st fs L (p # ps) \<longleftrightarrow> entry_at st fs L p \<and> log_holds st fs (L + entry_size p) ps"

text \<open>Nothing has been written behind position \<open>L\<close>.\<close>

definition tail_clean :: "LogStorage \<Rightarrow> log_fs \<Rightarrow> nat \<Rightarrow> bool" where
  "tail_clean st fs L \<longleftrightarrow>
     (\<forall>i \<ge> lst_pos st (lsn_at L). f_data (base_file fs (lst_block_of st (lsn_at L))) i = 0) \<and>
     (\<forall>b > lst_block_of st (lsn_at L). block_file fs b = None)"

text \<open>No header crosses the end of its block.\<close>

fun headers_fit :: "nat \<Rightarrow> nat \<Rightarrow> bytes list \<Rightarrow> bool" where
  "headers_fit B L [] \<longleftrightarrow> True"
| "headers_fit B L (p # ps) \<longleftrightarrow> L mod B + lgh_size \<le> B \<and> headers_fit B (L + entry_size p) ps"

lemma log_size_simps [simp]: "log_size [] = 0" "log_size (p # ps) = entry_size p + log_size ps"
    "log_size (ps @ qs) = log_size ps + log_size qs"
  by (simp_all add: log_size_def)

lemma log_holds_append:
  "log_holds st fs L (ps @ qs) \<longleftrightarrow> log_holds st fs L ps \<and> log_holds st fs (L + log_size ps) qs"
  by (induction ps arbitrary: L) (auto simp: add.assoc)

section \<open>Positions\<close>

lemma lst_block_of_nat:
  "L < 2 ^ 64 \<Longrightarrow> lst_block_of st (lsn_at L) = word_of_nat (L div bsize st)"
  by (simp add: lst_block_of_def lsn_2_block_def word_arith_nat_div unsigned_of_nat take_bit_nat_eq_self)

lemma lst_pos_nat: "L < 2 ^ 64 \<Longrightarrow> lst_pos st (lsn_at L) = L mod bsize st + MAX_INFO_BLOCK_SIZE"
  by (simp add: lst_pos_def lsn_2_offset_def unat_mod unsigned_of_nat take_bit_nat_eq_self)

lemma unat_block_of_nat: "L < 2 ^ 64 \<Longrightarrow> unat (lst_block_of st (lsn_at L)) = L div bsize st"
  by (simp add: lst_block_of_def lsn_2_block_def unat_div unsigned_of_nat take_bit_nat_eq_self)

lemma block_of_eq_iff:
  "L < 2 ^ 64 \<Longrightarrow> K < 2 ^ 64 \<Longrightarrow>
     lst_block_of st (lsn_at L) = lst_block_of st (lsn_at K) \<longleftrightarrow> L div bsize st = K div bsize st"
  by (metis unat_block_of_nat lst_block_of_nat)

lemma same_block_pos:
  fixes B :: nat
  assumes "K + n \<le> L" "K div B = L div B"
  shows "K mod B + n \<le> L mod B"
proof -
  have "K = L div B * B + K mod B" using assms(2) by (metis div_mult_mod_eq)
  moreover have "L = L div B * B + L mod B" by simp
  ultimately show ?thesis using assms(1) by linarith
qed

section \<open>The bytes of an append\<close>

lemma do_append_bytes:
  assumes L: "ph_max_lsn ph = lsn_at L" and n: "entry_size buf < 2 ^ 32"
  obtains w where "header_ok w L buf"
    "do_append junk io buf ph fs =
      (case lst_append io (lsn_at L) (w @ buf) (ph_log_storage ph) fs of (ret, st, fs') \<Rightarrow>
         let ph' = ph\<lparr>ph_log_id := ph_log_id ph + 1, ph_log_storage := st\<rparr>
         in Some (if ret \<noteq> 0 then (ret, lsn_at L, ph', fs')
                  else (0, lsn_at L, ph'\<lparr>ph_end_lsn := lsn_at (L + entry_size buf),
                                         ph_max_lsn := lsn_at (L + entry_size buf)\<rparr>, fs')))"
proof -
  let ?h = "group_header ph (length buf)" and ?n = "entry_size buf"
  have tot: "unat (lgh_group_entry_size ?h) = ?n"
    using n by (simp add: group_header_def entry_size_def unsigned_of_nat take_bit_nat_eq_self del: of_nat_add)
  obtain r wb pos where ser: "lgh_serialize ?h (malloc_bytes junk ?n) 0 = (r, wb, pos)"
    by (cases "lgh_serialize ?h (malloc_bytes junk ?n) 0")
  have room: "0 + lgh_size \<le> length (malloc_bytes junk ?n)" by (simp add: entry_size_def)
  note sl = lgh_slice [OF room ser]
  note rt = lgh_roundtrip [OF room ser]
  define w where "w = bslice 0 lgh_size wb"
  have lw: "length w = lgh_size" using sl(4) by (simp add: w_def entry_size_def)
  have dec: "lgh_dec w = lgh_garbled ?h (get_word (bslice 40 4 (malloc_bytes junk ?n)))"
    using rt sl(4) by (simp add: lgh_deserialize_def pod_deserialize_def w_def entry_size_def split: if_splits)
  have hdr: "header_ok w L buf"
    using lw L by (simp add: header_ok_def dec lgh_garbled_def group_header_def lgh_is_valid_def
        lgh_init_def entry_size_def lgh_size_def algebra_simps)
  have pos: "pos = lgh_size" using sl(3) by simp
  have wb: "blit pos buf wb = w @ buf"
    using sl(4) by (simp add: blit_def w_def bslice_def pos entry_size_def)
  have "do_append junk io buf ph fs =
      (case lst_append io (lsn_at L) (w @ buf) (ph_log_storage ph) fs of (ret, st, fs') \<Rightarrow>
         let ph' = ph\<lparr>ph_log_id := ph_log_id ph + 1, ph_log_storage := st\<rparr>
         in Some (if ret \<noteq> 0 then (ret, lsn_at L, ph', fs')
                  else (0, lsn_at L, ph'\<lparr>ph_end_lsn := lsn_at (L + ?n), ph_max_lsn := lsn_at (L + ?n)\<rparr>, fs')))"
  proof -
    have "\<not> ?n < pos + length buf" by (simp add: pos entry_size_def)
    then show ?thesis
      unfolding do_append_def Let_def L LSN.sel tot ser prod.case wb
      by (cases "lst_append io (lsn_at L) (w @ buf) (ph_log_storage ph) fs") (simp add: wb)
  qed
  with hdr show ?thesis by (rule that)
qed

section \<open>Appends keep the log\<close>

lemma entry_at_frame:
  assumes "entry_at st fs K p" "K + entry_size p \<le> L" "L < 2 ^ 64"
    and size: "lst_block_size st' = lst_block_size st"
    and other: "\<And>c. c \<noteq> lst_block_of st (lsn_at L) \<Longrightarrow> block_file fs' c = block_file fs c"
    and same: "block_file fs' (lst_block_of st (lsn_at L)) = block_file fs (lst_block_of st (lsn_at L)) \<or>
       (\<exists>bs. block_file fs' (lst_block_of st (lsn_at L)) =
          Some (pwrite_file (lst_pos st (lsn_at L)) bs (base_file fs (lst_block_of st (lsn_at L)))))"
  shows "entry_at st' fs' K p"
proof -
  let ?b = "lst_block_of st (lsn_at K)" and ?q = "lst_pos st (lsn_at K)"
  have K: "K < 2 ^ 64" using assms(2,3) by simp
  have sz: "lst_block_of st' = lst_block_of st" "lst_pos st' = lst_pos st"
    using size by (auto simp: lst_block_of_def lst_pos_def fun_eq_iff)
  obtain f where f: "block_file fs ?b = Some f" "?q + entry_size p \<le> f_size f"
    "header_ok (pread_file ?q lgh_size f) K p" "pread_file (?q + lgh_size) (length p) f = p"
    using assms(1) by (auto simp: entry_at_def split: option.splits)
  show ?thesis
  proof (cases "?b = lst_block_of st (lsn_at L) \<and> block_file fs' ?b \<noteq> block_file fs ?b")
    case False
    then have "block_file fs' ?b = Some f" using other f(1) by metis
    then show ?thesis using f by (simp add: entry_at_def sz)
  next
    case True
    then obtain bs where f': "block_file fs' ?b = Some (pwrite_file (lst_pos st (lsn_at L)) bs f)"
      using same f(1) by (auto simp: base_file_def)
    have "K div bsize st = L div bsize st" using True block_of_eq_iff K assms(3) by blast
    then have le: "?q + entry_size p \<le> lst_pos st (lsn_at L)"
      using same_block_pos [OF assms(2)] K assms(3) by (simp add: lst_pos_nat)
    let ?f = "pwrite_file (lst_pos st (lsn_at L)) bs f"
    have "pread_file ?q lgh_size ?f = pread_file ?q lgh_size f"
      "pread_file (?q + lgh_size) (length p) ?f = pread_file (?q + lgh_size) (length p) f"
      using f(2) le by (auto intro!: pread_pwrite_other simp: entry_size_def)
    moreover have "f_size f \<le> f_size ?f" by (simp add: f_size_pwrite)
    ultimately show ?thesis using f f' by (simp add: entry_at_def sz)
  qed
qed

lemma log_holds_frame:
  assumes "log_holds st fs K ps" "K + log_size ps \<le> L" "L < 2 ^ 64"
    and "lst_block_size st' = lst_block_size st"
    and "\<And>c. c \<noteq> lst_block_of st (lsn_at L) \<Longrightarrow> block_file fs' c = block_file fs c"
    and "block_file fs' (lst_block_of st (lsn_at L)) = block_file fs (lst_block_of st (lsn_at L)) \<or>
       (\<exists>bs. block_file fs' (lst_block_of st (lsn_at L)) =
          Some (pwrite_file (lst_pos st (lsn_at L)) bs (base_file fs (lst_block_of st (lsn_at L)))))"
  shows "log_holds st' fs' K ps"
  using assms(1,2)
proof (induction ps arbitrary: K)
  case (Cons p ps)
  then show ?case using entry_at_frame [of st fs K p L, OF _ _ assms(3-6)] by simp
qed simp

definition log_ok :: "PalfHandleImpl \<Rightarrow> log_fs \<Rightarrow> bytes list \<Rightarrow> bool" where
  "log_ok ph fs ps \<longleftrightarrow>
     ph_is_inited ph \<and> lst_wf (ph_log_storage ph) fs \<and> lst_block_size (ph_log_storage ph) = PALF_BLOCK_SIZE \<and>
     lst_min_block_id (ph_log_storage ph) = 0 \<and> block_file fs 0 \<noteq> None \<and> \<not> lc_is_inited (ph_log_cache ph) \<and>
     log_holds (ph_log_storage ph) fs 0 ps \<and> log_size ps < 2 ^ 63 \<and>
     ph_max_lsn ph = lsn_at (log_size ps) \<and> ph_end_lsn ph = lsn_at (log_size ps)"

lemma block_valid:
  assumes "L < 2 ^ 63" "lst_block_size st = PALF_BLOCK_SIZE"
  shows "lst_block_of st (lsn_at L) < LOG_INVALID_BLOCK_ID"
proof -
  have "unat (lst_block_of st (lsn_at L)) = L div 67104768"
    using unat_block_of_nat [of L st] assms by (simp add: PALF_BLOCK_SIZE_def)
  also have "\<dots> \<le> (2 ^ 63) div 67104768" using assms(1) by (intro div_le_mono) simp
  also have "\<dots> < unat LOG_INVALID_BLOCK_ID"
    by (simp add: LOG_INVALID_BLOCK_ID_def PALF_BLOCK_SIZE_def unat_div)
  finally show ?thesis by (simp add: word_less_nat_alt)
qed

lemma entry_written:
  assumes "block_file fs' (lst_block_of st (lsn_at L)) = Some (pwrite_file (lst_pos st (lsn_at L)) (w @ p) f)"
    and "header_ok w L p" "lst_block_size st' = lst_block_size st"
  shows "entry_at st' fs' L p"
proof -
  let ?q = "lst_pos st (lsn_at L)" and ?f = "pwrite_file (lst_pos st (lsn_at L)) (w @ p) f"
  have lw: "length w = lgh_size" using assms(2) by (simp add: header_ok_def)
  have sz: "lst_block_of st' = lst_block_of st" "lst_pos st' = lst_pos st"
    using assms(3) by (auto simp: lst_block_of_def lst_pos_def fun_eq_iff)
  have fs: "?q + (lgh_size + length p) \<le> f_size ?f" using lw by (auto simp: f_size_pwrite lgh_size_def)
  have all: "pread_file ?q (length (w @ p)) ?f = w @ p" by (rule pread_pwrite_same)
  have "pread_file ?q lgh_size ?f = w"
    using pread_slice [of 0 lgh_size "length (w @ p)" ?q ?f] all fs lw by (simp add: bslice_def)
  moreover have "pread_file (?q + lgh_size) (length p) ?f = p"
    using pread_slice [of lgh_size "length p" "length (w @ p)" ?q ?f] all fs lw by (simp add: bslice_def)
  ultimately show ?thesis using assms(1,2) fs by (simp add: entry_at_def sz entry_size_def)
qed

lemma append_effect:
  assumes ok: "log_ok ph fs ps" and n: "entry_size buf < 2 ^ 32" and fit: "log_size ps + entry_size buf < 2 ^ 63"
    and ap: "do_append junk io buf ph fs = Some (r, lsn, ph', fs')"
  shows "log_ok ph' fs' (if r = 0 then ps @ [buf] else ps)" "lsn = lsn_at (log_size ps)"
    "io = io_good \<Longrightarrow> r = 0"
    "r = 0 \<Longrightarrow> tail_clean (ph_log_storage ph) fs (log_size ps) \<Longrightarrow>
       tail_clean (ph_log_storage ph') fs' (log_size (ps @ [buf]))"
    "ph_palf_id ph' = ph_palf_id ph"
proof -
  let ?L = "log_size ps" and ?st = "ph_log_storage ph"
  let ?b = "lst_block_of ?st (lsn_at ?L)" and ?q = "lst_pos ?st (lsn_at ?L)"
  have st: "lst_wf ?st fs" "lst_block_size ?st = PALF_BLOCK_SIZE" "ph_max_lsn ph = lsn_at ?L"
      "log_holds ?st fs 0 ps" "?L < 2 ^ 63"
    using ok by (simp_all add: log_ok_def)
  obtain w where w: "header_ok w ?L buf" and eq: "do_append junk io buf ph fs =
      (case lst_append io (lsn_at ?L) (w @ buf) ?st fs of (ret, st, fs') \<Rightarrow>
         let ph' = ph\<lparr>ph_log_id := ph_log_id ph + 1, ph_log_storage := st\<rparr>
         in Some (if ret \<noteq> 0 then (ret, lsn_at ?L, ph', fs')
                  else (0, lsn_at ?L, ph'\<lparr>ph_end_lsn := lsn_at (?L + entry_size buf),
                                         ph_max_lsn := lsn_at (?L + entry_size buf)\<rparr>, fs')))"
    using do_append_bytes [OF st(3) n] .
  obtain r1 st1 fs1 where a1: "lst_append io (lsn_at ?L) (w @ buf) ?st fs = (r1, st1, fs1)"
    by (metis prod_cases3)
  have ne: "w @ buf \<noteq> []" using w by (auto simp: header_ok_def lgh_size_def)
  note E = lst_append_effect [OF st(1) a1 ne]
  have res: "r = r1" "lsn = lsn_at ?L" "fs' = fs1" "ph_log_storage ph' = st1"
      "ph_is_inited ph' = ph_is_inited ph" "ph_log_cache ph' = ph_log_cache ph" "ph_palf_id ph' = ph_palf_id ph"
      "ph_max_lsn ph' = (if r = 0 then lsn_at (?L + entry_size buf) else ph_max_lsn ph)"
      "ph_end_lsn ph' = (if r = 0 then lsn_at (?L + entry_size buf) else ph_end_lsn ph)"
    using ap unfolding eq a1 by (auto simp: Let_def split: if_splits)
  have L64: "?L < 2 ^ 64" using st(5) by simp
  have same: "block_file fs1 ?b = block_file fs ?b \<or>
      (\<exists>bs. block_file fs1 ?b = Some (pwrite_file ?q bs (base_file fs ?b)))"
    using E(5,6) by metis
  have keep: "log_holds st1 fs1 0 ps"
    using log_holds_frame [OF st(4) _ L64 E(2) E(4) same] by simp
  have new: "log_holds st1 fs1 0 (ps @ [buf])" if "r = 0"
    using keep entry_written [OF E(5) w E(2)] that res(1) by (simp add: log_holds_append)
  have "block_file fs1 0 \<noteq> None"
    using ok same E(4) [of 0] by (cases "?b = 0") (auto simp: log_ok_def)
  then show "log_ok ph' fs' (if r = 0 then ps @ [buf] else ps)"
    using ok keep new E(1-3) res fit by (simp add: log_ok_def)
  show "lsn = lsn_at ?L" "ph_palf_id ph' = ph_palf_id ph" using res by auto
  show "r = 0" if "io = io_good"
    using E(7) [OF that] block_valid [OF st(5,2)] res(1) by auto
  show "tail_clean (ph_log_storage ph') fs' (log_size (ps @ [buf]))"
    if r0: "r = 0" and tc: "tail_clean ?st fs ?L"
  proof -
    let ?M = "?L + entry_size buf"
    have M64: "?M < 2 ^ 64" using fit by simp
    let ?c = "lst_block_of ?st (lsn_at ?M)"
    have sz: "lst_block_of st1 = lst_block_of ?st" "lst_pos st1 = lst_pos ?st"
      using E(2) by (auto simp: lst_block_of_def lst_pos_def fun_eq_iff)
    have f1: "block_file fs1 ?b = Some (pwrite_file ?q (w @ buf) (base_file fs ?b))"
      using E(5) r0 res(1) by simp
    have ge: "?b \<le> ?c"
      unfolding word_le_nat_alt unat_block_of_nat [OF L64] unat_block_of_nat [OF M64] by (rule div_le_mono) simp
    have gone: "block_file fs1 c = None" if "c > ?b" for c using tc that E(4) by (auto simp: tail_clean_def)
    have zero: "\<forall>i \<ge> lst_pos ?st (lsn_at ?M). f_data (base_file fs1 ?c) i = 0"
    proof (cases "?c = ?b")
      case True
      then have dv: "?L div bsize ?st = ?M div bsize ?st" using block_of_eq_iff L64 M64 by metis
      have "?q + entry_size buf \<le> lst_pos ?st (lsn_at ?M)"
        using same_block_pos [OF order.refl dv] unfolding lst_pos_nat [OF L64] lst_pos_nat [OF M64] by simp
      then show ?thesis
        using tc f1 True w by (auto simp: tail_clean_def base_file_def pwrite_file_def header_ok_def entry_size_def)
    next
      case False
      then show ?thesis using gone ge by (simp add: base_file_def new_file_def)
    qed
    show ?thesis unfolding tail_clean_def res(3,4) sz using zero gone ge by auto
  qed
qed

lemma append_progress:
  assumes "log_ok ph fs ps" "entry_size buf < 2 ^ 32"
  shows "\<exists>x. do_append junk io buf ph fs = Some x"
proof -
  have "ph_max_lsn ph = lsn_at (log_size ps)" using assms(1) by (simp add: log_ok_def)
  from do_append_bytes [OF this assms(2)] obtain w where
    "do_append junk io buf ph fs =
      (case lst_append io (lsn_at (log_size ps)) (w @ buf) (ph_log_storage ph) fs of (ret, st, fs') \<Rightarrow>
         let ph' = ph\<lparr>ph_log_id := ph_log_id ph + 1, ph_log_storage := st\<rparr>
         in Some (if ret \<noteq> 0 then (ret, lsn_at (log_size ps), ph', fs')
                  else (0, lsn_at (log_size ps), ph'\<lparr>ph_end_lsn := lsn_at (log_size ps + entry_size buf),
                                         ph_max_lsn := lsn_at (log_size ps + entry_size buf)\<rparr>, fs')))"
    by blast
  then show ?thesis by (auto simp: Let_def split: prod.splits)
qed

section \<open>Recovery\<close>

lemma zero_not_valid:
  assumes "\<And>i. i < 2 \<Longrightarrow> bs ! i = 0" "2 \<le> length bs"
  shows "\<not> lgh_is_valid (lgh_dec bs)"
proof -
  obtain x y zs where "bs = x # y # zs" using assms(2) by (metis Suc_le_length_iff numeral_2_eq_2)
  then have "bslice 0 2 bs = [0, 0]" using assms(1) [of 0] assms(1) [of 1] by (simp add: bslice_def)
  then have "lgh_magic (lgh_dec bs) = 0" by (simp add: lgh_dec_def get_word_def)
  then show ?thesis by (simp add: lgh_is_valid_def LGH_MAGIC_def)
qed

lemma lgh_deserialize_0:
  "lgh_size \<le> length bs \<Longrightarrow> lgh_deserialize old bs 0 = (0, lgh_dec (bslice 0 lgh_size bs), lgh_size)"
  by (simp add: lgh_deserialize_def pod_deserialize_def)

lemma scan_read:
  assumes "lst_wf st fs" "L < 2 ^ 64"
  shows "lst_read io_good (lsn_at L) SCAN_BUF SCAN_BUF st fs =
    (case block_file fs (lst_block_of st (lsn_at L)) of
       None \<Rightarrow> (-1, [])
     | Some f \<Rightarrow> (0, pread_file (lst_pos st (lsn_at L)) (min SCAN_BUF (bsize st - L mod bsize st)) f))"
proof -
  have "lst_is_inited st" "0 < lst_block_size st" using assms(1) by (simp_all add: lst_wf_def)
  note R = lst_read_good [OF this, of "lsn_at L" SCAN_BUF SCAN_BUF fs]
  have "lst_room st (lsn_at L) = bsize st - L mod bsize st"
    using assms(2) by (simp add: lst_room_def lsn_2_offset_def unat_mod unsigned_of_nat take_bit_nat_eq_self)
  then show ?thesis unfolding R by (simp split: option.splits)
qed

text \<open>At the clean end of the log the scan stops, at an entry it moves to the next one.\<close>

lemma scan_at_end:
  assumes wf: "lst_wf st fs" and L: "L < 2 ^ 64" and tc: "tail_clean st fs L"
  shows "init_scan io_good st fs (lsn_at L) lv = Some lv"
proof (cases "block_file fs (lst_block_of st (lsn_at L))")
  case None
  then show ?thesis by (subst init_scan.simps) (simp add: scan_read [OF wf L])
next
  case (Some f)
  let ?bs = "pread_file (lst_pos st (lsn_at L)) (min SCAN_BUF (bsize st - L mod bsize st)) f"
  have z: "\<not> lgh_is_valid (lgh_dec (bslice 0 lgh_size ?bs))" if "lgh_size \<le> length ?bs"
  proof (rule zero_not_valid)
    show "2 \<le> length (bslice 0 lgh_size ?bs)" using that by (simp add: lgh_size_def)
    fix i :: nat
    assume "i < 2"
    then have "bslice 0 lgh_size ?bs ! i = f_data f (lst_pos st (lsn_at L) + i)"
      using that nth_pread [of i "lst_pos st (lsn_at L)"] by (simp add: nth_slice lgh_size_def)
    then show "bslice 0 lgh_size ?bs ! i = 0" using tc Some by (simp add: tail_clean_def base_file_def)
  qed
  show ?thesis
    by (subst init_scan.simps) (simp add: scan_read [OF wf L] Some lgh_deserialize_0 z not_less)
qed

lemma entry_header_read:
  assumes wf: "lst_wf st fs" and L: "L + entry_size p < 2 ^ 64" and at: "entry_at st fs L p"
    and fit: "L mod bsize st + lgh_size \<le> bsize st"
  obtains bs where "lst_read io_good (lsn_at L) SCAN_BUF SCAN_BUF st fs = (0, bs)" "lgh_size \<le> length bs"
    "header_ok (bslice 0 lgh_size bs) L p"
    "L mod bsize st + entry_size p \<le> bsize st \<Longrightarrow> entry_size p \<le> SCAN_BUF \<Longrightarrow>
       entry_size p \<le> length bs \<and> bslice lgh_size (length p) bs = p"
proof -
  let ?q = "lst_pos st (lsn_at L)" and ?n = "min SCAN_BUF (bsize st - L mod bsize st)"
  obtain f where f: "block_file fs (lst_block_of st (lsn_at L)) = Some f" "?q + entry_size p \<le> f_size f"
    "header_ok (pread_file ?q lgh_size f) L p" "pread_file (?q + lgh_size) (length p) f = p"
    using at by (auto simp: entry_at_def split: option.splits)
  have L64: "L < 2 ^ 64" using L by simp
  let ?bs = "pread_file ?q ?n f"
  have n: "lgh_size \<le> ?n" using fit by (simp add: SCAN_BUF_def lgh_size_def)
  have len: "lgh_size \<le> length ?bs" using n f(2) by (simp add: entry_size_def)
  have "bslice 0 lgh_size ?bs = pread_file ?q lgh_size f"
    using n f(2) by (intro nth_equalityI) (auto simp: nth_slice len pread_file_def entry_size_def)
  then have h: "header_ok (bslice 0 lgh_size ?bs) L p" using f(3) by simp
  have whole: "entry_size p \<le> length ?bs \<and> bslice lgh_size (length p) ?bs = p"
    if "L mod bsize st + entry_size p \<le> bsize st" "entry_size p \<le> SCAN_BUF"
  proof -
    have en: "entry_size p \<le> ?n" using that by simp
    then have el: "entry_size p \<le> length ?bs" using f(2) by simp
    have "bslice lgh_size (length p) ?bs = pread_file (?q + lgh_size) (length p) f"
      using en f(2) el by (intro nth_equalityI) (auto simp: nth_slice pread_file_def entry_size_def add.assoc)
    then show ?thesis using f(4) el by simp
  qed
  have "lst_read io_good (lsn_at L) SCAN_BUF SCAN_BUF st fs = (0, ?bs)"
    using scan_read [OF wf L64] f(1) by simp
  then show ?thesis using len h whole by (rule that)
qed

lemma init_scan_correct:
  assumes wf: "lst_wf st fs"
  shows "log_holds st fs L ps \<Longrightarrow> headers_fit (bsize st) L ps \<Longrightarrow> L + log_size ps < 2 ^ 64 \<Longrightarrow>
    tail_clean st fs (L + log_size ps) \<Longrightarrow>
    init_scan io_good st fs (lsn_at L) (lsn_at L) = Some (lsn_at (L + log_size ps))"
proof (induction ps arbitrary: L)
  case Nil
  then show ?case using scan_at_end [OF wf, of L] by simp
next
  case (Cons p ps)
  have at: "entry_at st fs L p" "L mod bsize st + lgh_size \<le> bsize st" "L + entry_size p < 2 ^ 64"
    using Cons.prems by simp_all
  obtain bs where bs: "lst_read io_good (lsn_at L) SCAN_BUF SCAN_BUF st fs = (0, bs)" "lgh_size \<le> length bs"
    "header_ok (bslice 0 lgh_size bs) L p"
    using entry_header_read [OF wf at(3,1,2)] by blast
  let ?M = "L + entry_size p"
  have "unat (word_of_nat ?M :: u64) = ?M" "unat (word_of_nat L :: u64) = L"
    using at(3) by (simp_all only: unsigned_of_nat) (simp_all add: take_bit_nat_eq_self)
  then have gt: "\<not> (word_of_nat ?M :: u64) \<le> word_of_nat L"
    by (simp only: word_le_nat_alt) (simp add: entry_size_def lgh_size_def)
  have "init_scan io_good st fs (lsn_at L) (lsn_at L) = init_scan io_good st fs (lsn_at ?M) (lsn_at ?M)"
    using bs gt by (subst init_scan.simps) (simp add: lgh_deserialize_0 header_ok_def Let_def not_less del: of_nat_add)
  also have "\<dots> = Some (lsn_at (?M + log_size ps))"
    by (rule Cons.IH) (use Cons.prems in \<open>simp_all add: add.assoc\<close>)
  finally show ?case by (simp add: add.assoc)
qed

lemma new_block_clean:
  "block_file fs 0 = Some (ftruncate_file n new_file) \<Longrightarrow> (\<forall>b > 0. block_file fs b = None) \<Longrightarrow> tail_clean st fs 0"
  by (simp add: tail_clean_def lst_block_of_def lsn_2_block_def base_file_def ftruncate_file_def new_file_def)

lemma ph_init_fresh:
  obtains ph fs where "ph_init io_good io_good io_good palf_id ph_new lf_empty = Some (0, ph, fs)"
    "log_ok ph fs []" "tail_clean (ph_log_storage ph) fs 0" "ph_palf_id ph = palf_id"
proof -
  define fs where "fs = \<lparr>lf_dir = [0 \<mapsto> 0], lf_files = (\<lambda>_. new_file)(0 := ftruncate_file PALF_PHY_BLOCK_SIZE new_file), lf_fresh = 1\<rparr>"
  define st where "st = \<lparr>lst_block_size = PALF_BLOCK_SIZE, lst_cur_fd = Some 0, lst_cur_block_id = 0,
    lst_max_block_id = 0, lst_min_block_id = 0, lst_is_inited = True\<rparr>"
  have "scan_blocks Map.empty 0 LOG_INVALID_BLOCK_ID LOG_INVALID_BLOCK_ID = Some (LOG_INVALID_BLOCK_ID, LOG_INVALID_BLOCK_ID)"
    by (subst scan_blocks.simps) simp
  then have i: "lst_init io_good io_good PALF_BLOCK_SIZE lst_new lf_empty = Some (0, st, fs)"
    by (simp add: lst_init_def lst_new_def lf_empty_def create_next_block_def open_block_def fs_open_def
        fs_ftruncate_def io_good_def close_current_block_def st_def fs_def Let_def fun_eq_iff)
  have wf: "lst_wf st fs" by (simp add: lst_wf_def fs_wf_def st_def fs_def PALF_BLOCK_SIZE_def)
  have bf: "block_file fs 0 = Some (ftruncate_file PALF_PHY_BLOCK_SIZE new_file)" "\<forall>b > 0. block_file fs b = None"
    by (auto simp: block_file_def fs_def)
  note tc = new_block_clean [OF bf, of st]
  have sc: "init_scan io_good st fs (LSN 0) (LSN 0) = Some (LSN 0)"
    using scan_at_end [OF wf _ tc, of "LSN 0"] by simp
  define ph where "ph = ph_new\<lparr>ph_palf_id := palf_id, ph_epoch := 1, ph_log_storage := st, ph_is_inited := True,
    ph_end_lsn := LSN 0, ph_max_lsn := LSN 0, ph_log_id := FIRST_VALID_LOG_ID\<rparr>"
  have "ph_init io_good io_good io_good palf_id ph_new lf_empty = Some (0, ph, fs)"
    using i sc by (simp add: ph_init_def ph_new_def Let_def lst_get_begin_lsn_def st_def ph_def)
  moreover have "log_ok ph fs []"
    using wf bf by (simp add: log_ok_def ph_def ph_new_def lc_new_def st_def)
  moreover have "tail_clean (ph_log_storage ph) fs 0" "ph_palf_id ph = palf_id" using tc by (simp_all add: ph_def)
  ultimately show ?thesis by (rule that)
qed

lemma scan_blocks_clean:
  assumes "tail_clean st fs L" "L < 2 ^ 63" "lst_block_size st = PALF_BLOCK_SIZE" "block_file fs 0 \<noteq> None"
  obtains m where "scan_blocks (lf_dir fs) 0 LOG_INVALID_BLOCK_ID LOG_INVALID_BLOCK_ID = Some (0, m - 1)"
    "m \<noteq> 0" "\<forall>b < m. lf_dir fs b \<noteq> None" "lf_dir fs m = None"
proof -
  let ?e = "lst_block_of st (lsn_at L)"
  have lt: "?e < LOG_INVALID_BLOCK_ID" using block_valid [OF assms(2,3)] .
  then have "?e < - 1" by (metis word_n1_ge linorder_not_le order.strict_trans1)
  note e1 = unat_plus_1 [OF this]
  have "?e < ?e + 1" using e1 by (simp add: word_less_nat_alt)
  then have none: "lf_dir fs (?e + 1) = None" using assms(1) by (auto simp: tail_clean_def block_file_def)
  obtain m where m: "lf_dir fs m = None" "\<And>b. lf_dir fs b = None \<Longrightarrow> unat m \<le> unat b"
    using ex_has_least_nat [of "\<lambda>b. lf_dir fs b = None" "?e + 1" unat] none by blast
  have m0: "m \<noteq> 0" using m(1) assms(4) by (auto simp: block_file_def)
  have below: "\<forall>b < m. lf_dir fs b \<noteq> None" using m(2) by (fastforce simp: word_less_nat_alt)
  have "unat m \<le> unat ?e + 1" using m(2) [OF none] e1 by simp
  then have mi: "m \<le> LOG_INVALID_BLOCK_ID" using lt by (simp add: word_le_nat_alt word_less_nat_alt)
  have "scan_blocks (lf_dir fs) 0 LOG_INVALID_BLOCK_ID LOG_INVALID_BLOCK_ID = Some (0, m - 1)"
    using scan_blocks_result [of m "lf_dir fs" 0 LOG_INVALID_BLOCK_ID LOG_INVALID_BLOCK_ID] below m(1) mi m0
    by simp
  then show ?thesis using m0 below m(1) by (rule that)
qed

lemma log_holds_size: "lst_block_size st' = lst_block_size st \<Longrightarrow> log_holds st' fs L ps = log_holds st fs L ps"
proof (induction ps arbitrary: L)
  case (Cons p ps)
  have "lst_block_of st' = lst_block_of st" "lst_pos st' = lst_pos st"
    using Cons.prems by (auto simp: lst_block_of_def lst_pos_def fun_eq_iff)
  then have "entry_at st' fs L p = entry_at st fs L p" by (simp add: entry_at_def cong: option.case_cong)
  then show ?case using Cons by simp
qed simp

lemma reopen_correct:
  assumes ok: "log_ok ph0 fs ps" and tc: "tail_clean (ph_log_storage ph0) fs (log_size ps)"
    and fit: "headers_fit (unat PALF_BLOCK_SIZE) 0 ps"
  obtains ph m where "ph_init io1 io2 io_good palf_id ph_new fs = Some (0, ph, fs)" "log_ok ph fs ps"
    "tail_clean (ph_log_storage ph) fs (log_size ps)" "ph_palf_id ph = palf_id"
    "lst_max_block_id (ph_log_storage ph) = m - 1" "m \<noteq> 0" "lf_dir fs m = None" "\<forall>b < m. lf_dir fs b \<noteq> None"
proof -
  let ?L = "log_size ps"
  have o: "lst_wf (ph_log_storage ph0) fs" "lst_block_size (ph_log_storage ph0) = PALF_BLOCK_SIZE"
    "block_file fs 0 \<noteq> None" "log_holds (ph_log_storage ph0) fs 0 ps" "?L < 2 ^ 63"
    using ok by (simp_all add: log_ok_def)
  obtain m where m: "scan_blocks (lf_dir fs) 0 LOG_INVALID_BLOCK_ID LOG_INVALID_BLOCK_ID = Some (0, m - 1)"
    "m \<noteq> 0" "\<forall>b < m. lf_dir fs b \<noteq> None" "lf_dir fs m = None"
    using scan_blocks_clean [OF tc o(5,2,3)] .
  define st where "st = lst_new\<lparr>lst_block_size := PALF_BLOCK_SIZE, lst_min_block_id := 0, lst_max_block_id := m - 1,
    lst_is_inited := True\<rparr>"
  have inv0: "LOG_INVALID_BLOCK_ID \<noteq> 0" by (simp add: LOG_INVALID_BLOCK_ID_def PALF_BLOCK_SIZE_def)
  have i: "lst_init io1 io2 PALF_BLOCK_SIZE lst_new fs = Some (0, st, fs)"
    using m(1) inv0 by (simp add: lst_init_def lst_new_def st_def Let_def)
  have wf: "lst_wf st fs" using o(1) by (simp add: lst_wf_def st_def lst_new_def PALF_BLOCK_SIZE_def)
  have sz: "lst_block_size st = lst_block_size (ph_log_storage ph0)" using o(2) by (simp add: st_def)
  have h: "log_holds st fs 0 ps" using log_holds_size [OF sz] o(4) by simp
  have t: "tail_clean st fs ?L" using tc sz by (simp add: tail_clean_def lst_block_of_def lst_pos_def)
  have sc: "init_scan io_good st fs (LSN 0) (LSN 0) = Some (lsn_at ?L)"
    using init_scan_correct [OF wf h] fit t o(5) by (simp add: st_def)
  define ph where "ph = ph_new\<lparr>ph_palf_id := palf_id, ph_epoch := 1, ph_log_storage := st, ph_is_inited := True,
    ph_end_lsn := lsn_at ?L, ph_max_lsn := lsn_at ?L,
    ph_log_id := (if (word_of_nat ?L :: u64) > 0 then 2 else FIRST_VALID_LOG_ID)\<rparr>"
  have "ph_init io1 io2 io_good palf_id ph_new fs = Some (0, ph, fs)"
    using i sc by (simp add: ph_init_def ph_new_def Let_def lst_get_begin_lsn_def st_def ph_def)
  moreover have "log_ok ph fs ps"
    using wf h o(3,5) by (simp add: log_ok_def ph_def ph_new_def lc_new_def st_def)
  moreover have "ph_log_storage ph = st" "ph_palf_id ph = palf_id" "lst_max_block_id st = m - 1"
    by (simp_all add: ph_def st_def)
  ultimately show ?thesis using that t m(2-4) by metis
qed

text \<open>\<^verbatim>\<open>load\<close> takes a log that lives in block 0 only for an empty one.\<close>

lemma load_forgets:
  assumes ok: "log_ok ph0 fs ps" and tc: "tail_clean (ph_log_storage ph0) fs (log_size ps)"
    and fit: "headers_fit (unat PALF_BLOCK_SIZE) 0 ps" and one: "lf_dir fs 1 = None"
  obtains ph where "ph_load io1 io2 io_good palf_id ph_new fs = Some (0, ph, fs)"
    "ph_end_lsn ph = LSN 0" "ph_max_lsn ph = LSN 0"
proof -
  obtain ph m where ph: "ph_init io1 io2 io_good palf_id ph_new fs = Some (0, ph, fs)" "log_ok ph fs ps"
    "lst_max_block_id (ph_log_storage ph) = m - 1" "m \<noteq> 0" "lf_dir fs m = None" "\<forall>b < m. lf_dir fs b \<noteq> None"
    using reopen_correct [OF ok tc fit] by metis
  have "m = 1"
  proof -
    have "\<not> 1 < m" using ph(6) one by auto
    then show ?thesis using ph(4) by (metis less_linear word_less_1)
  qed
  then have "ph_load io1 io2 io_good palf_id ph_new fs = Some (0, ph\<lparr>ph_end_lsn := LSN 0, ph_max_lsn := LSN 0\<rparr>, fs)"
    using ph(1-3) by (simp add: ph_load_def get_block_id_range_def lst_get_begin_lsn_def log_ok_def Let_def)
  then show ?thesis by (rule that) simp_all
qed

end
