(* ===== verification/Ob_Log_Service.thy ===== *)
theory Ob_Log_Service
  imports Ob_Palf_Handle "HOL-Library.AList"
begin

text \<open>
  The log handler of a log stream and the service that owns the handlers:
  \<^verbatim>\<open>logservice/ob_log_handler\<close> and \<^verbatim>\<open>logservice/ob_log_service\<close>.  A handler prefixes every
  payload with an \<^verbatim>\<open>ObLogBaseHeader\<close> and dispatches replayed payloads on its type.

  The sub-handlers are virtual calls on registered objects: \<open>rep x buf lsn scn s\<close> is the call
  of \<^verbatim>\<open>replay\<close> on the object \<open>x\<close> in the state \<open>s\<close> of all such objects.  Handlers are shared by
  pointer, so the service holds a heap of them.
\<close>

section \<open>Handler\<close>

record ('h, 'r) ObLogHandler =
  lh_ls_id :: int
  lh_palf_handle :: "nat option"
  lh_palf_handle_impl :: "nat option"
  lh_replay_handlers :: "u16 \<rightharpoonup> 'h"
  lh_role_change_handlers :: "(u16 \<times> 'r) list"
  lh_is_inited :: bool

definition lh_new :: "('h, 'r) ObLogHandler" where
  "lh_new = \<lparr>lh_ls_id = -1, lh_palf_handle = None, lh_palf_handle_impl = None,
     lh_replay_handlers = Map.empty, lh_role_change_handlers = [], lh_is_inited = False\<rparr>"

definition palf_handle_init :: "nat option \<Rightarrow> ret \<times> nat option" where
  "palf_handle_init impl = (if impl \<noteq> None then 0 else -1, impl)"

definition lh_init :: "io \<Rightarrow> io \<Rightarrow> io \<Rightarrow> int \<Rightarrow> ('h, 'r) ObLogHandler \<Rightarrow> PalfEnvImpl
    \<Rightarrow> (ret \<times> ('h, 'r) ObLogHandler \<times> PalfEnvImpl) option" where
  "lh_init io1 io2 io3 ls_id h env =
     (if lh_is_inited h then Some (-1, h, env)
      else do {
        let h = h\<lparr>lh_ls_id := ls_id\<rparr>;
        (ret, impl, env) \<leftarrow> create_palf_handle_impl io1 io2 io3 ls_id (lh_palf_handle_impl h) env;
        let h = h\<lparr>lh_palf_handle_impl := impl\<rparr>;
        if ret \<noteq> 0 then Some (ret, h, env)
        else case palf_handle_init impl of (ret, handle) \<Rightarrow>
          let h = h\<lparr>lh_palf_handle := handle\<rparr>
          in if ret \<noteq> 0 then Some (ret, h, env) else Some (0, h\<lparr>lh_is_inited := True\<rparr>, env)
      })"

definition register_replay_handler :: "ObLogBaseType \<Rightarrow> 'h \<Rightarrow> ('h, 'r) ObLogHandler \<Rightarrow> ret \<times> ('h, 'r) ObLogHandler" where
  "register_replay_handler type handler h =
     (0, h\<lparr>lh_replay_handlers := (lh_replay_handlers h)(base_type_val type \<mapsto> handler)\<rparr>)"

text \<open>The role handlers are listed in the order in which the map is iterated.\<close>

definition register_role_change_handler ::
    "ObLogBaseType \<Rightarrow> 'r \<Rightarrow> ('h, 'r) ObLogHandler \<Rightarrow> ret \<times> ('h, 'r) ObLogHandler" where
  "register_role_change_handler type handler h =
     (0, h\<lparr>lh_role_change_handlers := AList.update (base_type_val type) handler (lh_role_change_handlers h)\<rparr>)"

definition lh_append :: "(nat \<Rightarrow> byte) \<Rightarrow> io \<Rightarrow> bytes option \<Rightarrow> ObLogBaseType \<Rightarrow> LSN \<Rightarrow> u64 \<Rightarrow> ('h, 'r) ObLogHandler
    \<Rightarrow> PalfEnvImpl \<Rightarrow> (ret \<times> LSN \<times> u64 \<times> PalfEnvImpl) option" where
  "lh_append junk io buf type lsn scn h env =
     (if \<not> lh_is_inited h then Some (-1, lsn, scn, env)
      else case buf of
        None \<Rightarrow> Some (-1, lsn, scn, env)
      | Some b \<Rightarrow>
          if length b = 0 then Some (-1, lsn, scn, env)
          else let total_len = blh_size + length b;
                   (_, log_buf, pos) = blh_serialize (blh_make type) (malloc_bytes junk total_len) 0
               in palf_append junk io (lh_palf_handle h) (blit pos b log_buf) lsn scn env)"

type_synonym ('h, 's) replayer = "'h \<Rightarrow> bytes \<Rightarrow> LSN \<Rightarrow> int \<Rightarrow> 's \<Rightarrow> (ret \<times> 's) option"

definition lh_replay :: "('h, 's) replayer \<Rightarrow> bytes option \<Rightarrow> LSN \<Rightarrow> int \<Rightarrow> ('h, 'r) ObLogHandler \<Rightarrow> 's
    \<Rightarrow> (ret \<times> 's) option" where
  "lh_replay rep buf lsn scn h s =
     (case buf of
        None \<Rightarrow> Some (-1, s)
      | Some b \<Rightarrow>
          if length b = 0 then Some (-1, s)
          else case blh_deserialize blh_init b 0 of (ret, base_header, pos) \<Rightarrow>
            if ret \<noteq> 0 then Some (ret, s)
            else case lh_replay_handlers h (blh_log_type base_header) of
              None \<Rightarrow> Some (0, s)
            | Some x \<Rightarrow> rep x (drop pos b) lsn scn s)"

definition lh_switch_to_leader :: "('r \<Rightarrow> 's \<Rightarrow> 's) \<Rightarrow> ('h, 'r) ObLogHandler \<Rightarrow> 's \<Rightarrow> ret \<times> 's" where
  "lh_switch_to_leader to_leader h s = (0, fold (\<lambda>p. to_leader (snd p)) (lh_role_change_handlers h) s)"

definition lh_switch_to_follower :: "('r \<Rightarrow> 's \<Rightarrow> 's) \<Rightarrow> ('h, 'r) ObLogHandler \<Rightarrow> 's \<Rightarrow> ret \<times> 's" where
  "lh_switch_to_follower to_follower h s = (0, fold (\<lambda>p. to_follower (snd p)) (lh_role_change_handlers h) s)"

section \<open>Service\<close>

record ('h, 'r) ObLogService =
  ls_palf_env :: PalfEnvImpl
  ls_heap :: "nat \<rightharpoonup> ('h, 'r) ObLogHandler"
  ls_fresh :: nat
  ls_handlers :: "int \<rightharpoonup> nat"
  ls_is_inited :: bool
  ls_is_running :: bool

definition ls_new :: "(int \<Rightarrow> log_fs) \<Rightarrow> ('h, 'r) ObLogService" where
  "ls_new fs = \<lparr>ls_palf_env = pe_new fs, ls_heap = Map.empty, ls_fresh = 0, ls_handlers = Map.empty,
     ls_is_inited = False, ls_is_running = False\<rparr>"

definition ls_init :: "('h, 'r) ObLogService \<Rightarrow> ret \<times> ('h, 'r) ObLogService" where
  "ls_init svc =
     (if ls_is_inited svc then (-1, svc)
      else case pe_init (ls_palf_env svc) of (ret, env) \<Rightarrow>
        let svc = svc\<lparr>ls_palf_env := env\<rparr>
        in if ret \<noteq> 0 then (ret, svc) else (0, svc\<lparr>ls_is_inited := True\<rparr>))"

definition ls_start :: "('h, 'r) ObLogService \<Rightarrow> ret \<times> ('h, 'r) ObLogService" where
  "ls_start svc =
     (if \<not> ls_is_inited svc \<or> ls_is_running svc then (-1, svc)
      else case pe_start (ls_palf_env svc) of (ret, env) \<Rightarrow>
        let svc = svc\<lparr>ls_palf_env := env\<rparr>
        in if ret \<noteq> 0 then (ret, svc) else (0, svc\<lparr>ls_is_running := True\<rparr>))"

definition ls_stop :: "('h, 'r) ObLogService \<Rightarrow> ('h, 'r) ObLogService" where
  "ls_stop svc = svc\<lparr>ls_is_running := False, ls_palf_env := pe_stop (ls_palf_env svc)\<rparr>"

definition ls_destroy :: "('h, 'r) ObLogService \<Rightarrow> ('h, 'r) ObLogService" where
  "ls_destroy svc =
     (let svc = ls_stop svc
      in svc\<lparr>ls_heap := (\<lambda>a. if a \<in> ran (ls_handlers svc) then None else ls_heap svc a),
             ls_handlers := Map.empty, ls_palf_env := pe_destroy (ls_palf_env svc), ls_is_inited := False\<rparr>)"

definition open_ls :: "io \<Rightarrow> io \<Rightarrow> io \<Rightarrow> int \<Rightarrow> nat option \<Rightarrow> ('h, 'r) ObLogService
    \<Rightarrow> (ret \<times> nat option \<times> ('h, 'r) ObLogService) option" where
  "open_ls io1 io2 io3 ls_id handler svc =
     (case ls_handlers svc ls_id of
        Some a \<Rightarrow> Some (0, Some a, svc)
      | None \<Rightarrow> do {
          (ret, h, env) \<leftarrow> lh_init io1 io2 io3 ls_id lh_new (ls_palf_env svc);
          let svc = svc\<lparr>ls_palf_env := env\<rparr>;
          if ret \<noteq> 0 then Some (ret, handler, svc)
          else let a = ls_fresh svc
               in Some (0, Some a, svc\<lparr>ls_heap := (ls_heap svc)(a \<mapsto> h), ls_fresh := a + 1,
                                       ls_handlers := (ls_handlers svc)(ls_id \<mapsto> a)\<rparr>)
        })"

definition remove_ls :: "int \<Rightarrow> ('h, 'r) ObLogService \<Rightarrow> ret \<times> ('h, 'r) ObLogService" where
  "remove_ls ls_id svc =
     (case ls_handlers svc ls_id of
        None \<Rightarrow> (-1, svc)
      | Some a \<Rightarrow>
          (0, svc\<lparr>ls_heap := (ls_heap svc)(a := None), ls_handlers := (ls_handlers svc)(ls_id := None),
                  ls_palf_env := snd (remove_palf_handle_impl ls_id (ls_palf_env svc))\<rparr>))"

text \<open>The calls of a client that holds a pointer to a handler.\<close>

definition svc_append :: "(nat \<Rightarrow> byte) \<Rightarrow> io \<Rightarrow> nat \<Rightarrow> bytes option \<Rightarrow> ObLogBaseType \<Rightarrow> LSN \<Rightarrow> u64
    \<Rightarrow> ('h, 'r) ObLogService \<Rightarrow> (ret \<times> LSN \<times> u64 \<times> ('h, 'r) ObLogService) option" where
  "svc_append junk io a buf type lsn scn svc = do {
     h \<leftarrow> ls_heap svc a;
     (ret, lsn, scn, env) \<leftarrow> lh_append junk io buf type lsn scn h (ls_palf_env svc);
     Some (ret, lsn, scn, svc\<lparr>ls_palf_env := env\<rparr>)
   }"

definition svc_register :: "nat \<Rightarrow> ObLogBaseType \<Rightarrow> 'h \<Rightarrow> ('h, 'r) ObLogService \<Rightarrow> ('h, 'r) ObLogService option" where
  "svc_register a type x svc = do {
     h \<leftarrow> ls_heap svc a;
     Some (svc\<lparr>ls_heap := (ls_heap svc)(a \<mapsto> snd (register_replay_handler type x h))\<rparr>)
   }"

text \<open>The loop of \<^verbatim>\<open>replay_ls\<close>.  \<open>rb\<close> is the 4096-byte \<^verbatim>\<open>read_buf\<close>, which keeps the bytes of
  earlier rounds; an entry that announces more bytes than the buffer has is read past its
  end, which has no result.\<close>

partial_function (option) replay_loop ::
    "('h, 's) replayer \<Rightarrow> io \<Rightarrow> ('h, 'r) ObLogHandler \<Rightarrow> PalfEnvImpl \<Rightarrow> LSN \<Rightarrow> LSN \<Rightarrow> LSN \<Rightarrow> bytes \<Rightarrow> 's \<Rightarrow> 's option" where
  [code]: "replay_loop rep io h env begin_lsn end_lsn current rb s =
     (if \<not> lsn_val current < lsn_val end_lsn then Some s
      else Option.bind (palf_read io (lh_palf_handle h) current 4096 4096 env) (\<lambda>(ret, bs).
        if ret \<noteq> 0 then Some s
        else if length bs = 0 then Some s
        else if length bs < lgh_size then Some s
        else let rb = blit 0 bs rb
             in case lgh_deserialize lgh_init (take (length bs) rb) 0 of (ret, hdr, pos) \<Rightarrow>
               if ret \<noteq> 0 then Some s
               else if \<not> lgh_is_valid hdr then Some s
               else let payload_len = int (unat (lgh_group_entry_size hdr)) - int pos
                    in Option.bind
                         (if payload_len > 0 then
                            (if pos + nat payload_len > length rb then None
                             else map_option snd
                                    (lh_replay rep (Some (bslice pos (nat payload_len) rb)) current 0 h s))
                          else Some s)
                         (\<lambda>s. let current = lgh_committed_end_lsn hdr
                               in if lsn_val current \<le> lsn_val begin_lsn then Some s
                                  else replay_loop rep io h env begin_lsn end_lsn current rb s)))"

definition replay_ls :: "('h, 's) replayer \<Rightarrow> (nat \<Rightarrow> byte) \<Rightarrow> io \<Rightarrow> int \<Rightarrow> ('h, 'r) ObLogService \<Rightarrow> 's
    \<Rightarrow> (ret \<times> 's) option" where
  "replay_ls rep junk io ls_id svc s =
     (case ls_handlers svc ls_id of
        None \<Rightarrow> Some (-1, s)
      | Some a \<Rightarrow> do {
          h \<leftarrow> ls_heap svc a;
          (ret, begin_lsn) \<leftarrow> palf_get_begin_lsn (lh_palf_handle h) lsn_init (ls_palf_env svc);
          if ret \<noteq> 0 then Some (ret, s)
          else do {
            (ret, end_lsn) \<leftarrow> palf_get_end_lsn (lh_palf_handle h) lsn_init (ls_palf_env svc);
            if ret \<noteq> 0 then Some (ret, s)
            else do {
              s \<leftarrow> replay_loop rep io h (ls_palf_env svc) begin_lsn end_lsn begin_lsn (malloc_bytes junk 4096) s;
              Some (0, s)
            }
          }
        })"

section \<open>Replay\<close>

text \<open>What replay means for a list of payloads: each is dispatched, in order, with the
  position it has in the log.\<close>

fun replay_all :: "('h, 's) replayer \<Rightarrow> ('h, 'r) ObLogHandler \<Rightarrow> nat \<Rightarrow> bytes list \<Rightarrow> 's \<Rightarrow> 's option" where
  "replay_all rep h L [] s = Some s"
| "replay_all rep h L (p # ps) s =
     Option.bind (map_option snd (lh_replay rep (Some p) (lsn_at L) 0 h s))
       (replay_all rep h (L + entry_size p) ps)"

text \<open>No entry crosses the end of its block, and each fits the read buffer.\<close>

fun entries_fit :: "nat \<Rightarrow> nat \<Rightarrow> bytes list \<Rightarrow> bool" where
  "entries_fit B L [] \<longleftrightarrow> True"
| "entries_fit B L (p # ps) \<longleftrightarrow>
     L mod B + entry_size p \<le> B \<and> entry_size p \<le> SCAN_BUF \<and> entries_fit B (L + entry_size p) ps"

lemma entries_fit_headers: "entries_fit B L ps \<Longrightarrow> headers_fit B L ps"
  by (induction ps arbitrary: L) (auto simp: entry_size_def)

lemma entries_fit_append:
  "entries_fit B L (ps @ qs) \<longleftrightarrow> entries_fit B L ps \<and> entries_fit B (L + log_size ps) qs"
  by (induction ps arbitrary: L) (auto simp: add.assoc)

lemma replay_all_append:
  "replay_all rep h L (ps @ qs) s = Option.bind (replay_all rep h L ps s) (replay_all rep h (L + log_size ps) qs)"
proof (induction ps arbitrary: L s)
  case (Cons p ps)
  show ?case by (cases "lh_replay rep (Some p) (lsn_at L) 0 h s") (auto simp: Cons.IH add.assoc)
qed simp

lemma lst_read_length: "length (snd (lst_read io lsn n m st fs)) \<le> m"
  by (auto simp: lst_read_def Let_def split: option.splits)

lemma word_of_nat_le: "L < 2 ^ 64 \<Longrightarrow> K < 2 ^ 64 \<Longrightarrow> (word_of_nat L :: u64) \<le> word_of_nat K \<longleftrightarrow> L \<le> K"
  by (simp add: word_le_nat_alt unsigned_of_nat take_bit_nat_eq_self)

lemma replay_step:
  assumes h: "lh_palf_handle h = Some a" "pe_heap env a = Some ph"
    and st: "ph_is_inited ph" "\<not> lc_is_inited (ph_log_cache ph)" "st = ph_log_storage ph" "fs = pe_fs env (ph_palf_id ph)"
    and wf: "lst_wf st fs" and at: "entry_at st fs L p" "L mod bsize st + entry_size p \<le> bsize st" "entry_size p \<le> SCAN_BUF"
    and L: "L + entry_size p \<le> E" "E < 2 ^ 64" and rb: "length rb = SCAN_BUF"
  shows "\<exists>rb'. length rb' = SCAN_BUF \<and>
    replay_loop rep io_good h env (LSN 0) (lsn_at E) (lsn_at L) rb s =
      Option.bind (map_option snd (lh_replay rep (Some p) (lsn_at L) 0 h s))
        (replay_loop rep io_good h env (LSN 0) (lsn_at E) (lsn_at (L + entry_size p)) rb')"
proof -
  have fit: "L mod bsize st + lgh_size \<le> bsize st" using at(2) by (simp add: entry_size_def)
  have L64: "L + entry_size p < 2 ^ 64" using L by simp
  obtain bs where bs: "lst_read io_good (lsn_at L) SCAN_BUF SCAN_BUF st fs = (0, bs)" "lgh_size \<le> length bs"
    "header_ok (bslice 0 lgh_size bs) L p" "entry_size p \<le> length bs" "bslice lgh_size (length p) bs = p"
    using entry_header_read [OF wf L64 at(1) fit] at(2,3) by blast
  have bl: "length bs \<le> SCAN_BUF" using lst_read_length [of io_good "lsn_at L" SCAN_BUF SCAN_BUF st fs] bs(1) by simp
  let ?rb = "blit 0 bs rb"
  have rb': "length ?rb = SCAN_BUF" "take (length bs) ?rb = bs" using rb bl by (simp_all add: blit_0)
  have pl: "bslice lgh_size (length p) ?rb = p"
    using bs(4,5) slice_append_first [of lgh_size "length p" bs "drop (length bs) rb"] by (simp add: blit_0 entry_size_def)
  have read: "palf_read io_good (lh_palf_handle h) (lsn_at L) 4096 4096 env = Some (0, bs)"
    using h st bs(1) by (simp add: palf_read_def ph_read_def lc_get_def SCAN_BUF_def)
  have d: "lgh_deserialize lgh_init bs 0 = (0, lgh_dec (bslice 0 lgh_size bs), lgh_size)"
    using bs(2) by (rule lgh_deserialize_0)
  have ok: "lgh_is_valid (lgh_dec (bslice 0 lgh_size bs))"
    "lgh_committed_end_lsn (lgh_dec (bslice 0 lgh_size bs)) = lsn_at (L + entry_size p)"
    "lgh_group_entry_size (lgh_dec (bslice 0 lgh_size bs)) = word_of_nat (entry_size p)"
    using bs(3) by (simp_all add: header_ok_def)
  have sz: "unat (word_of_nat (entry_size p) :: u32) = lgh_size + length p"
    using at(3) by (simp add: unsigned_of_nat take_bit_nat_eq_self SCAN_BUF_def entry_size_def del: of_nat_add)
  have len: "int (unat (word_of_nat (entry_size p) :: u32)) - int lgh_size = int (length p)" unfolding sz by simp
  have ne: "bs \<noteq> []" using bs(2) by (auto simp: lgh_size_def)
  have lt: "(word_of_nat L :: u64) < word_of_nat E" "\<not> (word_of_nat (L + entry_size p) :: u64) \<le> 0"
    using L word_of_nat_le [of E L] word_of_nat_le [of "L + entry_size p" 0]
    by (simp_all add: not_le [symmetric] entry_size_def lgh_size_def del: of_nat_add)
  have pos: "int lgh_size < int (unat (word_of_nat (entry_size p) :: u32)) \<longleftrightarrow> p \<noteq> []" unfolding sz by auto
  have room: "\<not> length ?rb < lgh_size + length p" using at(3) rb'(1) by (simp add: entry_size_def)
  have nil: "lh_replay rep (Some []) (lsn_at L) 0 h s = Some (-1, s)" by (simp add: lh_replay_def)
  have "replay_loop rep io_good h env (LSN 0) (lsn_at E) (lsn_at L) rb s =
      Option.bind (map_option snd (lh_replay rep (Some p) (lsn_at L) 0 h s))
        (replay_loop rep io_good h env (LSN 0) (lsn_at E) (lsn_at (L + entry_size p)) ?rb)"
    using lt bs(2) ne ok len pos d room pl nil rb'(2)
    by (subst replay_loop.simps) (cases "p = []"; simp add: read Let_def del: of_nat_add)
  then show ?thesis using rb'(1) by blast
qed

lemma replay_loop_correct:
  assumes h: "lh_palf_handle h = Some a" "pe_heap env a = Some ph"
    and st: "ph_is_inited ph" "\<not> lc_is_inited (ph_log_cache ph)" "st = ph_log_storage ph" "fs = pe_fs env (ph_palf_id ph)"
    and wf: "lst_wf st fs"
  shows "log_holds st fs L ps \<Longrightarrow> entries_fit (bsize st) L ps \<Longrightarrow> L + log_size ps = E \<Longrightarrow> E < 2 ^ 64 \<Longrightarrow>
    length rb = SCAN_BUF \<Longrightarrow>
    replay_loop rep io_good h env (LSN 0) (lsn_at E) (lsn_at L) rb s = replay_all rep h L ps s"
proof (induction ps arbitrary: L rb s)
  case Nil
  then show ?case by (subst replay_loop.simps) simp
next
  case (Cons p ps)
  obtain rb' where rb': "length rb' = SCAN_BUF"
    "replay_loop rep io_good h env (LSN 0) (lsn_at E) (lsn_at L) rb s =
      Option.bind (map_option snd (lh_replay rep (Some p) (lsn_at L) 0 h s))
        (replay_loop rep io_good h env (LSN 0) (lsn_at E) (lsn_at (L + entry_size p)) rb')"
    using replay_step [OF h st wf, of L p E rb rep s] Cons.prems by auto
  have "replay_loop rep io_good h env (LSN 0) (lsn_at E) (lsn_at (L + entry_size p)) rb' t =
      replay_all rep h (L + entry_size p) ps t" for t
    using Cons.IH [OF _ _ _ Cons.prems(4) rb'(1)] Cons.prems by (simp add: add.assoc del: of_nat_add)
  then have "replay_loop rep io_good h env (LSN 0) (lsn_at E) (lsn_at (L + entry_size p)) rb' =
      replay_all rep h (L + entry_size p) ps" by (rule ext)
  then show ?case unfolding rb'(2) by (simp del: of_nat_add)
qed

section \<open>The log of a stream\<close>

definition stream_ok :: "PalfEnvImpl \<Rightarrow> int \<Rightarrow> nat \<Rightarrow> bytes list \<Rightarrow> bool" where
  "stream_ok env palf_id a ps \<longleftrightarrow>
     (case pe_heap env a of
        None \<Rightarrow> False
      | Some ph \<Rightarrow> ph_palf_id ph = palf_id \<and> log_ok ph (pe_fs env palf_id) ps)"

definition stream_clean :: "PalfEnvImpl \<Rightarrow> int \<Rightarrow> nat \<Rightarrow> bytes list \<Rightarrow> bool" where
  "stream_clean env palf_id a ps \<longleftrightarrow>
     tail_clean (ph_log_storage (the (pe_heap env a))) (pe_fs env palf_id) (log_size ps)"

definition svc_log :: "('h, 'r) ObLogService \<Rightarrow> int \<Rightarrow> nat \<Rightarrow> bytes list \<Rightarrow> bool" where
  "svc_log svc ls_id a ps \<longleftrightarrow>
     ls_handlers svc ls_id = Some a \<and>
     (case ls_heap svc a of
        None \<Rightarrow> False
      | Some h \<Rightarrow> lh_is_inited h \<and>
          (case lh_palf_handle h of
             None \<Rightarrow> False
           | Some i \<Rightarrow> stream_ok (ls_palf_env svc) ls_id i ps \<and> stream_clean (ls_palf_env svc) ls_id i ps))"

lemma replay_ls_correct:
  assumes log: "svc_log svc ls_id a ps" and fit: "entries_fit (unat PALF_BLOCK_SIZE) 0 ps"
    and h: "ls_heap svc a = Some h"
  shows "replay_ls rep junk io_good ls_id svc s = map_option (Pair 0) (replay_all rep h 0 ps s)"
proof -
  obtain i ph where i: "ls_handlers svc ls_id = Some a" "lh_palf_handle h = Some i"
    "pe_heap (ls_palf_env svc) i = Some ph" "ph_palf_id ph = ls_id"
    "log_ok ph (pe_fs (ls_palf_env svc) ls_id) ps"
    using log h by (auto simp: svc_log_def stream_ok_def split: option.splits)
  let ?fs = "pe_fs (ls_palf_env svc) (ph_palf_id ph)"
  have o: "ph_is_inited ph" "lst_wf (ph_log_storage ph) ?fs" "lst_block_size (ph_log_storage ph) = PALF_BLOCK_SIZE"
    "lst_min_block_id (ph_log_storage ph) = 0" "\<not> lc_is_inited (ph_log_cache ph)"
    "log_holds (ph_log_storage ph) ?fs 0 ps" "log_size ps < 2 ^ 64" "ph_end_lsn ph = lsn_at (log_size ps)"
    using i(5) unfolding i(4) log_ok_def by auto
  have b: "ph_get_begin_lsn ph = LSN 0" using o(4) by (simp add: ph_get_begin_lsn_def lst_get_begin_lsn_def)
  have "replay_loop rep io_good h (ls_palf_env svc) (LSN 0) (lsn_at (log_size ps)) (lsn_at 0) (malloc_bytes junk 4096) s =
      replay_all rep h 0 ps s"
    using replay_loop_correct [OF i(2,3) o(1,5) refl refl o(2,6), of "log_size ps" "malloc_bytes junk 4096" rep s] fit o(3,7)
    by (simp add: SCAN_BUF_def)
  then show ?thesis
    using i(1-3) h b o(8)
    by (cases "replay_all rep h 0 ps s") (simp_all add: replay_ls_def palf_get_begin_lsn_def palf_get_end_lsn_def)
qed

section \<open>Typed payloads\<close>

definition typed :: "ObLogBaseType \<Rightarrow> bytes \<Rightarrow> bytes" where
  "typed t b = blh_enc (blh_make t) @ b"

lemma length_typed: "length (typed t b) = blh_size + length b"
  by (simp add: typed_def blh.length_enc)

lemma lh_replay_typed:
  "lh_replay rep (Some (typed t b)) lsn scn h s =
     (case lh_replay_handlers h (base_type_val t) of None \<Rightarrow> Some (0, s) | Some x \<Rightarrow> rep x b lsn scn s)"
proof -
  have "blh_deserialize blh_init (typed t b) 0 = (0, blh_make t, blh_size)"
    unfolding blh_deserialize_def
    using blh.roundtrip_slice [of 0 "typed t b" "blh_make t" blh_init]
    by (simp add: typed_def blh.length_enc layout)
  moreover have "drop blh_size (typed t b) = b" "length (typed t b) \<noteq> 0"
    by (simp_all add: typed_def blh.length_enc) (simp add: blh_size_def)
  ultimately show ?thesis by (simp add: lh_replay_def blh_make_def split: option.split)
qed

lemma svc_append_correct:
  assumes log: "svc_log svc ls_id a ps" and b: "b \<noteq> []"
    and sz: "entry_size (typed t b) < 2 ^ 32" "log_size ps + entry_size (typed t b) < 2 ^ 63"
  obtains r lsn' scn' svc' where "svc_append junk io a (Some b) t lsn scn svc = Some (r, lsn', scn', svc')"
    "lsn' = lsn_at (log_size ps)" "r = 0 \<longrightarrow> svc_log svc' ls_id a (ps @ [typed t b])" "io = io_good \<longrightarrow> r = 0"
    "ls_heap svc' = ls_heap svc" "ls_handlers svc' = ls_handlers svc"
proof -
  obtain h i ph where i: "ls_handlers svc ls_id = Some a" "ls_heap svc a = Some h" "lh_is_inited h"
    "lh_palf_handle h = Some i" "pe_heap (ls_palf_env svc) i = Some ph" "ph_palf_id ph = ls_id"
    "log_ok ph (pe_fs (ls_palf_env svc) ls_id) ps"
    "tail_clean (ph_log_storage ph) (pe_fs (ls_palf_env svc) ls_id) (log_size ps)"
    using log by (auto simp: svc_log_def stream_ok_def stream_clean_def split: option.splits)
  let ?env = "ls_palf_env svc"
  obtain r l ph' fs' where ap: "do_append junk io (typed t b) ph (pe_fs ?env ls_id) = Some (r, l, ph', fs')"
    using append_progress [OF i(7) sz(1)] by (metis prod_cases4)
  note e = append_effect [OF i(7) sz ap]
  have "blh_serialize (blh_make t) (malloc_bytes junk (blh_size + length b)) 0 =
      (0, blit 0 (blh_enc (blh_make t)) (malloc_bytes junk (blh_size + length b)), blh_size)"
    unfolding blh_serialize_def by (subst blh.serialize_ok) simp_all
  moreover have "blit blh_size b (blit 0 (blh_enc (blh_make t)) (malloc_bytes junk (blh_size + length b))) = typed t b"
    by (simp add: blit_def typed_def blh.length_enc)
  moreover have "ph_is_inited ph" using i(7) by (simp add: log_ok_def)
  ultimately have eq: "svc_append junk io a (Some b) t lsn scn svc = Some (r, l, if r = 0 then ph_log_id ph' - 1 else scn,
      svc\<lparr>ls_palf_env := ?env\<lparr>pe_heap := (pe_heap ?env)(i \<mapsto> ph'), pe_fs := (pe_fs ?env)(ls_id := fs')\<rparr>\<rparr>)"
    using i(2-6) b ap by (simp add: svc_append_def lh_append_def palf_append_def ph_append_def Let_def)
  have "r = 0 \<longrightarrow> svc_log (svc\<lparr>ls_palf_env := ?env\<lparr>pe_heap := (pe_heap ?env)(i \<mapsto> ph'), pe_fs := (pe_fs ?env)(ls_id := fs')\<rparr>\<rparr>)
      ls_id a (ps @ [typed t b])"
    using i(1-4,6) e(1,5) e(4) [OF _ i(8)] by (cases "r = 0") (simp_all add: svc_log_def stream_ok_def stream_clean_def)
  then show ?thesis using eq e(2,3) by (intro that [OF eq]) simp_all
qed

section \<open>Opening a stream\<close>

text \<open>The state after a crash: a new service on the files the old one left.\<close>

definition restart :: "('h, 'r) ObLogService \<Rightarrow> ('h2, 'r2) ObLogService" where
  "restart svc = ls_new (pe_fs (ls_palf_env svc))"

lemma open_ls_handle:
  assumes i: "ph_init io1 io2 io3 ls_id ph_new (pe_fs (ls_palf_env svc) ls_id) = Some (0, ph, fs)"
    and ph: "ph_palf_id ph = ls_id" "log_ok ph fs ps" "tail_clean (ph_log_storage ph) fs (log_size ps)"
    and n: "ls_handlers svc ls_id = None"
  obtains a svc' h where "open_ls io1 io2 io3 ls_id handler svc = Some (0, Some a, svc')" "svc_log svc' ls_id a ps"
    "ls_heap svc' a = Some h" "lh_replay_handlers h = Map.empty"
proof -
  let ?env = "ls_palf_env svc"
  let ?env' = "?env\<lparr>pe_fs := (pe_fs ?env)(ls_id := fs), pe_heap := (pe_heap ?env)(pe_fresh ?env \<mapsto> ph),
    pe_fresh := pe_fresh ?env + 1, pe_handles := (pe_handles ?env)(ls_id \<mapsto> pe_fresh ?env)\<rparr>"
  let ?h = "lh_new\<lparr>lh_ls_id := ls_id, lh_palf_handle_impl := Some (pe_fresh ?env), lh_palf_handle := Some (pe_fresh ?env),
    lh_is_inited := True\<rparr>"
  have "open_ls io1 io2 io3 ls_id handler svc = Some (0, Some (ls_fresh svc),
      svc\<lparr>ls_palf_env := ?env', ls_heap := (ls_heap svc)(ls_fresh svc \<mapsto> ?h), ls_fresh := ls_fresh svc + 1,
          ls_handlers := (ls_handlers svc)(ls_id \<mapsto> ls_fresh svc)\<rparr>)" (is "_ = Some (0, _, ?svc)")
    using i n by (simp add: open_ls_def lh_init_def create_palf_handle_impl_def lh_new_def palf_handle_init_def Let_def)
  moreover have "svc_log ?svc ls_id (ls_fresh svc) ps"
    using ph by (simp add: svc_log_def stream_ok_def stream_clean_def)
  moreover have "ls_heap ?svc (ls_fresh svc) = Some ?h" by simp
  moreover have "lh_replay_handlers ?h = Map.empty" by (simp add: lh_new_def)
  ultimately show ?thesis by (rule that)
qed

lemma open_ls_fresh:
  assumes "pe_fs (ls_palf_env svc) ls_id = lf_empty" "ls_handlers svc ls_id = None"
  obtains a svc' h where "open_ls io_good io_good io_good ls_id handler svc = Some (0, Some a, svc')" "svc_log svc' ls_id a []"
    "ls_heap svc' a = Some h" "lh_replay_handlers h = Map.empty"
proof -
  obtain ph fs where p: "ph_init io_good io_good io_good ls_id ph_new lf_empty = Some (0, ph, fs)"
    "log_ok ph fs []" "tail_clean (ph_log_storage ph) fs 0" "ph_palf_id ph = ls_id"
    using ph_init_fresh [of ls_id] .
  show ?thesis
    by (rule open_ls_handle [of io_good io_good io_good ls_id svc ph fs "[]" handler]) (use p assms in \<open>auto intro: that\<close>)
qed

lemma open_ls_reopen:
  assumes log: "svc_log svc ls_id a ps" and fit: "headers_fit (unat PALF_BLOCK_SIZE) 0 ps"
    and disk: "pe_fs (ls_palf_env svc2) ls_id = pe_fs (ls_palf_env svc) ls_id" "ls_handlers svc2 ls_id = None"
  obtains a' svc' h where "open_ls io1 io2 io_good ls_id handler svc2 = Some (0, Some a', svc')"
    "svc_log svc' ls_id a' ps" "ls_heap svc' a' = Some h" "lh_replay_handlers h = Map.empty"
proof -
  obtain ph0 where i: "log_ok ph0 (pe_fs (ls_palf_env svc) ls_id) ps"
    "tail_clean (ph_log_storage ph0) (pe_fs (ls_palf_env svc) ls_id) (log_size ps)"
    using log by (auto simp: svc_log_def stream_ok_def stream_clean_def split: option.splits)
  obtain ph where p: "ph_init io1 io2 io_good ls_id ph_new (pe_fs (ls_palf_env svc) ls_id) =
      Some (0, ph, pe_fs (ls_palf_env svc) ls_id)" "log_ok ph (pe_fs (ls_palf_env svc) ls_id) ps"
    "tail_clean (ph_log_storage ph) (pe_fs (ls_palf_env svc) ls_id) (log_size ps)" "ph_palf_id ph = ls_id"
    using reopen_correct [OF i fit] by metis
  show ?thesis
    by (rule open_ls_handle [of io1 io2 io_good ls_id svc2 ph "pe_fs (ls_palf_env svc) ls_id" ps handler])
       (use p disk in \<open>auto intro: that\<close>)
qed

lemma open_ls_restart:
  assumes log: "svc_log svc ls_id a ps" and fit: "headers_fit (unat PALF_BLOCK_SIZE) 0 ps"
  obtains a' svc' h where "open_ls io1 io2 io_good ls_id handler (restart svc) = Some (0, Some a', svc')"
    "svc_log svc' ls_id a' ps" "ls_heap svc' a' = Some h" "lh_replay_handlers h = Map.empty"
  by (rule open_ls_reopen [OF assms, of "restart svc" io1 io2 handler]) (auto simp: restart_def ls_new_def pe_new_def intro: that)

section \<open>The contract of a redo log\<close>

text \<open>What the owners of a log rely on: records stay in the log in the order they were
  appended, survive a restart, and are handed to the replayer one by one.\<close>

locale redo_log =
  fixes holds :: "'l \<Rightarrow> bytes list \<Rightarrow> bool"
    and fits :: "bytes list \<Rightarrow> bytes \<Rightarrow> bool"
    and append :: "bytes \<Rightarrow> 'l \<Rightarrow> (ret \<times> 'l) option"
    and recover :: "'l \<Rightarrow> 'l option"
    and replay :: "(bytes \<Rightarrow> 's \<Rightarrow> (ret \<times> 's) option) \<Rightarrow> 'l \<Rightarrow> 's \<Rightarrow> (ret \<times> 's) option"
  assumes append_law: "holds l bs \<Longrightarrow> fits bs b \<Longrightarrow> \<exists>l'. append b l = Some (0, l') \<and> holds l' (bs @ [b])"
    and recover_law: "holds l bs \<Longrightarrow> \<exists>l'. recover l = Some l' \<and> holds l' bs"
    and replay_law: "holds l bs \<Longrightarrow>
      replay rep l s = map_option (Pair 0) (foldo (\<lambda>b s. map_option snd (rep b s)) bs s)"
begin

lemma foldo_simulates:
  assumes "\<And>b s x. b \<in> set bs \<Longrightarrow> rel s x \<Longrightarrow> \<exists>r s'. rep b s = Some (r, s') \<and> rel s' (app b x)"
    and "rel s x"
  shows "\<exists>s'. foldo (\<lambda>b s. map_option snd (rep b s)) bs s = Some s' \<and> rel s' (fold app bs x)"
  using assms
proof (induction bs arbitrary: s x)
  case (Cons b bs)
  obtain r s1 where 1: "rep b s = Some (r, s1)" "rel s1 (app b x)" using Cons.prems by force
  show ?case using Cons.IH [of s1 "app b x"] Cons.prems(1) 1 by auto
qed simp

text \<open>A replayer that simulates the records' effect rebuilds the state after a restart.\<close>

lemma recover_simulates:
  assumes "holds l bs" "rel s x"
    and "\<And>b s x. b \<in> set bs \<Longrightarrow> rel s x \<Longrightarrow> \<exists>r s'. rep b s = Some (r, s') \<and> rel s' (app b x)"
  shows "\<exists>l' s'. recover l = Some l' \<and> holds l' bs \<and> replay rep l' s = Some (0, s') \<and> rel s' (fold app bs x)"
proof -
  obtain l' where l': "recover l = Some l'" "holds l' bs" using recover_law [OF assms(1)] by blast
  obtain s' where "foldo (\<lambda>b s. map_option snd (rep b s)) bs s = Some s'" "rel s' (fold app bs x)"
    using foldo_simulates [of bs rel rep app s x] assms(2,3) by blast
  then show ?thesis using l' replay_law [OF l'(2), of rep s] by auto
qed

end

text \<open>The log of one stream for one record type, whose replayer is the object \<open>x\<close>.\<close>

definition clog_holds :: "int \<Rightarrow> ObLogBaseType \<Rightarrow> 'h \<Rightarrow> ('h, 'r) ObLogService \<Rightarrow> bytes list \<Rightarrow> bool" where
  "clog_holds ls_id t x svc bs \<longleftrightarrow>
     entries_fit (unat PALF_BLOCK_SIZE) 0 (map (typed t) bs) \<and>
     (case ls_handlers svc ls_id of
        None \<Rightarrow> False
      | Some a \<Rightarrow> svc_log svc ls_id a (map (typed t) bs) \<and>
          (case ls_heap svc a of None \<Rightarrow> False | Some h \<Rightarrow> lh_replay_handlers h (base_type_val t) = Some x))"

definition clog_fits :: "ObLogBaseType \<Rightarrow> bytes list \<Rightarrow> bytes \<Rightarrow> bool" where
  "clog_fits t bs b \<longleftrightarrow>
     b \<noteq> [] \<and> entries_fit (unat PALF_BLOCK_SIZE) 0 (map (typed t) (bs @ [b])) \<and>
     log_size (map (typed t) (bs @ [b])) < 2 ^ 63"

definition clog_append :: "(nat \<Rightarrow> byte) \<Rightarrow> int \<Rightarrow> ObLogBaseType \<Rightarrow> bytes \<Rightarrow> ('h, 'r) ObLogService
    \<Rightarrow> (ret \<times> ('h, 'r) ObLogService) option" where
  "clog_append junk ls_id t b svc = do {
     a \<leftarrow> ls_handlers svc ls_id;
     (ret, lsn, scn, svc) \<leftarrow> svc_append junk io_good a (Some b) t lsn_init 0 svc;
     Some (ret, svc)
   }"

definition clog_recover :: "int \<Rightarrow> ObLogBaseType \<Rightarrow> 'h \<Rightarrow> ('h, 'r) ObLogService \<Rightarrow> ('h, 'r) ObLogService option" where
  "clog_recover ls_id t x svc = do {
     (ret, handler, svc) \<leftarrow> open_ls io_good io_good io_good ls_id None (restart svc);
     a \<leftarrow> handler;
     svc_register a t x svc
   }"

definition clog_replay :: "(nat \<Rightarrow> byte) \<Rightarrow> int \<Rightarrow> (bytes \<Rightarrow> 's \<Rightarrow> (ret \<times> 's) option) \<Rightarrow> ('h, 'r) ObLogService \<Rightarrow> 's
    \<Rightarrow> (ret \<times> 's) option" where
  "clog_replay junk ls_id rep svc s = replay_ls (\<lambda>x b lsn scn. rep b) junk io_good ls_id svc s"

lemma replay_all_typed:
  assumes "lh_replay_handlers h (base_type_val t) = Some x"
  shows "replay_all (\<lambda>x b lsn scn. rep b) h L (map (typed t) bs) s = foldo (\<lambda>b s. map_option snd (rep b s)) bs s"
proof (induction bs arbitrary: L s)
  case (Cons b bs)
  show ?case using assms by (cases "rep b s") (auto simp: lh_replay_typed Cons.IH)
qed simp

lemma svc_register_log:
  assumes "svc_log svc ls_id a ps" "ls_heap svc a = Some h"
  shows "svc_register a t x svc = Some (svc\<lparr>ls_heap := (ls_heap svc)(a \<mapsto> snd (register_replay_handler t x h))\<rparr>)"
    "svc_log (svc\<lparr>ls_heap := (ls_heap svc)(a \<mapsto> snd (register_replay_handler t x h))\<rparr>) ls_id a ps"
  using assms by (auto simp: svc_register_def svc_log_def register_replay_handler_def split: option.splits)

lemma clog_holdsD:
  assumes "clog_holds ls_id t x svc bs"
  obtains a h where "ls_handlers svc ls_id = Some a" "ls_heap svc a = Some h" "svc_log svc ls_id a (map (typed t) bs)"
    "lh_replay_handlers h (base_type_val t) = Some x" "entries_fit (unat PALF_BLOCK_SIZE) 0 (map (typed t) bs)"
  using assms by (auto simp: clog_holds_def split: option.splits)

lemma clog_append_law:
  assumes h: "clog_holds ls_id t x svc bs" and f: "clog_fits t bs b"
  shows "\<exists>svc'. clog_append junk ls_id t b svc = Some (0, svc') \<and> clog_holds ls_id t x svc' (bs @ [b])"
proof -
  obtain a h where a: "ls_handlers svc ls_id = Some a" "ls_heap svc a = Some h" "svc_log svc ls_id a (map (typed t) bs)"
    "lh_replay_handlers h (base_type_val t) = Some x" "entries_fit (unat PALF_BLOCK_SIZE) 0 (map (typed t) bs)"
    using clog_holdsD [OF h] .
  have b: "b \<noteq> []" "log_size (map (typed t) bs) + entry_size (typed t b) < 2 ^ 63" "entry_size (typed t b) < 2 ^ 32"
    using f by (auto simp: clog_fits_def entries_fit_append SCAN_BUF_def)
  obtain r lsn' scn' svc' where s: "svc_append junk io_good a (Some b) t lsn_init 0 svc = Some (r, lsn', scn', svc')"
    "r = 0 \<longrightarrow> svc_log svc' ls_id a (map (typed t) bs @ [typed t b])" "io_good = io_good \<longrightarrow> r = 0"
    "ls_heap svc' = ls_heap svc" "ls_handlers svc' = ls_handlers svc"
    using svc_append_correct [OF a(3) b(1,3,2), of junk io_good lsn_init 0] by metis
  then show ?thesis using a f by (auto simp: clog_append_def clog_holds_def clog_fits_def)
qed

lemma clog_recover_law:
  fixes svc :: "('h, 'r) ObLogService"
  assumes h: "clog_holds ls_id t x svc bs"
  shows "\<exists>svc'. clog_recover ls_id t x svc = Some svc' \<and> clog_holds ls_id t x svc' bs"
proof -
  obtain a where a: "svc_log svc ls_id a (map (typed t) bs)" "entries_fit (unat PALF_BLOCK_SIZE) 0 (map (typed t) bs)"
    using clog_holdsD [OF h] .
  obtain a' h' and svc' :: "('h, 'r) ObLogService"
    where o: "open_ls io_good io_good io_good ls_id None (restart svc) = Some (0, Some a', svc')"
      "svc_log svc' ls_id a' (map (typed t) bs)" "ls_heap svc' a' = Some h'"
    using open_ls_restart [OF a(1) entries_fit_headers [OF a(2)], of io_good io_good None] by metis
  have "ls_handlers svc' ls_id = Some a'" using o(2) by (simp add: svc_log_def)
  then show ?thesis
    using o a(2) svc_register_log [OF o(2,3), of t x]
    by (simp add: clog_recover_def clog_holds_def register_replay_handler_def)
qed

lemma clog_replay_law:
  assumes h: "clog_holds ls_id t x svc bs"
  shows "clog_replay junk ls_id rep svc s = map_option (Pair 0) (foldo (\<lambda>b s. map_option snd (rep b s)) bs s)"
proof -
  obtain a h where a: "ls_heap svc a = Some h" "svc_log svc ls_id a (map (typed t) bs)"
    "lh_replay_handlers h (base_type_val t) = Some x" "entries_fit (unat PALF_BLOCK_SIZE) 0 (map (typed t) bs)"
    using clog_holdsD [OF h] .
  show ?thesis unfolding clog_replay_def replay_ls_correct [OF a(2,4,1)] replay_all_typed [OF a(3)] ..
qed

interpretation clog: redo_log "clog_holds ls_id t x" "clog_fits t" "clog_append junk ls_id t"
    "clog_recover ls_id t x" "clog_replay junk ls_id" for ls_id t x junk
  by unfold_locales (simp_all add: clog_append_law clog_recover_law clog_replay_law)

lemma clog_open:
  fixes svc :: "('h, 'r) ObLogService"
  assumes "pe_fs (ls_palf_env svc) ls_id = lf_empty" "ls_handlers svc ls_id = None"
  obtains a and svc1 svc2 :: "('h, 'r) ObLogService"
  where "open_ls io_good io_good io_good ls_id None svc = Some (0, Some a, svc1)"
    "svc_register a t x svc1 = Some svc2" "clog_holds ls_id t x svc2 []" "ls_handlers svc2 ls_id = Some a"
proof -
  obtain a h and svc1 :: "('h, 'r) ObLogService"
    where o: "open_ls io_good io_good io_good ls_id None svc = Some (0, Some a, svc1)" "svc_log svc1 ls_id a []"
      "ls_heap svc1 a = Some h"
    using open_ls_fresh [OF assms] by metis
  have "ls_handlers svc1 ls_id = Some a" using o(2) by (simp add: svc_log_def)
  then show ?thesis
    using svc_register_log [OF o(2,3), of t x]
    by (intro that [OF o(1) svc_register_log(1) [OF o(2,3)]]) (simp_all add: clog_holds_def register_replay_handler_def)
qed

lemma clog_reopen:
  fixes svc :: "('h, 'r) ObLogService"
  assumes h: "clog_holds ls_id t x svc bs"
    and disk: "pe_fs (ls_palf_env svc2) ls_id = pe_fs (ls_palf_env svc) ls_id" "ls_handlers svc2 ls_id = None"
  obtains a and svc1 svc' :: "('h, 'r) ObLogService"
  where "open_ls io_good io_good io_good ls_id handler svc2 = Some (0, Some a, svc1)"
    "svc_register a t x svc1 = Some svc'" "clog_holds ls_id t x svc' bs" "ls_handlers svc' ls_id = Some a"
proof -
  obtain a where a: "svc_log svc ls_id a (map (typed t) bs)" "entries_fit (unat PALF_BLOCK_SIZE) 0 (map (typed t) bs)"
    using clog_holdsD [OF h] .
  obtain a' h' and svc1 :: "('h, 'r) ObLogService"
    where o: "open_ls io_good io_good io_good ls_id handler svc2 = Some (0, Some a', svc1)"
      "svc_log svc1 ls_id a' (map (typed t) bs)" "ls_heap svc1 a' = Some h'"
    using open_ls_reopen [OF a(1) entries_fit_headers [OF a(2)] disk, of io_good io_good handler] by metis
  have "ls_handlers svc1 ls_id = Some a'" using o(2) by (simp add: svc_log_def)
  then show ?thesis
    using a(2) svc_register_log [OF o(2,3), of t x]
    by (intro that [OF o(1) svc_register_log(1) [OF o(2,3)]]) (simp_all add: clog_holds_def register_replay_handler_def)
qed

end
