(* ===== verification/Ob_Memtable.thy ===== *)
theory Ob_Memtable
  imports Ob_Mvcc_Engine Ob_Log_Service
begin

text \<open>
  The memtable, \<^verbatim>\<open>memtable/ob_memtable\<close>: the write buffer over the MVCC engine, with its
  write-ahead record, its replay and its arena.  \<open>mt_set\<close> takes the append of the log handler
  as an argument \<open>app\<close> over the state of the log, so that the log service can be plugged in;
  \<^verbatim>\<open>replay\<close> runs it with the handler unset, as the code does.

  \<^verbatim>\<open>replay\<close> copies 4 bytes into uninitialised 8-byte variables: \<open>hk\<close> and \<open>hv\<close> are the
  indeterminate upper halves of \<^verbatim>\<open>key_len\<close> and \<^verbatim>\<open>val_len\<close>.
\<close>

section \<open>Memtable\<close>

record ObMemtable =
  mt_tablet_id :: int
  mt_is_inited :: bool
  mt_is_frozen :: bool
  mt_row_count :: int
  mt_occupy_size :: int
  mt_snapshot_version :: int
  mt_max_trans_version :: int
  mt_chunks :: nat
  mt_current_chunk_offset :: int
  mt_mvcc_engine :: bool
  mt_query_engine :: ObMvcc
  mt_log_handler :: "nat option"

definition mt_new :: ObMemtable where
  "mt_new = \<lparr>mt_tablet_id = 0, mt_is_inited = False, mt_is_frozen = False, mt_row_count = 0,
     mt_occupy_size = 0, mt_snapshot_version = 0, mt_max_trans_version = 0, mt_chunks = 0,
     mt_current_chunk_offset = 0, mt_mvcc_engine = False, mt_query_engine = mv_init, mt_log_handler = None\<rparr>"

definition mt_init :: "int \<Rightarrow> ObMemtable \<Rightarrow> ret \<times> ObMemtable" where
  "mt_init tablet_id mt = (0, mt\<lparr>mt_tablet_id := tablet_id, mt_mvcc_engine := True, mt_is_inited := True\<rparr>)"

definition CHUNK_SIZE :: int where "CHUNK_SIZE = 4 * 1024 * 1024"

text \<open>A pointer into the arena is the number of its chunk and an offset.\<close>

definition mt_alloc :: "int \<Rightarrow> ObMemtable \<Rightarrow> (nat \<times> int) \<times> ObMemtable" where
  "mt_alloc sz mt =
     (let mt = (if mt_chunks mt = 0 \<or> mt_current_chunk_offset mt + sz > CHUNK_SIZE
                then mt\<lparr>mt_chunks := mt_chunks mt + 1, mt_current_chunk_offset := 0\<rparr> else mt)
      in ((mt_chunks mt - 1, mt_current_chunk_offset mt),
          mt\<lparr>mt_current_chunk_offset := mt_current_chunk_offset mt + sz\<rparr>))"

definition mt_set_frozen :: "ObMemtable \<Rightarrow> ObMemtable" where
  "mt_set_frozen mt = mt\<lparr>mt_is_frozen := True, mt_snapshot_version := mt_max_trans_version mt\<rparr>"

definition mt_is_empty :: "ObMemtable \<Rightarrow> bool" where
  "mt_is_empty mt \<longleftrightarrow> mt_row_count mt = 0"

section \<open>Writes\<close>

text \<open>The log record of a row.  A key whose length exceeds its buffer is read past its end
  and a negative length overruns the allocation; neither has a result.\<close>

definition wal_record :: "ObStoreRow \<Rightarrow> bytes option" where
  "wal_record row =
     (let rk = row_rowkey row; key_len = rk_length rk; val = row_value row
      in if key_len < 0 \<or> nat key_len > length (rk_buf rk) then None
         else Some ([word_of_int (dml_to_int (row_dml_flag row))] @
                    put_word (word_of_int key_len :: u32) @ take (nat key_len) (rk_buf rk) @
                    put_word (word_of_nat (length val) :: u32) @ val))"

definition mt_mvcc_write :: "ObStoreCtx \<Rightarrow> ObMemtableKey \<Rightarrow> ObTxNodeArg \<Rightarrow> bool \<Rightarrow> ObMvccWriteResult \<Rightarrow> ObMemtable
    \<Rightarrow> (ret \<times> ObMvccWriteResult \<times> ObMemtable) option" where
  "mt_mvcc_write ctx key tx_node_arg check_exist res mt =
     (if \<not> mt_mvcc_engine mt then None
      else do {
        let stored_key = mk_init;
        (ret, value, ix) \<leftarrow> create_kv (Some key) None (mt_query_engine mt);
        let mt = mt\<lparr>mt_query_engine := ix\<rparr>;
        (case value of
           None \<Rightarrow> Some (-1, res, mt)
         | Some v \<Rightarrow>
             if ret \<noteq> 0 then Some (-1, res, mt)
             else do {
               (ret, res, ix) \<leftarrow> engine_mvcc_write ctx v tx_node_arg check_exist res ix;
               let mt = mt\<lparr>mt_query_engine := ix\<rparr>;
               if ret \<noteq> 0 then Some (ret, res, mt)
               else do {
                 (_, ix) \<leftarrow> ensure_kv (Some stored_key) (Some v) ix;
                 Some (0, (finish_kv res)\<lparr>wr_mtk := stored_key\<rparr>, mt\<lparr>mt_query_engine := ix\<rparr>)
               }
             })
      })"

type_synonym 'l appender = "nat \<Rightarrow> bytes \<Rightarrow> 'l \<Rightarrow> (ret \<times> 'l) option"

definition mt_set :: "'l appender \<Rightarrow> ObStoreCtx \<Rightarrow> ObStoreRow \<Rightarrow> ObMemtable \<Rightarrow> 'l
    \<Rightarrow> (ret \<times> ObMemtable \<times> 'l) option" where
  "mt_set app ctx row mt l =
     (if \<not> mt_is_inited mt \<or> mt_is_frozen mt then Some (-1, mt, l)
      else do {
        log_buf \<leftarrow> wal_record row;
        (ret, l) \<leftarrow> (case mt_log_handler mt of None \<Rightarrow> Some (0, l) | Some a \<Rightarrow> app a log_buf l);
        if ret \<noteq> 0 then Some (ret, mt, l)
        else do {
          let key = snd (generate_memtable_key row mk_init);
          let mtd = \<lparr>md_dml_flag = row_dml_flag row, md_buf_len = int (length (row_value row)),
                     md_buf = Some (row_value row)\<rparr>;
          let arg = \<lparr>arg_tx_id = ctx_tx_id ctx, arg_data = Some mtd, arg_column_cnt = 0\<rparr>;
          (ret, res, mt) \<leftarrow> mt_mvcc_write ctx key arg True wr_init mt;
          if ret \<noteq> 0 then Some (ret, mt, l)
          else Some (0, mt\<lparr>mt_row_count := mt_row_count mt + 1,
                           mt_occupy_size := mt_occupy_size mt + md_size mtd,
                           mt_max_trans_version :=
                             (if ctx_snapshot_version ctx > mt_max_trans_version mt
                              then ctx_snapshot_version ctx else mt_max_trans_version mt)\<rparr>, l)
        }
      })"

fun mt_multi_set :: "'l appender \<Rightarrow> ObStoreCtx \<Rightarrow> ObStoreRow list \<Rightarrow> ObMemtable \<Rightarrow> 'l
    \<Rightarrow> (ret \<times> ObMemtable \<times> 'l) option" where
  "mt_multi_set app ctx [] mt l = Some (0, mt, l)"
| "mt_multi_set app ctx (row # rows) mt l = do {
     (ret, mt, l) \<leftarrow> mt_set app ctx row mt l;
     if ret \<noteq> 0 then Some (ret, mt, l) else mt_multi_set app ctx rows mt l
   }"

section \<open>Reads\<close>

definition mt_get :: "ObStoreCtx \<Rightarrow> ObStoreRowkey \<Rightarrow> ObStoreRow list \<Rightarrow> ObMemtable \<Rightarrow> (ret \<times> ObStoreRow list) option" where
  "mt_get ctx rowkey results mt =
     (if \<not> mt_mvcc_engine mt then None
      else engine_get ctx (Some (snd (mk_encode (Some rowkey) mk_init))) (mt_query_engine mt) results)"

partial_function (option) mt_scan_walk :: "nodes \<Rightarrow> addr option \<Rightarrow> ObMvccTransNode option option" where
  [code]: "mt_scan_walk nodes p =
     (case p of
        None \<Rightarrow> Some None
      | Some a \<Rightarrow>
          (case nodes a of
             None \<Rightarrow> None
           | Some n \<Rightarrow>
               if node_is_committed n \<or> nd_flag n AND 0x01 \<noteq> 0 then Some (Some n)
               else mt_scan_walk nodes (nd_prev n)))"

fun mt_scan_rows :: "ObMvcc \<Rightarrow> (u64 \<times> addr) list \<Rightarrow> ObStoreRow list \<Rightarrow> ObStoreRow list option" where
  "mt_scan_rows ix [] results = Some results"
| "mt_scan_rows ix ((k, r) # m) results = do {
     row \<leftarrow> mv_rows ix r;
     if mr_is_empty row then mt_scan_rows ix m results
     else do {
       found \<leftarrow> mt_scan_walk (mv_nodes ix) (mr_list_head row);
       (case found of
          None \<Rightarrow> mt_scan_rows ix m results
        | Some n \<Rightarrow> do { srow \<leftarrow> node_row n; mt_scan_rows ix m (results @ [srow]) })
     }
   }"

definition mt_scan :: "ObStoreCtx \<Rightarrow> ObStoreRowkey \<Rightarrow> bool \<Rightarrow> ObStoreRowkey \<Rightarrow> bool \<Rightarrow> ObStoreRow list \<Rightarrow> ObMemtable
    \<Rightarrow> (ret \<times> ObStoreRow list) option" where
  "mt_scan ctx start_key start_exclude end_key end_exclude results mt = do {
     results \<leftarrow> mt_scan_rows (mt_query_engine mt) (mv_btree (mt_query_engine mt)) results;
     Some (0, results)
   }"

section \<open>Replay\<close>

definition len64 :: "u32 \<Rightarrow> bytes \<Rightarrow> int" where
  "len64 hi lo = sint (push_bit 32 (ucast hi) OR ucast (get_word lo :: u32) :: u64)"

text \<open>Parsing moves a pointer by lengths read from the buffer; a read outside the buffer
  has no result.\<close>

definition wal_parse :: "u32 \<Rightarrow> u32 \<Rightarrow> bytes \<Rightarrow> ObStoreRow option" where
  "wal_parse hk hv b =
     (if length b < 5 then None
      else let dml = dml_of_int (sint (b ! 0));
               key_len = len64 hk (bslice 1 4 b);
               q = 5 + key_len
           in if q < 0 \<or> q + 4 > int (length b) then None
              else let rowkey = rk_make (Some (drop 5 b)) key_len;
                       val_len = len64 hv (bslice (nat q) 4 b)
                   in if val_len < 0 \<or> q + 4 + val_len > int (length b) then None
                      else Some (row_init\<lparr>row_dml_flag := dml, row_rowkey := rowkey,
                                          row_value := bslice (nat (q + 4)) (nat val_len) b,
                                          row_trans_version := 1\<rparr>))"

definition mt_replay :: "u32 \<Rightarrow> u32 \<Rightarrow> bytes option \<Rightarrow> ObMemtable \<Rightarrow> (ret \<times> ObMemtable) option" where
  "mt_replay hk hv buffer mt =
     (case buffer of
        None \<Rightarrow> Some (-1, mt)
      | Some b \<Rightarrow>
          if length b = 0 then Some (-1, mt)
          else do {
            row \<leftarrow> wal_parse hk hv b;
            let saved_handler = mt_log_handler mt;
            (ret, mt, _) \<leftarrow> mt_set (\<lambda>_ _ _. None) ctx_init row (mt\<lparr>mt_log_handler := None\<rparr>) ();
            Some (ret, mt\<lparr>mt_log_handler := saved_handler\<rparr>)
          })"

definition mt_set_log_handler :: "nat option \<Rightarrow> 'h \<Rightarrow> ObMemtable \<Rightarrow> ('h, 'r) ObLogService
    \<Rightarrow> (ObMemtable \<times> ('h, 'r) ObLogService) option" where
  "mt_set_log_handler handler self mt svc =
     (case handler of
        None \<Rightarrow> Some (mt\<lparr>mt_log_handler := None\<rparr>, svc)
      | Some a \<Rightarrow> do {
          svc \<leftarrow> svc_register a TABLET_OP_LOG_BASE_TYPE self svc;
          Some (mt\<lparr>mt_log_handler := Some a\<rparr>, svc)
        })"

section \<open>The abstract memtable\<close>

definition mt_wf :: "ObMemtable \<Rightarrow> bool" where
  "mt_wf mt \<longleftrightarrow> mt_is_inited mt \<and> mt_mvcc_engine mt \<and> mvcc_wf (mt_query_engine mt)"

abbreviation mt_abs :: "ObMemtable \<Rightarrow> u64 \<Rightarrow> (int \<times> ObMvccTransNode list) option" where
  "mt_abs mt \<equiv> mvcc_abs (mt_query_engine mt)"

definition key_hash :: "ObStoreRowkey \<Rightarrow> u64" where
  "key_hash rk = (if rk_is_valid rk then rk_murmurhash rk 0 else 0)"

definition row_data :: "ObStoreRow \<Rightarrow> ObMemtableData" where
  "row_data row = \<lparr>md_dml_flag = row_dml_flag row, md_buf_len = int (length (row_value row)), md_buf = Some (row_value row)\<rparr>"

lemma row_data_ok [simp]: "data_ok (row_data row)"
  by (simp add: data_ok_def row_data_def)

definition spec_set :: "ObStoreCtx \<Rightarrow> ObStoreRow \<Rightarrow> (u64 \<rightharpoonup> int \<times> ObMvccTransNode list)
    \<Rightarrow> ret \<times> (u64 \<rightharpoonup> int \<times> ObMvccTransNode list)" where
  "spec_set ctx row S =
     (let h = key_hash (row_rowkey row)
      in case spec_write ctx (new_version (ctx_tx_id ctx) (row_data row))
                (case S h of None \<Rightarrow> (0, []) | Some s \<Rightarrow> s) of
           (rc, s) \<Rightarrow> (rc, S(h \<mapsto> s)))"

lemma generate_key:
  "key_ok (snd (generate_memtable_key row mk_init))"
  "mk_hash (snd (generate_memtable_key row mk_init)) = key_hash (row_rowkey row)"
proof -
  consider "\<not> rk_is_valid (row_rowkey row)" | k where "rk_is_valid (row_rowkey row)" "generate_memtable_key row mk_init = (0, k)"
    by (auto simp: generate_memtable_key_def mk_encode_def Let_def)
  then have "key_ok (snd (generate_memtable_key row mk_init)) \<and>
      mk_hash (snd (generate_memtable_key row mk_init)) = key_hash (row_rowkey row)"
  proof cases
    case 1
    then show ?thesis by (simp add: generate_key_fails key_hash_def key_ok_def mk_init_def rkw_hash_def)
  next
    case 2
    then show ?thesis using generate_key_ok [OF 2(2)] by (simp add: key_hash_def)
  qed
  then show "key_ok (snd (generate_memtable_key row mk_init))"
    "mk_hash (snd (generate_memtable_key row mk_init)) = key_hash (row_rowkey row)" by auto
qed

lemma encode_key: "rkw_hash (mk_rowkey (snd (mk_encode (Some rk) mk_init))) = key_hash rk"
  by (simp add: mk_encode_def key_hash_def rkw_hash_def mk_init_def Let_def)

lemma ensure_kv_indexed:
  assumes "mvcc_wf ix" "mv_keyhash ix h = Some r"
  shows "ensure_kv (Some k) (Some r) ix = Some (0, ix)"
  using mvcc_wf_rowD [OF assms] by (auto simp: ensure_kv_def qe_ensure_def row_ok_def)

lemma mt_mvcc_write_correct:
  assumes wf: "mt_wf mt" and k: "key_ok key" and d: "arg_data arg = Some d" "data_ok d"
  obtains rc res' ix s where "mt_mvcc_write ctx key arg ce res mt = Some (rc, res', mt\<lparr>mt_query_engine := ix\<rparr>)" "mvcc_wf ix"
    "(rc, s) = spec_write ctx (new_version (arg_tx_id arg) d)
                (case mt_abs mt (mk_hash key) of None \<Rightarrow> (0, []) | Some s \<Rightarrow> s)"
    "mvcc_abs ix = (mt_abs mt)(mk_hash key \<mapsto> s)"
proof -
  let ?st = "mt_query_engine mt" and ?h = "mk_hash key"
  let ?s = "case mvcc_abs ?st ?h of None \<Rightarrow> (0, []) | Some s \<Rightarrow> s"
  have w: "mvcc_wf ?st" "mt_mvcc_engine mt" using wf by (simp_all add: mt_wf_def)
  obtain r st1 where 1: "create_kv (Some key) None ?st = Some (0, Some r, st1)" "mvcc_wf st1"
    "mv_keyhash st1 ?h = Some r" "mvcc_abs st1 = (mvcc_abs ?st)(?h \<mapsto> ?s)"
    using create_kv_correct [OF w(1) k] .
  then have abs1: "mvcc_abs st1 ?h = Some ?s" by simp
  obtain rc res' ix where 2: "engine_mvcc_write ctx r arg ce res st1 = Some (rc, res', ix)" "mvcc_wf ix"
    "(rc, the (mvcc_abs ix ?h)) = spec_write ctx (new_version (arg_tx_id arg) d) ?s"
    "mvcc_abs ix = (mvcc_abs st1)(?h \<mapsto> the (mvcc_abs ix ?h))" "mv_keyhash ix = mv_keyhash st1"
    using engine_mvcc_write_correct [OF 1(2,3) abs1 d] by metis
  have e: "ensure_kv (Some k') (Some r) ix = Some (0, ix)" for k'
    using ensure_kv_indexed [OF 2(2)] 2(5) 1(3) by simp
  have abs: "mvcc_abs ix = (mt_abs mt)(?h \<mapsto> the (mvcc_abs ix ?h))" using 2(4) 1(4) by simp
  have "\<exists>res'. mt_mvcc_write ctx key arg ce res mt = Some (rc, res', mt\<lparr>mt_query_engine := ix\<rparr>)"
    using w(2) 1(1) 2(1) e by (cases "rc = 0") (simp_all add: mt_mvcc_write_def Let_def)
  then show ?thesis using 2(2,3) abs that by blast
qed

lemma wal_record_wf:
  "rk_wf (row_rowkey row) \<Longrightarrow>
     wal_record row = Some ([word_of_int (dml_to_int (row_dml_flag row))] @
       put_word (word_of_nat (length (rk_buf (row_rowkey row))) :: u32) @ rk_buf (row_rowkey row) @
       put_word (word_of_nat (length (row_value row)) :: u32) @ row_value row)"
  by (simp add: wal_record_def rk_wf_def Let_def)

text \<open>A write: the record goes to the log first; an append that fails stops it, otherwise it
  is \<open>spec_set\<close> on the abstract memtable.\<close>

lemma mt_set_correct:
  assumes wf: "mt_wf mt" "\<not> mt_is_frozen mt" and rec: "wal_record row = Some rec"
    and log: "(case mt_log_handler mt of None \<Rightarrow> Some (0, l) | Some a \<Rightarrow> app a rec l) = Some (r, l')"
  obtains rc mt' where "mt_set app ctx row mt l = Some (rc, mt', l')" "mt_wf mt'" "mt_is_frozen mt' = mt_is_frozen mt"
    "mt_log_handler mt' = mt_log_handler mt" "r \<noteq> 0 \<longrightarrow> rc = r \<and> mt' = mt"
    "r = 0 \<longrightarrow> (rc, mt_abs mt') = spec_set ctx row (mt_abs mt)"
    "mt_row_count mt' = (if rc = 0 then mt_row_count mt + 1 else mt_row_count mt)"
proof (cases "r = 0")
  case False
  then have "mt_set app ctx row mt l = Some (r, mt, l')"
    using wf rec log by (simp add: mt_set_def mt_wf_def)
  then show ?thesis using that [of r mt] wf False by simp
next
  case True
  let ?arg = "\<lparr>arg_tx_id = ctx_tx_id ctx, arg_data = Some (row_data row), arg_column_cnt = 0\<rparr>"
  let ?key = "snd (generate_memtable_key row mk_init)"
  have d: "arg_data ?arg = Some (row_data row)" by simp
  obtain rc res' ix s where w: "mt_mvcc_write ctx ?key ?arg True wr_init mt = Some (rc, res', mt\<lparr>mt_query_engine := ix\<rparr>)" "mvcc_wf ix"
    "(rc, s) = spec_write ctx (new_version (arg_tx_id ?arg) (row_data row))
                (case mt_abs mt (mk_hash ?key) of None \<Rightarrow> (0, []) | Some s \<Rightarrow> s)"
    "mvcc_abs ix = (mt_abs mt)(mk_hash ?key \<mapsto> s)"
    using mt_mvcc_write_correct [OF wf(1) generate_key(1) d row_data_ok] .
  let ?mt = "if rc \<noteq> 0 then mt\<lparr>mt_query_engine := ix\<rparr>
    else mt\<lparr>mt_query_engine := ix, mt_row_count := mt_row_count mt + 1, mt_occupy_size := mt_occupy_size mt + md_size (row_data row),
       mt_max_trans_version := (if ctx_snapshot_version ctx > mt_max_trans_version mt
         then ctx_snapshot_version ctx else mt_max_trans_version mt)\<rparr>"
  have "mt_set app ctx row mt l = Some (rc, ?mt, l')"
    using wf rec log True w(1) by (simp add: mt_set_def mt_wf_def row_data_def Let_def)
  moreover have "(rc, mvcc_abs ix) = spec_set ctx row (mt_abs mt)"
    using w(3) [symmetric] w(4) by (simp add: spec_set_def generate_key)
  moreover have "mt_wf ?mt" using wf w(2) by (cases "rc = 0") (simp_all add: mt_wf_def)
  moreover have "mt_is_frozen ?mt = mt_is_frozen mt" "mt_log_handler ?mt = mt_log_handler mt" "mt_query_engine ?mt = ix"
    "mt_row_count ?mt = (if rc = 0 then mt_row_count mt + 1 else mt_row_count mt)" by simp_all
  ultimately show ?thesis using True by (intro that [of rc ?mt]) (simp_all only: simp_thms)
qed

lemma mt_get_correct:
  assumes "mt_wf mt"
  shows "mt_get ctx rk results mt =
    Some (case Option.bind (mt_abs mt (key_hash rk)) (read_row (get_sees ctx)) of
            None \<Rightarrow> (-1, results)
          | Some row \<Rightarrow> (0, results @ [row]))"
  using assms by (simp add: mt_get_def mt_wf_def engine_get_correct encode_key)

lemma mt_wf_init: "mt_wf (snd (mt_init tablet_id mt_new))"
  by (simp add: mt_wf_def mt_init_def mt_new_def mvcc_wf_init)

section \<open>Scans\<close>

lemma mt_scan_walk_chain:
  assumes "chain ns p (a # as)" "node_is_committed (the (ns a))"
  shows "mt_scan_walk ns p = Some (ns a)"
  using assms by (subst mt_scan_walk.simps) (auto split: option.splits)

definition newest_row :: "(u64 \<rightharpoonup> int \<times> ObMvccTransNode list) \<Rightarrow> u64 \<Rightarrow> ObStoreRow list" where
  "newest_row S h =
     (case S h of Some (mx, v # vs) \<Rightarrow> (case node_row v of Some row \<Rightarrow> [row] | None \<Rightarrow> []) | _ \<Rightarrow> [])"

lemma mt_scan_rows_correct:
  assumes wf: "mvcc_wf ix"
  shows "\<forall>e \<in> set m. mv_keyhash ix (fst e) = Some (snd e) \<Longrightarrow>
    mt_scan_rows ix m results = Some (results @ concat (map (newest_row (mvcc_abs ix)) (map fst m)))"
proof (induction m arbitrary: results)
  case (Cons e m)
  obtain h r where e: "e = (h, r)" by (cases e)
  then have h: "mv_keyhash ix h = Some r" using Cons.prems by simp
  obtain rw rs where rw: "mv_rows ix r = Some rw" "mvcc_abs ix h = Some rs"
    "chain (mv_nodes ix) (mr_list_head rw) (row_chain ix r)" "snd rs = vers (mv_nodes ix) (row_chain ix r)"
    "\<forall>v \<in> set (snd rs). node_ok v" "mr_is_empty rw \<longleftrightarrow> snd rs = []"
    using wf_row_read [OF wf h] .
  show ?case
  proof (cases "row_chain ix r")
    case Nil
    then show ?thesis using Cons e rw by (cases rs) (simp add: newest_row_def vers_def)
  next
    case (Cons a as)
    obtain n where n: "mv_nodes ix a = Some n" using rw(3) Cons by (auto split: option.splits)
    have ok: "node_ok (erase n)" "snd rs = erase n # vers (mv_nodes ix) as" using rw(4,5) Cons n by simp_all
    have c: "node_is_committed n" using ok(1) by (simp add: node_ok_def)
    have w: "mt_scan_walk (mv_nodes ix) (mr_list_head rw) = Some (Some n)"
      using mt_scan_walk_chain [of "mv_nodes ix" "mr_list_head rw" a as] rw(3) Cons n c by simp
    obtain srow where s: "node_row n = Some srow" using ok(1) by (auto simp: node_ok_def)
    have "newest_row (mvcc_abs ix) h = [srow]" using rw(2) ok(2) s by (cases rs) (simp add: newest_row_def)
    moreover have "\<not> mr_is_empty rw" using rw(6) ok(2) by simp
    ultimately show ?thesis using Cons.IH Cons.prems e rw(1) w s by simp
  qed
qed simp

lemma mt_scan_correct:
  assumes "mt_wf mt"
  shows "mt_scan ctx sk se ek ee results mt =
    Some (0, results @ concat (map (newest_row (mt_abs mt)) (map fst (mv_btree (mt_query_engine mt)))))"
proof -
  have wf: "mvcc_wf (mt_query_engine mt)" using assms by (simp add: mt_wf_def)
  have "mv_keyhash (mt_query_engine mt) (fst e) = Some (snd e)" if "e \<in> set (mv_btree (mt_query_engine mt))" for e
    using wf omap_find_Some [of "mv_btree (mt_query_engine mt)" "fst e" "snd e"] that by (simp add: mvcc_wf_def)
  then show ?thesis using mt_scan_rows_correct [OF wf, of "mv_btree (mt_query_engine mt)" results] by (simp add: mt_scan_def)
qed

section \<open>Log records\<close>

lemma sint_small: "0 \<le> k \<Longrightarrow> k < 2 ^ 63 \<Longrightarrow> sint (word_of_int k :: u64) = k"
  by (simp add: signed_of_int signed_take_bit_int_eq_self)

lemma sint_large: "2 ^ 63 \<le> k \<Longrightarrow> k < 2 ^ 64 \<Longrightarrow> sint (word_of_int k :: u64) = k - 2 ^ 64"
proof -
  assume k: "2 ^ 63 \<le> k" "k < 2 ^ 64"
  have "(k + 2 ^ 63) mod 2 ^ 64 = k + 2 ^ 63 - 2 ^ 64"
    using k by (subst mod_pos_geq) (simp_all add: mod_pos_pos_trivial)
  then show ?thesis by (simp add: signed_of_int signed_take_bit_eq_take_bit_shift take_bit_eq_mod)
qed

lemma len64_eq: "len64 hi lo = sint (word_of_int (uint hi * 2 ^ 32 + uint (get_word lo :: u32)) :: u64)"
proof -
  have "(push_bit 32 (ucast hi) :: u64) AND ucast (get_word lo :: u32) = 0"
    by (rule bit_word_eqI) (auto simp: bit_simps dest: bit_imp_le_length)
  then have "(push_bit 32 (ucast hi) OR ucast (get_word lo :: u32) :: u64) = push_bit 32 (ucast hi) + ucast (get_word lo :: u32)"
    by (simp add: disjunctive_add_eq_or)
  also have "\<dots> = word_of_int (uint hi * 2 ^ 32 + uint (get_word lo :: u32))"
    by (simp add: push_bit_eq_mult)
  finally show ?thesis by (simp add: len64_def)
qed

lemma len64_0: "len64 0 (put_word (w :: u32)) = int (unat w)"
proof -
  have "uint w < 2 ^ LENGTH(32)" by (rule unsigned_less)
  then have "sint (word_of_int (uint w) :: u64) = uint w" by (intro sint_small) simp_all
  then show ?thesis by (simp add: len64_eq)
qed

lemma dml_byte: "dml_named d \<Longrightarrow> dml_of_int (sint (word_of_int (dml_to_int d) :: byte)) = d"
  by (auto simp: dml_named_def dml_of_int_def)

lemma len64_nat: "n < 2 ^ 31 \<Longrightarrow> len64 0 (put_word (word_of_nat n :: u32)) = int n"
  by (simp add: len64_0 unsigned_of_nat take_bit_nat_eq_self del: of_int_of_nat_eq)

definition wal_ok :: "ObStoreRow \<Rightarrow> bool" where
  "wal_ok row \<longleftrightarrow> rk_wf (row_rowkey row) \<and> dml_named (row_dml_flag row) \<and>
     length (rk_buf (row_rowkey row)) < 2 ^ 31 \<and> length (row_value row) < 2 ^ 31"

definition logged_row :: "ObStoreRow \<Rightarrow> ObStoreRow" where
  "logged_row row = row_init\<lparr>row_dml_flag := row_dml_flag row, row_rowkey := row_rowkey row,
     row_value := row_value row, row_trans_version := 1\<rparr>"

lemma wal_slices:
  fixes key val :: bytes and d :: byte
  assumes "length kl = 4" "length vl = 4"
  defines "b \<equiv> [d] @ kl @ key @ vl @ val"
  shows "b ! 0 = d" "bslice 1 4 b = kl" "take (length key) (drop 5 b) = key" "bslice (5 + length key) 4 b = vl"
    "bslice (9 + length key) (length val) b = val" "length b = 9 + length key + length val"
proof -
  have "bslice (Suc p) n (d # xs) = bslice p n xs" for p n and xs :: bytes by (simp add: bslice_def)
  from this [of 0] this [of "4 + length key"] this [of "8 + length key"]
  show "bslice 1 4 b = kl" "bslice (5 + length key) 4 b = vl" "bslice (9 + length key) (length val) b = val"
    using assms(1,2) by (simp_all add: b_def layout)
  have "drop 5 b = key @ vl @ val" using assms(1) by (simp add: b_def drop_Cons')
  then show "take (length key) (drop 5 b) = key" by simp
qed (simp_all add: b_def assms(1,2))

lemma wal_roundtrip:
  assumes ok: "wal_ok row" and rec: "wal_record row = Some b"
  shows "wal_parse 0 0 b = Some (logged_row row)"
proof -
  let ?key = "rk_buf (row_rowkey row)" and ?val = "row_value row"
  have wf: "rk_wf (row_rowkey row)" "length ?key < 2 ^ 31" "length ?val < 2 ^ 31" "dml_named (row_dml_flag row)"
    using ok by (simp_all add: wal_ok_def)
  have b: "b = [word_of_int (dml_to_int (row_dml_flag row))] @ put_word (word_of_nat (length ?key) :: u32) @ ?key @
      put_word (word_of_nat (length ?val) :: u32) @ ?val"
    using rec wal_record_wf [OF wf(1)] by simp
  note s = wal_slices [where kl = "put_word (word_of_nat (length ?key) :: u32)" and key = ?key and val = ?val
      and vl = "put_word (word_of_nat (length ?val) :: u32)" and d = "word_of_int (dml_to_int (row_dml_flag row))", folded b]
  have n: "nat (5 + int (length ?key)) = 5 + length ?key" "nat (9 + int (length ?key)) = 9 + length ?key" by simp_all
  have rk: "rk_make (Some (drop 5 b)) (int (length ?key)) = row_rowkey row"
    using s(3) wf(1) by (intro ObStoreRowkey.equality) (auto simp: rk_make_def rk_wf_def)
  show ?thesis
    using s dml_byte [OF wf(4)] rk len64_nat [OF wf(2)] len64_nat [OF wf(3)]
    by (simp add: wal_parse_def Let_def n logged_row_def)
qed

text \<open>With a non-zero upper half the length leaves the buffer.\<close>

lemma wal_parse_garbage:
  assumes ok: "wal_ok row" and rec: "wal_record row = Some b" and hk: "hk \<noteq> 0" and len: "length b < 2 ^ 31"
  shows "wal_parse hk hv b = None"
proof -
  let ?key = "rk_buf (row_rowkey row)"
  let ?n = "int (length ?key)"
  have wf: "rk_wf (row_rowkey row)" "length ?key < 2 ^ 31" using ok by (simp_all add: wal_ok_def)
  have b: "b = [word_of_int (dml_to_int (row_dml_flag row))] @ put_word (word_of_nat (length ?key) :: u32) @ ?key @
      put_word (word_of_nat (length (row_value row)) :: u32) @ row_value row"
    using rec wal_record_wf [OF wf(1)] by simp
  have sl: "bslice 1 4 b = put_word (word_of_nat (length ?key) :: u32)" unfolding b by (rule wal_slices) simp_all
  let ?k = "uint hk * 2 ^ 32 + ?n"
  have h: "1 \<le> uint hk" "uint hk < 2 ^ 32"
  proof -
    have "uint hk \<noteq> 0" "0 \<le> uint hk" using hk by (simp_all add: uint_0_iff)
    then show "1 \<le> uint hk" by linarith
    have "uint hk < 2 ^ LENGTH(32)" by (rule unsigned_less)
    then show "uint hk < 2 ^ 32" by simp
  qed
  have "uint (get_word (bslice 1 4 b) :: u32) = ?n"
    unfolding sl using wf(2) by (simp add: unsigned_of_nat take_bit_nat_eq_self)
  then have e: "len64 hk (bslice 1 4 b) = sint (word_of_int ?k :: u64)" unfolding len64_eq by simp
  have "len64 hk (bslice 1 4 b) \<ge> 2 ^ 32 \<or> len64 hk (bslice 1 4 b) < - (2 ^ 31)"
  proof (cases "?k < 2 ^ 63")
    case True
    then show ?thesis using sint_small [of ?k] h e by simp
  next
    case False
    then have "sint (word_of_int ?k :: u64) = ?k - 2 ^ 64" using h wf(2) by (intro sint_large) simp_all
    then show ?thesis using h wf(2) e by simp
  qed
  then show ?thesis using len by (auto simp: wal_parse_def Let_def)
qed

section \<open>Replay and recovery\<close>

lemma spec_set_logged [simp]: "spec_set ctx (logged_row row) = spec_set ctx row"
  by (simp add: spec_set_def logged_row_def row_data_def fun_eq_iff)

text \<open>The effect of a record on the abstract memtable.\<close>

definition redo :: "bytes \<Rightarrow> (u64 \<rightharpoonup> int \<times> ObMvccTransNode list) \<Rightarrow> (u64 \<rightharpoonup> int \<times> ObMvccTransNode list)" where
  "redo b S = (case wal_parse 0 0 b of None \<Rightarrow> S | Some row \<Rightarrow> snd (spec_set ctx_init row S))"

definition mt_rel :: "ObMemtable \<Rightarrow> (u64 \<rightharpoonup> int \<times> ObMvccTransNode list) \<Rightarrow> bool" where
  "mt_rel mt S \<longleftrightarrow> mt_wf mt \<and> \<not> mt_is_frozen mt \<and> mt_abs mt = S"

abbreviation wal_bytes :: "ObStoreRow \<Rightarrow> bytes" where
  "wal_bytes row \<equiv> the (wal_record row)"

lemma wal_ok_bytes: "wal_ok row \<Longrightarrow> wal_record row = Some (wal_bytes row)"
  using wal_record_wf [of row] by (simp add: wal_ok_def)

lemma wal_bytes_nonempty: "wal_ok row \<Longrightarrow> wal_bytes row \<noteq> []"
  using wal_record_wf [of row] by (simp add: wal_ok_def)

lemma mt_replay_correct:
  assumes rel: "mt_rel mt S" and ok: "wal_ok row"
  shows "\<exists>rc mt'. mt_replay 0 0 (Some (wal_bytes row)) mt = Some (rc, mt') \<and> mt_rel mt' (redo (wal_bytes row) S)"
proof -
  let ?mt = "mt\<lparr>mt_log_handler := None\<rparr>"
  have m: "mt_wf ?mt" "\<not> mt_is_frozen ?mt" "mt_abs ?mt = S" using rel by (simp_all add: mt_rel_def mt_wf_def)
  have p: "wal_parse 0 0 (wal_bytes row) = Some (logged_row row)" using wal_roundtrip [OF ok wal_ok_bytes [OF ok]] .
  have "rk_wf (row_rowkey (logged_row row))" using ok by (simp add: wal_ok_def logged_row_def)
  then obtain rec where rec: "wal_record (logged_row row) = Some rec" using wal_record_wf by blast
  have log: "(case mt_log_handler ?mt of None \<Rightarrow> Some (0, ()) | Some a \<Rightarrow> (\<lambda>_ _ _. None) a rec ()) = Some (0 :: ret, ())" by simp
  obtain rc mt' where s: "mt_set (\<lambda>_ _ _. None) ctx_init (logged_row row) ?mt () = Some (rc, mt', ())" "mt_wf mt'"
    "mt_is_frozen mt' = mt_is_frozen ?mt" "(0::ret) = 0 \<longrightarrow> (rc, mt_abs mt') = spec_set ctx_init (logged_row row) (mt_abs ?mt)"
    using mt_set_correct [OF m(1,2) rec log, of ctx_init] by metis
  have "mt_replay 0 0 (Some (wal_bytes row)) mt = Some (rc, mt'\<lparr>mt_log_handler := mt_log_handler mt\<rparr>)"
    using wal_bytes_nonempty [OF ok] p s(1) by (simp add: mt_replay_def Let_def)
  moreover have "mt_abs mt' = redo (wal_bytes row) S"
    using s(4) m(3) p by (simp add: redo_def) (metis snd_conv)
  ultimately show ?thesis using s(2,3) m(2) by (auto simp: mt_rel_def mt_wf_def)
qed

definition log_append :: "(nat \<Rightarrow> byte) \<Rightarrow> ('h, 'r) ObLogService appender" where
  "log_append junk a b svc = do {
     (ret, lsn, scn, svc) \<leftarrow> svc_append junk io_good a (Some b) TABLET_OP_LOG_BASE_TYPE lsn_init 0 svc;
     Some (ret, svc)
   }"

lemma log_append_clog: "ls_handlers svc ls_id = Some a \<Longrightarrow> log_append junk a b svc = clog_append junk ls_id TABLET_OP_LOG_BASE_TYPE b svc"
  by (simp add: log_append_def clog_append_def)

lemma svc_append_handlers: "svc_append junk io a b t lsn scn svc = Some (r, l, c, svc') \<Longrightarrow> ls_handlers svc' = ls_handlers svc"
  by (auto simp: svc_append_def bind_eq_Some_conv)

abbreviation apply_row :: "ObStoreCtx \<Rightarrow> ObStoreRow \<Rightarrow> (u64 \<rightharpoonup> int \<times> ObMvccTransNode list) \<Rightarrow> (u64 \<rightharpoonup> int \<times> ObMvccTransNode list)" where
  "apply_row ctx row S \<equiv> snd (spec_set ctx row S)"

lemma spec_set_invalid: "ctx_snapshot_version ctx = OB_INVALID_VERSION \<Longrightarrow> fst (spec_set ctx row S) = 0"
  by (simp add: spec_set_def spec_write_def Let_def split: option.splits prod.splits)

lemma mt_multi_set_logs:
  fixes svc :: "('h, 'r) ObLogService"
  assumes "mt_rel mt S" "clog_holds ls_id TABLET_OP_LOG_BASE_TYPE x svc bs" "ls_handlers svc ls_id = Some a"
    and "mt_log_handler mt = Some a" "\<forall>row \<in> set rows. wal_ok row" "ctx_snapshot_version ctx = OB_INVALID_VERSION"
    and "entries_fit (unat PALF_BLOCK_SIZE) 0 (map (typed TABLET_OP_LOG_BASE_TYPE) (bs @ map wal_bytes rows))"
    and "log_size (map (typed TABLET_OP_LOG_BASE_TYPE) (bs @ map wal_bytes rows)) < 2 ^ 63"
  shows "\<exists>mt' svc'. mt_multi_set (log_append junk) ctx rows mt svc = Some (0, mt', svc') \<and>
    mt_rel mt' (fold (apply_row ctx) rows S) \<and> clog_holds ls_id TABLET_OP_LOG_BASE_TYPE x svc' (bs @ map wal_bytes rows) \<and>
    ls_handlers svc' ls_id = Some a \<and> mt_log_handler mt' = Some a"
  using assms
proof (induction rows arbitrary: mt S svc bs)
  case (Cons row rows)
  let ?b = "wal_bytes row" and ?t = TABLET_OP_LOG_BASE_TYPE
  have ok: "wal_ok row" using Cons.prems(5) by simp
  have fit: "clog_fits ?t bs ?b"
    using Cons.prems(7,8) wal_bytes_nonempty [OF ok] by (simp add: clog_fits_def entries_fit_append)
  obtain svc1 where l: "clog_append junk ls_id ?t ?b svc = Some (0, svc1)" "clog_holds ls_id ?t x svc1 (bs @ [?b])"
    using clog.append_law [OF Cons.prems(2) fit] by blast
  have h1: "ls_handlers svc1 ls_id = Some a"
    using l(1) Cons.prems(3) by (auto simp: clog_append_def bind_eq_Some_conv dest: svc_append_handlers)
  have m: "mt_wf mt" "\<not> mt_is_frozen mt" "mt_abs mt = S" using Cons.prems(1) by (simp_all add: mt_rel_def)
  have log: "(case mt_log_handler mt of None \<Rightarrow> Some (0, svc) | Some a \<Rightarrow> log_append junk a ?b svc) = Some (0, svc1)"
    using Cons.prems(3,4) l(1) by (simp add: log_append_clog)
  obtain rc mt1 where s: "mt_set (log_append junk) ctx row mt svc = Some (rc, mt1, svc1)" "mt_wf mt1"
    "mt_is_frozen mt1 = mt_is_frozen mt" "mt_log_handler mt1 = mt_log_handler mt"
    "(0::ret) = 0 \<longrightarrow> (rc, mt_abs mt1) = spec_set ctx row (mt_abs mt)"
    using mt_set_correct [where app = "log_append junk" and l = svc and ctx = ctx, OF m(1,2) wal_ok_bytes [OF ok] log] by metis
  have rc: "rc = 0" "mt_abs mt1 = apply_row ctx row S"
    using s(5) m(3) spec_set_invalid [OF Cons.prems(6), of row S] by (metis fst_conv snd_conv)+
  have rel1: "mt_rel mt1 (apply_row ctx row S)" using s(2,3) m(2) rc(2) by (simp add: mt_rel_def)
  show ?case
    using Cons.IH [OF rel1 l(2) h1 _ _ Cons.prems(6)] Cons.prems(4,5,7,8) s(1,4) rc(1) by simp
qed (simp add: mt_rel_def)

text \<open>Replay runs as the default transaction: the recovered versions differ from the logged
  ones in their transaction id only.\<close>

definition anon :: "ObMvccTransNode \<Rightarrow> ObMvccTransNode" where
  "anon v = v\<lparr>nd_tx_id := OB_INVALID_TRANS_ID\<rparr>"

definition anon_store :: "(u64 \<rightharpoonup> int \<times> ObMvccTransNode list) \<Rightarrow> (u64 \<rightharpoonup> int \<times> ObMvccTransNode list)" where
  "anon_store S h = map_option (\<lambda>(mx, vs). (mx, map anon vs)) (S h)"

definition anon_row :: "ObStoreRow \<Rightarrow> ObStoreRow" where
  "anon_row row = row\<lparr>row_trans_id := OB_INVALID_TRANS_ID\<rparr>"

lemma redo_anon:
  assumes "wal_ok row" "ctx_snapshot_version ctx = OB_INVALID_VERSION"
  shows "redo (wal_bytes row) (anon_store S) = anon_store (apply_row ctx row S)"
proof -
  have "wal_parse 0 0 (wal_bytes row) = Some (logged_row row)"
    using wal_roundtrip [OF assms(1) wal_ok_bytes [OF assms(1)]] .
  moreover have "anon (new_version tx (row_data row)) = new_version OB_INVALID_TRANS_ID (row_data row)" for tx
    by (simp add: anon_def new_version_def)
  ultimately show ?thesis
    using assms(2)
    by (cases "S (key_hash (row_rowkey row))")
       (auto simp: redo_def anon_store_def spec_set_def spec_write_def ctx_init_def fun_eq_iff)
qed

lemma fold_redo_anon:
  assumes "\<forall>row \<in> set rows. wal_ok row" "ctx_snapshot_version ctx = OB_INVALID_VERSION"
  shows "fold redo (map wal_bytes rows) (anon_store S) = anon_store (fold (apply_row ctx) rows S)"
  using assms by (induction rows arbitrary: S) (simp_all add: redo_anon)

lemma node_row_anon: "node_row (anon v) = map_option anon_row (node_row v)"
  by (simp add: node_row_def anon_def anon_row_def Let_def)

lemma get_sees_anon: "node_ok v \<Longrightarrow> get_sees ctx (anon v) = get_sees ctx v"
  by (simp add: get_sees_def node_ok_def anon_def node_is_committed_def snapshot_visible_def)

lemma read_row_anon:
  assumes "\<forall>v \<in> set vs. node_ok v"
  shows "read_row (get_sees ctx) (mx, map anon vs) = map_option anon_row (read_row (get_sees ctx) (mx, vs))"
  using assms
proof (induction vs)
  case (Cons v vs)
  have "node_row v \<noteq> None" using Cons.prems by (simp add: node_ok_def)
  then show ?case using Cons get_sees_anon [of v ctx] by (auto simp: read_row_def node_row_anon)
qed (simp add: read_row_def)

lemma mvcc_abs_node_ok:
  assumes "mvcc_wf st" "mvcc_abs st h = Some rs"
  shows "\<forall>v \<in> set (snd rs). node_ok v"
proof -
  obtain r where "mv_keyhash st h = Some r" using assms(2) by (auto simp: mvcc_abs_def split: option.splits)
  from wf_row_read [OF assms(1) this] show ?thesis using assms(2) by (metis option.inject)
qed

lemma mt_get_anon:
  assumes wf: "mt_wf mt" "mt_wf mt'" and abs: "mt_abs mt' = anon_store (mt_abs mt)"
  shows "mt_get rctx rk [] mt' = map_option (map_prod id (map anon_row)) (mt_get rctx rk [] mt)"
proof (cases "mt_abs mt (key_hash rk)")
  case None
  then show ?thesis by (simp add: mt_get_correct [OF wf(1)] mt_get_correct [OF wf(2)] abs anon_store_def)
next
  case (Some rs)
  obtain mx vs where rs: "rs = (mx, vs)" by (cases rs)
  have "\<forall>v \<in> set vs. node_ok v" using mvcc_abs_node_ok [of "mt_query_engine mt" "key_hash rk"] Some rs wf(1)
    by (simp add: mt_wf_def)
  from read_row_anon [OF this, of rctx mx] show ?thesis
    using Some rs by (simp add: mt_get_correct [OF wf(1)] mt_get_correct [OF wf(2)] abs anon_store_def split: option.splits)
qed

lemma mt_rel_init: "mt_rel (snd (mt_init tid mt_new)) Map.empty"
proof -
  have "mvcc_abs mv_init = Map.empty" by (auto simp: mvcc_abs_def mv_init_def fun_eq_iff)
  then show ?thesis using mt_wf_init [of tid] by (simp add: mt_rel_def mt_init_def mt_new_def)
qed

lemma recovery_of_log:
  assumes "clog_holds ls_id TABLET_OP_LOG_BASE_TYPE x svc (map wal_bytes rows)" "\<forall>row \<in> set rows. wal_ok row"
    and "ctx_snapshot_version ctx = OB_INVALID_VERSION"
  shows "\<exists>svc' mt'. clog_recover ls_id TABLET_OP_LOG_BASE_TYPE x svc = Some svc' \<and>
    clog_holds ls_id TABLET_OP_LOG_BASE_TYPE x svc' (map wal_bytes rows) \<and>
    clog_replay junk ls_id (\<lambda>b. mt_replay 0 0 (Some b)) svc' (snd (mt_init tid mt_new)) = Some (0, mt') \<and>
    mt_rel mt' (anon_store (fold (apply_row ctx) rows Map.empty))"
proof -
  have "fold redo (map wal_bytes rows) Map.empty = anon_store (fold (apply_row ctx) rows Map.empty)"
    using fold_redo_anon [OF assms(2,3), of Map.empty] by (simp add: anon_store_def [abs_def])
  moreover have "\<exists>r s'. mt_replay 0 0 (Some b) s = Some (r, s') \<and> mt_rel s' (redo b y)"
    if "b \<in> set (map wal_bytes rows)" "mt_rel s y" for b s y
    using that assms(2) mt_replay_correct by auto
  ultimately show ?thesis
    using clog.recover_simulates [where rel = mt_rel and app = redo and rep = "\<lambda>b. mt_replay 0 0 (Some b)",
        OF assms(1) mt_rel_init [of tid]] by (metis (no_types, lifting))
qed

section \<open>Runs of a memtable\<close>

inductive mt_step :: "ObMemtable \<Rightarrow> ObMemtable \<Rightarrow> bool" where
  set: "mt_set app ctx row mt (l :: (nat, nat) ObLogService) = Some (rc, mt', l') \<Longrightarrow> mt_step mt mt'"
| replay: "mt_replay hk hv buffer mt = Some (rc, mt') \<Longrightarrow> mt_step mt mt'"
| freeze: "mt_step mt (mt_set_frozen mt)"
| alloc: "mt_alloc sz mt = (p, mt') \<Longrightarrow> mt_step mt mt'"

inductive_cases mt_stepE: "mt_step mt mt'"

lemma mt_set_inv:
  assumes s: "mt_set app ctx row mt l = Some (rc, mt', l')" and wf: "mt_wf mt"
  shows "mt_wf mt'" "mt_is_frozen mt' = mt_is_frozen mt" "mt_is_frozen mt \<Longrightarrow> mt' = mt"
proof -
  show "mt' = mt" if "mt_is_frozen mt" using s that by (simp add: mt_set_def)
  show "mt_wf mt'" "mt_is_frozen mt' = mt_is_frozen mt"
  proof (atomize (full), cases "mt_is_frozen mt")
    case True
    then show "mt_wf mt' \<and> mt_is_frozen mt' = mt_is_frozen mt" using s wf by (simp add: mt_set_def)
  next
    case False
    obtain rec r k where r: "wal_record row = Some rec"
      "(case mt_log_handler mt of None \<Rightarrow> Some (0, l) | Some a \<Rightarrow> app a rec l) = Some (r, k)"
      using s False wf by (auto simp: mt_set_def mt_wf_def bind_eq_Some_conv)
    obtain rc2 mt2 where "mt_set app ctx row mt l = Some (rc2, mt2, k)" "mt_wf mt2" "mt_is_frozen mt2 = mt_is_frozen mt"
      using mt_set_correct [where app = app and l = l and ctx = ctx, OF wf False r] by metis
    then show "mt_wf mt' \<and> mt_is_frozen mt' = mt_is_frozen mt" using s by simp
  qed
qed

lemma mt_replay_cases:
  assumes s: "mt_replay hk hv buffer mt = Some (rc, mt')"
  obtains "mt' = mt"
  | row mt2 where "mt_set (\<lambda>_ _ _. None) ctx_init row (mt\<lparr>mt_log_handler := None\<rparr>) () = Some (rc, mt2, ())"
    "mt' = mt2\<lparr>mt_log_handler := mt_log_handler mt\<rparr>"
proof (cases "\<exists>b. buffer = Some b \<and> b \<noteq> []")
  case False
  then have "mt' = mt" using s by (cases buffer) (auto simp: mt_replay_def)
  then show ?thesis by (rule that(1))
next
  case True
  then obtain b where b: "buffer = Some b" "b \<noteq> []" by blast
  obtain row where row: "wal_parse hk hv b = Some row" using s b by (cases "wal_parse hk hv b") (simp_all add: mt_replay_def)
  let ?s = "mt_set (\<lambda>_ _ _. None) ctx_init row (mt\<lparr>mt_log_handler := None\<rparr>) ()"
  obtain r2 mt2 where x: "?s = Some (r2, mt2, ())"
    using s b row by (cases ?s) (simp_all add: mt_replay_def split: prod.splits)
  then show ?thesis using s b row by (intro that(2) [of row mt2]) (simp_all add: mt_replay_def)
qed

lemma mt_replay_inv:
  assumes s: "mt_replay hk hv buffer mt = Some (rc, mt')" and wf: "mt_wf mt"
  shows "mt_wf mt'" "mt_is_frozen mt' = mt_is_frozen mt" "mt_is_frozen mt \<Longrightarrow> mt' = mt"
proof -
  have w: "mt_wf (mt\<lparr>mt_log_handler := None\<rparr>)" using wf by (simp add: mt_wf_def)
  from s have "mt_wf mt' \<and> mt_is_frozen mt' = mt_is_frozen mt \<and> (mt_is_frozen mt \<longrightarrow> mt' = mt)"
  proof (cases rule: mt_replay_cases)
    case 1
    then show ?thesis using wf by simp
  next
    case 2
    then show ?thesis using mt_set_inv [OF 2(1) w] by (simp add: mt_wf_def)
  qed
  then show "mt_wf mt'" "mt_is_frozen mt' = mt_is_frozen mt" "mt_is_frozen mt \<Longrightarrow> mt' = mt" by auto
qed

lemma mt_alloc_keeps:
  "mt_alloc sz mt = (p, mt') \<Longrightarrow> mt_query_engine mt' = mt_query_engine mt \<and> mt_is_frozen mt' = mt_is_frozen mt \<and>
     mt_is_inited mt' = mt_is_inited mt \<and> mt_mvcc_engine mt' = mt_mvcc_engine mt \<and> mt_row_count mt' = mt_row_count mt"
  by (auto simp: mt_alloc_def Let_def split: if_splits)

lemma mt_step_inv:
  assumes "mt_step mt mt'" "mt_wf mt"
  shows "mt_wf mt' \<and> (mt_is_frozen mt \<longrightarrow> mt_is_frozen mt' \<and> mt_abs mt' = mt_abs mt \<and> mt_row_count mt' = mt_row_count mt)"
  using assms(1)
proof cases
  case set
  then show ?thesis using mt_set_inv [OF _ assms(2)] by metis
next
  case replay
  then show ?thesis using mt_replay_inv [OF _ assms(2)] by metis
next
  case freeze
  then show ?thesis using assms(2) by (simp add: mt_set_frozen_def mt_wf_def)
next
  case alloc
  then show ?thesis using assms(2) mt_alloc_keeps by (simp add: mt_wf_def)
qed

lemma mt_steps_inv:
  "mt_step\<^sup>*\<^sup>* mt mt' \<Longrightarrow> mt_wf mt \<Longrightarrow>
     mt_wf mt' \<and> (mt_is_frozen mt \<longrightarrow> mt_is_frozen mt' \<and> mt_abs mt' = mt_abs mt \<and> mt_row_count mt' = mt_row_count mt)"
proof (induction rule: rtranclp_induct)
  case (step y z)
  then show ?case using mt_step_inv [OF step.hyps(2)] by metis
qed simp

section \<open>Properties of the memtable\<close>


definition sample_row :: "byte \<Rightarrow> ObStoreRow" where
  "sample_row x = row_init\<lparr>row_dml_flag := DF_INSERT, row_rowkey := rk_of_bytes [x, 2, 3], row_value := [x, 9]\<rparr>"

lemma sample_row_ok: "wal_ok (sample_row x)"
  by (simp add: wal_ok_def sample_row_def rk_of_bytes_def rk_wf_def dml_named_def)




text \<open>
  C26. A write whose log append fails, or that reaches a frozen memtable, reports the error and
  changes nothing.
\<close>

theorem mt_set_fails_cleanly:
  assumes "mt_wf mt"
  shows "(mt_is_frozen mt \<longrightarrow> mt_set app ctx row mt l = Some (-1, mt, l)) \<and>
    (\<not> mt_is_frozen mt \<and> wal_record row = Some rec \<and> mt_log_handler mt = Some a \<and> app a rec l = Some (r, l') \<and> r \<noteq> 0
      \<longrightarrow> mt_set app ctx row mt l = Some (r, mt, l'))"
  using assms by (simp add: mt_set_def mt_wf_def)

theorem mt_set_fails_cleanly_witness:
  "mt_set (\<lambda>_ _ _. Some (-7, ())) ctx_init (sample_row 7) ((snd (mt_init 1 mt_new))\<lparr>mt_log_handler := Some 0\<rparr>) () =
      Some (-7, (snd (mt_init 1 mt_new))\<lparr>mt_log_handler := Some 0\<rparr>, ())"
proof -
  have "mt_wf ((snd (mt_init 1 mt_new))\<lparr>mt_log_handler := Some 0\<rparr>)" using mt_wf_init [of 1] by (simp add: mt_wf_def)
  from mt_set_fails_cleanly [OF this, of "\<lambda>_ _ _. Some (-7, ())" ctx_init "sample_row 7" "()" "wal_bytes (sample_row 7)" 0 "-7" "()"]
  show ?thesis using wal_ok_bytes [OF sample_row_ok] by (simp add: mt_init_def mt_new_def)
qed

text \<open>
  \<^verbatim>\<open>scan\<close> lists every key of the memtable once, in the order of the hashes, with its newest
  version; it looks neither at the key range it is given nor at the reader's snapshot.
\<close>

theorem mt_scan_all:
  assumes wf: "mt_wf mt"
  shows "\<exists>hs. sorted_wrt (<) hs \<and> set hs = dom (mt_abs mt) \<and>
    mt_scan ctx sk se ek ee results mt = Some (0, results @ concat (map (newest_row (mt_abs mt)) hs))"
proof -
  let ?bt = "mv_btree (mt_query_engine mt)"
  have "mvcc_wf (mt_query_engine mt)" using wf by (simp add: mt_wf_def)
  from btree_hashes [OF this] show ?thesis using mt_scan_correct [OF wf] by (intro exI [of _ "map fst ?bt"]) simp
qed

theorem mt_scan_all_witness:
  "\<exists>hs. sorted_wrt (<) hs \<and> set hs = dom (mt_abs (snd (mt_init 1 mt_new))) \<and>
    mt_scan ctx_init rk_empty False rk_empty False [] (snd (mt_init 1 mt_new)) =
      Some (0, concat (map (newest_row (mt_abs (snd (mt_init 1 mt_new)))) hs))"
  using mt_scan_all [OF mt_wf_init, of 1 ctx_init rk_empty False rk_empty False "[]"] by simp

text \<open>
  A record written by \<^verbatim>\<open>set\<close> is read back by \<^verbatim>\<open>replay\<close> as the same operation, key and
  value, when the upper halves of its two length variables are zero.  They are never
  initialised, and any other upper half of the key length sends the parser out of the buffer.
\<close>

theorem wal_record_replayed:
  assumes "wal_ok row" "wal_record row = Some b" "length b < 2 ^ 31"
  shows "wal_parse 0 0 b = Some (logged_row row) \<and> (hk \<noteq> 0 \<longrightarrow> wal_parse hk hv b = None)"
  using wal_roundtrip [OF assms(1,2)] wal_parse_garbage [OF assms(1,2) _ assms(3)] by blast

theorem wal_record_replayed_witness:
  "wal_parse 0 0 (wal_bytes (sample_row 7)) = Some (logged_row (sample_row 7)) \<and>
   wal_parse 1 0 (wal_bytes (sample_row 7)) = None"
proof -
  have "length (wal_bytes (sample_row 7)) < 2 ^ 31" by (simp add: wal_record_def sample_row_def rk_of_bytes_def)
  from wal_record_replayed [OF sample_row_ok wal_ok_bytes [OF sample_row_ok] this, of 1 0] show ?thesis by simp
qed

definition arena_ok :: "ObMemtable \<Rightarrow> bool" where
  "arena_ok mt \<longleftrightarrow> 0 \<le> mt_current_chunk_offset mt \<and> mt_current_chunk_offset mt \<le> CHUNK_SIZE"

lemma mt_alloc_step:
  assumes "arena_ok mt" "0 \<le> n" "n \<le> CHUNK_SIZE" "mt_alloc n mt = ((c, p), mt1)"
  shows "mt_chunks mt1 = Suc c" "mt_current_chunk_offset mt1 = p + n" "0 \<le> p" "p + n \<le> CHUNK_SIZE" "arena_ok mt1"
    "mt_chunks mt \<le> Suc c" "mt_chunks mt = Suc c \<longrightarrow> mt_current_chunk_offset mt \<le> p"
  using assms by (auto simp: mt_alloc_def arena_ok_def Let_def split: if_splits)

text \<open>
  C39. The arena hands out disjoint pieces: two successive allocations of at most a chunk lie
  inside their chunks and do not overlap.
\<close>

theorem mt_alloc_disjoint:
  assumes ok: "arena_ok mt" and n: "0 \<le> n" "n \<le> CHUNK_SIZE" and m: "0 \<le> m" "m \<le> CHUNK_SIZE"
    and a: "mt_alloc n mt = ((c, p), mt1)" and b: "mt_alloc m mt1 = ((d, q), mt2)"
  shows "0 \<le> p \<and> p + n \<le> CHUNK_SIZE \<and> 0 \<le> q \<and> q + m \<le> CHUNK_SIZE \<and> (c = d \<longrightarrow> p + n \<le> q) \<and> c \<le> d \<and>
    d < mt_chunks mt2 \<and> arena_ok mt2"
  using mt_alloc_step [OF ok n a] mt_alloc_step [OF mt_alloc_step(5) [OF ok n a] m b] by simp

theorem mt_alloc_disjoint_witness:
  "\<exists>c p mt1 d q mt2. mt_alloc 4000000 mt_new = ((c, p), mt1) \<and> mt_alloc 300000 mt1 = ((d, q), mt2) \<and>
     c \<noteq> d \<and> c \<le> d \<and> p + 4000000 \<le> CHUNK_SIZE \<and> q + 300000 \<le> CHUNK_SIZE"
proof -
  let ?mt1 = "snd (mt_alloc 4000000 mt_new)" and ?mt2 = "snd (mt_alloc 300000 (snd (mt_alloc 4000000 mt_new)))"
  have ok: "arena_ok mt_new" by (simp add: arena_ok_def mt_new_def CHUNK_SIZE_def)
  have 1: "mt_alloc 4000000 mt_new = ((0, 0), ?mt1)" by (simp add: mt_alloc_def mt_new_def)
  have 2: "mt_alloc 300000 ?mt1 = ((1, 0), ?mt2)" by (simp add: mt_alloc_def mt_new_def CHUNK_SIZE_def)
  have b: "(0::int) \<le> 4000000" "4000000 \<le> CHUNK_SIZE" "(0::int) \<le> 300000" "300000 \<le> CHUNK_SIZE" by (simp_all add: CHUNK_SIZE_def)
  from mt_alloc_disjoint [OF ok b 1 2]
  show ?thesis using 1 2 by (intro exI [of _ 0] exI [of _ ?mt1] exI [of _ 1] exI [of _ ?mt2]) simp
qed

text \<open>
  The record reaches the log before the write is checked.  A write that the
  transaction-set check refuses leaves the stored versions alone but its record stays in the
  log, where the next recovery applies it.
\<close>

theorem refused_write_stays_logged:
  fixes svc :: "('h, 'r) ObLogService"
  assumes rel: "mt_rel mt S" and h: "clog_holds ls_id TABLET_OP_LOG_BASE_TYPE x svc bs" "ls_handlers svc ls_id = Some a"
    and lh: "mt_log_handler mt = Some a" and ok: "wal_ok row" and fit: "clog_fits TABLET_OP_LOG_BASE_TYPE bs (wal_bytes row)"
    and viol: "S (key_hash (row_rowkey row)) = Some (mx, vs)" "mx > ctx_snapshot_version ctx"
      "ctx_snapshot_version ctx \<noteq> OB_INVALID_VERSION"
  shows "\<exists>mt' svc'. mt_set (log_append junk) ctx row mt svc = Some (-1, mt', svc') \<and> mt_rel mt' S \<and>
    clog_holds ls_id TABLET_OP_LOG_BASE_TYPE x svc' (bs @ [wal_bytes row])"
proof -
  let ?b = "wal_bytes row" and ?t = TABLET_OP_LOG_BASE_TYPE
  obtain svc1 where l: "clog_append junk ls_id ?t ?b svc = Some (0, svc1)" "clog_holds ls_id ?t x svc1 (bs @ [?b])"
    using clog.append_law [OF h(1) fit] by blast
  have m: "mt_wf mt" "\<not> mt_is_frozen mt" "mt_abs mt = S" using rel by (simp_all add: mt_rel_def)
  have log: "(case mt_log_handler mt of None \<Rightarrow> Some (0, svc) | Some a \<Rightarrow> log_append junk a ?b svc) = Some (0, svc1)"
    using h(2) lh l(1) by (simp add: log_append_clog)
  obtain rc mt1 where s: "mt_set (log_append junk) ctx row mt svc = Some (rc, mt1, svc1)" "mt_wf mt1"
    "mt_is_frozen mt1 = mt_is_frozen mt" "(0::ret) = 0 \<longrightarrow> (rc, mt_abs mt1) = spec_set ctx row (mt_abs mt)"
    using mt_set_correct [where app = "log_append junk" and l = svc and ctx = ctx, OF m(1,2) wal_ok_bytes [OF ok] log] by metis
  have "spec_set ctx row S = (-1, S(key_hash (row_rowkey row) \<mapsto> (mx, vs)))"
    using viol by (simp add: spec_set_def spec_write_def)
  moreover have "S(key_hash (row_rowkey row) \<mapsto> (mx, vs)) = S" using viol(1) by (rule map_upd_triv)
  ultimately have "rc = -1" "mt_abs mt1 = S" using s(4) m(3) by simp_all
  then show ?thesis using s(1-3) m(2) l(2) by (auto simp: mt_rel_def)
qed

lemma sample_row_length: "length (wal_bytes (sample_row h)) = 14"
  by (simp add: wal_record_def sample_row_def rk_of_bytes_def)

lemma sample_log_fits:
  "entries_fit (unat PALF_BLOCK_SIZE) 0 (map (typed t) (map wal_bytes [sample_row a, sample_row b]))"
  "log_size (map (typed t) (map wal_bytes [sample_row a, sample_row b])) < 2 ^ 63"
  by (simp_all add: sample_row_length length_typed entry_size_def SCAN_BUF_def PALF_BLOCK_SIZE_def blh_size_def lgh_size_def)

lemma tablet_log_attached:
  fixes svc :: "('h, 'r) ObLogService"
  assumes "pe_fs (ls_palf_env svc) ls_id = lf_empty" "ls_handlers svc ls_id = None"
  obtains a and svc1 svc2 :: "('h, 'r) ObLogService" and mt
  where "open_ls io_good io_good io_good ls_id None svc = Some (0, Some a, svc1)"
    "mt_set_log_handler (Some a) x (snd (mt_init tid mt_new)) svc1 = Some (mt, svc2)"
    "clog_holds ls_id TABLET_OP_LOG_BASE_TYPE x svc2 []" "ls_handlers svc2 ls_id = Some a"
    "mt_rel mt Map.empty" "mt_log_handler mt = Some a"
proof -
  obtain a and svc1 svc2 :: "('h, 'r) ObLogService"
    where o: "open_ls io_good io_good io_good ls_id None svc = Some (0, Some a, svc1)"
      "svc_register a TABLET_OP_LOG_BASE_TYPE x svc1 = Some svc2"
      "clog_holds ls_id TABLET_OP_LOG_BASE_TYPE x svc2 []" "ls_handlers svc2 ls_id = Some a"
    using clog_open [OF assms] .
  let ?mt = "(snd (mt_init tid mt_new))\<lparr>mt_log_handler := Some a\<rparr>"
  have "mt_rel ?mt Map.empty" using mt_rel_init [of tid] by (simp add: mt_rel_def mt_wf_def)
  moreover have "mt_set_log_handler (Some a) x (snd (mt_init tid mt_new)) svc1 = Some (?mt, svc2)"
    using o(2) by (simp add: mt_set_log_handler_def)
  ultimately show ?thesis using that [OF o(1) _ o(3,4)] by simp
qed

theorem refused_write_stays_logged_witness:
  "\<exists>mt S mt' svc svc'. mt_rel mt S \<and>
    mt_set (log_append (\<lambda>_. 0)) (ctx_init\<lparr>ctx_snapshot_version := -5\<rparr>) (sample_row 7) mt (svc :: (nat, nat) ObLogService) = Some (-1, mt', svc') \<and>
    mt_rel mt' S \<and> clog_holds 1 TABLET_OP_LOG_BASE_TYPE 0 svc' [wal_bytes (sample_row 7), wal_bytes (sample_row 7)]"
proof -
  let ?t = TABLET_OP_LOG_BASE_TYPE and ?r = "sample_row 7" and ?ctx = "ctx_init\<lparr>ctx_snapshot_version := -5\<rparr>"
  let ?S = "apply_row ctx_init ?r Map.empty"
  have ctx: "ctx_snapshot_version ctx_init = OB_INVALID_VERSION" by (simp add: ctx_init_def)
  obtain a mt0 and svc1 svc2 :: "(nat, nat) ObLogService"
    where o: "open_ls io_good io_good io_good 1 None (ls_new (\<lambda>_. lf_empty)) = Some (0, Some a, svc1)"
      "clog_holds 1 ?t 0 svc2 []" "ls_handlers svc2 1 = Some a" "mt_rel mt0 Map.empty" "mt_log_handler mt0 = Some a"
    by (rule tablet_log_attached [of "ls_new (\<lambda>_. lf_empty)" 1 0 1]) (simp_all add: ls_new_def pe_new_def)
  obtain mt and svc3 :: "(nat, nat) ObLogService" where w: "mt_rel mt ?S" "clog_holds 1 ?t 0 svc3 [wal_bytes ?r]" "ls_handlers svc3 1 = Some a" "mt_log_handler mt = Some a"
    using mt_multi_set_logs [OF o(4,2,3,5) _ ctx, of "[?r]" "\<lambda>_. 0"] sample_log_fits [of ?t 7 7]
    by (simp add: sample_row_ok del: mt_multi_set.simps) blast
  have fit: "clog_fits ?t [wal_bytes ?r] (wal_bytes ?r)"
    using sample_log_fits [of ?t 7 7] wal_bytes_nonempty [OF sample_row_ok] by (simp add: clog_fits_def)
  have "?S (key_hash (row_rowkey ?r)) = Some (0, [new_version (ctx_tx_id ctx_init) (row_data ?r)])"
    using ctx by (simp add: spec_set_def spec_write_def)
  from refused_write_stays_logged [OF w(1,2,3,4) sample_row_ok fit this, of ?ctx "\<lambda>_. 0"] w(1)
  show ?thesis by (simp add: OB_INVALID_VERSION_def) blast
qed

end
