(* ===== verification/Ob_Blocks.thy ===== *)
theory Ob_Blocks
  imports Ob_Memtable
begin

text \<open>
  The headers of the blocks of an SSTable, \<^verbatim>\<open>storage/blocksstable/ob_block_header.h\<close>.

  The headers are encoded as the bytes of their struct; none of them has padding.  Bit fields
  are kept as the word they share, lowest bit first.  The 32-bit signed fields are words, the
  64-bit counters that are never encoded are \<open>int\<close>.
\<close>

section \<open>Common header of macro blocks\<close>

datatype MacroBlockType = MBT_None | MBT_SSTableData | MBT_SSTableIndex | MBT_SSTableMacroMeta | MBT_MaxMacroType

fun macro_type_val :: "MacroBlockType \<Rightarrow> u32" where
  "macro_type_val MBT_None = 0"
| "macro_type_val MBT_SSTableData = 1"
| "macro_type_val MBT_SSTableIndex = 6"
| "macro_type_val MBT_SSTableMacroMeta = 7"
| "macro_type_val MBT_MaxMacroType = 8"

record ObMacroBlockCommonHeader =
  ch_header_size :: u32
  ch_version :: u32
  ch_magic :: u32
  ch_attr :: u32
  ch_payload_size :: u32
  ch_payload_checksum :: u32

definition MACRO_BLOCK_COMMON_HEADER_VERSION :: u32 where "MACRO_BLOCK_COMMON_HEADER_VERSION = 1"
definition MACRO_BLOCK_COMMON_HEADER_MAGIC :: u32 where "MACRO_BLOCK_COMMON_HEADER_MAGIC = 1001"

definition ch_init :: ObMacroBlockCommonHeader where
  "ch_init = \<lparr>ch_header_size = 0, ch_version = 1, ch_magic = 1001, ch_attr = macro_type_val MBT_SSTableData,
     ch_payload_size = 0, ch_payload_checksum = 0\<rparr>"

definition ch_is_valid :: "ObMacroBlockCommonHeader \<Rightarrow> bool" where
  "ch_is_valid h \<longleftrightarrow> ch_magic h = MACRO_BLOCK_COMMON_HEADER_MAGIC"

definition ch_is_sstable_data_block :: "ObMacroBlockCommonHeader \<Rightarrow> bool" where
  "ch_is_sstable_data_block h \<longleftrightarrow> ch_attr h = macro_type_val MBT_SSTableData"

definition ch_is_sstable_index_block :: "ObMacroBlockCommonHeader \<Rightarrow> bool" where
  "ch_is_sstable_index_block h \<longleftrightarrow> ch_attr h = macro_type_val MBT_SSTableIndex"

definition ch_size :: nat where "ch_size = 24"

definition ch_enc :: "ObMacroBlockCommonHeader \<Rightarrow> bytes" where
  "ch_enc h = put_word (ch_header_size h) @ put_word (ch_version h) @ put_word (ch_magic h) @ put_word (ch_attr h) @
     put_word (ch_payload_size h) @ put_word (ch_payload_checksum h)"

definition ch_dec :: "bytes \<Rightarrow> ObMacroBlockCommonHeader" where
  "ch_dec b = \<lparr>ch_header_size = get_word (bslice 0 4 b), ch_version = get_word (bslice 4 4 b),
     ch_magic = get_word (bslice 8 4 b), ch_attr = get_word (bslice 12 4 b),
     ch_payload_size = get_word (bslice 16 4 b), ch_payload_checksum = get_word (bslice 20 4 b)\<rparr>"

definition ch_serialize :: "ObMacroBlockCommonHeader \<Rightarrow> bytes \<Rightarrow> nat \<Rightarrow> ret \<times> bytes \<times> nat" where
  "ch_serialize h buf pos = pod_serialize (ch_enc h) buf pos"

definition ch_deserialize :: "ObMacroBlockCommonHeader \<Rightarrow> bytes \<Rightarrow> nat \<Rightarrow> ret \<times> ObMacroBlockCommonHeader \<times> nat" where
  "ch_deserialize old buf pos = pod_deserialize ch_size ch_dec old buf pos"

interpretation chh: pod_layout ch_enc ch_dec ch_size
  by unfold_locales (simp_all add: ch_enc_def ch_dec_def ch_size_def layout)

section \<open>SSTable header of macro blocks\<close>

record FixedHeader =
  fh_header_size :: u32
  fh_version :: u16
  fh_magic :: u16
  fh_tablet_id :: u64
  fh_logical_version :: u64
  fh_data_seq :: u64
  fh_column_count :: u32
  fh_rowkey_column_count :: u32
  fh_row_store_type :: u32
  fh_row_count :: u32
  fh_occupy_size :: u32
  fh_micro_block_count :: u32
  fh_micro_block_data_offset :: u32
  fh_micro_block_data_size :: u32
  fh_idx_block_offset :: u32
  fh_idx_block_size :: u32
  fh_meta_block_offset :: u32
  fh_meta_block_size :: u32
  fh_data_checksum :: u64

definition SSTABLE_MACRO_BLOCK_HEADER_VERSION_V2 :: u16 where "SSTABLE_MACRO_BLOCK_HEADER_VERSION_V2 = 2"
definition SSTABLE_MACRO_BLOCK_HEADER_MAGIC :: u16 where "SSTABLE_MACRO_BLOCK_HEADER_MAGIC = 1007"

definition fh_init :: FixedHeader where
  "fh_init = \<lparr>fh_header_size = 0, fh_version = 0, fh_magic = 0, fh_tablet_id = 0, fh_logical_version = 0,
     fh_data_seq = 0, fh_column_count = 0, fh_rowkey_column_count = 0, fh_row_store_type = 0, fh_row_count = 0,
     fh_occupy_size = 0, fh_micro_block_count = 0, fh_micro_block_data_offset = 0, fh_micro_block_data_size = 0,
     fh_idx_block_offset = 0, fh_idx_block_size = 0, fh_meta_block_offset = 0, fh_meta_block_size = 0,
     fh_data_checksum = 0\<rparr>"

definition fh_is_valid :: "FixedHeader \<Rightarrow> bool" where
  "fh_is_valid h \<longleftrightarrow> fh_magic h = SSTABLE_MACRO_BLOCK_HEADER_MAGIC"

definition fh_size :: nat where "fh_size = 88"

definition fh_enc :: "FixedHeader \<Rightarrow> bytes" where
  "fh_enc h = put_word (fh_header_size h) @ put_word (fh_version h) @ put_word (fh_magic h) @ put_word (fh_tablet_id h) @
     put_word (fh_logical_version h) @ put_word (fh_data_seq h) @ put_word (fh_column_count h) @
     put_word (fh_rowkey_column_count h) @ put_word (fh_row_store_type h) @ put_word (fh_row_count h) @
     put_word (fh_occupy_size h) @ put_word (fh_micro_block_count h) @ put_word (fh_micro_block_data_offset h) @
     put_word (fh_micro_block_data_size h) @ put_word (fh_idx_block_offset h) @ put_word (fh_idx_block_size h) @
     put_word (fh_meta_block_offset h) @ put_word (fh_meta_block_size h) @ put_word (fh_data_checksum h)"

definition fh_dec :: "bytes \<Rightarrow> FixedHeader" where
  "fh_dec b = \<lparr>fh_header_size = get_word (bslice 0 4 b), fh_version = get_word (bslice 4 2 b),
     fh_magic = get_word (bslice 6 2 b), fh_tablet_id = get_word (bslice 8 8 b),
     fh_logical_version = get_word (bslice 16 8 b), fh_data_seq = get_word (bslice 24 8 b),
     fh_column_count = get_word (bslice 32 4 b), fh_rowkey_column_count = get_word (bslice 36 4 b),
     fh_row_store_type = get_word (bslice 40 4 b), fh_row_count = get_word (bslice 44 4 b),
     fh_occupy_size = get_word (bslice 48 4 b), fh_micro_block_count = get_word (bslice 52 4 b),
     fh_micro_block_data_offset = get_word (bslice 56 4 b), fh_micro_block_data_size = get_word (bslice 60 4 b),
     fh_idx_block_offset = get_word (bslice 64 4 b), fh_idx_block_size = get_word (bslice 68 4 b),
     fh_meta_block_offset = get_word (bslice 72 4 b), fh_meta_block_size = get_word (bslice 76 4 b),
     fh_data_checksum = get_word (bslice 80 8 b)\<rparr>"

definition fh_serialize :: "FixedHeader \<Rightarrow> bytes \<Rightarrow> nat \<Rightarrow> ret \<times> bytes \<times> nat" where
  "fh_serialize h buf pos = pod_serialize (fh_enc h) buf pos"

definition fh_deserialize :: "FixedHeader \<Rightarrow> bytes \<Rightarrow> nat \<Rightarrow> ret \<times> FixedHeader \<times> nat" where
  "fh_deserialize old buf pos = pod_deserialize fh_size fh_dec old buf pos"

interpretation fhh: pod_layout fh_enc fh_dec fh_size
  by unfold_locales (simp_all add: fh_enc_def fh_dec_def fh_size_def layout)

section \<open>Micro block header\<close>

text \<open>\<open>ub_column_flags\<close> holds, from bit 0, \<^verbatim>\<open>has_column_checksum_\<close>, \<^verbatim>\<open>has_string_out_row_\<close>,
  \<^verbatim>\<open>all_lob_in_row_\<close>, \<^verbatim>\<open>contains_hash_index_\<close>, ten bits \<^verbatim>\<open>hash_index_offset_\<close> and two reserved ones;
  \<open>ub_row_flags\<close> holds \<^verbatim>\<open>single_version_rows_\<close>, \<^verbatim>\<open>contain_uncommitted_rows_\<close>,
  \<^verbatim>\<open>is_last_row_last_flag_\<close>, \<^verbatim>\<open>is_first_row_first_flag_\<close> and four reserved bits.\<close>

record ObMicroBlockHeader =
  ub_magic :: u16
  ub_version :: u16
  ub_header_size :: u32
  ub_header_checksum :: u16
  ub_column_count :: u16
  ub_rowkey_column_count :: u16
  ub_column_flags :: u16
  ub_row_count :: u32
  ub_row_store_type :: byte
  ub_row_flags :: byte
  ub_compressor_type :: byte
  ub_cs_reserved :: byte
  ub_row_index_offset :: u32
  ub_original_length :: u32
  ub_max_merged_trans_version :: u64
  ub_data_length :: u32
  ub_data_zlength :: u32
  ub_data_checksum :: u64

definition MICRO_BLOCK_HEADER_MAGIC :: u16 where "MICRO_BLOCK_HEADER_MAGIC = 1005"

definition ub_init :: ObMicroBlockHeader where
  "ub_init = \<lparr>ub_magic = 1005, ub_version = 1, ub_header_size = 0, ub_header_checksum = 0, ub_column_count = 0,
     ub_rowkey_column_count = 0, ub_column_flags = 0, ub_row_count = 0, ub_row_store_type = 0, ub_row_flags = 0,
     ub_compressor_type = 0, ub_cs_reserved = 0, ub_row_index_offset = 0, ub_original_length = 0,
     ub_max_merged_trans_version = 0, ub_data_length = 0, ub_data_zlength = 0, ub_data_checksum = 0\<rparr>"

definition ub_is_valid :: "ObMicroBlockHeader \<Rightarrow> bool" where
  "ub_is_valid h \<longleftrightarrow> ub_magic h = MICRO_BLOCK_HEADER_MAGIC"

definition ub_size :: nat where "ub_size = 56"

definition ub_enc :: "ObMicroBlockHeader \<Rightarrow> bytes" where
  "ub_enc h = put_word (ub_magic h) @ put_word (ub_version h) @ put_word (ub_header_size h) @ put_word (ub_header_checksum h) @
     put_word (ub_column_count h) @ put_word (ub_rowkey_column_count h) @ put_word (ub_column_flags h) @
     put_word (ub_row_count h) @ put_word (ub_row_store_type h) @ put_word (ub_row_flags h) @
     put_word (ub_compressor_type h) @ put_word (ub_cs_reserved h) @ put_word (ub_row_index_offset h) @
     put_word (ub_original_length h) @ put_word (ub_max_merged_trans_version h) @ put_word (ub_data_length h) @
     put_word (ub_data_zlength h) @ put_word (ub_data_checksum h)"

definition ub_dec :: "bytes \<Rightarrow> ObMicroBlockHeader" where
  "ub_dec b = \<lparr>ub_magic = get_word (bslice 0 2 b), ub_version = get_word (bslice 2 2 b),
     ub_header_size = get_word (bslice 4 4 b), ub_header_checksum = get_word (bslice 8 2 b),
     ub_column_count = get_word (bslice 10 2 b), ub_rowkey_column_count = get_word (bslice 12 2 b),
     ub_column_flags = get_word (bslice 14 2 b), ub_row_count = get_word (bslice 16 4 b),
     ub_row_store_type = get_word (bslice 20 1 b), ub_row_flags = get_word (bslice 21 1 b),
     ub_compressor_type = get_word (bslice 22 1 b), ub_cs_reserved = get_word (bslice 23 1 b),
     ub_row_index_offset = get_word (bslice 24 4 b), ub_original_length = get_word (bslice 28 4 b),
     ub_max_merged_trans_version = get_word (bslice 32 8 b), ub_data_length = get_word (bslice 40 4 b),
     ub_data_zlength = get_word (bslice 44 4 b), ub_data_checksum = get_word (bslice 48 8 b)\<rparr>"

definition ub_serialize :: "ObMicroBlockHeader \<Rightarrow> bytes \<Rightarrow> nat \<Rightarrow> ret \<times> bytes \<times> nat" where
  "ub_serialize h buf pos = pod_serialize (ub_enc h) buf pos"

definition ub_deserialize :: "ObMicroBlockHeader \<Rightarrow> bytes \<Rightarrow> nat \<Rightarrow> ret \<times> ObMicroBlockHeader \<times> nat" where
  "ub_deserialize old buf pos = pod_deserialize ub_size ub_dec old buf pos"

interpretation ubh: pod_layout ub_enc ub_dec ub_size
  by unfold_locales (simp_all add: ub_enc_def ub_dec_def ub_size_def layout)

end
