(* ===== verification/Ob_Block_Writer.thy ===== *)
theory Ob_Block_Writer
  imports Ob_Blocks
begin

text \<open>
  The writers of \<^verbatim>\<open>storage/blocksstable\<close>: the storage description \<^verbatim>\<open>ob_data_store_desc.h\<close>, the micro
  block writer, the macro block in memory and the macro block writer, which fills two macro
  blocks in turn.

  An \<^verbatim>\<open>std::string\<close> is its bytes.  The writers keep a pointer to the description of their owner;
  it does not change while they run and is copied here.
\<close>

section \<open>Storage description\<close>

datatype ObRowStoreType = FLAT_ROW_STORE | ENCODING_ROW_STORE | MAX_ROW_STORE

fun row_store_val :: "ObRowStoreType \<Rightarrow> nat" where
  "row_store_val FLAT_ROW_STORE = 0"
| "row_store_val ENCODING_ROW_STORE = 1"
| "row_store_val MAX_ROW_STORE = 2"

record ObDataStoreDesc =
  ds_tablet_id :: int
  ds_column_count :: int
  ds_rowkey_column_count :: int
  ds_macro_block_size :: int
  ds_micro_block_size :: int
  ds_schema_version :: int
  ds_snapshot_version :: int
  ds_row_store_type :: ObRowStoreType
  ds_merge_type :: ObMergeType

definition ds_init :: ObDataStoreDesc where
  "ds_init = \<lparr>ds_tablet_id = 0, ds_column_count = 0, ds_rowkey_column_count = 0,
     ds_macro_block_size = int DEFAULT_MACRO_BLOCK_SIZE, ds_micro_block_size = int DEFAULT_MICRO_BLOCK_SIZE,
     ds_schema_version = 0, ds_snapshot_version = 0, ds_row_store_type = FLAT_ROW_STORE, ds_merge_type = MINI_MERGE\<rparr>"

section \<open>Micro block writer\<close>

record ObMicroBlockWriter =
  mw_desc :: "ObDataStoreDesc option"
  mw_data_buf :: bytes
  mw_row_offsets :: "u32 list"
  mw_micro_block_size :: int
  mw_current_size :: int
  mw_row_count :: int
  mw_header :: ObMicroBlockHeader
  mw_last_rowkey :: ObStoreRowkey

definition mw_new :: ObMicroBlockWriter where
  "mw_new = \<lparr>mw_desc = None, mw_data_buf = [], mw_row_offsets = [], mw_micro_block_size = 0, mw_current_size = 0,
     mw_row_count = 0, mw_header = ub_init, mw_last_rowkey = rk_empty\<rparr>"

definition mw_base_header :: "ObDataStoreDesc \<Rightarrow> ObMicroBlockHeader" where
  "mw_base_header desc = ub_init\<lparr>ub_magic := MICRO_BLOCK_HEADER_MAGIC, ub_version := 1,
     ub_column_count := word_of_int (ds_column_count desc),
     ub_rowkey_column_count := word_of_int (ds_rowkey_column_count desc),
     ub_row_store_type := word_of_nat (row_store_val FLAT_ROW_STORE), ub_row_flags := 1\<rparr>"

definition mw_reset :: "ObMicroBlockWriter \<Rightarrow> ObMicroBlockWriter option" where
  "mw_reset w =
     (case mw_desc w of
        None \<Rightarrow> None
      | Some desc \<Rightarrow>
          Some (w\<lparr>mw_header := mw_base_header desc, mw_data_buf := replicate ub_size 0, mw_row_offsets := [],
                  mw_current_size := int ub_size, mw_row_count := 0, mw_last_rowkey := rk_empty\<rparr>))"

definition mw_init :: "ObDataStoreDesc \<Rightarrow> ObMicroBlockWriter \<Rightarrow> (ret \<times> ObMicroBlockWriter) option" where
  "mw_init desc w =
     map_option (Pair 0) (mw_reset (w\<lparr>mw_desc := Some desc, mw_micro_block_size := ds_micro_block_size desc\<rparr>))"

definition mw_is_block_full :: "ObMicroBlockWriter \<Rightarrow> bool" where
  "mw_is_block_full w \<longleftrightarrow> mw_current_size w \<ge> mw_micro_block_size w - 4096"

text \<open>The encoding of a row.  A key length that is negative as a 32-bit integer, or larger than
  the key's buffer, makes the append read outside it.\<close>

definition flat_row :: "ObStoreRow \<Rightarrow> bytes option" where
  "flat_row row =
     (let rk = row_rowkey row;
          key_len = sint (word_of_int (rk_length rk) :: u32);
          val_len = sint (word_of_nat (length (row_value row)) :: u32)
      in if key_len < 0 \<or> nat key_len > length (rk_buf rk) then None
         else Some ([word_of_int (dml_to_int (row_dml_flag row))] @
                    put_word (word_of_int key_len :: u32) @ take (nat key_len) (rk_buf rk) @
                    put_word (word_of_int val_len :: u32) @
                    (if val_len > 0 then take (nat val_len) (row_value row) else [])))"

definition mw_append_row :: "ObStoreRow \<Rightarrow> ObMicroBlockWriter \<Rightarrow> (ret \<times> ObMicroBlockWriter) option" where
  "mw_append_row row w =
     (if mw_desc w = None then Some (-1, w)
      else do {
        let row_start = length (mw_data_buf w);
        r \<leftarrow> flat_row row;
        let buf = mw_data_buf w @ r;
        Some (0, w\<lparr>mw_data_buf := buf, mw_row_offsets := mw_row_offsets w @ [word_of_nat row_start],
                   mw_current_size := int (length buf), mw_row_count := mw_row_count w + 1,
                   mw_last_rowkey := row_rowkey row\<rparr>)
      })"

definition mw_build_block :: "ObMicroBlockWriter \<Rightarrow> (ret \<times> bytes \<times> ObMicroBlockWriter) option" where
  "mw_build_block w =
     (if mw_row_count w = 0 then Some (0, [], w)
      else let row_index_start = length (mw_data_buf w);
               buf = mw_data_buf w @ concat (map put_word (mw_row_offsets w));
               hdr = (mw_header w)\<lparr>ub_row_count := word_of_int (mw_row_count w),
                       ub_row_index_offset := word_of_nat row_index_start, ub_data_length := word_of_nat (length buf),
                       ub_data_zlength := word_of_nat (length buf), ub_original_length := word_of_nat (length buf),
                       ub_data_checksum := 0, ub_max_merged_trans_version := 0\<rparr>;
               (_, out, _) = ub_serialize hdr buf 0
           in map_option (\<lambda>w. (0, out, w)) (mw_reset (w\<lparr>mw_header := hdr, mw_data_buf := out\<rparr>)))"

section \<open>Macro block\<close>

record ObMacroBlock =
  mb_data_buf :: "bytes option"
  mb_macro_size :: int
  mb_data_size :: int
  mb_cur_macro_seq :: int
  mb_macro_header :: FixedHeader
  mb_common_header :: ObMacroBlockCommonHeader
  mb_row_count :: int
  mb_micro_block_count :: int
  mb_max_merged_trans_version :: int
  mb_contain_uncommitted_row :: bool
  mb_is_inited :: bool

definition HEADER_RESERVE :: nat where "HEADER_RESERVE = 4096"

definition mb_new :: ObMacroBlock where
  "mb_new = \<lparr>mb_data_buf = None, mb_macro_size = 0, mb_data_size = 0, mb_cur_macro_seq = 0, mb_macro_header = fh_init,
     mb_common_header = ch_init, mb_row_count = 0, mb_micro_block_count = 0, mb_max_merged_trans_version = 0,
     mb_contain_uncommitted_row = False, mb_is_inited = False\<rparr>"

text \<open>A negative size makes \<^verbatim>\<open>new char[]\<close> throw.\<close>

definition mb_init :: "ObDataStoreDesc \<Rightarrow> int \<Rightarrow> ObMacroBlock \<Rightarrow> (ret \<times> ObMacroBlock) option" where
  "mb_init spec cur_macro_seq mb =
     (if ds_macro_block_size spec < 0 then None
      else let h = (mb_macro_header mb)\<lparr>fh_header_size := word_of_nat fh_size,
                     fh_version := SSTABLE_MACRO_BLOCK_HEADER_VERSION_V2, fh_magic := SSTABLE_MACRO_BLOCK_HEADER_MAGIC,
                     fh_tablet_id := word_of_int (ds_tablet_id spec), fh_column_count := word_of_int (ds_column_count spec),
                     fh_rowkey_column_count := word_of_int (ds_rowkey_column_count spec),
                     fh_row_store_type := word_of_nat (row_store_val FLAT_ROW_STORE)\<rparr>
           in Some (0, mb\<lparr>mb_cur_macro_seq := cur_macro_seq, mb_macro_size := ds_macro_block_size spec,
                          mb_data_size := int HEADER_RESERVE, mb_row_count := 0, mb_micro_block_count := 0,
                          mb_data_buf := Some (replicate (nat (ds_macro_block_size spec)) 0),
                          mb_macro_header := h, mb_is_inited := True\<rparr>))"

definition mb_get_remain_size :: "ObMacroBlock \<Rightarrow> int" where
  "mb_get_remain_size mb = mb_macro_size mb - mb_data_size mb"

definition mb_write_micro_block :: "bytes \<Rightarrow> int \<Rightarrow> ObMacroBlock \<Rightarrow> ret \<times> int \<times> ObMacroBlock" where
  "mb_write_micro_block micro data_offset mb =
     (case mb_data_buf mb of
        None \<Rightarrow> (-1, data_offset, mb)
      | Some buf \<Rightarrow>
          if \<not> mb_is_inited mb then (-1, data_offset, mb)
          else if mb_data_size mb + int (length micro) > mb_macro_size mb then (-1, data_offset, mb)
          else (0, mb_data_size mb,
                mb\<lparr>mb_data_buf := Some (blit (nat (mb_data_size mb)) micro buf),
                   mb_data_size := mb_data_size mb + int (length micro)\<rparr>))"

definition mb_build_common_header :: "ObMacroBlock \<Rightarrow> ret \<times> ObMacroBlock" where
  "mb_build_common_header mb =
     (0, mb\<lparr>mb_macro_header := (mb_macro_header mb)\<lparr>fh_row_count := word_of_int (mb_row_count mb),
               fh_occupy_size := word_of_int (mb_data_size mb),
               fh_micro_block_count := word_of_int (mb_micro_block_count mb),
               fh_micro_block_data_offset := word_of_nat HEADER_RESERVE,
               fh_micro_block_data_size := word_of_int (mb_data_size mb - int HEADER_RESERVE)\<rparr>,
            mb_common_header := (mb_common_header mb)\<lparr>ch_header_size := word_of_nat ch_size,
               ch_version := MACRO_BLOCK_COMMON_HEADER_VERSION, ch_magic := MACRO_BLOCK_COMMON_HEADER_MAGIC,
               ch_attr := macro_type_val MBT_SSTableData, ch_payload_size := word_of_int (mb_data_size mb),
               ch_payload_checksum := 0\<rparr>,
            mb_is_inited := False\<rparr>)"

definition mb_get_total_size :: "ObMacroBlock \<Rightarrow> int" where
  "mb_get_total_size mb = int ch_size + int fh_size + mb_data_size mb"

section \<open>Macro block writer\<close>

record ObMacroBlockWriter =
  bw_desc :: "ObDataStoreDesc option"
  bw_micro_writer :: ObMicroBlockWriter
  bw_macro_blocks :: "nat \<Rightarrow> ObMacroBlock"
  bw_current_macro_idx :: nat
  bw_macro_seq :: int
  bw_total_row_count :: int
  bw_is_opened :: bool

definition bw_new :: ObMacroBlockWriter where
  "bw_new = \<lparr>bw_desc = None, bw_micro_writer = mw_new, bw_macro_blocks = (\<lambda>_. mb_new), bw_current_macro_idx = 0,
     bw_macro_seq = 0, bw_total_row_count = 0, bw_is_opened = False\<rparr>"

definition bw_open :: "ObDataStoreDesc \<Rightarrow> int \<Rightarrow> ObMacroBlockWriter \<Rightarrow> (ret \<times> ObMacroBlockWriter) option" where
  "bw_open desc parallel_idx w = do {
     let seq = parallel_idx * 1000000 + 1;
     let w = w\<lparr>bw_desc := Some desc, bw_macro_seq := seq\<rparr>;
     (ret, mw) \<leftarrow> mw_init desc (bw_micro_writer w);
     let w = w\<lparr>bw_micro_writer := mw\<rparr>;
     if ret \<noteq> 0 then Some (ret, w)
     else do {
       (ret, mb) \<leftarrow> mb_init desc (bw_macro_seq w) (bw_macro_blocks w 0);
       let w = w\<lparr>bw_macro_blocks := (bw_macro_blocks w)(0 := mb), bw_macro_seq := bw_macro_seq w + 1\<rparr>;
       if ret \<noteq> 0 then Some (ret, w)
       else do {
         (ret, mb) \<leftarrow> mb_init desc (bw_macro_seq w) (bw_macro_blocks w 1);
         let w = w\<lparr>bw_macro_blocks := (bw_macro_blocks w)(1 := mb), bw_macro_seq := bw_macro_seq w + 1\<rparr>;
         if ret \<noteq> 0 then Some (ret, w)
         else Some (0, w\<lparr>bw_current_macro_idx := 0, bw_total_row_count := 0, bw_is_opened := True\<rparr>)
       }
     }
   }"

abbreviation bw_current :: "ObMacroBlockWriter \<Rightarrow> ObMacroBlock" where
  "bw_current w \<equiv> bw_macro_blocks w (bw_current_macro_idx w)"

abbreviation bw_set_current :: "ObMacroBlock \<Rightarrow> ObMacroBlockWriter \<Rightarrow> ObMacroBlockWriter" where
  "bw_set_current mb w \<equiv> w\<lparr>bw_macro_blocks := (bw_macro_blocks w)(bw_current_macro_idx w := mb)\<rparr>"

text \<open>The copy of the data reads past the buffer when the block holds less than its size says.\<close>

definition bw_flush_current_macro :: "ObMacroBlockWriter \<Rightarrow> (ret \<times> bytes \<times> int \<times> ObMacroBlockWriter) option" where
  "bw_flush_current_macro w = do {
     let mb = snd (mb_build_common_header (bw_current w));
     let w = bw_set_current mb w;
     desc \<leftarrow> bw_desc w;
     data \<leftarrow> mb_data_buf mb;
     let total = nat (mb_get_total_size mb);
     let (_, out, pos) = ch_serialize (mb_common_header mb) (replicate total 0) 0;
     let (_, out, pos) = fh_serialize (mb_macro_header mb) out pos;
     if mb_data_size mb < 0 \<or> nat (mb_data_size mb) > length data then None
     else do {
       let out = blit pos (take (nat (mb_data_size mb)) data) out;
       let w = w\<lparr>bw_current_macro_idx := 1 - bw_current_macro_idx w\<rparr>;
       (_, next) \<leftarrow> mb_init desc (bw_macro_seq w) (bw_current w);
       Some (0, out, mb_cur_macro_seq mb, (bw_set_current next w)\<lparr>bw_macro_seq := bw_macro_seq w + 1\<rparr>)
     }
   }"

text \<open>Build the pending micro block and write it into the current macro block: the step that
  \<^verbatim>\<open>append_row\<close> and \<^verbatim>\<open>close\<close> share.  The first result is that of \<^verbatim>\<open>write_micro_block\<close>; only one of
  the three callers looks at it.\<close>

definition bw_write_pending :: "ObMacroBlockWriter \<Rightarrow> (ret \<times> ObMacroBlockWriter) option" where
  "bw_write_pending w = do {
     (_, micro_data, mw) \<leftarrow> mw_build_block (bw_micro_writer w);
     let (ret, _, mb) = mb_write_micro_block micro_data 0 (bw_current w);
     Some (ret, bw_set_current mb (w\<lparr>bw_micro_writer := mw\<rparr>))
   }"

definition bw_inc_micro_block_count :: "ObMacroBlockWriter \<Rightarrow> ObMacroBlockWriter" where
  "bw_inc_micro_block_count w =
     bw_set_current ((bw_current w)\<lparr>mb_micro_block_count := mb_micro_block_count (bw_current w) + 1\<rparr>) w"

text \<open>\<^verbatim>\<open>append_row\<close>, with the outputs \<^verbatim>\<open>flushed_macro_block\<close> and \<^verbatim>\<open>macro_seq\<close> passed in and returned.\<close>

definition bw_append_row :: "ObStoreRow \<Rightarrow> bytes \<Rightarrow> int \<Rightarrow> ObMacroBlockWriter
    \<Rightarrow> (ret \<times> bytes \<times> int \<times> ObMacroBlockWriter) option" where
  "bw_append_row row flushed macro_seq w =
     (if \<not> bw_is_opened w then Some (-1, flushed, macro_seq, w)
      else do {
        (ret, mw) \<leftarrow> mw_append_row row (bw_micro_writer w);
        let w = w\<lparr>bw_micro_writer := mw\<rparr>;
        if ret \<noteq> 0 then Some (ret, flushed, macro_seq, w)
        else do {
          let w = w\<lparr>bw_total_row_count := bw_total_row_count w + 1\<rparr>;
          let w = bw_set_current ((bw_current w)\<lparr>mb_row_count := mb_row_count (bw_current w) + 1\<rparr>) w;
          (ret, w) \<leftarrow> (if mw_is_block_full (bw_micro_writer w) then do {
                          (ret, w) \<leftarrow> bw_write_pending w;
                          Some (ret, if ret \<noteq> 0 then w else bw_inc_micro_block_count w)
                        } else Some (0, w));
          if ret \<noteq> 0 then Some (ret, flushed, macro_seq, w)
          else do {
            desc \<leftarrow> bw_desc w;
            if mb_get_remain_size (bw_current w) < ds_micro_block_size desc then do {
              w \<leftarrow> (if mw_row_count (bw_micro_writer w) > 0 then do {
                       (_, w) \<leftarrow> bw_write_pending w;
                       Some (bw_inc_micro_block_count w)
                     } else Some w);
              bw_flush_current_macro w
            } else Some (0, [], macro_seq, w)
          }
        }
      })"

definition bw_close :: "bytes list \<Rightarrow> int list \<Rightarrow> ObMacroBlockWriter
    \<Rightarrow> (ret \<times> bytes list \<times> int list \<times> ObMacroBlockWriter) option" where
  "bw_close out_macro_blocks out_macro_seqs w =
     (if \<not> bw_is_opened w then Some (-1, out_macro_blocks, out_macro_seqs, w)
      else do {
        w \<leftarrow> (if mw_row_count (bw_micro_writer w) > 0 then do {
                 (_, w) \<leftarrow> bw_write_pending w;
                 Some (bw_inc_micro_block_count w)
               } else Some w);
        (_, last_block, last_seq, w) \<leftarrow> bw_flush_current_macro w;
        Some (0, out_macro_blocks @ [last_block], out_macro_seqs @ [last_seq], w\<lparr>bw_is_opened := False\<rparr>)
      })"

section \<open>The format of a micro block\<close>

text \<open>\<open>es\<close> are the encodings of the rows of a block.\<close>

fun offs :: "nat \<Rightarrow> bytes list \<Rightarrow> nat list" where
  "offs p [] = []"
| "offs p (e # es) = p # offs (p + length e) es"

definition micro_header :: "ObDataStoreDesc \<Rightarrow> bytes list \<Rightarrow> ObMicroBlockHeader" where
  "micro_header desc es =
     (let ix = ub_size + length (concat es); len = word_of_nat (ix + 4 * length es)
      in (mw_base_header desc)\<lparr>ub_row_count := word_of_nat (length es), ub_row_index_offset := word_of_nat ix,
            ub_data_length := len, ub_data_zlength := len, ub_original_length := len\<rparr>)"

definition micro_bytes :: "ObDataStoreDesc \<Rightarrow> bytes list \<Rightarrow> bytes" where
  "micro_bytes desc es =
     ub_enc (micro_header desc es) @ concat es @ concat (map (\<lambda>p. put_word (word_of_nat p :: u32)) (offs ub_size es))"

definition mw_holds :: "ObDataStoreDesc \<Rightarrow> ObMicroBlockWriter \<Rightarrow> bytes list \<Rightarrow> bool" where
  "mw_holds desc w es \<longleftrightarrow>
     mw_desc w = Some desc \<and> mw_micro_block_size w = ds_micro_block_size desc \<and>
     mw_data_buf w = replicate ub_size 0 @ concat es \<and> mw_row_offsets w = map word_of_nat (offs ub_size es) \<and>
     mw_current_size w = int (ub_size + length (concat es)) \<and> mw_row_count w = int (length es) \<and>
     mw_header w = mw_base_header desc"

lemma length_offs [simp]: "length (offs p es) = length es"
  by (induction es arbitrary: p) simp_all

lemma offs_append: "offs p (es @ es') = offs p es @ offs (p + length (concat es)) es'"
  by (induction es arbitrary: p) (simp_all add: add.assoc)

lemma length_index: "length (concat (map (\<lambda>p. put_word (word_of_nat p :: u32)) os)) = 4 * length os"
  by (induction os) simp_all

lemma length_micro_bytes: "length (micro_bytes desc es) = ub_size + length (concat es) + 4 * length es"
  by (simp add: micro_bytes_def ubh.length_enc length_index)

lemma mw_reset_holds:
  "mw_desc w = Some desc \<Longrightarrow> mw_micro_block_size w = ds_micro_block_size desc \<Longrightarrow>
     \<exists>w'. mw_reset w = Some w' \<and> mw_holds desc w' []"
  by (simp add: mw_reset_def mw_holds_def)

lemma mw_init_holds: "\<exists>w'. mw_init desc w = Some (0, w') \<and> mw_holds desc w' []"
  using mw_reset_holds [of "w\<lparr>mw_desc := Some desc, mw_micro_block_size := ds_micro_block_size desc\<rparr>" desc]
  by (auto simp: mw_init_def)

lemma mw_append_holds:
  assumes "mw_holds desc w es" "flat_row row = Some e"
  shows "\<exists>w'. mw_append_row row w = Some (0, w') \<and> mw_holds desc w' (es @ [e])"
  using assms by (simp add: mw_append_row_def mw_holds_def Let_def offs_append)

lemma mw_build_holds:
  assumes h: "mw_holds desc w es" and ne: "es \<noteq> []"
  shows "\<exists>w'. mw_build_block w = Some (0, micro_bytes desc es, w') \<and> mw_holds desc w' []"
proof -
  define buf where "buf = mw_data_buf w @ concat (map put_word (mw_row_offsets w))"
  define hdr where "hdr = (mw_header w)\<lparr>ub_row_count := word_of_int (mw_row_count w),
     ub_row_index_offset := word_of_nat (length (mw_data_buf w)), ub_data_length := word_of_nat (length buf),
     ub_data_zlength := word_of_nat (length buf), ub_original_length := word_of_nat (length buf),
     ub_data_checksum := 0, ub_max_merged_trans_version := 0\<rparr>"
  have b: "buf = replicate ub_size 0 @ concat es @ concat (map (\<lambda>p. put_word (word_of_nat p :: u32)) (offs ub_size es))"
    using h by (simp add: mw_holds_def comp_def buf_def)
  then have l: "length buf = ub_size + length (concat es) + 4 * length es" by (simp add: length_index)
  have hdr: "hdr = micro_header desc es"
    using h by (simp add: mw_holds_def micro_header_def Let_def mw_base_header_def ub_init_def hdr_def l)
  have "ub_serialize hdr buf 0 = (0, blit 0 (ub_enc hdr) buf, ub_size)"
    using ubh.serialize_ok [of 0 buf hdr] l by (simp add: ub_serialize_def)
  then have s: "ub_serialize hdr buf 0 = (0, micro_bytes desc es, ub_size)"
    by (simp add: hdr b blit_0 ubh.length_enc micro_bytes_def)
  obtain w' where w': "mw_reset (w\<lparr>mw_header := hdr, mw_data_buf := micro_bytes desc es\<rparr>) = Some w'" "mw_holds desc w' []"
    using mw_reset_holds [of "w\<lparr>mw_header := hdr, mw_data_buf := micro_bytes desc es\<rparr>" desc] h by (auto simp: mw_holds_def)
  have "mw_row_count w \<noteq> 0" using h ne by (simp add: mw_holds_def)
  then show ?thesis
    unfolding mw_build_block_def Let_def buf_def [symmetric] hdr_def [symmetric] using s w' by simp
qed

section \<open>The format of a macro block\<close>

text \<open>The fields of the header that the writer never sets are zero; the five counters are set
  when the block is flushed.\<close>

definition macro_base_header :: "ObDataStoreDesc \<Rightarrow> FixedHeader" where
  "macro_base_header desc = fh_init\<lparr>fh_header_size := word_of_nat fh_size,
     fh_version := SSTABLE_MACRO_BLOCK_HEADER_VERSION_V2, fh_magic := SSTABLE_MACRO_BLOCK_HEADER_MAGIC,
     fh_tablet_id := word_of_int (ds_tablet_id desc), fh_column_count := word_of_int (ds_column_count desc),
     fh_rowkey_column_count := word_of_int (ds_rowkey_column_count desc)\<rparr>"

definition macro_fixed :: "FixedHeader \<Rightarrow> u32 \<Rightarrow> u32 \<Rightarrow> u32 \<Rightarrow> u32 \<Rightarrow> u32 \<Rightarrow> FixedHeader" where
  "macro_fixed h rows occupy micros off sz = h\<lparr>fh_row_count := rows, fh_occupy_size := occupy,
     fh_micro_block_count := micros, fh_micro_block_data_offset := off, fh_micro_block_data_size := sz\<rparr>"

definition macro_common :: "nat \<Rightarrow> ObMacroBlockCommonHeader" where
  "macro_common n = \<lparr>ch_header_size = word_of_nat ch_size, ch_version = MACRO_BLOCK_COMMON_HEADER_VERSION,
     ch_magic = MACRO_BLOCK_COMMON_HEADER_MAGIC, ch_attr = macro_type_val MBT_SSTableData,
     ch_payload_size = word_of_nat n, ch_payload_checksum = 0\<rparr>"

text \<open>The bytes of a macro block with the micro blocks \<open>ms\<close> that counts \<open>n\<close> rows and \<open>k\<close> micro blocks.\<close>

definition macro_bytes :: "ObDataStoreDesc \<Rightarrow> nat \<Rightarrow> nat \<Rightarrow> bytes list \<Rightarrow> bytes" where
  "macro_bytes desc n k ms =
     (let sz = length (concat ms)
      in ch_enc (macro_common (HEADER_RESERVE + sz)) @
         fh_enc (macro_fixed (macro_base_header desc) (word_of_nat n) (word_of_nat (HEADER_RESERVE + sz))
                   (word_of_nat k) (word_of_nat HEADER_RESERVE) (word_of_nat sz)) @
         replicate HEADER_RESERVE 0 @ concat ms)"

definition mb_reusable :: "ObDataStoreDesc \<Rightarrow> ObMacroBlock \<Rightarrow> bool" where
  "mb_reusable desc mb \<longleftrightarrow>
     (\<exists>a b c d e. mb_macro_header mb = macro_fixed (macro_base_header desc) a b c d e) \<or> mb_macro_header mb = fh_init"

definition mb_holds :: "ObDataStoreDesc \<Rightarrow> ObMacroBlock \<Rightarrow> nat \<Rightarrow> nat \<Rightarrow> bytes list \<Rightarrow> bool" where
  "mb_holds desc mb n k ms \<longleftrightarrow>
     mb_is_inited mb \<and> (\<exists>a b c d e. mb_macro_header mb = macro_fixed (macro_base_header desc) a b c d e) \<and>
     mb_macro_size mb = ds_macro_block_size desc \<and> mb_data_size mb = int (HEADER_RESERVE + length (concat ms)) \<and>
     mb_data_size mb \<le> mb_macro_size mb \<and> mb_row_count mb = int n \<and> mb_micro_block_count mb = int k \<and>
     (\<exists>buf. mb_data_buf mb = Some buf \<and> length buf = nat (ds_macro_block_size desc) \<and>
        take (HEADER_RESERVE + length (concat ms)) buf = replicate HEADER_RESERVE 0 @ concat ms)"

lemma macro_fixed_simps [simp]:
  "macro_fixed (macro_fixed h a b c d e) a' b' c' d' e' = macro_fixed h a' b' c' d' e'"
  by (simp add: macro_fixed_def)

lemma mb_init_holds:
  assumes "mb_reusable desc mb" "int HEADER_RESERVE \<le> ds_macro_block_size desc"
  shows "\<exists>mb'. mb_init desc seq mb = Some (0, mb') \<and> mb_holds desc mb' 0 0 [] \<and> mb_cur_macro_seq mb' = seq"
proof -
  let ?h = "(mb_macro_header mb)\<lparr>fh_header_size := word_of_nat fh_size,
     fh_version := SSTABLE_MACRO_BLOCK_HEADER_VERSION_V2, fh_magic := SSTABLE_MACRO_BLOCK_HEADER_MAGIC,
     fh_tablet_id := word_of_int (ds_tablet_id desc), fh_column_count := word_of_int (ds_column_count desc),
     fh_rowkey_column_count := word_of_int (ds_rowkey_column_count desc),
     fh_row_store_type := word_of_nat (row_store_val FLAT_ROW_STORE)\<rparr>"
  have "?h = macro_fixed (macro_base_header desc) 0 0 0 0 0" if "mb_macro_header mb = fh_init"
    using that by (simp add: macro_fixed_def macro_base_header_def fh_init_def)
  moreover have "?h = macro_fixed (macro_base_header desc) a b c d e"
    if "mb_macro_header mb = macro_fixed (macro_base_header desc) a b c d e" for a b c d e
    using that by (simp add: macro_fixed_def macro_base_header_def fh_init_def)
  ultimately have "\<exists>a b c d e. ?h = macro_fixed (macro_base_header desc) a b c d e"
    using assms(1) unfolding mb_reusable_def by metis
  moreover have "HEADER_RESERVE \<le> nat (ds_macro_block_size desc)" "\<not> ds_macro_block_size desc < 0" using assms(2) by simp_all
  ultimately show ?thesis using assms(2) by (simp add: mb_init_def mb_holds_def Let_def min_def)
qed

lemma mb_write_holds:
  assumes h: "mb_holds desc mb n k ms" and fit: "int (length m) \<le> mb_get_remain_size mb"
  shows "\<exists>mb' off. mb_write_micro_block m 0 mb = (0, off, mb') \<and>
    mb_holds desc (mb'\<lparr>mb_micro_block_count := mb_micro_block_count mb' + 1\<rparr>) n (k + 1) (ms @ [m])"
proof -
  let ?d = "HEADER_RESERVE + length (concat ms)"
  obtain buf where b: "mb_data_buf mb = Some buf" "length buf = nat (ds_macro_block_size desc)"
    "take ?d buf = replicate HEADER_RESERVE 0 @ concat ms"
    using h by (auto simp: mb_holds_def)
  have d: "mb_data_size mb = int ?d" "mb_macro_size mb = ds_macro_block_size desc" "mb_is_inited mb"
    using h by (simp_all add: mb_holds_def)
  have "?d + length m \<le> length buf" using fit d b(2) by (simp add: mb_get_remain_size_def)
  then have t: "length (blit ?d m buf) = length buf" "take (?d + length m) (blit ?d m buf) = take ?d buf @ m"
    by (simp_all add: blit_def)
  let ?mb = "mb\<lparr>mb_data_buf := Some (blit ?d m buf), mb_data_size := int (?d + length m)\<rparr>"
  have w: "mb_write_micro_block m 0 mb = (0, int ?d, ?mb)"
    using b(1) d fit by (simp add: mb_write_micro_block_def mb_get_remain_size_def nat_int_add)
  have "mb_holds desc (?mb\<lparr>mb_micro_block_count := mb_micro_block_count ?mb + 1\<rparr>) n (k + 1) (ms @ [m])"
    using h t b fit d by (simp add: mb_holds_def mb_get_remain_size_def add.assoc)
  then show ?thesis using w by blast
qed

lemma mb_write_too_big:
  assumes "mb_holds desc mb n k ms" "int (length m) > mb_get_remain_size mb"
  shows "mb_write_micro_block m off mb = (-1, off, mb)"
  using assms by (auto simp: mb_write_micro_block_def mb_holds_def mb_get_remain_size_def)

section \<open>The writer\<close>

text \<open>\<open>ess\<close> are the rows of the micro blocks in the current macro block, \<open>es\<close> those of the pending
  one; what is left of the current macro block is at least the nominal size of a micro block.\<close>

definition bw_holds :: "ObDataStoreDesc \<Rightarrow> ObMacroBlockWriter \<Rightarrow> bytes list list \<Rightarrow> bytes list \<Rightarrow> bool" where
  "bw_holds desc w ess es \<longleftrightarrow>
     bw_is_opened w \<and> bw_desc w = Some desc \<and> bw_current_macro_idx w \<le> 1 \<and> mw_holds desc (bw_micro_writer w) es \<and>
     mb_holds desc (bw_current w) (length (concat ess) + length es) (length ess) (map (micro_bytes desc) ess) \<and>
     mb_reusable desc (bw_macro_blocks w (1 - bw_current_macro_idx w)) \<and>
     ds_micro_block_size desc \<le> mb_get_remain_size (bw_current w)"

definition desc_ok :: "ObDataStoreDesc \<Rightarrow> bool" where
  "desc_ok desc \<longleftrightarrow> 0 \<le> ds_micro_block_size desc \<and> int HEADER_RESERVE + ds_micro_block_size desc \<le> ds_macro_block_size desc"

text \<open>What the flush of a macro block needs and gives.\<close>

definition bw_ready :: "ObDataStoreDesc \<Rightarrow> ObMacroBlockWriter \<Rightarrow> bytes list \<Rightarrow> nat \<Rightarrow> nat \<Rightarrow> bytes list \<Rightarrow> bool" where
  "bw_ready desc w es n k ms \<longleftrightarrow>
     bw_is_opened w \<and> bw_desc w = Some desc \<and> bw_current_macro_idx w \<le> 1 \<and> mw_holds desc (bw_micro_writer w) es \<and>
     mb_holds desc (bw_current w) n k ms \<and> mb_reusable desc (bw_macro_blocks w (1 - bw_current_macro_idx w))"

lemma bw_holds_ready:
  "bw_holds desc w ess es \<longleftrightarrow>
     bw_ready desc w es (length (concat ess) + length es) (length ess) (map (micro_bytes desc) ess) \<and>
     ds_micro_block_size desc \<le> mb_get_remain_size (bw_current w)"
  by (auto simp: bw_holds_def bw_ready_def)

lemma mb_flush_bytes:
  assumes h: "mb_holds desc mb n k ms"
  defines "mb' \<equiv> snd (mb_build_common_header mb)"
  obtains data where "mb_data_buf mb' = Some data" "mb_data_size mb' = int (HEADER_RESERVE + length (concat ms))"
    "nat (mb_data_size mb') \<le> length data" "mb_reusable desc mb'" "mb_cur_macro_seq mb' = mb_cur_macro_seq mb"
    "(case ch_serialize (mb_common_header mb') (replicate (nat (mb_get_total_size mb')) 0) 0 of (_, out, pos) \<Rightarrow>
        case fh_serialize (mb_macro_header mb') out pos of (_, out, pos) \<Rightarrow>
          blit pos (take (nat (mb_data_size mb')) data) out) = macro_bytes desc n k ms"
proof -
  let ?d = "HEADER_RESERVE + length (concat ms)"
  obtain data where b: "mb_data_buf mb = Some data" "length data = nat (ds_macro_block_size desc)"
    "take ?d data = replicate HEADER_RESERVE 0 @ concat ms"
    using h by (auto simp: mb_holds_def)
  have m: "mb_data_size mb' = int ?d" "mb_data_buf mb' = Some data" "mb_cur_macro_seq mb' = mb_cur_macro_seq mb"
    using h b(1) by (simp_all add: mb'_def mb_build_common_header_def mb_holds_def)
  have "int ?d \<le> ds_macro_block_size desc" using h by (simp add: mb_holds_def)
  then have le: "nat (mb_data_size mb') \<le> length data" using b(2) m(1) by simp
  have hh: "mb_macro_header mb' = macro_fixed (macro_base_header desc) (word_of_nat n) (word_of_nat ?d)
      (word_of_nat k) (word_of_nat HEADER_RESERVE) (word_of_nat (length (concat ms)))"
    "mb_common_header mb' = macro_common ?d"
    using h by (auto simp: mb'_def mb_build_common_header_def mb_holds_def macro_fixed_def macro_common_def
        intro!: ObMacroBlockCommonHeader.equality)
  have r: "mb_reusable desc mb'" using hh(1) unfolding mb_reusable_def by blast
  let ?t = "ch_size + fh_size + ?d"
  have t: "nat (mb_get_total_size mb') = ?t" using m(1) by (simp add: mb_get_total_size_def nat_int_add)
  let ?c = "ch_enc (mb_common_header mb')" and ?f = "fh_enc (mb_macro_header mb')"
  have l: "length ?c = ch_size" "length ?f = fh_size" by (simp_all add: chh.length_enc fhh.length_enc)
  have "ch_serialize (mb_common_header mb') (replicate ?t 0) 0 = (0, ?c @ replicate (fh_size + ?d) 0, ch_size)"
    using chh.serialize_ok [of 0 "replicate ?t 0" "mb_common_header mb'"] l(1)
    by (simp add: ch_serialize_def blit_0 add.assoc)
  moreover have "fh_serialize (mb_macro_header mb') (?c @ replicate (fh_size + ?d) 0) ch_size =
      (0, ?c @ ?f @ replicate ?d 0, ch_size + fh_size)"
    using fhh.serialize_ok [of ch_size "?c @ replicate (fh_size + ?d) 0" "mb_macro_header mb'"] l
    by (simp add: fh_serialize_def blit_def)
  moreover have "blit (ch_size + fh_size) (take ?d data) (?c @ ?f @ replicate ?d 0) = ?c @ ?f @ take ?d data"
    using l le m(1) by (simp add: blit_def)
  ultimately have "(case ch_serialize (mb_common_header mb') (replicate (nat (mb_get_total_size mb')) 0) 0 of (_, out, pos) \<Rightarrow>
        case fh_serialize (mb_macro_header mb') out pos of (_, out, pos) \<Rightarrow>
          blit pos (take (nat (mb_data_size mb')) data) out) = macro_bytes desc n k ms"
    using hh b(3) m(1) t by (simp add: macro_bytes_def Let_def nat_int_add)
  then show ?thesis using that [OF m(2,1) le r m(3)] by blast
qed

lemma other_idx: "i \<le> 1 \<Longrightarrow> 1 - i \<noteq> i" "i \<le> 1 \<Longrightarrow> 1 - (1 - i) = i" for i :: nat
  by presburger+

lemma bw_flush_ready:
  assumes r: "bw_ready desc w es n k ms" and d: "desc_ok desc"
  shows "\<exists>w'. bw_flush_current_macro w = Some (0, macro_bytes desc n k ms, mb_cur_macro_seq (bw_current w), w') \<and>
    bw_ready desc w' es 0 0 [] \<and> ds_micro_block_size desc \<le> mb_get_remain_size (bw_current w')"
proof -
  let ?i = "bw_current_macro_idx w" and ?mb = "snd (mb_build_common_header (bw_current w))"
  have i: "?i \<le> 1" "bw_desc w = Some desc" and h: "mb_holds desc (bw_current w) n k ms"
    using r by (simp_all add: bw_ready_def)
  obtain data where f: "mb_data_buf ?mb = Some data" "mb_data_size ?mb = int (HEADER_RESERVE + length (concat ms))"
    "nat (mb_data_size ?mb) \<le> length data" "mb_reusable desc ?mb" "mb_cur_macro_seq ?mb = mb_cur_macro_seq (bw_current w)"
    "(case ch_serialize (mb_common_header ?mb) (replicate (nat (mb_get_total_size ?mb)) 0) 0 of (_, out, pos) \<Rightarrow>
        case fh_serialize (mb_macro_header ?mb) out pos of (_, out, pos) \<Rightarrow>
          blit pos (take (nat (mb_data_size ?mb)) data) out) = macro_bytes desc n k ms"
    using mb_flush_bytes [OF h] .
  let ?o = "bw_macro_blocks w (1 - ?i)"
  have o: "mb_reusable desc ?o" "int HEADER_RESERVE \<le> ds_macro_block_size desc"
    using r d by (simp_all add: bw_ready_def desc_ok_def)
  obtain nx where nx: "mb_init desc (bw_macro_seq w) ?o = Some (0, nx)" "mb_holds desc nx 0 0 []"
    using mb_init_holds [OF o] by blast
  let ?w = "w\<lparr>bw_macro_blocks := (bw_macro_blocks w)(?i := ?mb, 1 - ?i := nx), bw_current_macro_idx := 1 - ?i,
              bw_macro_seq := bw_macro_seq w + 1\<rparr>"
  have ne: "1 - ?i \<noteq> ?i" "1 - (1 - ?i) = ?i" using other_idx [OF i(1)] by simp_all
  have "\<not> (mb_data_size ?mb < 0 \<or> length data < nat (mb_data_size ?mb))" using f(2,3) by simp
  then have "bw_flush_current_macro w = Some (0, macro_bytes desc n k ms, mb_cur_macro_seq (bw_current w), ?w)"
    using f(1,5,6) i(2) nx(1) ne
    by (simp add: bw_flush_current_macro_def Let_def split_def)
  moreover have "bw_ready desc ?w es 0 0 []"
    using r nx(2) f(4) ne by (auto simp: bw_ready_def)
  moreover have "ds_micro_block_size desc \<le> mb_get_remain_size (bw_current ?w)"
    using nx(2) d by (simp add: mb_holds_def mb_get_remain_size_def desc_ok_def)
  ultimately show ?thesis by blast
qed

lemma bw_pending_ready:
  assumes r: "bw_ready desc w es n k ms" and ne: "es \<noteq> []"
    and fit: "int (length (micro_bytes desc es)) \<le> mb_get_remain_size (bw_current w)"
  shows "\<exists>w'. bw_write_pending w = Some (0, w') \<and> bw_ready desc (bw_inc_micro_block_count w') [] n (k + 1) (ms @ [micro_bytes desc es]) \<and>
    bw_desc w' = Some desc"
proof -
  have h: "mw_holds desc (bw_micro_writer w) es" "mb_holds desc (bw_current w) n k ms" using r by (simp_all add: bw_ready_def)
  obtain mw where b: "mw_build_block (bw_micro_writer w) = Some (0, micro_bytes desc es, mw)" "mw_holds desc mw []"
    using mw_build_holds [OF h(1) ne] by blast
  obtain mb off where m: "mb_write_micro_block (micro_bytes desc es) 0 (bw_current w) = (0, off, mb)"
    "mb_holds desc (mb\<lparr>mb_micro_block_count := mb_micro_block_count mb + 1\<rparr>) n (k + 1) (ms @ [micro_bytes desc es])"
    using mb_write_holds [OF h(2) fit] by blast
  have "bw_current_macro_idx w \<le> 1" using r by (simp add: bw_ready_def)
  then have "1 - bw_current_macro_idx w \<noteq> bw_current_macro_idx w" by (rule other_idx)
  then show ?thesis
    using r b m by (simp add: bw_write_pending_def bw_ready_def bw_inc_micro_block_count_def)
qed

lemma bw_pending_lost:
  assumes r: "bw_ready desc w es n k ms" and ne: "es \<noteq> []"
    and big: "int (length (micro_bytes desc es)) > mb_get_remain_size (bw_current w)"
  shows "\<exists>w'. bw_write_pending w = Some (-1, w') \<and> bw_ready desc w' [] n k ms"
proof -
  have h: "mw_holds desc (bw_micro_writer w) es" "mb_holds desc (bw_current w) n k ms" using r by (simp_all add: bw_ready_def)
  obtain mw where b: "mw_build_block (bw_micro_writer w) = Some (0, micro_bytes desc es, mw)" "mw_holds desc mw []"
    using mw_build_holds [OF h(1) ne] by blast
  show ?thesis using r b mb_write_too_big [OF h(2) big] by (simp add: bw_write_pending_def bw_ready_def)
qed

lemma bw_add_row_ready:
  assumes r: "bw_ready desc w es n k ms" and e: "flat_row row = Some e"
  obtains mw where "mw_append_row row (bw_micro_writer w) = Some (0, mw)"
    "bw_ready desc (w\<lparr>bw_micro_writer := mw, bw_total_row_count := bw_total_row_count w + 1,
        bw_macro_blocks := (bw_macro_blocks w)(bw_current_macro_idx w :=
          (bw_current w)\<lparr>mb_row_count := mb_row_count (bw_current w) + 1\<rparr>)\<rparr>) (es @ [e]) (n + 1) k ms"
proof -
  obtain mw where mw: "mw_append_row row (bw_micro_writer w) = Some (0, mw)" "mw_holds desc mw (es @ [e])"
    using mw_append_holds e r unfolding bw_ready_def by blast
  have "bw_current_macro_idx w \<le> 1" using r by (simp add: bw_ready_def)
  then have "1 - bw_current_macro_idx w \<noteq> bw_current_macro_idx w" by (rule other_idx)
  then show ?thesis using that [OF mw(1)] mw(2) r by (simp add: bw_ready_def mb_holds_def)
qed

definition micro_full :: "ObDataStoreDesc \<Rightarrow> bytes list \<Rightarrow> bool" where
  "micro_full desc es \<longleftrightarrow> int (ub_size + length (concat es)) \<ge> ds_micro_block_size desc - 4096"

lemma mw_full: "mw_holds desc mw es \<Longrightarrow> mw_is_block_full mw \<longleftrightarrow> micro_full desc es"
  by (simp add: mw_holds_def mw_is_block_full_def micro_full_def)

text \<open>\<^verbatim>\<open>append_row\<close> on each of its branches.\<close>

lemma bw_append_pending:
  assumes h: "bw_holds desc w ess es" and e: "flat_row row = Some e" and nf: "\<not> micro_full desc (es @ [e])"
  shows "\<exists>w'. bw_append_row row fl seq w = Some (0, [], seq, w') \<and> bw_holds desc w' ess (es @ [e])"
proof -
  have r: "bw_ready desc w es (length (concat ess) + length es) (length ess) (map (micro_bytes desc) ess)"
    and m: "ds_micro_block_size desc \<le> mb_get_remain_size (bw_current w)"
    using h by (simp_all add: bw_holds_ready)
  obtain mw where mw: "mw_append_row row (bw_micro_writer w) = Some (0, mw)"
    "bw_ready desc (w\<lparr>bw_micro_writer := mw, bw_total_row_count := bw_total_row_count w + 1,
        bw_macro_blocks := (bw_macro_blocks w)(bw_current_macro_idx w :=
          (bw_current w)\<lparr>mb_row_count := mb_row_count (bw_current w) + 1\<rparr>)\<rparr>) (es @ [e])
      (length (concat ess) + length es + 1) (length ess) (map (micro_bytes desc) ess)"
    using bw_add_row_ready [OF r e] .
  have "mw_holds desc mw (es @ [e])" "bw_is_opened w" "bw_desc w = Some desc" using mw(2) by (simp_all add: bw_ready_def)
  then show ?thesis
    using mw m nf mw_full [of desc mw "es @ [e]"] by (simp add: bw_append_row_def bw_holds_ready mb_get_remain_size_def)
qed

lemma bw_append_built:
  assumes h: "bw_holds desc w ess es" and d: "desc_ok desc" and e: "flat_row row = Some e"
    and f: "micro_full desc (es @ [e])"
    and fit: "int (length (micro_bytes desc (es @ [e]))) \<le> mb_get_remain_size (bw_current w)"
  shows "\<exists>w'. bw_append_row row fl seq w = Some (0, [], seq, w') \<and> bw_holds desc w' (ess @ [es @ [e]]) [] \<or>
    bw_append_row row fl seq w = Some (0, macro_bytes desc (length (concat (ess @ [es @ [e]]))) (length ess + 1)
        (map (micro_bytes desc) (ess @ [es @ [e]])), mb_cur_macro_seq (bw_current w), w') \<and> bw_holds desc w' [] []"
proof -
  let ?n = "length (concat ess) + length es" and ?ms = "map (micro_bytes desc) ess"
  have r: "bw_ready desc w es ?n (length ess) ?ms" using h by (simp add: bw_holds_ready)
  obtain mw where mw: "mw_append_row row (bw_micro_writer w) = Some (0, mw)"
    "bw_ready desc (w\<lparr>bw_micro_writer := mw, bw_total_row_count := bw_total_row_count w + 1,
        bw_macro_blocks := (bw_macro_blocks w)(bw_current_macro_idx w :=
          (bw_current w)\<lparr>mb_row_count := mb_row_count (bw_current w) + 1\<rparr>)\<rparr>) (es @ [e]) (?n + 1) (length ess) ?ms"
    using bw_add_row_ready [OF r e] .
  define w1 where "w1 = w\<lparr>bw_micro_writer := mw, bw_total_row_count := bw_total_row_count w + 1,
        bw_macro_blocks := (bw_macro_blocks w)(bw_current_macro_idx w :=
          (bw_current w)\<lparr>mb_row_count := mb_row_count (bw_current w) + 1\<rparr>)\<rparr>"
  have r1: "bw_ready desc w1 (es @ [e]) (?n + 1) (length ess) ?ms" using mw(2) by (simp add: w1_def)
  have c1: "mb_get_remain_size (bw_current w1) = mb_get_remain_size (bw_current w)"
    "mb_cur_macro_seq (bw_current w1) = mb_cur_macro_seq (bw_current w)"
    by (simp_all add: w1_def mb_get_remain_size_def)
  obtain w2 where w2: "bw_write_pending w1 = Some (0, w2)"
    "bw_ready desc (bw_inc_micro_block_count w2) [] (?n + 1) (length ess + 1) (?ms @ [micro_bytes desc (es @ [e])])"
    using bw_pending_ready [OF r1] fit c1(1) by auto
  let ?w3 = "bw_inc_micro_block_count w2"
  have "mw_holds desc mw (es @ [e])" "bw_is_opened w" using mw(2) by (simp_all add: bw_ready_def)
  then have full: "mw_is_block_full mw" "bw_is_opened w" using f by (simp_all add: mw_full)
  have w3: "bw_desc ?w3 = Some desc" "mw_row_count (bw_micro_writer ?w3) = 0"
    using w2(2) by (simp_all add: bw_ready_def mw_holds_def)
  have "bw_append_row row fl seq w =
      (if mb_get_remain_size (bw_current ?w3) < ds_micro_block_size desc then bw_flush_current_macro ?w3
       else Some (0, [], seq, ?w3))"
    using mw(1) full w2(1) w3 by (simp add: bw_append_row_def flip: w1_def)
  moreover have "mb_cur_macro_seq (bw_current ?w3) = mb_cur_macro_seq (bw_current w)"
    using w2(1) c1(2) by (auto simp: bw_write_pending_def bw_inc_micro_block_count_def mb_write_micro_block_def
        bind_eq_Some_conv split: option.splits if_splits)
  ultimately show ?thesis
    using bw_flush_ready [OF w2(2) d] w2(2) by (auto simp: bw_holds_ready add.commute)
qed

lemma bw_append_too_big:
  assumes h: "bw_holds desc w ess es" and e: "flat_row row = Some e" and f: "micro_full desc (es @ [e])"
    and big: "int (length (micro_bytes desc (es @ [e]))) > mb_get_remain_size (bw_current w)"
  shows "\<exists>w'. bw_append_row row fl seq w = Some (-1, fl, seq, w') \<and>
    bw_ready desc w' [] (length (concat ess) + length es + 1) (length ess) (map (micro_bytes desc) ess)"
proof -
  let ?n = "length (concat ess) + length es" and ?ms = "map (micro_bytes desc) ess"
  have r: "bw_ready desc w es ?n (length ess) ?ms" using h by (simp add: bw_holds_ready)
  obtain mw where mw: "mw_append_row row (bw_micro_writer w) = Some (0, mw)"
    "bw_ready desc (w\<lparr>bw_micro_writer := mw, bw_total_row_count := bw_total_row_count w + 1,
        bw_macro_blocks := (bw_macro_blocks w)(bw_current_macro_idx w :=
          (bw_current w)\<lparr>mb_row_count := mb_row_count (bw_current w) + 1\<rparr>)\<rparr>) (es @ [e]) (?n + 1) (length ess) ?ms"
    using bw_add_row_ready [OF r e] .
  have "mw_holds desc mw (es @ [e])" "bw_is_opened w" using mw(2) by (simp_all add: bw_ready_def)
  then show ?thesis
    using mw(1) f bw_pending_lost [OF mw(2)] big mw_full [of desc mw "es @ [e]"]
    by (auto simp: bw_append_row_def mb_get_remain_size_def)
qed

text \<open>\<^verbatim>\<open>close\<close>, when the pending micro block fits and when it does not.\<close>

lemma bw_close_fits:
  assumes r: "bw_ready desc w es n k ms" and d: "desc_ok desc"
    and fit: "es = [] \<or> int (length (micro_bytes desc es)) \<le> mb_get_remain_size (bw_current w)"
  shows "\<exists>seq w'. bw_close bs seqs w = Some (0, bs @ [macro_bytes desc n (if es = [] then k else k + 1)
      (if es = [] then ms else ms @ [micro_bytes desc es])], seqs @ [seq], w')"
proof (cases "es = []")
  case True
  then show ?thesis using r bw_flush_ready [OF r d] by (auto simp: bw_close_def bw_ready_def mw_holds_def)
next
  case False
  then obtain w2 where w2: "bw_write_pending w = Some (0, w2)"
    "bw_ready desc (bw_inc_micro_block_count w2) [] n (k + 1) (ms @ [micro_bytes desc es])"
    using bw_pending_ready [OF r] fit by auto
  then show ?thesis
    using r False bw_flush_ready [OF w2(2) d] by (auto simp: bw_close_def bw_ready_def mw_holds_def)
qed

lemma bw_close_too_big:
  assumes r: "bw_ready desc w es n k ms" and d: "desc_ok desc"
    and big: "es \<noteq> []" "int (length (micro_bytes desc es)) > mb_get_remain_size (bw_current w)"
  shows "\<exists>seq w'. bw_close bs seqs w = Some (0, bs @ [macro_bytes desc n (k + 1) ms], seqs @ [seq], w')"
proof -
  obtain w2 where w2: "bw_write_pending w = Some (-1, w2)" "bw_ready desc w2 [] n k ms"
    using bw_pending_lost [OF r big] by auto
  have r2: "bw_ready desc (bw_inc_micro_block_count w2) [] n (k + 1) ms"
  proof -
    have "bw_current_macro_idx w2 \<le> 1" using w2(2) by (simp add: bw_ready_def)
    from other_idx(1) [OF this] show ?thesis
      using w2(2) by (simp add: bw_ready_def bw_inc_micro_block_count_def mb_holds_def)
  qed
  have "bw_is_opened w" "mw_row_count (bw_micro_writer w) > 0"
    using r big(1) by (simp_all add: bw_ready_def mw_holds_def)
  then show ?thesis using w2(1) bw_flush_ready [OF r2 d] by (auto simp: bw_close_def)
qed

lemma bw_open_holds:
  assumes d: "desc_ok desc"
  shows "\<exists>w. bw_open desc i bw_new = Some (0, w) \<and> bw_holds desc w [] []"
proof -
  have c: "int HEADER_RESERVE \<le> ds_macro_block_size desc" using d by (simp add: desc_ok_def)
  have n: "mb_reusable desc mb_new" by (simp add: mb_reusable_def mb_new_def)
  obtain mw where mw: "mw_init desc mw_new = Some (0, mw)" "mw_holds desc mw []" using mw_init_holds by blast
  obtain m0 where m0: "mb_init desc (i * 1000000 + 1) mb_new = Some (0, m0)" "mb_holds desc m0 0 0 []"
    using mb_init_holds [OF n c] by blast
  obtain m1 where m1: "mb_init desc (2 + i * 1000000) mb_new = Some (0, m1)" "mb_holds desc m1 0 0 []"
    using mb_init_holds [OF n c] by blast
  have "mb_reusable desc m1" using m1(2) by (simp add: mb_holds_def mb_reusable_def)
  moreover have "ds_micro_block_size desc \<le> mb_get_remain_size m0"
    using m0(2) d by (simp add: mb_holds_def mb_get_remain_size_def desc_ok_def)
  ultimately show ?thesis
    using mw m0 m1 by (simp add: bw_open_def bw_new_def bw_holds_ready bw_ready_def)
qed

section \<open>Reading a micro block\<close>

text \<open>The sources have no reader yet.  This is the one the format asks for: the offsets of the
  rows stand at \<^verbatim>\<open>row_index_offset_\<close>, and a row reaches to the next one.\<close>

definition micro_offset :: "bytes \<Rightarrow> nat \<Rightarrow> nat" where
  "micro_offset blk i =
     (let h = ub_dec (take ub_size blk); ix = unat (ub_row_index_offset h)
      in if i < unat (ub_row_count h) then unat (get_word (bslice (ix + 4 * i) 4 blk) :: u32) else ix)"

definition micro_row :: "bytes \<Rightarrow> nat \<Rightarrow> ObStoreRow option" where
  "micro_row blk i =
     wal_parse 0 0 (bslice (micro_offset blk i) (micro_offset blk (i + 1) - micro_offset blk i) blk)"

lemma flat_row_wal:
  assumes "wal_ok row"
  shows "flat_row row = wal_record row"
proof -
  let ?k = "length (rk_buf (row_rowkey row))" and ?v = "length (row_value row)"
  have w: "rk_length (row_rowkey row) = int ?k" "?k < 2 ^ 31" "?v < 2 ^ 31"
    using assms by (simp_all add: wal_ok_def rk_wf_def)
  have "sint (word_of_int (int ?k) :: u32) = int ?k" "sint (word_of_nat ?v :: u32) = int ?v"
    using sint_nat32 [OF w(2)] sint_nat32 [OF w(3)] by simp_all
  then show ?thesis using w(1) by (simp add: flat_row_def wal_record_def Let_def)
qed

lemma nth_offs: "i < length es \<Longrightarrow> offs p es ! i = p + length (concat (take i es))"
proof (induction es arbitrary: p i)
  case (Cons e es)
  then show ?case by (cases i) simp_all
qed simp

lemma concat_take_Suc: "i < length es \<Longrightarrow> concat es = concat (take i es) @ es ! i @ concat (drop (Suc i) es)"
  by (subst id_take_nth_drop [of i es]) simp_all

lemma index_slice: "i < length os \<Longrightarrow> bslice (4 * i) 4 (concat (map (\<lambda>p. put_word (word_of_nat p :: u32)) os) @ xs) =
    put_word (word_of_nat (os ! i) :: u32)"
proof (induction os arbitrary: i)
  case (Cons q os)
  then show ?case by (cases i) (simp_all add: layout)
qed simp

lemma unat_nat32: "n < 2 ^ 32 \<Longrightarrow> unat (word_of_nat n :: u32) = n"
  by (simp add: unat_of_nat)

lemma micro_offset_bytes:
  assumes len: "length (micro_bytes desc es) < 2 ^ 32" and i: "i \<le> length es"
  shows "micro_offset (micro_bytes desc es) i = ub_size + length (concat (take i es))"
proof -
  let ?ix = "ub_size + length (concat es)" and ?b = "micro_bytes desc es"
  have l: "?ix + 4 * length es < 2 ^ 32" using len by (simp add: length_micro_bytes)
  have h: "ub_dec (take ub_size ?b) = micro_header desc es"
    by (simp add: micro_bytes_def ubh.length_enc ubh.dec_enc)
  have n: "unat (ub_row_count (micro_header desc es)) = length es" "unat (ub_row_index_offset (micro_header desc es)) = ?ix"
    using l by (simp_all add: micro_header_def Let_def unat_nat32 del: of_nat_add)
  show ?thesis
  proof (cases "i < length es")
    case True
    have "bslice (?ix + 4 * i) 4 ?b = put_word (word_of_nat (offs ub_size es ! i) :: u32)"
      using index_slice [of i "offs ub_size es" "[]"] True by (simp add: micro_bytes_def layout ubh.length_enc)
    moreover have "ub_size + length (concat (take i es)) \<le> ?ix" using concat_take_Suc [OF True] by simp
    ultimately show ?thesis
      using True l n by (simp add: micro_offset_def h Let_def nth_offs unat_nat32 del: of_nat_add)
  next
    case False
    then show ?thesis using i n by (simp add: micro_offset_def h Let_def)
  qed
qed

lemma micro_row_bytes:
  assumes len: "length (micro_bytes desc es) < 2 ^ 32" and i: "i < length es"
  shows "micro_row (micro_bytes desc es) i = wal_parse 0 0 (es ! i)"
proof -
  let ?p = "ub_size + length (concat (take i es))"
  have "length (concat (take (i + 1) es)) = length (concat (take i es)) + length (es ! i)"
    using i by (simp add: take_Suc_conv_app_nth)
  moreover have "bslice ?p (length (es ! i)) (micro_bytes desc es) = es ! i"
    using concat_take_Suc [OF i] by (simp add: micro_bytes_def ubh.length_enc layout)
  ultimately show ?thesis using i micro_offset_bytes [OF len] by (simp add: micro_row_def)
qed

section \<open>Sizes\<close>

text \<open>Rows of \<open>m\<close> to \<open>M\<close> bytes: the row index of a micro block and the overshoot of its last row stay
  inside the 4096 bytes that the writer keeps free.\<close>

definition sizes_ok :: "ObDataStoreDesc \<Rightarrow> nat \<Rightarrow> nat \<Rightarrow> bool" where
  "sizes_ok desc m M \<longleftrightarrow> 0 < m \<and> int M + 4 + 4 * (ds_micro_block_size desc div int m) \<le> 4096"

lemma rows_min_size: "\<forall>e \<in> set es. m \<le> length e \<Longrightarrow> m * length es \<le> length (concat es)"
  by (induction es) (simp_all add: add_mono)

lemma micro_fits:
  assumes s: "sizes_ok desc m M" and es: "\<forall>x \<in> set (es @ [e]). m \<le> length x \<and> length x \<le> M" and nf: "\<not> micro_full desc es \<or> es = []"
    and d: "4096 + int ub_size \<le> ds_micro_block_size desc"
  shows "int (length (micro_bytes desc (es @ [e]))) \<le> ds_micro_block_size desc"
proof -
  let ?S = "length (concat es)" and ?B = "ds_micro_block_size desc"
  have S: "int ub_size + int ?S \<le> ?B - 4096" using nf d by (auto simp: micro_full_def)
  have m: "0 < m" "int M + 4 + 4 * (?B div int m) \<le> 4096" using s by (simp_all add: sizes_ok_def)
  have "m * length es \<le> ?S" using es by (intro rows_min_size) auto
  then have "int (length es) * int m \<le> ?B" using S by (simp add: mult.commute flip: of_nat_mult)
  then have "int (length es) * int m div int m \<le> ?B div int m" using m(1) by (intro zdiv_mono1) simp_all
  then have "int (length es) \<le> ?B div int m" using m(1) by simp
  then show ?thesis using S m(2) es by (simp add: length_micro_bytes) 
qed

section \<open>Properties of the writers\<close>

lemma mw_appends_hold:
  assumes "mw_holds desc w es" "\<forall>row \<in> set rows. wal_ok row"
  shows "\<exists>w'. foldo (\<lambda>row w. map_option snd (mw_append_row row w)) rows w = Some w' \<and> mw_holds desc w' (es @ map wal_bytes rows)"
  using assms
proof (induction rows arbitrary: w es)
  case (Cons row rows)
  have "flat_row row = Some (wal_bytes row)" using Cons.prems(2) flat_row_wal wal_ok_bytes by simp
  from mw_append_holds [OF Cons.prems(1) this] obtain w1
    where "mw_append_row row w = Some (0, w1)" "mw_holds desc w1 (es @ [wal_bytes row])" by blast
  then show ?case using Cons.IH [of w1 "es @ [wal_bytes row]"] Cons.prems(2) by simp
qed simp

text \<open>
  C29. Rows appended to a micro block are read back from the built block: its header is valid and
  counts them, and for each index the row index leads to the row with its operation, key and value.
\<close>

theorem micro_block_roundtrip:
  assumes ne: "rows \<noteq> []" and ok: "\<forall>row \<in> set rows. wal_ok row"
    and small: "ub_size + length (concat (map wal_bytes rows)) + 4 * length rows < 2 ^ 32"
  shows "\<exists>w0 w1 blk w2. mw_init desc mw_new = Some (0, w0) \<and>
    foldo (\<lambda>row w. map_option snd (mw_append_row row w)) rows w0 = Some w1 \<and> mw_build_block w1 = Some (0, blk, w2) \<and>
    ub_is_valid (ub_dec (take ub_size blk)) \<and> unat (ub_row_count (ub_dec (take ub_size blk))) = length rows \<and>
    (\<forall>i < length rows. micro_row blk i = Some (logged_row (rows ! i)))"
proof -
  let ?es = "map wal_bytes rows" and ?blk = "micro_bytes desc (map wal_bytes rows)"
  obtain w0 where w0: "mw_init desc mw_new = Some (0, w0)" "mw_holds desc w0 []" using mw_init_holds by blast
  obtain w1 where w1: "foldo (\<lambda>row w. map_option snd (mw_append_row row w)) rows w0 = Some w1" "mw_holds desc w1 ?es"
    using mw_appends_hold [OF w0(2) ok] by auto
  obtain w2 where w2: "mw_build_block w1 = Some (0, ?blk, w2)" using mw_build_holds [OF w1(2)] ne by auto
  have len: "length ?blk < 2 ^ 32" using small by (simp add: length_micro_bytes)
  have h: "ub_dec (take ub_size ?blk) = micro_header desc ?es" by (simp add: micro_bytes_def ubh.length_enc ubh.dec_enc)
  then have v: "ub_is_valid (ub_dec (take ub_size ?blk))" "unat (ub_row_count (ub_dec (take ub_size ?blk))) = length rows"
    using small by (simp_all add: micro_header_def Let_def ub_is_valid_def mw_base_header_def unat_nat32)
  have "micro_row ?blk i = Some (logged_row (rows ! i))" if "i < length rows" for i
    using micro_row_bytes [OF len, of i] that ok wal_roundtrip [OF _ wal_ok_bytes] by simp
  then show ?thesis using w0(1) w1(1) w2 v by blast
qed

theorem micro_block_roundtrip_witness:
  "\<exists>w0 w1 blk w2. mw_init ds_init mw_new = Some (0, w0) \<and>
    foldo (\<lambda>row w. map_option snd (mw_append_row row w)) [sample_row 7, sample_row 8] w0 = Some w1 \<and>
    mw_build_block w1 = Some (0, blk, w2) \<and> ub_is_valid (ub_dec (take ub_size blk)) \<and>
    unat (ub_row_count (ub_dec (take ub_size blk))) = length [sample_row 7, sample_row 8] \<and>
    (\<forall>i < length [sample_row 7, sample_row 8]. micro_row blk i = Some (logged_row ([sample_row 7, sample_row 8] ! i)))"
proof (rule micro_block_roundtrip)
  show "\<forall>row \<in> set [sample_row 7, sample_row 8]. wal_ok row" by (simp add: sample_row_ok)
qed (simp_all add: ub_size_def sample_row_length)

text \<open>
  \<^verbatim>\<open>close\<close> does not look at the result of its last write.  When the pending micro block does not
  fit (its row index can make it larger than the space the writer keeps), \<^verbatim>\<open>close\<close> still reports
  success, and the block it returns counts the rows in its header but does not contain them.
\<close>

theorem close_loses_rows:
  assumes h: "bw_holds desc w ess es" and d: "desc_ok desc" and ne: "es \<noteq> []"
    and big: "int (length (micro_bytes desc es)) > mb_get_remain_size (bw_current w)"
  shows "\<exists>seq w'. bw_close [] [] w = Some (0, [macro_bytes desc (length (concat ess) + length es) (length ess + 1)
      (map (micro_bytes desc) ess)], [seq], w')"
  using bw_close_too_big [OF _ d ne big, of _ _ _ "[]" "[]"] h by (auto simp: bw_holds_ready)

definition small_desc :: ObDataStoreDesc where
  "small_desc = ds_init\<lparr>ds_micro_block_size := 16384, ds_macro_block_size := 20480\<rparr>"

lemma small_desc_ok: "desc_ok small_desc"
  by (simp add: desc_ok_def small_desc_def HEADER_RESERVE_def)

lemma bw_appends_pending:
  assumes "bw_holds desc w ess es" "flat_row row = Some e" "\<not> micro_full desc (es @ replicate n e)"
  shows "\<exists>w'. foldo (\<lambda>row w. map_option (\<lambda>r. snd (snd (snd r))) (bw_append_row row [] 0 w)) (replicate n row) w = Some w' \<and>
    bw_holds desc w' ess (es @ replicate n e)"
  using assms
proof (induction n arbitrary: w es)
  case (Suc n)
  have "\<not> micro_full desc (es @ [e])" using Suc.prems(3) by (simp add: micro_full_def)
  from bw_append_pending [OF Suc.prems(1,2) this] obtain w1
    where "bw_append_row row [] 0 w = Some (0, [], 0, w1)" "bw_holds desc w1 ess (es @ [e])" by blast
  then show ?case using Suc.IH [of w1 "es @ [e]"] Suc.prems(2,3) by simp
qed simp

theorem close_loses_rows_witness:
  "\<exists>w0 w seq w'. bw_open small_desc 0 bw_new = Some (0, w0) \<and>
    foldo (\<lambda>row w. map_option (\<lambda>r. snd (snd (snd r))) (bw_append_row row [] 0 w)) (replicate 1359 row_init) w0 = Some w \<and>
    bw_close [] [] w = Some (0, [macro_bytes small_desc 1359 1 []], [seq], w')"
proof -
  obtain w0 where w0: "bw_open small_desc 0 bw_new = Some (0, w0)" "bw_holds small_desc w0 [] []"
    using bw_open_holds [OF small_desc_ok] by blast
  have e: "\<exists>e. flat_row row_init = Some e \<and> length e = 9" by (simp add: flat_row_def row_init_def rk_empty_def Let_def)
  then obtain e where e: "flat_row row_init = Some e" "length e = 9" by blast
  have l: "length (concat (replicate n e)) = 9 * n" for n using e(2) by (induction n) simp_all
  have "\<not> micro_full small_desc (replicate 1359 e)" by (simp add: micro_full_def l small_desc_def ub_size_def)
  then obtain w where w: "foldo (\<lambda>row w. map_option (\<lambda>r. snd (snd (snd r))) (bw_append_row row [] 0 w)) (replicate 1359 row_init) w0 = Some w"
    "bw_holds small_desc w [] (replicate 1359 e)"
    using bw_appends_pending [OF w0(2) e(1), of 1359] by auto
  have r: "mb_get_remain_size (bw_current w) = 16384"
    using w(2) by (simp add: bw_holds_def mb_holds_def mb_get_remain_size_def small_desc_def HEADER_RESERVE_def)
  have "replicate 1359 e \<noteq> []" by simp
  from close_loses_rows [OF w(2) small_desc_ok this] show ?thesis
    using w0(1) w(1) r by (auto simp: length_micro_bytes l ub_size_def)
qed

end
