(* ===== verification/Ob_SSTable.thy ===== *)
theory Ob_SSTable
  imports Ob_Block_Writer
begin

text \<open>
  SSTables, \<^verbatim>\<open>storage/blocksstable\<close> and \<^verbatim>\<open>storage/compaction\<close>: the metadata with its file format, the
  table with its two files, the builder that turns rows into a table, and the merges.

  \<open>can\<close> says which paths can be opened for writing; a path can be opened for reading when the file
  exists.  Bytes written to an opened stream reach the file.
\<close>

section \<open>Metadata\<close>

text \<open>The struct ends with four bytes of padding, which the constructor clears.\<close>

record ObSSTableBasicMeta =
  bm_row_count :: u64
  bm_occupy_size :: u64
  bm_original_size :: u64
  bm_data_checksum :: u64
  bm_rowkey_column_count :: u64
  bm_column_cnt :: u64
  bm_data_macro_block_count :: u64
  bm_data_micro_block_count :: u64
  bm_schema_version :: u64
  bm_create_snapshot_version :: u64
  bm_upper_trans_version :: u64
  bm_max_merged_trans_version :: u64
  bm_data_index_tree_height :: u16
  bm_row_store_type :: byte
  bm_contain_uncommitted_row :: byte
  bm_padding :: u32

definition bm_init :: ObSSTableBasicMeta where
  "bm_init = \<lparr>bm_row_count = 0, bm_occupy_size = 0, bm_original_size = 0, bm_data_checksum = 0,
     bm_rowkey_column_count = 0, bm_column_cnt = 0, bm_data_macro_block_count = 0, bm_data_micro_block_count = 0,
     bm_schema_version = 0, bm_create_snapshot_version = 0, bm_upper_trans_version = 0, bm_max_merged_trans_version = 0,
     bm_data_index_tree_height = 0, bm_row_store_type = 0, bm_contain_uncommitted_row = 0, bm_padding = 0\<rparr>"

definition bm_size :: nat where "bm_size = 104"

definition bm_enc :: "ObSSTableBasicMeta \<Rightarrow> bytes" where
  "bm_enc m = put_word (bm_row_count m) @ put_word (bm_occupy_size m) @ put_word (bm_original_size m) @
     put_word (bm_data_checksum m) @ put_word (bm_rowkey_column_count m) @ put_word (bm_column_cnt m) @
     put_word (bm_data_macro_block_count m) @ put_word (bm_data_micro_block_count m) @ put_word (bm_schema_version m) @
     put_word (bm_create_snapshot_version m) @ put_word (bm_upper_trans_version m) @
     put_word (bm_max_merged_trans_version m) @ put_word (bm_data_index_tree_height m) @
     put_word (bm_row_store_type m) @ put_word (bm_contain_uncommitted_row m) @ put_word (bm_padding m)"

definition bm_dec :: "bytes \<Rightarrow> ObSSTableBasicMeta" where
  "bm_dec b = \<lparr>bm_row_count = get_word (bslice 0 8 b), bm_occupy_size = get_word (bslice 8 8 b),
     bm_original_size = get_word (bslice 16 8 b), bm_data_checksum = get_word (bslice 24 8 b),
     bm_rowkey_column_count = get_word (bslice 32 8 b), bm_column_cnt = get_word (bslice 40 8 b),
     bm_data_macro_block_count = get_word (bslice 48 8 b), bm_data_micro_block_count = get_word (bslice 56 8 b),
     bm_schema_version = get_word (bslice 64 8 b), bm_create_snapshot_version = get_word (bslice 72 8 b),
     bm_upper_trans_version = get_word (bslice 80 8 b), bm_max_merged_trans_version = get_word (bslice 88 8 b),
     bm_data_index_tree_height = get_word (bslice 96 2 b), bm_row_store_type = get_word (bslice 98 1 b),
     bm_contain_uncommitted_row = get_word (bslice 99 1 b), bm_padding = get_word (bslice 100 4 b)\<rparr>"

interpretation bmh: pod_layout bm_enc bm_dec bm_size
  by unfold_locales (simp_all add: bm_enc_def bm_dec_def bm_size_def layout)

record ObRootBlockInfo =
  ri_root_block_data :: bytes
  ri_root_block_offset :: int
  ri_root_block_size :: int

record ObSSTableMacroInfo =
  mi_macro_ids :: "u64 list"
  mi_macro_offsets :: "u64 list"
  mi_macro_sizes :: "u64 list"

record ObSSTableMeta =
  sm_basic_meta :: ObSSTableBasicMeta
  sm_data_root_info :: ObRootBlockInfo
  sm_macro_info :: ObSSTableMacroInfo
  sm_is_inited :: bool

definition sm_new :: ObSSTableMeta where
  "sm_new = \<lparr>sm_basic_meta = bm_init,
     sm_data_root_info = \<lparr>ri_root_block_data = [], ri_root_block_offset = 0, ri_root_block_size = 0\<rparr>,
     sm_macro_info = \<lparr>mi_macro_ids = [], mi_macro_offsets = [], mi_macro_sizes = []\<rparr>, sm_is_inited = False\<rparr>"

definition sm_init :: "int \<Rightarrow> int \<Rightarrow> int \<Rightarrow> int \<Rightarrow> int \<Rightarrow> ObSSTableMeta \<Rightarrow> ret \<times> ObSSTableMeta" where
  "sm_init tablet_id column_count rowkey_column_count schema_version snapshot_version m =
     (0, m\<lparr>sm_basic_meta := (sm_basic_meta m)\<lparr>bm_rowkey_column_count := word_of_int rowkey_column_count,
              bm_column_cnt := word_of_int column_count, bm_schema_version := word_of_int schema_version,
              bm_create_snapshot_version := word_of_int snapshot_version, bm_data_index_tree_height := 1,
              bm_row_store_type := 0, bm_contain_uncommitted_row := 0\<rparr>, sm_is_inited := True\<rparr>)"

definition sm_add_macro_block :: "int \<Rightarrow> int \<Rightarrow> int \<Rightarrow> int \<Rightarrow> int \<Rightarrow> ObSSTableMeta \<Rightarrow> ret \<times> ObSSTableMeta" where
  "sm_add_macro_block macro_seq macro_offset macro_size row_count micro_block_count m =
     (let mi = sm_macro_info m; bm = sm_basic_meta m
      in (0, m\<lparr>sm_macro_info := mi\<lparr>mi_macro_ids := mi_macro_ids mi @ [word_of_int macro_seq],
                  mi_macro_offsets := mi_macro_offsets mi @ [word_of_int macro_offset],
                  mi_macro_sizes := mi_macro_sizes mi @ [word_of_int macro_size]\<rparr>,
                sm_basic_meta := bm\<lparr>bm_data_macro_block_count := bm_data_macro_block_count bm + 1,
                  bm_data_micro_block_count := bm_data_micro_block_count bm + word_of_int micro_block_count,
                  bm_row_count := bm_row_count bm + word_of_int row_count,
                  bm_occupy_size := bm_occupy_size bm + word_of_int macro_size\<rparr>\<rparr>))"

definition sm_set_root_index_block :: "bytes \<Rightarrow> ObSSTableMeta \<Rightarrow> ret \<times> ObSSTableMeta" where
  "sm_set_root_index_block data m =
     (0, m\<lparr>sm_data_root_info := (sm_data_root_info m)\<lparr>ri_root_block_data := data, ri_root_block_size := int (length data)\<rparr>\<rparr>)"

text \<open>The three vectors are indexed by the length of the first.\<close>

definition macro_entries :: "ObSSTableMacroInfo \<Rightarrow> bytes" where
  "macro_entries mi = concat (map (\<lambda>i. put_word (mi_macro_ids mi ! i) @ put_word (mi_macro_offsets mi ! i) @
     put_word (mi_macro_sizes mi ! i)) [0 ..< length (mi_macro_ids mi)])"

definition sm_serialize :: "ObSSTableMeta \<Rightarrow> bytes \<Rightarrow> (ret \<times> bytes) option" where
  "sm_serialize m out =
     (let mi = sm_macro_info m; root = ri_root_block_data (sm_data_root_info m); macro_count = length (mi_macro_ids mi)
      in if macro_count > length (mi_macro_offsets mi) \<or> macro_count > length (mi_macro_sizes mi) then None
         else Some (0, out @ bm_enc (sm_basic_meta m) @ put_word (word_of_nat (length root) :: u64) @ root @
                       put_word (word_of_nat macro_count :: u64) @ macro_entries mi))"

function (sequential) sm_read_macros :: "int \<Rightarrow> bytes \<Rightarrow> ObSSTableMacroInfo \<Rightarrow> ObSSTableMacroInfo" where
  "sm_read_macros n b mi =
     (if n > 0 \<and> length b \<ge> 24 then
        sm_read_macros (n - 1) (drop 24 b)
          (mi\<lparr>mi_macro_ids := mi_macro_ids mi @ [get_word (bslice 0 8 b)],
              mi_macro_offsets := mi_macro_offsets mi @ [get_word (bslice 8 8 b)],
              mi_macro_sizes := mi_macro_sizes mi @ [get_word (bslice 16 8 b)]\<rparr>)
      else mi)"
  by pat_completeness auto

termination sm_read_macros
  by (relation "measure (\<lambda>(n, b, mi). length b)") auto

declare sm_read_macros.simps [simp del]

definition sm_deserialize :: "bytes \<Rightarrow> ObSSTableMeta \<Rightarrow> ret \<times> ObSSTableMeta" where
  "sm_deserialize b m =
     (if length b < bm_size then (-1, m)
      else let m = m\<lparr>sm_basic_meta := bm_dec (take bm_size b)\<rparr>;
               b = drop bm_size b
           in if length b < 8 then (-1, m)
              else let root_size = sint (get_word (take 8 b) :: u64);
                       b = drop 8 b;
                       (m, b) = (if root_size > 0 \<and> int (length b) \<ge> root_size then
                                   (m\<lparr>sm_data_root_info := (sm_data_root_info m)\<lparr>ri_root_block_data := take (nat root_size) b\<rparr>\<rparr>,
                                    drop (nat root_size) b)
                                 else (m, b))
                   in if length b < 8 then (-1, m)
                      else let macro_count = get_word (take 8 b) :: u64
                           in (0, m\<lparr>sm_macro_info := sm_read_macros (sint macro_count) (drop 8 b) (sm_macro_info m),
                                    sm_basic_meta := (sm_basic_meta m)\<lparr>bm_data_macro_block_count := macro_count\<rparr>\<rparr>))"

definition sm_save_to_file :: "(string \<Rightarrow> bool) \<Rightarrow> string \<Rightarrow> ObSSTableMeta \<Rightarrow> file_store \<Rightarrow> (ret \<times> file_store) option" where
  "sm_save_to_file can path m fs =
     (if \<not> can path then Some (-1, fs)
      else do {
        (_, data) \<leftarrow> sm_serialize m [];
        Some (0, fs(path \<mapsto> data))
      })"

definition sm_load_from_file :: "string \<Rightarrow> ObSSTableMeta \<Rightarrow> file_store \<Rightarrow> ret \<times> ObSSTableMeta" where
  "sm_load_from_file path m fs =
     (case fs path of None \<Rightarrow> (-1, m) | Some data \<Rightarrow> sm_deserialize data m)"

section \<open>Table\<close>

record ObSSTable =
  st_meta :: ObSSTableMeta
  st_data_file_path :: string
  st_meta_file_path :: string
  st_is_inited :: bool

definition sst_new :: ObSSTable where
  "sst_new = \<lparr>st_meta = sm_new, st_data_file_path = [], st_meta_file_path = [], st_is_inited = False\<rparr>"

definition sst_init :: "string \<Rightarrow> string \<Rightarrow> ObSSTable \<Rightarrow> file_store \<Rightarrow> ret \<times> ObSSTable" where
  "sst_init data_file_path meta_file_path t fs =
     (let t = t\<lparr>st_data_file_path := data_file_path, st_meta_file_path := meta_file_path\<rparr>
      in case sm_load_from_file meta_file_path (st_meta t) fs of (ret, m) \<Rightarrow>
           let t = t\<lparr>st_meta := m\<rparr>
           in if ret \<noteq> 0 then (ret, t) else (0, t\<lparr>st_is_inited := True\<rparr>))"

text \<open>The loop that writes the macro blocks: each is entered with its offset and with zero rows.\<close>

fun sst_write_blocks :: "bytes list \<Rightarrow> int list \<Rightarrow> int \<Rightarrow> bytes \<Rightarrow> ObSSTableMeta \<Rightarrow> (bytes \<times> ObSSTableMeta) option" where
  "sst_write_blocks [] seqs offset data m = Some (data, m)"
| "sst_write_blocks (b # bs) [] offset data m = None"
| "sst_write_blocks (b # bs) (q # qs) offset data m =
     sst_write_blocks bs qs (offset + int (length b)) (data @ b)
       (snd (sm_add_macro_block q offset (int (length b)) 0 0 m))"

definition sst_create_from_blocks :: "(string \<Rightarrow> bool) \<Rightarrow> bytes list \<Rightarrow> int list \<Rightarrow> ObSSTableMeta \<Rightarrow> string \<Rightarrow> string
    \<Rightarrow> ObSSTable \<Rightarrow> file_store \<Rightarrow> (ret \<times> ObSSTable \<times> file_store) option" where
  "sst_create_from_blocks can macro_blocks macro_seqs meta data_file_path meta_file_path t fs =
     (let t = t\<lparr>st_meta := meta, st_data_file_path := data_file_path, st_meta_file_path := meta_file_path\<rparr>
      in if \<not> can data_file_path then Some (-1, t, fs)
         else do {
           let write_meta = meta\<lparr>sm_macro_info := \<lparr>mi_macro_ids = [], mi_macro_offsets = [], mi_macro_sizes = []\<rparr>\<rparr>;
           (data, write_meta) \<leftarrow> sst_write_blocks macro_blocks macro_seqs 0 [] write_meta;
           let fs = fs(data_file_path \<mapsto> data);
           (_, fs) \<leftarrow> sm_save_to_file can meta_file_path write_meta fs;
           Some (0, t\<lparr>st_meta := write_meta, st_is_inited := True\<rparr>, fs)
         })"

definition sst_get_row_count :: "ObSSTable \<Rightarrow> u64" where
  "sst_get_row_count t = bm_row_count (sm_basic_meta (st_meta t))"

definition sst_get_occupy_size :: "ObSSTable \<Rightarrow> u64" where
  "sst_get_occupy_size t = bm_occupy_size (sm_basic_meta (st_meta t))"

definition sst_is_empty :: "ObSSTable \<Rightarrow> bool" where
  "sst_is_empty t \<longleftrightarrow> bm_row_count (sm_basic_meta (st_meta t)) = 0"

text \<open>\<^verbatim>\<open>seekg\<close> and \<^verbatim>\<open>read\<close> with a result that is zero where the file has no bytes; a negative size makes
  \<^verbatim>\<open>resize\<close> throw.\<close>

definition read_at :: "int \<Rightarrow> nat \<Rightarrow> bytes \<Rightarrow> bytes" where
  "read_at offset n data =
     (let got = (if offset < 0 then [] else take n (drop (nat offset) data))
      in got @ replicate (n - length got) 0)"

definition sst_read_macro_block :: "int \<Rightarrow> bytes \<Rightarrow> ObSSTable \<Rightarrow> file_store \<Rightarrow> (ret \<times> bytes) option" where
  "sst_read_macro_block macro_idx out_data t fs =
     (let mi = sm_macro_info (st_meta t)
      in if \<not> st_is_inited t then Some (-1, out_data)
         else if macro_idx < 0 \<or> macro_idx \<ge> int (length (mi_macro_offsets mi)) then Some (-1, out_data)
         else if nat macro_idx \<ge> length (mi_macro_sizes mi) then None
         else let offset = sint (mi_macro_offsets mi ! nat macro_idx); sz = sint (mi_macro_sizes mi ! nat macro_idx)
              in case fs (st_data_file_path t) of
                   None \<Rightarrow> Some (-1, out_data)
                 | Some data \<Rightarrow> if sz < 0 then None else Some (0, read_at offset (nat sz) data))"

section \<open>Builder\<close>

record ObSSTableBuilder =
  sb_desc :: ObDataStoreDesc
  sb_writer :: ObMacroBlockWriter
  sb_macro_blocks :: "bytes list"
  sb_macro_seqs :: "int list"
  sb_data_file_path :: string
  sb_meta_file_path :: string
  sb_meta :: ObSSTableMeta
  sb_sstable :: ObSSTable
  sb_is_closed :: bool

definition sb_new :: ObSSTableBuilder where
  "sb_new = \<lparr>sb_desc = ds_init, sb_writer = bw_new, sb_macro_blocks = [], sb_macro_seqs = [], sb_data_file_path = [],
     sb_meta_file_path = [], sb_meta = sm_new, sb_sstable = sst_new, sb_is_closed = False\<rparr>"

definition sb_init :: "ObDataStoreDesc \<Rightarrow> string \<Rightarrow> string \<Rightarrow> ObSSTableBuilder \<Rightarrow> (ret \<times> ObSSTableBuilder) option" where
  "sb_init desc data_file_path meta_file_path sb = do {
     let sb = sb\<lparr>sb_desc := desc, sb_data_file_path := data_file_path, sb_meta_file_path := meta_file_path\<rparr>;
     (ret, w) \<leftarrow> bw_open desc 0 (sb_writer sb);
     let sb = sb\<lparr>sb_writer := w\<rparr>;
     if ret \<noteq> 0 then Some (ret, sb)
     else case sm_init (ds_tablet_id desc) (ds_column_count desc) (ds_rowkey_column_count desc) (ds_schema_version desc)
                 (ds_snapshot_version desc) (sb_meta sb) of
            (ret, m) \<Rightarrow> Some (ret, sb\<lparr>sb_meta := m\<rparr>)
   }"

definition sb_append_row :: "ObStoreRow \<Rightarrow> ObSSTableBuilder \<Rightarrow> (ret \<times> ObSSTableBuilder) option" where
  "sb_append_row row sb = do {
     (ret, flushed_block, flushed_seq, w) \<leftarrow> bw_append_row row [] 0 (sb_writer sb);
     let sb = sb\<lparr>sb_writer := w\<rparr>;
     if ret \<noteq> 0 then Some (ret, sb)
     else if flushed_block \<noteq> [] then
       Some (0, sb\<lparr>sb_macro_blocks := sb_macro_blocks sb @ [flushed_block], sb_macro_seqs := sb_macro_seqs sb @ [flushed_seq]\<rparr>)
     else Some (0, sb)
   }"

definition sb_close :: "(string \<Rightarrow> bool) \<Rightarrow> ObSSTableBuilder \<Rightarrow> file_store \<Rightarrow> (ret \<times> ObSSTableBuilder \<times> file_store) option" where
  "sb_close can sb fs =
     (if sb_is_closed sb then Some (0, sb, fs)
      else do {
        (ret, remaining_blocks, remaining_seqs, w) \<leftarrow> bw_close [] [] (sb_writer sb);
        let sb = sb\<lparr>sb_writer := w\<rparr>;
        if ret \<noteq> 0 then Some (ret, sb, fs)
        else do {
          let sb = sb\<lparr>sb_macro_blocks := sb_macro_blocks sb @ remaining_blocks,
                      sb_macro_seqs := sb_macro_seqs sb @ remaining_seqs\<rparr>;
          (ret, t, fs) \<leftarrow> sst_create_from_blocks can (sb_macro_blocks sb) (sb_macro_seqs sb) (sb_meta sb)
                            (sb_data_file_path sb) (sb_meta_file_path sb) (sb_sstable sb) fs;
          Some (ret, sb\<lparr>sb_sstable := t, sb_is_closed := True\<rparr>, fs)
        }
      })"

section \<open>Merges\<close>

text \<open>The results of \<^verbatim>\<open>init\<close>, \<^verbatim>\<open>append_row\<close> and \<^verbatim>\<open>close\<close> are not looked at.\<close>

fun sb_append_rows :: "ObStoreRow list \<Rightarrow> ObSSTableBuilder \<Rightarrow> ObSSTableBuilder option" where
  "sb_append_rows [] sb = Some sb"
| "sb_append_rows (row # rows) sb = Option.bind (sb_append_row row sb) (\<lambda>(_, sb). sb_append_rows rows sb)"

definition mini_merge :: "(string \<Rightarrow> bool) \<Rightarrow> ObMemtable \<Rightarrow> ObDataStoreDesc \<Rightarrow> string \<Rightarrow> string \<Rightarrow> file_store
    \<Rightarrow> (ret \<times> ObSSTable \<times> file_store) option" where
  "mini_merge can frozen_memtable desc data_path meta_path fs = do {
     (_, sb) \<leftarrow> sb_init desc data_path meta_path sb_new;
     (_, rows) \<leftarrow> mt_scan ctx_init rk_empty False (rk_of_bytes [0xFF, 0xFF, 0xFF, 0xFF]) False [] frozen_memtable;
     sb \<leftarrow> sb_append_rows rows sb;
     (_, sb, fs) \<leftarrow> sb_close can sb fs;
     Some (0, sb_sstable sb, fs)
   }"

text \<open>The loop over the inputs has an empty body.\<close>

definition merge_sstables :: "(string \<Rightarrow> bool) \<Rightarrow> ObSSTable option list \<Rightarrow> ObDataStoreDesc \<Rightarrow> string \<Rightarrow> string \<Rightarrow> file_store
    \<Rightarrow> (ret \<times> ObSSTable \<times> file_store) option" where
  "merge_sstables can inputs desc data_path meta_path fs = do {
     (_, sb) \<leftarrow> sb_init desc data_path meta_path sb_new;
     let sb = fold (\<lambda>sst sb. sb) inputs sb;
     (_, sb, fs) \<leftarrow> sb_close can sb fs;
     Some (0, sb_sstable sb, fs)
   }"

definition minor_merge :: "(string \<Rightarrow> bool) \<Rightarrow> ObSSTable option list \<Rightarrow> ObDataStoreDesc \<Rightarrow> string \<Rightarrow> string \<Rightarrow> file_store
    \<Rightarrow> (ret \<times> ObSSTable \<times> file_store) option" where
  "minor_merge can input_sstables desc data_path meta_path fs =
     merge_sstables can input_sstables desc data_path meta_path fs"

definition major_merge :: "(string \<Rightarrow> bool) \<Rightarrow> ObSSTable option list \<Rightarrow> ObSSTable option \<Rightarrow> ObDataStoreDesc \<Rightarrow> string \<Rightarrow> string
    \<Rightarrow> file_store \<Rightarrow> (ret \<times> ObSSTable \<times> file_store) option" where
  "major_merge can input_sstables old_major desc data_path meta_path fs =
     merge_sstables can (input_sstables @ (if old_major \<noteq> None then [old_major] else [])) desc data_path meta_path fs"

section \<open>The metadata file\<close>

definition meta_ok :: "ObSSTableMeta \<Rightarrow> bool" where
  "meta_ok m \<longleftrightarrow>
     (let mi = sm_macro_info m
      in length (mi_macro_offsets mi) = length (mi_macro_ids mi) \<and> length (mi_macro_sizes mi) = length (mi_macro_ids mi) \<and>
         length (mi_macro_ids mi) < 2 ^ 63 \<and> length (ri_root_block_data (sm_data_root_info m)) < 2 ^ 63)"

fun entries :: "u64 list \<Rightarrow> u64 list \<Rightarrow> u64 list \<Rightarrow> bytes" where
  "entries (a # as) (b # bs) (c # cs) = put_word a @ put_word b @ put_word c @ entries as bs cs"
| "entries _ _ _ = []"

lemma entries_nth:
  "length bs = length as \<Longrightarrow> length cs = length as \<Longrightarrow>
     concat (map (\<lambda>i. put_word (as ! i) @ put_word (bs ! i) @ put_word (cs ! i)) [0 ..< length as]) = entries as bs cs"
proof (induction as bs cs rule: entries.induct)
  case (1 a as b bs c cs)
  have "[0 ..< length (a # as)] = 0 # map Suc [0 ..< length as]" by (simp add: map_Suc_upt upt_conv_Cons del: upt_Suc)
  then show ?case using 1 by (simp add: comp_def del: upt_Suc)
qed auto

lemma read_macros_entries:
  "length bs = length as \<Longrightarrow> length cs = length as \<Longrightarrow>
     sm_read_macros (int (length as)) (entries as bs cs) mi =
       mi\<lparr>mi_macro_ids := mi_macro_ids mi @ as, mi_macro_offsets := mi_macro_offsets mi @ bs, mi_macro_sizes := mi_macro_sizes mi @ cs\<rparr>"
proof (induction as bs cs arbitrary: mi rule: entries.induct)
  case (1 a as b bs c cs)
  then show ?case by (subst sm_read_macros.simps) (simp add: layout)
qed (auto simp: sm_read_macros.simps)

lemma sm_serialize_ok:
  "meta_ok m \<Longrightarrow> sm_serialize m out = Some (0, out @ bm_enc (sm_basic_meta m) @
     put_word (word_of_nat (length (ri_root_block_data (sm_data_root_info m))) :: u64) @ ri_root_block_data (sm_data_root_info m) @
     put_word (word_of_nat (length (mi_macro_ids (sm_macro_info m))) :: u64) @
     entries (mi_macro_ids (sm_macro_info m)) (mi_macro_offsets (sm_macro_info m)) (mi_macro_sizes (sm_macro_info m)))"
  by (simp add: sm_serialize_def meta_ok_def Let_def macro_entries_def entries_nth)

text \<open>What a fresh object holds after loading: everything but the size of the root block.\<close>

definition reloaded :: "ObSSTableMeta \<Rightarrow> ObSSTableMeta" where
  "reloaded m = sm_new\<lparr>sm_basic_meta := (sm_basic_meta m)\<lparr>bm_data_macro_block_count :=
       word_of_nat (length (mi_macro_ids (sm_macro_info m)))\<rparr>,
     sm_data_root_info := (sm_data_root_info sm_new)\<lparr>ri_root_block_data := ri_root_block_data (sm_data_root_info m)\<rparr>,
     sm_macro_info := sm_macro_info m\<rparr>"

lemma sm_deserialize_ok:
  assumes ok: "meta_ok m"
  shows "sm_deserialize (bm_enc (sm_basic_meta m) @
     put_word (word_of_nat (length (ri_root_block_data (sm_data_root_info m))) :: u64) @ ri_root_block_data (sm_data_root_info m) @
     put_word (word_of_nat (length (mi_macro_ids (sm_macro_info m))) :: u64) @
     entries (mi_macro_ids (sm_macro_info m)) (mi_macro_offsets (sm_macro_info m)) (mi_macro_sizes (sm_macro_info m))) sm_new
    = (0, reloaded m)"
proof -
  let ?r = "ri_root_block_data (sm_data_root_info m)" and ?mi = "sm_macro_info m"
  have l: "length (bm_enc (sm_basic_meta m)) = bm_size" by (rule bmh.length_enc)
  have s: "sint (word_of_nat (length ?r) :: u64) = int (length ?r)"
    "sint (word_of_nat (length (mi_macro_ids ?mi)) :: u64) = int (length (mi_macro_ids ?mi))"
    using ok by (auto simp: meta_ok_def Let_def intro!: sint_nat64)
  have g: "get_word (take 8 (put_word (w :: u64) @ xs)) = w" for w xs by simp
  have mi: "sm_read_macros (int (length (mi_macro_ids ?mi))) (entries (mi_macro_ids ?mi) (mi_macro_offsets ?mi) (mi_macro_sizes ?mi))
      \<lparr>mi_macro_ids = [], mi_macro_offsets = [], mi_macro_sizes = []\<rparr> = ?mi"
    using ok by (subst read_macros_entries) (simp_all add: meta_ok_def Let_def)
  show ?thesis
    using l by (simp add: sm_deserialize_def bmh.dec_enc s g Let_def) (auto simp: mi reloaded_def sm_new_def Let_def)
qed

section \<open>Reading back the blocks of a table\<close>

lemma write_blocks:
  assumes "length qs = length bs"
  shows "\<exists>m'. sst_write_blocks bs qs (int p) data m = Some (data @ concat bs, m') \<and>
    sm_macro_info m' = \<lparr>mi_macro_ids = mi_macro_ids (sm_macro_info m) @ map word_of_int qs,
      mi_macro_offsets = mi_macro_offsets (sm_macro_info m) @ map word_of_nat (offs p bs),
      mi_macro_sizes = mi_macro_sizes (sm_macro_info m) @ map (\<lambda>b. word_of_nat (length b)) bs\<rparr> \<and>
    bm_row_count (sm_basic_meta m') = bm_row_count (sm_basic_meta m) \<and> sm_data_root_info m' = sm_data_root_info m"
  using assms
proof (induction bs arbitrary: qs p data m)
  case (Cons b bs)
  then obtain q qs' where q: "qs = q # qs'" "length qs' = length bs" by (cases qs) auto
  let ?m = "snd (sm_add_macro_block q (int p) (int (length b)) 0 0 m)"
  have a: "sm_macro_info ?m = \<lparr>mi_macro_ids = mi_macro_ids (sm_macro_info m) @ [word_of_int q],
      mi_macro_offsets = mi_macro_offsets (sm_macro_info m) @ [word_of_nat p],
      mi_macro_sizes = mi_macro_sizes (sm_macro_info m) @ [word_of_nat (length b)]\<rparr>"
    "bm_row_count (sm_basic_meta ?m) = bm_row_count (sm_basic_meta m)" "sm_data_root_info ?m = sm_data_root_info m"
    by (simp_all add: sm_add_macro_block_def Let_def)
  show ?case using Cons.IH [OF q(2), of "p + length b" "data @ b" ?m] a q(1) by simp
qed (simp add: sm_add_macro_block_def)

text \<open>A table whose metadata describes the file that holds the blocks \<open>bs\<close>.\<close>

definition sst_holds :: "ObSSTable \<Rightarrow> file_store \<Rightarrow> bytes list \<Rightarrow> bool" where
  "sst_holds t fs bs \<longleftrightarrow>
     st_is_inited t \<and> fs (st_data_file_path t) = Some (concat bs) \<and> length (concat bs) < 2 ^ 63 \<and>
     mi_macro_offsets (sm_macro_info (st_meta t)) = map word_of_nat (offs 0 bs) \<and>
     mi_macro_sizes (sm_macro_info (st_meta t)) = map (\<lambda>b. word_of_nat (length b)) bs"

lemma sst_read_holds:
  assumes h: "sst_holds t fs bs" and i: "i < length bs"
  shows "sst_read_macro_block (int i) out t fs = Some (0, bs ! i)"
proof -
  have c: "concat bs = concat (take i bs) @ bs ! i @ concat (drop (Suc i) bs)" using i by (rule concat_take_Suc)
  have l: "length (concat bs) < 2 ^ 63" using h by (simp add: sst_holds_def)
  then have l2: "length (concat (take i bs)) < 2 ^ 63" "length (bs ! i) < 2 ^ 63" using c by simp_all
  have o: "offs 0 bs ! i = length (concat (take i bs))" using nth_offs [OF i, of 0] by simp
  have "read_at (int (length (concat (take i bs)))) (length (bs ! i)) (concat bs) = bs ! i"
    by (subst c) (simp add: read_at_def Let_def)
  then show ?thesis
    using h i o sint_nat64 [OF l2(1)] sint_nat64 [OF l2(2)] by (simp add: sst_read_macro_block_def sst_holds_def Let_def)
qed

lemma sst_create_holds:
  assumes can: "can dp" "can mp" and p: "dp \<noteq> mp" and len: "length qs = length bs" "length (concat bs) < 2 ^ 63" "length bs < 2 ^ 63"
    and root: "length (ri_root_block_data (sm_data_root_info m)) < 2 ^ 63"
  obtains t' fs' where "sst_create_from_blocks can bs qs m dp mp t fs = Some (0, t', fs')" "sst_holds t' fs' bs"
    "st_data_file_path t' = dp" "sst_get_row_count t' = bm_row_count (sm_basic_meta m)"
    "\<exists>t2. sst_init dp mp sst_new fs' = (0, t2) \<and> sst_holds t2 fs' bs \<and> sst_get_row_count t2 = sst_get_row_count t'"
proof -
  let ?m = "m\<lparr>sm_macro_info := \<lparr>mi_macro_ids = [], mi_macro_offsets = [], mi_macro_sizes = []\<rparr>\<rparr>"
  obtain m' where w: "sst_write_blocks bs qs 0 [] ?m = Some (concat bs, m')"
    "sm_macro_info m' = \<lparr>mi_macro_ids = map word_of_int qs, mi_macro_offsets = map word_of_nat (offs 0 bs),
      mi_macro_sizes = map (\<lambda>b. word_of_nat (length b)) bs\<rparr>"
    "bm_row_count (sm_basic_meta m') = bm_row_count (sm_basic_meta m)" "sm_data_root_info m' = sm_data_root_info m"
    using write_blocks [OF len(1), of 0 "[]" ?m] by auto
  have ok: "meta_ok m'" using w(2,4) len root by (simp add: meta_ok_def Let_def)
  note s = sm_serialize_ok [OF ok, of "[]"]
  let ?t = "t\<lparr>st_meta := m', st_data_file_path := dp, st_meta_file_path := mp, st_is_inited := True\<rparr>"
  obtain data where d: "sm_serialize m' [] = Some (0, data)" "sm_deserialize data sm_new = (0, reloaded m')"
    using s sm_deserialize_ok [OF ok] by simp
  let ?fs = "fs(dp \<mapsto> concat bs, mp \<mapsto> data)"
  have "sst_create_from_blocks can bs qs m dp mp t fs = Some (0, ?t, ?fs)"
    using can w(1) d(1) by (simp add: sst_create_from_blocks_def sm_save_to_file_def Let_def)
  moreover have "sst_holds ?t ?fs bs" using w(2) p len(2) by (simp add: sst_holds_def)
  moreover have "sst_get_row_count ?t = bm_row_count (sm_basic_meta m)" using w(3) by (simp add: sst_get_row_count_def)
  moreover have "\<exists>t2. sst_init dp mp sst_new ?fs = (0, t2) \<and> sst_holds t2 ?fs bs \<and> sst_get_row_count t2 = sst_get_row_count ?t"
    using d(2) w(2) p len(2)
    by (simp add: sst_init_def sst_new_def sm_load_from_file_def sst_holds_def reloaded_def sst_get_row_count_def Let_def)
  ultimately show ?thesis using that [of ?t ?fs] by simp
qed

section \<open>The builder\<close>

text \<open>The bytes of a macro block with the micro blocks \<open>p\<close>, each the list of its rows.\<close>

definition macro_of :: "ObDataStoreDesc \<Rightarrow> bytes list list \<Rightarrow> bytes" where
  "macro_of desc p = macro_bytes desc (length (concat p)) (length p) (map (micro_bytes desc) p)"

definition macro_fits :: "ObDataStoreDesc \<Rightarrow> bytes list list \<Rightarrow> bool" where
  "macro_fits desc p \<longleftrightarrow> int (HEADER_RESERVE + length (concat (map (micro_bytes desc) p))) \<le> ds_macro_block_size desc"

definition sb_holds :: "ObDataStoreDesc \<Rightarrow> nat \<Rightarrow> nat \<Rightarrow> string \<Rightarrow> string \<Rightarrow> ObSSTableBuilder \<Rightarrow> bytes list list list
    \<Rightarrow> bytes list list \<Rightarrow> bytes list \<Rightarrow> bool" where
  "sb_holds desc m M dp mp sb parts ess es \<longleftrightarrow>
     bw_holds desc (sb_writer sb) ess es \<and> (es = [] \<or> \<not> micro_full desc es) \<and>
     (\<forall>e \<in> set es. m \<le> length e \<and> length e \<le> M) \<and>
     sb_macro_blocks sb = map (macro_of desc) parts \<and> length (sb_macro_seqs sb) = length parts \<and>
     (\<forall>p \<in> set parts. concat p \<noteq> [] \<and> macro_fits desc p) \<and> \<not> sb_is_closed sb \<and>
     sb_data_file_path sb = dp \<and> sb_meta_file_path sb = mp \<and>
     ri_root_block_data (sm_data_root_info (sb_meta sb)) = [] \<and> bm_row_count (sm_basic_meta (sb_meta sb)) = 0"

definition builder_ok :: "ObDataStoreDesc \<Rightarrow> nat \<Rightarrow> nat \<Rightarrow> bool" where
  "builder_ok desc m M \<longleftrightarrow> desc_ok desc \<and> sizes_ok desc m M \<and> 4096 + int ub_size \<le> ds_micro_block_size desc"

lemma macro_bytes_nonempty: "macro_bytes desc n k ms \<noteq> []"
  using chh.length_enc by (auto simp: macro_bytes_def Let_def ch_size_def) (metis chh.length_enc ch_size_def length_0_conv zero_neq_numeral)

lemma length_macro_of: "length (macro_of desc p) = ch_size + fh_size + HEADER_RESERVE + length (concat (map (micro_bytes desc) p))"
  by (simp add: macro_of_def macro_bytes_def Let_def chh.length_enc fhh.length_enc)

lemma bw_holds_data:
  "bw_holds desc w ess es \<Longrightarrow>
     mb_get_remain_size (bw_current w) = ds_macro_block_size desc - int (HEADER_RESERVE + length (concat (map (micro_bytes desc) ess))) \<and>
     macro_fits desc ess"
  by (auto simp: bw_holds_def mb_holds_def mb_get_remain_size_def macro_fits_def)

lemma sb_init_holds:
  assumes "builder_ok desc m M"
  shows "\<exists>sb. sb_init desc dp mp sb_new = Some (0, sb) \<and> sb_holds desc m M dp mp sb [] [] []"
proof -
  obtain w where "bw_open desc 0 bw_new = Some (0, w)" "bw_holds desc w [] []"
    using bw_open_holds assms by (auto simp: builder_ok_def)
  then show ?thesis by (simp add: sb_init_def sb_new_def sm_init_def sm_new_def bm_init_def sb_holds_def)
qed

lemma sb_append_holds:
  assumes b: "builder_ok desc m M" and h: "sb_holds desc m M dp mp sb parts ess es"
    and e: "flat_row row = Some e" "m \<le> length e" "length e \<le> M"
  shows "\<exists>sb' parts' ess' es'. sb_append_row row sb = Some (0, sb') \<and> sb_holds desc m M dp mp sb' parts' ess' es' \<and>
    concat (concat parts') @ concat ess' @ es' = concat (concat parts) @ concat ess @ es @ [e]"
proof (cases "micro_full desc (es @ [e])")
  case False
  have w: "bw_holds desc (sb_writer sb) ess es" using h by (simp add: sb_holds_def)
  obtain w' where w': "bw_append_row row [] 0 (sb_writer sb) = Some (0, [], 0, w')" "bw_holds desc w' ess (es @ [e])"
    using bw_append_pending [OF w e(1) False] by blast
  have "sb_append_row row sb = Some (0, sb\<lparr>sb_writer := w'\<rparr>)" using w'(1) by (simp add: sb_append_row_def)
  moreover have "sb_holds desc m M dp mp (sb\<lparr>sb_writer := w'\<rparr>) parts ess (es @ [e])"
    using h w'(2) False e by (auto simp: sb_holds_def)
  ultimately show ?thesis by (metis append.assoc)
next
  case True
  have w: "bw_holds desc (sb_writer sb) ess es" using h by (simp add: sb_holds_def)
  have "int (length (micro_bytes desc (es @ [e]))) \<le> ds_micro_block_size desc"
    using b h e by (intro micro_fits [of desc m M]) (auto simp: builder_ok_def sb_holds_def)
  also have "\<dots> \<le> mb_get_remain_size (bw_current (sb_writer sb))" using w by (simp add: bw_holds_def)
  finally have fit: "int (length (micro_bytes desc (es @ [e]))) \<le> mb_get_remain_size (bw_current (sb_writer sb))" .
  let ?p = "ess @ [es @ [e]]"
  have p: "macro_fits desc ?p" "concat ?p \<noteq> []"
    using bw_holds_data [OF w] fit by (simp_all add: macro_fits_def)
  obtain w' where "bw_append_row row [] 0 (sb_writer sb) = Some (0, [], 0, w') \<and> bw_holds desc w' ?p [] \<or>
      bw_append_row row [] 0 (sb_writer sb) = Some (0, macro_of desc ?p, mb_cur_macro_seq (bw_current (sb_writer sb)), w') \<and>
        bw_holds desc w' [] []"
    using bw_append_built [OF w _ e(1) True fit] b by (auto simp: builder_ok_def macro_of_def)
  then show ?thesis
  proof (elim disjE conjE)
    assume a: "bw_append_row row [] 0 (sb_writer sb) = Some (0, [], 0, w')" "bw_holds desc w' ?p []"
    have "sb_append_row row sb = Some (0, sb\<lparr>sb_writer := w'\<rparr>)" using a(1) by (simp add: sb_append_row_def)
    moreover have "sb_holds desc m M dp mp (sb\<lparr>sb_writer := w'\<rparr>) parts ?p []" using h a(2) by (simp add: sb_holds_def)
    ultimately show ?thesis by fastforce
  next
    let ?q = "mb_cur_macro_seq (bw_current (sb_writer sb))"
    assume a: "bw_append_row row [] 0 (sb_writer sb) = Some (0, macro_of desc ?p, ?q, w')" "bw_holds desc w' [] []"
    let ?sb = "sb\<lparr>sb_writer := w', sb_macro_blocks := sb_macro_blocks sb @ [macro_of desc ?p], sb_macro_seqs := sb_macro_seqs sb @ [?q]\<rparr>"
    have "sb_append_row row sb = Some (0, ?sb)"
      using a(1) macro_bytes_nonempty by (simp add: sb_append_row_def macro_of_def)
    moreover have "sb_holds desc m M dp mp ?sb (parts @ [?p]) [] []" using h a(2) p by (auto simp: sb_holds_def)
    ultimately show ?thesis by fastforce
  qed
qed

lemma sb_rows_hold:
  assumes b: "builder_ok desc m M" and h: "sb_holds desc m M dp mp sb parts ess es"
    and rows: "\<forall>row \<in> set rows. wal_ok row \<and> m \<le> length (wal_bytes row) \<and> length (wal_bytes row) \<le> M"
  shows "\<exists>sb' parts' ess' es'. sb_append_rows rows sb = Some sb' \<and> sb_holds desc m M dp mp sb' parts' ess' es' \<and>
    concat (concat parts') @ concat ess' @ es' = concat (concat parts) @ concat ess @ es @ map wal_bytes rows"
  using h rows
proof (induction rows arbitrary: sb parts ess es)
  case (Cons row rows)
  have f: "flat_row row = Some (wal_bytes row)" using Cons.prems(2) flat_row_wal wal_ok_bytes by simp
  obtain sb1 parts1 ess1 es1 where 1: "sb_append_row row sb = Some (0, sb1)" "sb_holds desc m M dp mp sb1 parts1 ess1 es1"
    "concat (concat parts1) @ concat ess1 @ es1 = concat (concat parts) @ concat ess @ es @ [wal_bytes row]"
    using sb_append_holds [OF b Cons.prems(1) f] Cons.prems(2) by auto
  obtain sb2 parts2 ess2 es2 where 2: "sb_append_rows rows sb1 = Some sb2" "sb_holds desc m M dp mp sb2 parts2 ess2 es2"
    "concat (concat parts2) @ concat ess2 @ es2 = (concat (concat parts1) @ concat ess1 @ es1) @ map wal_bytes rows"
    using Cons.IH [OF 1(2)] Cons.prems(2) by auto
  have "concat (concat parts2) @ concat ess2 @ es2 = concat (concat parts) @ concat ess @ es @ map wal_bytes (row # rows)"
    unfolding 2(3) 1(3) by simp
  moreover have "sb_append_rows (row # rows) sb = Some sb2" using 1(1) 2(1) by simp
  ultimately show ?case using 2(2) by blast
qed auto

lemma pending_fits:
  assumes b: "builder_ok desc m M" and h: "sb_holds desc m M dp mp sb parts ess es" and ne: "es \<noteq> []"
  shows "int (length (micro_bytes desc es)) \<le> mb_get_remain_size (bw_current (sb_writer sb))"
proof -
  obtain es0 e where es: "es = es0 @ [e]" using ne by (metis rev_exhaust)
  have "\<not> micro_full desc es0" using h ne by (auto simp: sb_holds_def micro_full_def es)
  then have "int (length (micro_bytes desc es)) \<le> ds_micro_block_size desc"
    unfolding es using b h es by (intro micro_fits [of desc m M]) (auto simp: builder_ok_def sb_holds_def)
  also have "\<dots> \<le> mb_get_remain_size (bw_current (sb_writer sb))" using h by (simp add: sb_holds_def bw_holds_def)
  finally show ?thesis .
qed

lemma blocks_bounded:
  assumes "\<forall>p \<in> set parts. macro_fits desc p"
  shows "length (concat (map (macro_of desc) parts)) \<le> length parts * (ch_size + fh_size + nat (ds_macro_block_size desc))"
  using assms
proof (induction parts)
  case (Cons p parts)
  then have "int (HEADER_RESERVE + length (concat (map (micro_bytes desc) p))) \<le> ds_macro_block_size desc"
    by (simp add: macro_fits_def)
  then have "HEADER_RESERVE + length (concat (map (micro_bytes desc) p)) \<le> nat (ds_macro_block_size desc)" by linarith
  then have "length (macro_of desc p) \<le> ch_size + fh_size + nat (ds_macro_block_size desc)" by (simp add: length_macro_of)
  then show ?case using Cons by simp
qed simp

lemma length_le_concat: "\<forall>x \<in> set xs. x \<noteq> [] \<Longrightarrow> length xs \<le> length (concat xs)"
proof (induction xs)
  case (Cons x xs)
  then show ?case by (cases x) simp_all
qed simp

lemma parts_bounded:
  assumes "\<forall>p \<in> set parts. concat p \<noteq> []"
  shows "length parts \<le> length (concat (concat parts))"
proof -
  have "concat (map concat parts) = concat (concat parts)" by (induction parts) simp_all
  then show ?thesis using length_le_concat [of "map concat parts"] assms by (metis (no_types, lifting) imageE length_map set_map)
qed

lemma sb_close_holds:
  assumes b: "builder_ok desc m M" and h: "sb_holds desc m M dp mp sb parts ess es"
    and can: "can dp" "can mp" "dp \<noteq> mp"
    and bound: "(length (concat (concat parts)) + 1) * (ch_size + fh_size + nat (ds_macro_block_size desc)) < 2 ^ 63"
  obtains pf sb' fs' where "pf = (if es = [] then ess else ess @ [es])" "sb_close can sb fs = Some (0, sb', fs')"
    "sst_holds (sb_sstable sb') fs' (map (macro_of desc) (parts @ [pf]))" "sst_is_empty (sb_sstable sb')"
    "\<exists>t2. sst_init dp mp sst_new fs' = (0, t2) \<and> sst_holds t2 fs' (map (macro_of desc) (parts @ [pf])) \<and> sst_is_empty t2"
proof -
  define pf where "pf = (if es = [] then ess else ess @ [es])"
  let ?bs = "map (macro_of desc) (parts @ [pf])"
  have w: "bw_holds desc (sb_writer sb) ess es" and d: "desc_ok desc" using h b by (simp_all add: sb_holds_def builder_ok_def)
  have fit: "es = [] \<or> int (length (micro_bytes desc es)) \<le> mb_get_remain_size (bw_current (sb_writer sb))"
    using pending_fits [OF b h] by blast
  have r: "bw_ready desc (sb_writer sb) es (length (concat ess) + length es) (length ess) (map (micro_bytes desc) ess)"
    using w by (simp add: bw_holds_ready)
  obtain q w' where c: "bw_close [] [] (sb_writer sb) = Some (0, [macro_of desc pf], [q], w')"
    using bw_close_fits [OF r d fit, of "[]" "[]"] by (auto simp: macro_of_def pf_def split: if_splits)
  have pf: "macro_fits desc pf" using bw_holds_data [OF w] fit by (auto simp: pf_def macro_fits_def)
  have "length (concat ?bs) \<le> length (parts @ [pf]) * (ch_size + fh_size + nat (ds_macro_block_size desc))"
    using h pf by (intro blocks_bounded) (auto simp: sb_holds_def)
  also have "length (parts @ [pf]) \<le> length (concat (concat parts)) + 1"
    using parts_bounded [of parts] h by (simp add: sb_holds_def)
  finally have len: "length (concat ?bs) < 2 ^ 63" using bound by (meson le_less_trans mult_le_mono1)
  have "length ?bs \<le> length (concat ?bs)"
    using macro_bytes_nonempty by (intro length_le_concat) (auto simp: macro_of_def)
  then have lb: "length ?bs < 2 ^ 63" using len by linarith
  have qs: "length (sb_macro_seqs sb @ [q]) = length ?bs" using h by (simp add: sb_holds_def)
  have root: "length (ri_root_block_data (sm_data_root_info (sb_meta sb))) < 2 ^ 63" using h by (simp add: sb_holds_def)
  obtain t fs' where t: "sst_create_from_blocks can ?bs (sb_macro_seqs sb @ [q]) (sb_meta sb) dp mp (sb_sstable sb) fs = Some (0, t, fs')"
    "sst_holds t fs' ?bs" "sst_get_row_count t = bm_row_count (sm_basic_meta (sb_meta sb))"
    "\<exists>t2. sst_init dp mp sst_new fs' = (0, t2) \<and> sst_holds t2 fs' ?bs \<and> sst_get_row_count t2 = sst_get_row_count t"
    using sst_create_holds [OF can qs len lb root] by metis
  have "sst_is_empty t" using t(3) h by (simp add: sst_is_empty_def sst_get_row_count_def sb_holds_def)
  then show ?thesis
    using that [of pf "sb\<lparr>sb_writer := w', sb_macro_blocks := ?bs, sb_macro_seqs := sb_macro_seqs sb @ [q], sb_sstable := t, sb_is_closed := True\<rparr>" fs']
      c t h pf_def by (auto simp: sb_close_def sb_holds_def sst_is_empty_def sst_get_row_count_def)
qed

section \<open>Properties of SSTables and merges\<close>

text \<open>
  C30. A table can be read back: after its blocks have been written, \<^verbatim>\<open>read_macro_block\<close> returns each
  block as it was given, for the table object itself and for a fresh one opened on the two files.
\<close>

theorem sstable_readback:
  assumes "can dp" "can mp" "dp \<noteq> mp" "length qs = length bs" "length (concat bs) < 2 ^ 63" "length bs < 2 ^ 63"
    "length (ri_root_block_data (sm_data_root_info m)) < 2 ^ 63"
  shows "\<exists>t1 t2 fs'. sst_create_from_blocks can bs qs m dp mp t fs = Some (0, t1, fs') \<and>
    sst_init dp mp sst_new fs' = (0, t2) \<and>
    (\<forall>i < length bs. \<forall>out. sst_read_macro_block (int i) out t1 fs' = Some (0, bs ! i) \<and>
       sst_read_macro_block (int i) out t2 fs' = Some (0, bs ! i))"
proof -
  obtain t1 fs' where t: "sst_create_from_blocks can bs qs m dp mp t fs = Some (0, t1, fs')" "sst_holds t1 fs' bs"
    "\<exists>t2. sst_init dp mp sst_new fs' = (0, t2) \<and> sst_holds t2 fs' bs \<and> sst_get_row_count t2 = sst_get_row_count t1"
    using sst_create_holds [OF assms] by metis
  then show ?thesis using sst_read_holds by blast
qed

theorem sstable_readback_witness:
  "\<exists>t1 t2 fs'. sst_create_from_blocks (\<lambda>_. True) [[1, 2, 3], [4]] [7, 8] sm_new ''d'' ''m'' sst_new Map.empty = Some (0, t1, fs') \<and>
    sst_init ''d'' ''m'' sst_new fs' = (0, t2) \<and>
    (\<forall>i < length [[1, 2, 3], [4 :: byte]]. \<forall>out. sst_read_macro_block (int i) out t1 fs' = Some (0, [[1, 2, 3], [4]] ! i) \<and>
       sst_read_macro_block (int i) out t2 fs' = Some (0, [[1, 2, 3], [4]] ! i))"
  by (rule sstable_readback) (simp_all add: sm_new_def)

lemma mini_merge_run:
  assumes b: "builder_ok desc m M" and can: "can dp" "can mp" "dp \<noteq> mp"
    and scan: "mt_scan ctx_init rk_empty False (rk_of_bytes [0xFF, 0xFF, 0xFF, 0xFF]) False [] mt = Some (r, rows)"
    and rows: "\<forall>row \<in> set rows. wal_ok row \<and> m \<le> length (wal_bytes row) \<and> length (wal_bytes row) \<le> M"
    and bound: "(length rows + 1) * (ch_size + fh_size + nat (ds_macro_block_size desc)) < 2 ^ 63"
  obtains t1 fs' t2 parts where "mini_merge can mt desc dp mp fs = Some (0, t1, fs')" "sst_is_empty t1"
    "sst_init dp mp sst_new fs' = (0, t2)" "sst_holds t2 fs' (map (macro_of desc) parts)"
    "concat (concat parts) = map wal_bytes rows"
proof -
  obtain sb0 where i: "sb_init desc dp mp sb_new = Some (0, sb0)" "sb_holds desc m M dp mp sb0 [] [] []"
    using sb_init_holds [OF b] by blast
  obtain sb1 parts ess es where a: "sb_append_rows rows sb0 = Some sb1" "sb_holds desc m M dp mp sb1 parts ess es"
    "concat (concat parts) @ concat ess @ es = map wal_bytes rows"
    using sb_rows_hold [OF b i(2) rows] by auto
  have "length (concat (concat parts)) \<le> length rows" using arg_cong [OF a(3), of length] by simp
  then have bound': "(length (concat (concat parts)) + 1) * (ch_size + fh_size + nat (ds_macro_block_size desc)) < 2 ^ 63"
    using bound by (meson add_le_mono1 le_less_trans mult_le_mono1)
  obtain pf sb2 fs' where c: "pf = (if es = [] then ess else ess @ [es])" "sb_close can sb1 fs = Some (0, sb2, fs')"
    "sst_is_empty (sb_sstable sb2)"
    "\<exists>t2. sst_init dp mp sst_new fs' = (0, t2) \<and> sst_holds t2 fs' (map (macro_of desc) (parts @ [pf])) \<and> sst_is_empty t2"
    using sb_close_holds [OF b a(2) can bound'] by metis
  obtain t2 where t2: "sst_init dp mp sst_new fs' = (0, t2)" "sst_holds t2 fs' (map (macro_of desc) (parts @ [pf]))"
    using c(4) by blast
  have "mini_merge can mt desc dp mp fs = Some (0, sb_sstable sb2, fs')"
    using i(1) scan a(1) c(2) by (simp add: mini_merge_def)
  moreover have "concat (concat (parts @ [pf])) = map wal_bytes rows" using a(3) c(1) by auto
  ultimately show ?thesis using that [OF _ c(3) t2] by blast
qed


text \<open>A memtable with one row, as the merges below see it.\<close>

definition tiny_desc :: ObDataStoreDesc where
  "tiny_desc = ds_init\<lparr>ds_micro_block_size := 8192, ds_macro_block_size := 12288\<rparr>"

lemma tiny_builder_ok: "builder_ok tiny_desc 11 11"
  by (simp add: builder_ok_def desc_ok_def sizes_ok_def tiny_desc_def HEADER_RESERVE_def ub_size_def)

lemma one_row_memtable:
  obtains mt row where "mt_set (\<lambda>a b l. Some (0, l)) ctx_init (sample_row 7) (snd (mt_init 1 mt_new)) () = Some (0, mt, ())"
    "mt_wf mt" "mt_scan ctx_init rk_empty False (rk_of_bytes [0xFF, 0xFF, 0xFF, 0xFF]) False [] mt = Some (0, [row])"
    "wal_ok row" "length (wal_bytes row) = 11"
proof -
  let ?r = "sample_row 7" and ?mt = "snd (mt_init 1 mt_new)"
  let ?h = "key_hash (row_rowkey ?r)" and ?v = "new_version (ctx_tx_id ctx_init) (row_data ?r)"
  have a: "mt_wf ?mt" "\<not> mt_is_frozen ?mt" "mt_abs ?mt = Map.empty" using mt_rel_init [of 1] by (simp_all add: mt_rel_def)
  have log: "(case mt_log_handler ?mt of None \<Rightarrow> Some (0, ()) | Some a \<Rightarrow> (\<lambda>a b l. Some (0, l)) a (wal_bytes ?r) ()) = Some (0, ())"
    by (simp add: mt_init_def mt_new_def)
  obtain rc mt where s: "mt_set (\<lambda>a b l. Some (0, l)) ctx_init ?r ?mt () = Some (rc, mt, ())" "mt_wf mt"
    "(0::ret) = 0 \<longrightarrow> (rc, mt_abs mt) = spec_set ctx_init ?r (mt_abs ?mt)"
    using mt_set_correct [where app = "\<lambda>a b l. Some (0, l)" and l = "()" and ctx = ctx_init,
        OF a(1,2) wal_ok_bytes [OF sample_row_ok] log] by metis
  have abs: "rc = 0" "mt_abs mt = [?h \<mapsto> (0, [?v])]"
    using s(3) a(3) by (simp_all add: spec_set_def spec_write_def ctx_init_def)
  let ?row = "version_row (ctx_tx_id ctx_init) (row_data ?r)"
  have "node_row ?v = Some ?row" by (rule node_row_new_version) simp
  moreover have "wal_ok ?row" "length (wal_bytes ?row) = 11"
    by (simp_all add: version_row_def row_data_def data_image_def sample_row_def wal_ok_def
        wal_record_def row_init_def rk_wf_def rk_empty_def dml_named_def Let_def)
  moreover obtain hs where hs: "sorted_wrt (<) hs" "set hs = {?h}"
    "mt_scan ctx_init rk_empty False (rk_of_bytes [0xFF, 0xFF, 0xFF, 0xFF]) False [] mt = Some (0, concat (map (newest_row (mt_abs mt)) hs))"
    using mt_scan_correct [OF s(2)] btree_hashes [of "mt_query_engine mt"] s(2) abs(2) by (auto simp: mt_wf_def)
  moreover have "hs = [?h]"
  proof -
    have "distinct hs" using hs(1) by (simp add: strict_sorted_iff)
    then show ?thesis using hs(2) by (metis distinct_card card.empty card_insert_disjoint empty_iff finite.emptyI length_Suc_conv length_0_conv list.set(1) list.set_intros(1) singletonD)
  qed
  ultimately show ?thesis using that s(1,2) abs by (simp add: newest_row_def)
qed


lemma newest_row_no_key: "row \<in> set (newest_row S h) \<Longrightarrow> row_rowkey row = rk_empty"
  by (auto simp: newest_row_def node_row_def row_init_def Let_def split: option.splits list.splits if_splits)

text \<open>
  The rows of a scan carry no key, so a mini merge writes rows with empty keys; and the table
  counts no rows, so it reports itself empty.
\<close>

theorem mini_merge_forgets_keys:
  assumes wf: "mt_wf mt" and b: "builder_ok desc m M" and can: "can dp" "can mp" "dp \<noteq> mp"
    and scan: "mt_scan ctx_init rk_empty False (rk_of_bytes [0xFF, 0xFF, 0xFF, 0xFF]) False [] mt = Some (r, rows)"
    and rows: "\<forall>row \<in> set rows. wal_ok row \<and> m \<le> length (wal_bytes row) \<and> length (wal_bytes row) \<le> M"
    and bound: "(length rows + 1) * (ch_size + fh_size + nat (ds_macro_block_size desc)) < 2 ^ 63"
  shows "(\<forall>row \<in> set rows. row_rowkey row = rk_empty) \<and>
    (\<exists>t fs'. mini_merge can mt desc dp mp fs = Some (0, t, fs') \<and> sst_is_empty t)"
proof -
  have "\<exists>t fs'. mini_merge can mt desc dp mp fs = Some (0, t, fs') \<and> sst_is_empty t"
    using mini_merge_run [OF b can scan rows bound] by metis
  moreover have "\<forall>row \<in> set rows. row_rowkey row = rk_empty"
    using scan mt_scan_correct [OF wf] newest_row_no_key by fastforce
  ultimately show ?thesis by blast
qed

theorem mini_merge_forgets_keys_witness:
  "\<exists>mt row t fs'. mt_set (\<lambda>a b l. Some (0, l)) ctx_init (sample_row 7) (snd (mt_init 1 mt_new)) () = Some (0, mt, ()) \<and>
    mt_scan ctx_init rk_empty False (rk_of_bytes [0xFF, 0xFF, 0xFF, 0xFF]) False [] mt = Some (0, [row]) \<and> row_rowkey row = rk_empty \<and>
    mini_merge (\<lambda>_. True) mt tiny_desc ''d'' ''m'' Map.empty = Some (0, t, fs') \<and> sst_is_empty t"
proof -
  obtain mt row where m: "mt_set (\<lambda>a b l. Some (0, l)) ctx_init (sample_row 7) (snd (mt_init 1 mt_new)) () = Some (0, mt, ())" "mt_wf mt"
    "mt_scan ctx_init rk_empty False (rk_of_bytes [0xFF, 0xFF, 0xFF, 0xFF]) False [] mt = Some (0, [row])"
    "wal_ok row" "length (wal_bytes row) = 11"
    using one_row_memtable by metis
  have r: "\<forall>row \<in> set [row]. wal_ok row \<and> 11 \<le> length (wal_bytes row) \<and> length (wal_bytes row) \<le> 11" using m(4,5) by simp
  have "(length [row] + 1) * (ch_size + fh_size + nat (ds_macro_block_size tiny_desc)) < 2 ^ 63"
    by (simp add: ch_size_def fh_size_def tiny_desc_def)
  from mini_merge_forgets_keys [OF m(2) tiny_builder_ok, of "\<lambda>_. True" "''d''" "''m''", OF _ _ _ m(3) r this, of Map.empty]
  show ?thesis using m(1,3) by simp
qed

text \<open>
  Minor and major merges do not read their inputs: whatever tables they are given, the table
  they write has a single macro block without rows.
\<close>

theorem merges_drop_their_inputs:
  assumes b: "builder_ok desc m M" and can: "can dp" "can mp" "dp \<noteq> mp"
    and bound: "ch_size + fh_size + nat (ds_macro_block_size desc) < 2 ^ 63"
  shows "\<exists>t fs'. minor_merge can inputs desc dp mp fs = Some (0, t, fs') \<and>
    major_merge can inputs old_major desc dp mp fs = Some (0, t, fs') \<and> sst_holds t fs' [macro_of desc []]"
proof -
  obtain sb0 where i: "sb_init desc dp mp sb_new = Some (0, sb0)" "sb_holds desc m M dp mp sb0 [] [] []"
    using sb_init_holds [OF b] by blast
  have bound': "(length (concat (concat ([] :: bytes list list list))) + 1) * (ch_size + fh_size + nat (ds_macro_block_size desc)) < 2 ^ 63"
    using bound by simp
  obtain pf sb2 fs' where c: "pf = (if [] = [] then [] else [] @ [[]])" "sb_close can sb0 fs = Some (0, sb2, fs')"
    "sst_holds (sb_sstable sb2) fs' (map (macro_of desc) ([] @ [pf]))"
    using sb_close_holds [OF b i(2) can bound'] by metis
  have f: "fold (\<lambda>sst sb. sb) xs sb = sb" for xs :: "ObSSTable option list" and sb :: ObSSTableBuilder by (induction xs) simp_all
  show ?thesis using i(1) c f by (simp add: minor_merge_def major_merge_def merge_sstables_def)
qed

theorem merges_drop_their_inputs_witness:
  "\<exists>t fs'. minor_merge (\<lambda>_. True) [Some sst_new] tiny_desc ''d'' ''m'' Map.empty = Some (0, t, fs') \<and>
    major_merge (\<lambda>_. True) [Some sst_new] (Some sst_new) tiny_desc ''d'' ''m'' Map.empty = Some (0, t, fs') \<and>
    sst_holds t fs' [macro_of tiny_desc []]"
  by (rule merges_drop_their_inputs [OF tiny_builder_ok]) (simp_all add: ch_size_def fh_size_def tiny_desc_def)

text \<open>
  The metadata file is read back into a fresh object with all counters, the root block and the
  list of macro blocks, but not the size of the root block, which stays zero.
\<close>

theorem sstable_meta_roundtrip:
  assumes "meta_ok m"
  shows "\<exists>b. sm_serialize m [] = Some (0, b) \<and> sm_deserialize b sm_new = (0, reloaded m)"
  using sm_serialize_ok [OF assms, of "[]"] sm_deserialize_ok [OF assms] by simp

theorem sstable_meta_roundtrip_witness:
  "\<exists>b. sm_serialize (snd (sm_set_root_index_block [1, 2] (snd (sm_add_macro_block 5 0 100 3 1 sm_new)))) [] = Some (0, b) \<and>
    sm_deserialize b sm_new = (0, reloaded (snd (sm_set_root_index_block [1, 2] (snd (sm_add_macro_block 5 0 100 3 1 sm_new)))))"
  by (rule sstable_meta_roundtrip) (simp add: meta_ok_def sm_set_root_index_block_def sm_add_macro_block_def sm_new_def Let_def)

end
