(* ===== verification/Ob_Tablet.thy ===== *)
theory Ob_Tablet
  imports Ob_SSTable
begin

text \<open>
  Tablets and the storage engine: \<^verbatim>\<open>storage/ls/ob_memtable_mgr\<close>, \<^verbatim>\<open>storage/ls/ob_freezer\<close>,
  \<^verbatim>\<open>storage/tablet/ob_tablet_table_store\<close>, \<^verbatim>\<open>storage/tablet/ob_tablet\<close>, \<^verbatim>\<open>storage/ls/ob_ls\<close> and
  \<^verbatim>\<open>storage/ob_record_scanner\<close>.

  Memtables, SSTables and tablets are shared by pointer, so their owners hold a heap of them.  The
  mutex of the memtable manager is part of its state: locking it again in the thread that holds
  it never returns.
\<close>

section \<open>Memtable manager\<close>

record ObMemTableMgr =
  mm_tablet_id :: int
  mm_active_memtable :: "nat option"
  mm_frozen_memtables :: "nat list"
  mm_heap :: "nat \<rightharpoonup> ObMemtable"
  mm_fresh :: nat
  mm_locked :: bool
  mm_is_inited :: bool

definition mm_new :: ObMemTableMgr where
  "mm_new = \<lparr>mm_tablet_id = 0, mm_active_memtable = None, mm_frozen_memtables = [], mm_heap = Map.empty, mm_fresh = 0,
     mm_locked = False, mm_is_inited = False\<rparr>"

definition mm_init :: "int \<Rightarrow> ObMemTableMgr \<Rightarrow> ret \<times> ObMemTableMgr" where
  "mm_init tablet_id m = (0, m\<lparr>mm_tablet_id := tablet_id, mm_is_inited := True\<rparr>)"

definition mm_lock :: "ObMemTableMgr \<Rightarrow> ObMemTableMgr option" where
  "mm_lock m = (if mm_locked m then None else Some (m\<lparr>mm_locked := True\<rparr>))"

definition mm_unlock :: "ObMemTableMgr \<Rightarrow> ObMemTableMgr" where
  "mm_unlock m = m\<lparr>mm_locked := False\<rparr>"

definition mm_get_active_memtable :: "ObMemTableMgr \<Rightarrow> (nat \<times> ObMemTableMgr) option" where
  "mm_get_active_memtable m = do {
     m \<leftarrow> mm_lock m;
     case mm_active_memtable m of
       Some a \<Rightarrow> Some (a, mm_unlock m)
     | None \<Rightarrow>
         let a = mm_fresh m;
             mt = snd (mt_init (mm_tablet_id m) mt_new)
         in Some (a, mm_unlock (m\<lparr>mm_active_memtable := Some a, mm_heap := (mm_heap m)(a \<mapsto> mt), mm_fresh := a + 1\<rparr>))
   }"

definition mm_set_is_tablet_freeze :: "ObMemTableMgr \<Rightarrow> (ret \<times> ObMemTableMgr) option" where
  "mm_set_is_tablet_freeze m = do {
     m \<leftarrow> mm_lock m;
     case mm_active_memtable m of
       None \<Rightarrow> Some (0, mm_unlock m)
     | Some a \<Rightarrow> do {
         mt \<leftarrow> mm_heap m a;
         let m = m\<lparr>mm_heap := (mm_heap m)(a \<mapsto> mt_set_frozen mt), mm_frozen_memtables := mm_frozen_memtables m @ [a],
                   mm_active_memtable := None\<rparr>;
         (_, m) \<leftarrow> mm_get_active_memtable m;
         Some (0, mm_unlock m)
       }
   }"

definition mm_get_all_memtables :: "ObMemTableMgr \<Rightarrow> nat list \<Rightarrow> (nat list \<times> ObMemTableMgr) option" where
  "mm_get_all_memtables m out = do {
     m \<leftarrow> mm_lock m;
     Some (out @ (case mm_active_memtable m of None \<Rightarrow> [] | Some a \<Rightarrow> [a]) @ mm_frozen_memtables m, mm_unlock m)
   }"

fun sum_occupy :: "(nat \<rightharpoonup> ObMemtable) \<Rightarrow> nat list \<Rightarrow> int option" where
  "sum_occupy heap [] = Some 0"
| "sum_occupy heap (a # as) = do {
     mt \<leftarrow> heap a;
     n \<leftarrow> sum_occupy heap as;
     Some (mt_occupy_size mt + n)
   }"

definition mm_get_total_occupied_size :: "ObMemTableMgr \<Rightarrow> (int \<times> ObMemTableMgr) option" where
  "mm_get_total_occupied_size m = do {
     m \<leftarrow> mm_lock m;
     n \<leftarrow> sum_occupy (mm_heap m) ((case mm_active_memtable m of None \<Rightarrow> [] | Some a \<Rightarrow> [a]) @ mm_frozen_memtables m);
     Some (n, mm_unlock m)
   }"

definition mm_remove_frozen_memtable :: "nat \<Rightarrow> ObMemTableMgr \<Rightarrow> (ret \<times> ObMemTableMgr) option" where
  "mm_remove_frozen_memtable a m = do {
     m \<leftarrow> mm_lock m;
     if a \<in> set (mm_frozen_memtables m) then
       Some (0, mm_unlock (m\<lparr>mm_heap := (mm_heap m)(a := None), mm_frozen_memtables := remove1 a (mm_frozen_memtables m)\<rparr>))
     else Some (-1, mm_unlock m)
   }"

section \<open>Freezer\<close>

text \<open>\<open>fz_mgr\<close> says whether the pointer to the manager is set; it is that of the tablet's store.\<close>

record ObFreezer =
  fz_mgr :: bool
  fz_threshold :: int
  fz_is_inited :: bool

definition fz_new :: ObFreezer where
  "fz_new = \<lparr>fz_mgr = False, fz_threshold = 0, fz_is_inited = False\<rparr>"

definition fz_init :: "bool \<Rightarrow> int \<Rightarrow> ObFreezer \<Rightarrow> ret \<times> ObFreezer" where
  "fz_init mgr memtable_size_threshold f =
     (0, f\<lparr>fz_mgr := mgr, fz_threshold := memtable_size_threshold, fz_is_inited := True\<rparr>)"

definition fz_try_freeze :: "ObFreezer \<Rightarrow> ObMemTableMgr \<Rightarrow> (bool \<times> ObMemTableMgr) option" where
  "fz_try_freeze f m =
     (if \<not> fz_is_inited f \<or> \<not> fz_mgr f then Some (False, m)
      else do {
        (total, m) \<leftarrow> mm_get_total_occupied_size m;
        if total \<ge> fz_threshold f then do {
          (_, m) \<leftarrow> mm_set_is_tablet_freeze m;
          Some (True, m)
        } else Some (False, m)
      })"

section \<open>Table store\<close>

record ObTableStore =
  ts_tablet_id :: int
  ts_memtable_mgr :: ObMemTableMgr
  ts_sstables :: "nat list"
  ts_sst_heap :: "nat \<rightharpoonup> ObSSTable"
  ts_log_handler :: "nat option"
  ts_is_inited :: bool

definition ts_new :: ObTableStore where
  "ts_new = \<lparr>ts_tablet_id = 0, ts_memtable_mgr = mm_new, ts_sstables = [], ts_sst_heap = Map.empty, ts_log_handler = None,
     ts_is_inited = False\<rparr>"

definition ts_init :: "int \<Rightarrow> ObTableStore \<Rightarrow> ret \<times> ObTableStore" where
  "ts_init tablet_id ts =
     (0, ts\<lparr>ts_tablet_id := tablet_id, ts_memtable_mgr := snd (mm_init tablet_id (ts_memtable_mgr ts)), ts_is_inited := True\<rparr>)"

definition ts_get_active_memtable :: "ObTableStore \<Rightarrow> (nat \<times> ObTableStore) option" where
  "ts_get_active_memtable ts = do {
     (a, m) \<leftarrow> mm_get_active_memtable (ts_memtable_mgr ts);
     Some (a, ts\<lparr>ts_memtable_mgr := m\<rparr>)
   }"

definition ts_add_sstable :: "nat \<Rightarrow> ObTableStore \<Rightarrow> ret \<times> ObTableStore" where
  "ts_add_sstable sst ts = (0, ts\<lparr>ts_sstables := ts_sstables ts @ [sst]\<rparr>)"

definition ts_remove_sstable :: "nat \<Rightarrow> ObTableStore \<Rightarrow> (ret \<times> ObTableStore) option" where
  "ts_remove_sstable sst ts =
     (if sst \<notin> set (ts_sstables ts) then Some (-1, ts)
      else do {
        _ \<leftarrow> ts_sst_heap ts sst;
        Some (0, ts\<lparr>ts_sst_heap := (ts_sst_heap ts)(sst := None), ts_sstables := remove1 sst (ts_sstables ts)\<rparr>)
      })"

definition ts_set_log_handler :: "nat option \<Rightarrow> ObTableStore \<Rightarrow> ObTableStore" where
  "ts_set_log_handler log_handler ts = ts\<lparr>ts_log_handler := log_handler\<rparr>"

text \<open>One memtable of \<^verbatim>\<open>get\<close>: the read, and whether it ends the search.\<close>

definition ts_get_one :: "ObStoreCtx \<Rightarrow> ObStoreRowkey \<Rightarrow> ObMemtable \<Rightarrow> ObStoreRow list \<Rightarrow> (bool \<times> ObStoreRow list) option" where
  "ts_get_one ctx rowkey mt results =
     (if mt_is_empty mt then Some (False, results)
      else do {
        (ret, results) \<leftarrow> mt_get ctx rowkey results mt;
        Some (ret = 0 \<and> results \<noteq> [], results)
      })"

fun ts_get_frozen :: "ObStoreCtx \<Rightarrow> ObStoreRowkey \<Rightarrow> (nat \<rightharpoonup> ObMemtable) \<Rightarrow> nat list \<Rightarrow> ObStoreRow list
    \<Rightarrow> (ret \<times> ObStoreRow list) option" where
  "ts_get_frozen ctx rowkey heap [] results = Some (-1, results)"
| "ts_get_frozen ctx rowkey heap (a # as) results = do {
     mt \<leftarrow> heap a;
     (found, results) \<leftarrow> ts_get_one ctx rowkey mt results;
     if found then Some (0, results) else ts_get_frozen ctx rowkey heap as results
   }"

text \<open>The loop over the SSTables has an empty body; a dangling pointer in it is dereferenced.\<close>

definition ts_visit_sstables :: "ObTableStore \<Rightarrow> unit option" where
  "ts_visit_sstables ts = (if \<forall>a \<in> set (ts_sstables ts). ts_sst_heap ts a \<noteq> None then Some () else None)"

definition ts_get :: "ObStoreCtx \<Rightarrow> ObStoreRowkey \<Rightarrow> ObTableStore \<Rightarrow> (ret \<times> ObStoreRow list \<times> ObTableStore) option" where
  "ts_get ctx rowkey ts = do {
     (active, ts) \<leftarrow> ts_get_active_memtable ts;
     mt \<leftarrow> mm_heap (ts_memtable_mgr ts) active;
     (found, results) \<leftarrow> ts_get_one ctx rowkey mt [];
     if found then Some (0, results, ts)
     else do {
       (ret, results) \<leftarrow> ts_get_frozen ctx rowkey (mm_heap (ts_memtable_mgr ts)) (mm_frozen_memtables (ts_memtable_mgr ts)) results;
       if ret = 0 then Some (0, results, ts)
       else do {
         _ \<leftarrow> ts_visit_sstables ts;
         Some (-1, results, ts)
       }
     }
   }"

fun ts_scan_frozen :: "ObStoreCtx \<Rightarrow> ObStoreRowkey \<Rightarrow> bool \<Rightarrow> ObStoreRowkey \<Rightarrow> bool \<Rightarrow> (nat \<rightharpoonup> ObMemtable) \<Rightarrow> nat list
    \<Rightarrow> ObStoreRow list \<Rightarrow> ObStoreRow list option" where
  "ts_scan_frozen ctx sk se ek ee heap [] results = Some results"
| "ts_scan_frozen ctx sk se ek ee heap (a # as) results = do {
     mt \<leftarrow> heap a;
     (_, tmp) \<leftarrow> mt_scan ctx sk se ek ee [] mt;
     ts_scan_frozen ctx sk se ek ee heap as (results @ tmp)
   }"

definition ts_scan :: "ObStoreCtx \<Rightarrow> ObStoreRowkey \<Rightarrow> bool \<Rightarrow> ObStoreRowkey \<Rightarrow> bool \<Rightarrow> ObTableStore
    \<Rightarrow> (ret \<times> ObStoreRow list \<times> ObTableStore) option" where
  "ts_scan ctx sk se ek ee ts = do {
     (active, ts) \<leftarrow> ts_get_active_memtable ts;
     mt \<leftarrow> mm_heap (ts_memtable_mgr ts) active;
     (_, results) \<leftarrow> mt_scan ctx sk se ek ee [] mt;
     results \<leftarrow> ts_scan_frozen ctx sk se ek ee (mm_heap (ts_memtable_mgr ts)) (mm_frozen_memtables (ts_memtable_mgr ts)) results;
     Some (0, results, ts)
   }"

section \<open>Tablet\<close>

record ObTablet =
  tb_tablet_id :: int
  tb_table_store :: ObTableStore
  tb_freezer :: ObFreezer
  tb_log_handler :: "nat option"
  tb_log_service :: bool
  tb_is_inited :: bool

definition tb_new :: ObTablet where
  "tb_new = \<lparr>tb_tablet_id = 0, tb_table_store = ts_new, tb_freezer = fz_new, tb_log_handler = None, tb_log_service = False,
     tb_is_inited = False\<rparr>"

text \<open>\<open>log_service\<close> is the service behind the pointer, or none when the pointer is null.\<close>

definition tb_init :: "io \<Rightarrow> io \<Rightarrow> io \<Rightarrow> int \<Rightarrow> ('h, 'r) ObLogService option \<Rightarrow> ObTablet
    \<Rightarrow> (ret \<times> ObTablet \<times> ('h, 'r) ObLogService option) option" where
  "tb_init io1 io2 io3 tablet_id log_service tb =
     (let tb = tb\<lparr>tb_tablet_id := tablet_id, tb_table_store := snd (ts_init tablet_id (tb_table_store tb)),
                  tb_freezer := snd (fz_init True (int DEFAULT_MEMTABLE_SIZE) (tb_freezer tb))\<rparr>
      in case log_service of
           None \<Rightarrow> Some (0, tb\<lparr>tb_is_inited := True\<rparr>, None)
         | Some svc \<Rightarrow> do {
             (ret, handler, svc) \<leftarrow> open_ls io1 io2 io3 tablet_id (tb_log_handler tb) svc;
             let tb = tb\<lparr>tb_log_service := True, tb_log_handler := handler\<rparr>;
             if ret \<noteq> 0 then Some (ret, tb, Some svc)
             else Some (0, tb\<lparr>tb_table_store := ts_set_log_handler handler (tb_table_store tb), tb_is_inited := True\<rparr>, Some svc)
           })"

definition tb_destroy :: "ObTablet \<Rightarrow> ('h, 'r) ObLogService \<Rightarrow> ObTablet \<times> ('h, 'r) ObLogService" where
  "tb_destroy tb svc =
     (if tb_log_handler tb \<noteq> None \<and> tb_log_service tb
      then (tb\<lparr>tb_log_handler := None\<rparr>, snd (remove_ls (tb_tablet_id tb) svc))
      else (tb, svc))"

definition tb_recover :: "('h, 's) replayer \<Rightarrow> (nat \<Rightarrow> byte) \<Rightarrow> io \<Rightarrow> ObTablet \<Rightarrow> ('h, 'r) ObLogService \<Rightarrow> 's
    \<Rightarrow> (ret \<times> 's) option" where
  "tb_recover rep junk io tb svc s =
     (if \<not> tb_log_service tb then Some (0, s) else replay_ls rep junk io (tb_tablet_id tb) svc s)"

section \<open>Engine\<close>

record ObStore =
  os_base_dir :: string
  os_tablets_by_name :: "string \<rightharpoonup> nat"
  os_tablets_by_id :: "int \<rightharpoonup> nat"
  os_heap :: "nat \<rightharpoonup> ObTablet"
  os_fresh :: nat
  os_is_inited :: bool

definition os_new :: ObStore where
  "os_new = \<lparr>os_base_dir = [], os_tablets_by_name = Map.empty, os_tablets_by_id = Map.empty, os_heap = Map.empty, os_fresh = 0,
     os_is_inited = False\<rparr>"

definition os_init :: "string \<Rightarrow> ObStore \<Rightarrow> ret \<times> ObStore" where
  "os_init base_dir st = (0, st\<lparr>os_base_dir := base_dir, os_is_inited := True\<rparr>)"

text \<open>The tablet a table gets: \<^verbatim>\<open>tablet->init(tablet_id)\<close> without a log service.\<close>

definition os_tablet :: "int \<Rightarrow> ObTablet" where
  "os_tablet tablet_id =
     (case tb_init io_good io_good io_good tablet_id (None :: (nat, nat) ObLogService option) tb_new of
        Some (_, tb, _) \<Rightarrow> tb | None \<Rightarrow> tb_new)"

definition os_create_tablet :: "string \<Rightarrow> int \<Rightarrow> ObStore \<Rightarrow> ret \<times> ObStore" where
  "os_create_tablet table_name tablet_id st =
     (if os_tablets_by_name st table_name \<noteq> None then (-1, st)
      else let a = os_fresh st
           in (0, st\<lparr>os_heap := (os_heap st)(a \<mapsto> os_tablet tablet_id), os_fresh := a + 1,
                     os_tablets_by_name := (os_tablets_by_name st)(table_name \<mapsto> a),
                     os_tablets_by_id := (os_tablets_by_id st)(tablet_id \<mapsto> a)\<rparr>))"

definition os_get_tablet_by_name :: "string \<Rightarrow> ObStore \<Rightarrow> nat option" where
  "os_get_tablet_by_name table_name st = os_tablets_by_name st table_name"

definition os_get_tablet_by_id :: "int \<Rightarrow> ObStore \<Rightarrow> nat option" where
  "os_get_tablet_by_id tablet_id st = os_tablets_by_id st tablet_id"

definition os_drop_tablet :: "string \<Rightarrow> ObStore \<Rightarrow> (ret \<times> ObStore) option" where
  "os_drop_tablet table_name st =
     (case os_tablets_by_name st table_name of
        None \<Rightarrow> Some (-1, st)
      | Some a \<Rightarrow> do {
          t \<leftarrow> os_heap st a;
          Some (0, st\<lparr>os_tablets_by_name := (os_tablets_by_name st)(table_name := None),
                      os_tablets_by_id := (os_tablets_by_id st)(tb_tablet_id t := None),
                      os_heap := (os_heap st)(a := None)\<rparr>)
        })"

text \<open>\<open>order\<close> lists the tablets in the order in which the hash map is iterated.\<close>

fun os_try_freeze_all :: "nat list \<Rightarrow> ObStore \<Rightarrow> ObStore option" where
  "os_try_freeze_all [] st = Some st"
| "os_try_freeze_all (a # order) st = do {
     tb \<leftarrow> os_heap st a;
     (_, m) \<leftarrow> fz_try_freeze (tb_freezer tb) (ts_memtable_mgr (tb_table_store tb));
     let tb = tb\<lparr>tb_table_store := (tb_table_store tb)\<lparr>ts_memtable_mgr := m\<rparr>\<rparr>;
     os_try_freeze_all order (st\<lparr>os_heap := (os_heap st)(a \<mapsto> tb)\<rparr>)
   }"

section \<open>Record scanner\<close>

record ObRecordScanner =
  rs_table_store :: "ObTableStore option"
  rs_row_data_cache :: "bytes list"
  rs_current_idx :: int
  rs_is_open :: bool

definition rs_new :: "ObTableStore option \<Rightarrow> ObRecordScanner" where
  "rs_new table_store = \<lparr>rs_table_store = table_store, rs_row_data_cache = [], rs_current_idx = -1, rs_is_open = False\<rparr>"

definition rs_open_scan :: "ObRecordScanner \<Rightarrow> (RC \<times> ObRecordScanner) option" where
  "rs_open_scan rs =
     (case rs_table_store rs of
        None \<Rightarrow> Some (INTERNAL, rs)
      | Some ts \<Rightarrow> do {
          let ctx = ctx_init\<lparr>ctx_tx_id := 0, ctx_snapshot_version := OB_INVALID_VERSION\<rparr>;
          (ret, rows, ts) \<leftarrow> ts_scan ctx rk_empty False (rk_of_bytes (replicate 8 0xFF)) False ts;
          let rs = rs\<lparr>rs_table_store := Some ts\<rparr>;
          if ret \<noteq> 0 then Some (INTERNAL, rs)
          else Some (SUCCESS, rs\<lparr>rs_row_data_cache := rs_row_data_cache rs @
                       map row_value (filter (\<lambda>row. \<not> row_is_deleted row \<and> row_value row \<noteq> []) rows),
                     rs_current_idx := 0, rs_is_open := True\<rparr>)
        })"

definition rs_close_scan :: "ObRecordScanner \<Rightarrow> RC \<times> ObRecordScanner" where
  "rs_close_scan rs = (SUCCESS, rs\<lparr>rs_row_data_cache := [], rs_current_idx := -1, rs_is_open := False\<rparr>)"

definition rs_next_record :: "bytes \<Rightarrow> ObRecordScanner \<Rightarrow> RC \<times> bytes \<times> ObRecordScanner" where
  "rs_next_record out rs =
     (if \<not> rs_is_open rs then (INTERNAL, out, rs)
      else if rs_current_idx rs \<ge> int (length (rs_row_data_cache rs)) then (RECORD_EOF, out, rs)
      else (SUCCESS, rs_row_data_cache rs ! nat (rs_current_idx rs), rs\<lparr>rs_current_idx := rs_current_idx rs + 1\<rparr>))"

section \<open>Freezing\<close>

lemma mm_unlock_lock [simp]: "\<not> mm_locked m \<Longrightarrow> mm_unlock (m\<lparr>mm_locked := True\<rparr>) = m"
  by (cases m) (simp add: mm_unlock_def)

lemma mm_freeze_result:
  assumes "\<not> mm_locked m"
  shows "mm_set_is_tablet_freeze m = (if mm_active_memtable m = None then Some (0, m) else None)"
proof (cases "mm_active_memtable m")
  case None
  then show ?thesis using assms by (simp add: mm_set_is_tablet_freeze_def mm_lock_def)
next
  case (Some a)
  then show ?thesis
    using assms by (cases "mm_heap m a") (simp_all add: mm_set_is_tablet_freeze_def mm_lock_def mm_get_active_memtable_def)
qed

text \<open>
  C40. Freezing never returns.  \<^verbatim>\<open>set_is_tablet_freeze\<close> calls \<^verbatim>\<open>get_active_memtable\<close> while it holds the
  mutex that the callee locks.  So \<^verbatim>\<open>try_freeze\<close> returns below the threshold and when there is no
  active memtable, and hangs whenever there is a memtable to freeze.
\<close>

theorem freeze_hangs:
  assumes "\<not> mm_locked m" "fz_is_inited f" "fz_mgr f"
    and "sum_occupy (mm_heap m) ((case mm_active_memtable m of None \<Rightarrow> [] | Some a \<Rightarrow> [a]) @ mm_frozen_memtables m) = Some occ"
  shows "fz_try_freeze f m =
    (if occ < fz_threshold f then Some (False, m) else if mm_active_memtable m = None then Some (True, m) else None)"
  using assms mm_freeze_result [OF assms(1)]
  by (simp add: fz_try_freeze_def mm_get_total_occupied_size_def mm_lock_def)

theorem freeze_hangs_witness:
  "fz_try_freeze (snd (fz_init True (int DEFAULT_MEMTABLE_SIZE) fz_new))
     (mm_new\<lparr>mm_active_memtable := Some 0, mm_heap := [0 \<mapsto> mt_new\<lparr>mt_occupy_size := 67108864\<rparr>]\<rparr>) = None"
  using freeze_hangs [of "mm_new\<lparr>mm_active_memtable := Some 0, mm_heap := [0 \<mapsto> mt_new\<lparr>mt_occupy_size := 67108864\<rparr>]\<rparr>"
      "snd (fz_init True (int DEFAULT_MEMTABLE_SIZE) fz_new)" 67108864]
  by (simp add: fz_init_def fz_new_def mm_new_def DEFAULT_MEMTABLE_SIZE_def)

section \<open>Reads of a table store\<close>

text \<open>A store whose memtables are the active one \<open>mt\<close> and the frozen ones \<open>mts\<close>, oldest first.\<close>

definition ts_holds :: "ObTableStore \<Rightarrow> ObMemtable \<Rightarrow> ObMemtable list \<Rightarrow> bool" where
  "ts_holds ts mt mts \<longleftrightarrow>
     (let m = ts_memtable_mgr ts
      in \<not> mm_locked m \<and> (\<exists>a. mm_active_memtable m = Some a \<and> mm_heap m a = Some mt) \<and>
         map (mm_heap m) (mm_frozen_memtables m) = map Some mts \<and> (\<forall>x \<in> set (mt # mts). mt_wf x) \<and>
         (\<forall>a \<in> set (ts_sstables ts). ts_sst_heap ts a \<noteq> None))"

definition mt_hit :: "ObStoreCtx \<Rightarrow> ObStoreRowkey \<Rightarrow> ObMemtable \<Rightarrow> ObStoreRow option" where
  "mt_hit ctx rk mt =
     (if mt_is_empty mt then None
      else case mt_get ctx rk [] mt of Some (r, row # rows) \<Rightarrow> (if r = 0 then Some row else None) | _ \<Rightarrow> None)"

lemma ts_active:
  assumes "ts_holds ts mt mts"
  obtains a where "ts_get_active_memtable ts = Some (a, ts)" "mm_heap (ts_memtable_mgr ts) a = Some mt"
proof -
  let ?m = "ts_memtable_mgr ts"
  obtain a where a: "mm_active_memtable ?m = Some a" "mm_heap ?m a = Some mt" "\<not> mm_locked ?m"
    using assms by (auto simp: ts_holds_def Let_def)
  then have "mm_get_active_memtable ?m = Some (a, ?m)" by (simp add: mm_get_active_memtable_def mm_lock_def)
  then show ?thesis using that a(2) by (simp add: ts_get_active_memtable_def)
qed

fun first_hit :: "ObStoreCtx \<Rightarrow> ObStoreRowkey \<Rightarrow> ObMemtable list \<Rightarrow> ObStoreRow option" where
  "first_hit ctx rk [] = None"
| "first_hit ctx rk (mt # mts) = (case mt_hit ctx rk mt of Some row \<Rightarrow> Some row | None \<Rightarrow> first_hit ctx rk mts)"

lemma ts_get_one_hit:
  assumes "mt_wf mt"
  shows "ts_get_one ctx rk mt [] = Some (case mt_hit ctx rk mt of None \<Rightarrow> (False, []) | Some row \<Rightarrow> (True, [row]))"
  by (simp add: ts_get_one_def mt_hit_def mt_get_correct [OF assms] split: option.split)

lemma ts_get_frozen_hit:
  assumes "\<forall>mt \<in> set mts. mt_wf mt" "map heap as = map Some mts"
  shows "ts_get_frozen ctx rk heap as [] = Some (case first_hit ctx rk mts of None \<Rightarrow> (-1, []) | Some row \<Rightarrow> (0, [row]))"
  using assms
proof (induction mts arbitrary: as)
  case (Cons mt mts)
  then obtain a as' where as: "as = a # as'" "heap a = Some mt" "map heap as' = map Some mts" by (cases as) auto
  then show ?case using Cons by (simp add: ts_get_one_hit split: option.split)
qed simp

text \<open>
  C37. A read of a tablet looks at the active memtable first, then at the frozen ones in the order
  in which they were frozen, and returns the row of the first that has a visible version.  With
  several frozen memtables the oldest wins, and SSTables are never read.
\<close>

theorem tablet_get_order:
  assumes h: "ts_holds ts mt mts"
  shows "ts_get ctx rk ts = Some (case first_hit ctx rk (mt # mts) of None \<Rightarrow> (-1, [], ts) | Some row \<Rightarrow> (0, [row], ts))"
proof -
  obtain a where a: "ts_get_active_memtable ts = Some (a, ts)" "mm_heap (ts_memtable_mgr ts) a = Some mt" using ts_active [OF h] .
  have wf: "mt_wf mt" "\<forall>x \<in> set mts. mt_wf x" using h by (simp_all add: ts_holds_def Let_def)
  have "map (mm_heap (ts_memtable_mgr ts)) (mm_frozen_memtables (ts_memtable_mgr ts)) = map Some mts" "ts_visit_sstables ts = Some ()"
    using h by (simp_all add: ts_holds_def ts_visit_sstables_def Let_def)
  then show ?thesis
    using a by (simp add: ts_get_def ts_get_one_hit [OF wf(1)] ts_get_frozen_hit [OF wf(2)] split: option.split)
qed

definition sample_store :: "ObMemtable \<Rightarrow> ObMemtable list \<Rightarrow> ObTableStore" where
  "sample_store mt mts = ts_new\<lparr>ts_memtable_mgr := mm_new\<lparr>mm_active_memtable := Some 0, mm_frozen_memtables := [1 ..< length mts + 1],
     mm_heap := (\<lambda>a. if a = 0 then Some mt else if a \<le> length mts then Some (mts ! (a - 1)) else None)\<rparr>\<rparr>"

lemma sample_store_holds: "\<forall>x \<in> set (mt # mts). mt_wf x \<Longrightarrow> ts_holds (sample_store mt mts) mt mts"
proof -
  have "map (\<lambda>a. if a = 0 then Some mt else if a \<le> length mts then Some (mts ! (a - 1)) else None) [1 ..< length mts + 1] = map Some mts"
    by (rule nth_equalityI) (simp_all del: upt_Suc)
  then show "\<forall>x \<in> set (mt # mts). mt_wf x \<Longrightarrow> ts_holds (sample_store mt mts) mt mts"
    by (simp add: ts_holds_def sample_store_def ts_new_def mm_new_def Let_def del: upt_Suc)
qed

theorem tablet_get_order_witness:
  "ts_get ctx_init (rk_of_bytes [1]) (sample_store (snd (mt_init 1 mt_new)) [snd (mt_init 1 mt_new)]) =
     Some (-1, [], sample_store (snd (mt_init 1 mt_new)) [snd (mt_init 1 mt_new)])"
proof -
  let ?mt = "snd (mt_init 1 mt_new)"
  have h: "ts_holds (sample_store ?mt [?mt]) ?mt [?mt]" using mt_wf_init [of 1] by (intro sample_store_holds) simp
  have "first_hit ctx_init (rk_of_bytes [1]) [?mt, ?mt] = None"
    by (simp add: mt_hit_def mt_is_empty_def mt_init_def mt_new_def)
  with tablet_get_order [OF h, of ctx_init "rk_of_bytes [1]"] show ?thesis by (simp del: first_hit.simps)
qed

section \<open>Scans\<close>

definition mt_rows :: "ObMemtable \<Rightarrow> ObStoreRow list" where
  "mt_rows mt = concat (map (newest_row (mt_abs mt)) (map fst (mv_btree (mt_query_engine mt))))"

lemma mt_scan_rows_eq: "mt_wf mt \<Longrightarrow> mt_scan ctx sk se ek ee results mt = Some (0, results @ mt_rows mt)"
  by (simp add: mt_scan_correct mt_rows_def)

lemma ts_scan_frozen_rows:
  assumes "\<forall>mt \<in> set mts. mt_wf mt" "map heap as = map Some mts"
  shows "ts_scan_frozen ctx sk se ek ee heap as results = Some (results @ concat (map mt_rows mts))"
  using assms
proof (induction mts arbitrary: as results)
  case (Cons mt mts)
  then obtain a as' where as: "as = a # as'" "heap a = Some mt" "map heap as' = map Some mts" by (cases as) auto
  then show ?case using Cons by (simp add: mt_scan_rows_eq)
qed simp

lemma ts_scan_rows:
  assumes h: "ts_holds ts mt mts"
  shows "ts_scan ctx sk se ek ee ts = Some (0, concat (map mt_rows (mt # mts)), ts)"
proof -
  obtain a where a: "ts_get_active_memtable ts = Some (a, ts)" "mm_heap (ts_memtable_mgr ts) a = Some mt" using ts_active [OF h] .
  have wf: "mt_wf mt" "\<forall>x \<in> set mts. mt_wf x" using h by (simp_all add: ts_holds_def Let_def)
  have "map (mm_heap (ts_memtable_mgr ts)) (mm_frozen_memtables (ts_memtable_mgr ts)) = map Some mts"
    using h by (simp add: ts_holds_def Let_def)
  then show ?thesis using a by (simp add: ts_scan_def mt_scan_rows_eq [OF wf(1)] ts_scan_frozen_rows [OF wf(2)])
qed

text \<open>The records of a scanner, read until it does not report success.\<close>

fun rs_records :: "nat \<Rightarrow> ObRecordScanner \<Rightarrow> (RC \<times> bytes list) option" where
  "rs_records 0 rs = None"
| "rs_records (Suc n) rs =
     (case rs_next_record [] rs of
        (rc, b, rs') \<Rightarrow> if rc = SUCCESS then map_option (map_prod id (Cons b)) (rs_records n rs') else Some (rc, []))"

lemma rs_records_from:
  assumes "rs_is_open rs" "rs_current_idx rs = int i" "i \<le> length (rs_row_data_cache rs)" "n > length (rs_row_data_cache rs) - i"
  shows "rs_records n rs = Some (RECORD_EOF, drop i (rs_row_data_cache rs))"
  using assms
proof (induction n arbitrary: rs i)
  case (Suc n)
  show ?case
  proof (cases "i = length (rs_row_data_cache rs)")
    case True
    then show ?thesis using Suc.prems by (simp add: rs_next_record_def)
  next
    case False
    let ?rs = "rs\<lparr>rs_current_idx := int (i + 1)\<rparr>"
    have "rs_records n ?rs = Some (RECORD_EOF, drop (i + 1) (rs_row_data_cache rs))"
      using Suc.IH [of ?rs "i + 1"] Suc.prems False by simp
    then show ?thesis
      using Suc.prems False by (simp add: rs_next_record_def add.commute Cons_nth_drop_Suc)
  qed
qed simp



section \<open>The log of a tablet\<close>

lemma replay_all_unregistered:
  "lh_replay_handlers h = Map.empty \<Longrightarrow> \<forall>p \<in> set ps. \<exists>t b. p = typed t b \<Longrightarrow> replay_all rep h L ps s = Some s"
  by (induction ps arbitrary: L) (auto simp: lh_replay_typed)

lemma tablet_reopen:
  fixes svc :: "('h, 'r) ObLogService"
  assumes log: "svc_log svc tid a ps" and fit: "entries_fit (unat PALF_BLOCK_SIZE) 0 ps"
    and typed: "\<forall>p \<in> set ps. \<exists>t b. p = typed t b"
  obtains tb and svc' :: "('h2, 'r2) ObLogService" where "tb_init io_good io_good io_good tid (Some (restart svc)) tb_new = Some (0, tb, Some svc')"
    "tb_table_store tb = ts_set_log_handler (tb_log_handler tb) (snd (ts_init tid ts_new))"
    "\<And>(rep :: ('h2, 's) replayer) junk s. tb_recover rep junk io_good tb svc' s = Some (0, s)"
proof -
  obtain a' h and svc' :: "('h2, 'r2) ObLogService"
    where o: "open_ls io_good io_good io_good tid None (restart svc) = Some (0, Some a', svc')"
      "svc_log svc' tid a' ps" "ls_heap svc' a' = Some h" "lh_replay_handlers h = Map.empty"
    using open_ls_restart [OF log entries_fit_headers [OF fit], of io_good io_good None] by metis
  have "replay_ls rep junk io_good tid svc' s = Some (0, s)" for rep :: "('h2, 's) replayer" and junk s
    by (simp add: replay_ls_correct [OF o(2) fit o(3)] replay_all_unregistered [OF o(4) typed])
  then show ?thesis
    using that [of _ svc'] o(1) by (simp add: tb_init_def tb_new_def tb_recover_def ts_set_log_handler_def Let_def)
qed

text \<open>
  The log of a tablet is not connected to its memtables.  A tablet opened with a log service
  keeps the handler in its table store only: the memtable it writes to has no handler, so its
  writes leave the log untouched, and no replayer is registered, so \<^verbatim>\<open>recover\<close> succeeds without
  giving any record of the log back.
\<close>

theorem tablet_log_not_connected:
  fixes svc :: "('h, 'r) ObLogService"
  assumes "svc_log svc tid a ps" "entries_fit (unat PALF_BLOCK_SIZE) 0 ps" "\<forall>p \<in> set ps. \<exists>t b. p = typed t b"
  shows "\<exists>tb (svc' :: (nat, nat) ObLogService) b ts mt.
    tb_init io_good io_good io_good tid (Some (restart svc)) tb_new = Some (0, tb, Some svc') \<and>
    (\<forall>(rep :: (nat, ObMemtable) replayer) junk s. tb_recover rep junk io_good tb svc' s = Some (0, s)) \<and>
    ts_get_active_memtable (tb_table_store tb) = Some (b, ts) \<and> mm_heap (ts_memtable_mgr ts) b = Some mt \<and>
    (\<forall>app ctx row (l :: (nat, nat) ObLogService) r mt' l'. mt_set app ctx row mt l = Some (r, mt', l') \<longrightarrow> l' = l)"
proof -
  obtain tb and svc' :: "(nat, nat) ObLogService"
    where t: "tb_init io_good io_good io_good tid (Some (restart svc)) tb_new = Some (0, tb, Some svc')"
      "tb_table_store tb = ts_set_log_handler (tb_log_handler tb) (snd (ts_init tid ts_new))"
      "\<And>(rep :: (nat, ObMemtable) replayer) junk s. tb_recover rep junk io_good tb svc' s = Some (0, s)"
    using tablet_reopen [OF assms] by metis
  let ?mt = "snd (mt_init tid mt_new)"
  obtain ts where a: "ts_get_active_memtable (tb_table_store tb) = Some (0, ts)" "mm_heap (ts_memtable_mgr ts) 0 = Some ?mt"
    by (simp add: t(2) ts_get_active_memtable_def ts_set_log_handler_def ts_init_def ts_new_def mm_init_def mm_new_def
        mm_get_active_memtable_def mm_lock_def mm_unlock_def)
  have "mt_log_handler ?mt = None" by (simp add: mt_init_def mt_new_def)
  then have "l' = l" if "mt_set app ctx row ?mt l = Some (r, mt', l')"
    for app ctx row and l :: "(nat, nat) ObLogService" and r mt' l'
    using that by (auto simp: mt_set_def Let_def bind_eq_Some_conv split: if_splits prod.splits option.splits)
  then show ?thesis using t(1,3) a by blast
qed

theorem tablet_log_not_connected_witness:
  "\<exists>(svc :: (nat, nat) ObLogService) a.
    svc_log svc 1 a [typed TABLET_OP_LOG_BASE_TYPE (wal_bytes (sample_row 7))] \<and>
    (\<exists>tb (svc' :: (nat, nat) ObLogService) b ts mt.
      tb_init io_good io_good io_good 1 (Some (restart svc)) tb_new = Some (0, tb, Some svc') \<and>
      (\<forall>(rep :: (nat, ObMemtable) replayer) junk s. tb_recover rep junk io_good tb svc' s = Some (0, s)) \<and>
      ts_get_active_memtable (tb_table_store tb) = Some (b, ts) \<and> mm_heap (ts_memtable_mgr ts) b = Some mt \<and>
      (\<forall>app ctx row (l :: (nat, nat) ObLogService) r mt' l'. mt_set app ctx row mt l = Some (r, mt', l') \<longrightarrow> l' = l))"
proof -
  let ?r = "sample_row 7" and ?t = TABLET_OP_LOG_BASE_TYPE
  obtain a mt0 and svc1 svc2 :: "(nat, nat) ObLogService" where
    o: "open_ls io_good io_good io_good 1 None (ls_new (\<lambda>_. lf_empty)) = Some (0, Some a, svc1)"
      "clog_holds 1 ?t 0 svc2 []" "ls_handlers svc2 1 = Some a" "mt_rel mt0 Map.empty" "mt_log_handler mt0 = Some a"
    by (rule tablet_log_attached [of "ls_new (\<lambda>_. lf_empty)" 1 0 1]) (simp_all add: ls_new_def pe_new_def)
  obtain svc3 :: "(nat, nat) ObLogService" where w: "clog_holds 1 ?t 0 svc3 [wal_bytes ?r]"
    using mt_multi_set_logs [OF o(4,2,3,5), of "[?r]" ctx_init "\<lambda>_. 0"] sample_log_fits [of ?t 7 7]
    by (simp add: sample_row_ok ctx_init_def del: mt_multi_set.simps) blast
  obtain a' h where l: "svc_log svc3 1 a' (map (typed ?t) [wal_bytes ?r])"
      "entries_fit (unat PALF_BLOCK_SIZE) 0 (map (typed ?t) [wal_bytes ?r])"
    by (rule clog_holdsD [OF w])
  have "\<forall>p \<in> set (map (typed ?t) [wal_bytes ?r]). \<exists>t b. p = typed t b" by auto
  from tablet_log_not_connected [OF l this] l(1) show ?thesis by (intro exI [of _ svc3] exI [of _ a']) simp
qed

section \<open>The tablets of a store\<close>

inductive os_reach :: "ObStore \<Rightarrow> bool" where
  os_start: "os_init base_dir os_new = (r, st) \<Longrightarrow> os_reach st"
| os_create: "os_reach st \<Longrightarrow> os_create_tablet name tid st = (r, st') \<Longrightarrow> os_reach st'"
| os_drop: "os_reach st \<Longrightarrow> os_drop_tablet name st = Some (r, st') \<Longrightarrow> os_reach st'"

definition os_wf :: "ObStore \<Rightarrow> bool" where
  "os_wf st \<longleftrightarrow>
     (\<forall>n a. os_tablets_by_name st n = Some a \<longrightarrow> os_heap st a \<noteq> None) \<and>
     (\<forall>n n' a. os_tablets_by_name st n = Some a \<and> os_tablets_by_name st n' = Some a \<longrightarrow> n = n') \<and>
     (\<forall>i a. os_tablets_by_id st i = Some a \<longrightarrow> (\<exists>t. os_heap st a = Some t \<and> tb_tablet_id t = i)) \<and>
     (\<forall>a. os_heap st a \<noteq> None \<longrightarrow> a < os_fresh st)"

lemma os_wf_parts:
  assumes "os_wf st"
  shows "os_tablets_by_name st n = Some a \<Longrightarrow> \<exists>t. os_heap st a = Some t"
    and "os_tablets_by_name st n = Some a \<Longrightarrow> os_tablets_by_name st n' = Some a \<Longrightarrow> n = n'"
    and "os_tablets_by_id st i = Some a \<Longrightarrow> \<exists>t. os_heap st a = Some t \<and> tb_tablet_id t = i"
    and "os_heap st a = Some t \<Longrightarrow> a < os_fresh st"
  using assms unfolding os_wf_def by blast+

lemma os_tablet_id [simp]: "tb_tablet_id (os_tablet i) = i"
  by (simp add: os_tablet_def tb_init_def tb_new_def Let_def)

lemma os_wf_create:
  assumes wf: "os_wf st" and "os_create_tablet name tid st = (r, st')"
  shows "os_wf st'"
proof (cases "os_tablets_by_name st name")
  case None
  then have st': "st' = st\<lparr>os_heap := (os_heap st)(os_fresh st \<mapsto> os_tablet tid), os_fresh := os_fresh st + 1,
      os_tablets_by_name := (os_tablets_by_name st)(name \<mapsto> os_fresh st),
      os_tablets_by_id := (os_tablets_by_id st)(tid \<mapsto> os_fresh st)\<rparr>"
    using assms(2) by (simp add: os_create_tablet_def Let_def)
  show ?thesis
    unfolding st' os_wf_def
    using os_wf_parts [OF wf] by (auto simp: less_Suc_eq) (metis less_irrefl)+
qed (use assms in \<open>simp add: os_create_tablet_def\<close>)

lemma os_wf_drop:
  assumes wf: "os_wf st" and "os_drop_tablet name st = Some (r, st')"
  shows "os_wf st'"
proof (cases "os_tablets_by_name st name")
  case (Some a)
  then obtain t where t: "os_heap st a = Some t" using os_wf_parts(1) [OF wf] by blast
  with Some have st': "st' = st\<lparr>os_tablets_by_name := (os_tablets_by_name st)(name := None),
      os_tablets_by_id := (os_tablets_by_id st)(tb_tablet_id t := None), os_heap := (os_heap st)(a := None)\<rparr>"
    using assms(2) by (simp add: os_drop_tablet_def)
  show ?thesis
    unfolding st' os_wf_def
    using os_wf_parts [OF wf] Some t by (auto split: if_splits) fastforce+
qed (use assms in \<open>simp add: os_drop_tablet_def\<close>)

lemma os_reach_wf: "os_reach st \<Longrightarrow> os_wf st"
proof (induction rule: os_reach.induct)
  case (os_start base_dir r st)
  then show ?case by (auto simp: os_init_def os_new_def os_wf_def)
qed (blast intro: os_wf_create os_wf_drop)+

text \<open>
  C36. No tablet of a store is used after it was freed.  Whatever tablets were created and dropped,
  a name and an id lead to a tablet that is alive, an id leads to a tablet of that id, two names
  never share a tablet, and dropping never touches a freed tablet.
\<close>

theorem store_no_dangling:
  assumes "os_reach st"
  shows "(case os_get_tablet_by_name n st of None \<Rightarrow> True | Some a \<Rightarrow> \<exists>t. os_heap st a = Some t) \<and>
    (case os_get_tablet_by_id i st of None \<Rightarrow> True | Some a \<Rightarrow> \<exists>t. os_heap st a = Some t \<and> tb_tablet_id t = i) \<and>
    (os_get_tablet_by_name n st = os_get_tablet_by_name n' st \<longrightarrow> n = n' \<or> os_get_tablet_by_name n st = None) \<and>
    (\<exists>st'. os_drop_tablet n st = Some (if os_get_tablet_by_name n st = None then -1 else 0, st') \<and>
       os_get_tablet_by_name n st' = None)"
proof -
  note wf = os_wf_parts [OF os_reach_wf [OF assms]]
  have "\<exists>st'. os_drop_tablet n st = Some (if os_get_tablet_by_name n st = None then -1 else 0, st') \<and> os_get_tablet_by_name n st' = None"
    using wf(1) [of n] by (cases "os_tablets_by_name st n") (auto simp: os_drop_tablet_def os_get_tablet_by_name_def)
  then show ?thesis
    using wf(1) [of n] wf(2) [of n _ n'] wf(3) [of i]
    by (auto simp: os_get_tablet_by_name_def os_get_tablet_by_id_def split: option.splits)
qed

theorem store_no_dangling_witness:
  "\<exists>st'. os_drop_tablet ''t1'' (snd (os_create_tablet ''t1'' 5 (snd (os_init ''db'' os_new)))) = Some (0, st') \<and>
     os_get_tablet_by_name ''t1'' st' = None"
proof -
  let ?s0 = "snd (os_init ''db'' os_new)" and ?s1 = "snd (os_create_tablet ''t1'' 5 (snd (os_init ''db'' os_new)))"
  have "os_reach ?s0" by (rule os_start [of "''db''" 0]) (simp add: os_init_def)
  then have r: "os_reach ?s1"
    by (rule os_create [of _ "''t1''" 5 0]) (simp add: os_create_tablet_def os_init_def os_new_def Let_def)
  have "os_get_tablet_by_name ''t1'' ?s1 \<noteq> None"
    by (simp add: os_create_tablet_def os_init_def os_new_def Let_def os_get_tablet_by_name_def)
  with store_no_dangling [OF r, of "''t1''" 0 "''t1''"] show ?thesis by auto
qed

text \<open>
  Creating a tablet checks its name and not its id.  When two tables are given the same id, the
  second hides the first, and dropping the first removes the id of the second: the second tablet is
  alive under its name and can not be found by its id.
\<close>

theorem store_id_collision:
  "let st = snd (os_create_tablet ''b'' 5 (snd (os_create_tablet ''a'' 5 (snd (os_init ''db'' os_new)))))
   in fst (os_create_tablet ''b'' 5 (snd (os_create_tablet ''a'' 5 (snd (os_init ''db'' os_new))))) = 0 \<and>
      os_get_tablet_by_id 5 st = os_get_tablet_by_name ''b'' st \<and>
      (\<exists>st' a. os_drop_tablet ''a'' st = Some (0, st') \<and> os_get_tablet_by_name ''b'' st' = Some a \<and>
         os_heap st' a = Some (os_tablet 5) \<and> os_get_tablet_by_id 5 st' = None)"
  by (simp add: os_create_tablet_def os_init_def os_new_def Let_def os_get_tablet_by_name_def os_get_tablet_by_id_def
      os_drop_tablet_def)

end
