(* ===== verification/Ob_KV_Cache.thy ===== *)
theory Ob_KV_Cache
  imports Ob_Prelude
begin

text \<open>
  The block cache: the template \<^verbatim>\<open>ObKVCache<Key, Value>\<close> of \<^verbatim>\<open>storage/cache/ob_kv_cache.h\<close> and its
  keys in \<^verbatim>\<open>storage/cache/ob_block_cache.h\<close>.

  A \<^verbatim>\<open>std::list<Key>\<close> is the list of its nodes, each with an identity, and an iterator is the
  identity of a node: erasing through an iterator whose node is gone has no defined result, so
  the operations that erase are partial.  The lemmas show that no reachable cache gets there
  and that the cache implements a least-recently-used list of key/value pairs.
\<close>

section \<open>The cache\<close>

record 'v CacheEntry =
  ce_value :: 'v
  ce_lru_iter :: nat

record ('k, 'v) ObKVCache =
  kc_capacity :: int
  kc_size :: int
  kc_map :: "'k \<rightharpoonup> 'v CacheEntry"
  kc_lru_list :: "(nat \<times> 'k) list"
  kc_next_node :: nat

definition kc_new :: "('k, 'v) ObKVCache" where
  "kc_new = \<lparr>kc_capacity = 1024, kc_size = 0, kc_map = Map.empty, kc_lru_list = [], kc_next_node = 0\<rparr>"

definition kc_init :: "int \<Rightarrow> ('k, 'v) ObKVCache \<Rightarrow> ret \<times> ('k, 'v) ObKVCache" where
  "kc_init capacity c = (0, c\<lparr>kc_capacity := capacity, kc_size := 0\<rparr>)"

definition list_erase :: "nat \<Rightarrow> (nat \<times> 'k) list \<Rightarrow> (nat \<times> 'k) list option" where
  "list_erase i l = (if i \<in> fst ` set l then Some (filter (\<lambda>n. fst n \<noteq> i) l) else None)"

text \<open>\<^verbatim>\<open>lru_list_.erase(it->second.lru_iter_); lru_list_.push_front(key);
  it->second.lru_iter_ = lru_list_.begin();\<close>\<close>

definition kc_move_to_front :: "'k \<Rightarrow> 'v CacheEntry \<Rightarrow> ('k, 'v) ObKVCache \<Rightarrow> ('k, 'v) ObKVCache option" where
  "kc_move_to_front key e c = do {
     l \<leftarrow> list_erase (ce_lru_iter e) (kc_lru_list c);
     let i = kc_next_node c;
     Some (c\<lparr>kc_lru_list := (i, key) # l, kc_next_node := i + 1,
             kc_map := (kc_map c)(key \<mapsto> e\<lparr>ce_lru_iter := i\<rparr>)\<rparr>)
   }"

definition kc_get :: "'k \<Rightarrow> 'v \<Rightarrow> ('k, 'v) ObKVCache \<Rightarrow> (bool \<times> 'v \<times> ('k, 'v) ObKVCache) option" where
  "kc_get key value c =
     (case kc_map c key of
        None \<Rightarrow> Some (False, value, c)
      | Some e \<Rightarrow> do {
          c \<leftarrow> kc_move_to_front key e c;
          Some (True, ce_value e, c)
        })"

function (sequential) kc_evict :: "('k, 'v) ObKVCache \<Rightarrow> ('k, 'v) ObKVCache" where
  "kc_evict c =
     (if kc_size c \<ge> kc_capacity c \<and> kc_lru_list c \<noteq> [] then
        let oldest = snd (last (kc_lru_list c))
        in kc_evict (c\<lparr>kc_lru_list := butlast (kc_lru_list c), kc_map := (kc_map c)(oldest := None),
                       kc_size := kc_size c - 1\<rparr>)
      else c)"
  by pat_completeness auto

termination kc_evict
  by (relation "measure (\<lambda>c. length (kc_lru_list c))") auto

declare kc_evict.simps [simp del]

definition kc_insert :: "'k \<Rightarrow> 'v \<Rightarrow> ('k, 'v) ObKVCache \<Rightarrow> ('k, 'v) ObKVCache" where
  "kc_insert key value c =
     (let i = kc_next_node c
      in c\<lparr>kc_lru_list := (i, key) # kc_lru_list c, kc_next_node := i + 1,
           kc_map := (kc_map c)(key \<mapsto> \<lparr>ce_value = value, ce_lru_iter = i\<rparr>), kc_size := kc_size c + 1\<rparr>)"

definition kc_put :: "'k \<Rightarrow> 'v \<Rightarrow> ('k, 'v) ObKVCache \<Rightarrow> (ret \<times> ('k, 'v) ObKVCache) option" where
  "kc_put key value c =
     (case kc_map c key of
        Some e \<Rightarrow> do {
          c \<leftarrow> kc_move_to_front key (e\<lparr>ce_value := value\<rparr>) c;
          Some (0, c)
        }
      | None \<Rightarrow> Some (0, kc_insert key value (kc_evict c)))"

definition kc_erase :: "'k \<Rightarrow> ('k, 'v) ObKVCache \<Rightarrow> (ret \<times> ('k, 'v) ObKVCache) option" where
  "kc_erase key c =
     (case kc_map c key of
        None \<Rightarrow> Some (0, c)
      | Some e \<Rightarrow> do {
          l \<leftarrow> list_erase (ce_lru_iter e) (kc_lru_list c);
          Some (0, c\<lparr>kc_lru_list := l, kc_map := (kc_map c)(key := None), kc_size := kc_size c - 1\<rparr>)
        })"

definition kc_clear :: "('k, 'v) ObKVCache \<Rightarrow> ('k, 'v) ObKVCache" where
  "kc_clear c = c\<lparr>kc_map := Map.empty, kc_lru_list := [], kc_size := 0\<rparr>"

section \<open>Keys and values of the micro block cache\<close>

record ObMicroBlockCacheKey =
  bck_macro_block_id :: u64
  bck_block_offset :: u64
  bck_block_size :: u64

definition mbck_init :: ObMicroBlockCacheKey where
  "mbck_init = \<lparr>bck_macro_block_id = 0, bck_block_offset = 0, bck_block_size = 0\<rparr>"

definition mbck_make :: "u64 \<Rightarrow> u64 \<Rightarrow> u64 \<Rightarrow> ObMicroBlockCacheKey" where
  "mbck_make mb_id offset sz = \<lparr>bck_macro_block_id = mb_id, bck_block_offset = offset, bck_block_size = sz\<rparr>"

definition mbck_eq :: "ObMicroBlockCacheKey \<Rightarrow> ObMicroBlockCacheKey \<Rightarrow> bool" where
  "mbck_eq k k2 \<longleftrightarrow>
     bck_macro_block_id k = bck_macro_block_id k2 \<and> bck_block_offset k = bck_block_offset k2 \<and>
     bck_block_size k = bck_block_size k2"

text \<open>\<open>h\<close> is \<^verbatim>\<open>std::hash<int64_t>\<close>.\<close>

definition mbck_hash :: "(u64 \<Rightarrow> u64) \<Rightarrow> ObMicroBlockCacheKey \<Rightarrow> u64" where
  "mbck_hash h k = h (bck_macro_block_id k) XOR h (bck_block_offset k) XOR h (bck_block_size k)"

record ObMicroBlockCacheValue =
  bcv_data :: bytes
  bcv_access_count :: int

definition mbcv_init :: ObMicroBlockCacheValue where
  "mbcv_init = \<lparr>bcv_data = [], bcv_access_count = 0\<rparr>"

section \<open>Invariant\<close>

definition kc_wf :: "('k, 'v) ObKVCache \<Rightarrow> bool" where
  "kc_wf c \<longleftrightarrow>
     distinct (map fst (kc_lru_list c)) \<and> distinct (map snd (kc_lru_list c)) \<and>
     (\<forall>n \<in> set (kc_lru_list c). fst n < kc_next_node c \<and>
        (\<exists>v. kc_map c (snd n) = Some \<lparr>ce_value = v, ce_lru_iter = fst n\<rparr>)) \<and>
     dom (kc_map c) = snd ` set (kc_lru_list c) \<and>
     kc_size c = int (length (kc_lru_list c))"

text \<open>The cache as the list of its entries, most recently used first.\<close>

definition kc_abs :: "('k, 'v) ObKVCache \<Rightarrow> ('k \<times> 'v) list" where
  "kc_abs c = map (\<lambda>n. (snd n, ce_value (the (kc_map c (snd n))))) (kc_lru_list c)"

definition lru_get :: "'k \<Rightarrow> 'v \<Rightarrow> ('k \<times> 'v) list \<Rightarrow> bool \<times> 'v \<times> ('k \<times> 'v) list" where
  "lru_get k v l =
     (case map_of l k of
        None \<Rightarrow> (False, v, l)
      | Some w \<Rightarrow> (True, w, (k, w) # filter (\<lambda>e. fst e \<noteq> k) l))"

definition lru_put :: "int \<Rightarrow> 'k \<Rightarrow> 'v \<Rightarrow> ('k \<times> 'v) list \<Rightarrow> ('k \<times> 'v) list" where
  "lru_put cap k v l =
     (k, v) # (if k \<in> fst ` set l then filter (\<lambda>e. fst e \<noteq> k) l else take (nat (cap - 1)) l)"

section \<open>Refinement\<close>

lemma kc_wf_node:
  assumes "kc_wf c" "kc_map c k = Some e"
  shows "(ce_lru_iter e, k) \<in> set (kc_lru_list c)"
proof -
  have "k \<in> snd ` set (kc_lru_list c)" using assms by (auto simp: kc_wf_def)
  then obtain i where "(i, k) \<in> set (kc_lru_list c)" by auto
  moreover from this assms have "ce_lru_iter e = i" by (fastforce simp: kc_wf_def)
  ultimately show ?thesis by simp
qed

lemma kc_abs_lookup:
  assumes "kc_wf c"
  shows "map_of (kc_abs c) k = map_option ce_value (kc_map c k)"
proof (cases "kc_map c k")
  case None
  then have "k \<notin> snd ` set (kc_lru_list c)" using assms by (auto simp: kc_wf_def)
  then show ?thesis using None by (auto simp: kc_abs_def map_of_eq_None_iff image_iff)
next
  case (Some e)
  have "distinct (map fst (kc_abs c))" using assms by (simp add: kc_wf_def kc_abs_def comp_def)
  moreover have "(k, ce_value e) \<in> set (kc_abs c)"
    using kc_wf_node [OF assms Some] Some by (force simp: kc_abs_def image_iff)
  ultimately show ?thesis using Some by simp
qed

lemma filter_node:
  assumes "distinct (map fst l)" "distinct (map snd l)" "(i, k) \<in> set l"
  shows "filter (\<lambda>n. fst n \<noteq> i) l = filter (\<lambda>n. snd n \<noteq> k) l"
proof (rule filter_cong [OF refl])
  fix n assume "n \<in> set l"
  then show "fst n \<noteq> i \<longleftrightarrow> snd n \<noteq> k"
    using assms by (metis eq_key_imp_eq_value fst_conv inj_on_contraD distinct_map snd_conv prod.collapse)
qed

lemma length_filter_node:
  assumes "distinct (map snd l)" "k \<in> snd ` set l"
  shows "int (length (filter (\<lambda>n. snd n \<noteq> k) l)) = int (length l) - 1"
proof -
  have "length (filter (\<lambda>n. \<not> snd n \<noteq> k) l) = 1"
    using assms by (induction l) (force simp: filter_empty_conv)+
  then show ?thesis using sum_length_filter_compl [of "\<lambda>n. snd n \<noteq> k" l] by simp
qed

text \<open>Taking an entry out, and putting an entry in front, as they act on the abstraction.\<close>

lemma kc_unlink:
  assumes wf: "kc_wf c" and e: "kc_map c k = Some e"
  defines "l \<equiv> filter (\<lambda>n. snd n \<noteq> k) (kc_lru_list c)"
  defines "c' \<equiv> c\<lparr>kc_lru_list := l, kc_map := (kc_map c)(k := None), kc_size := kc_size c - 1\<rparr>"
  shows "list_erase (ce_lru_iter e) (kc_lru_list c) = Some l" "kc_wf c'"
    "kc_abs c' = filter (\<lambda>x. fst x \<noteq> k) (kc_abs c)"
proof -
  have d: "distinct (map fst (kc_lru_list c))" "distinct (map snd (kc_lru_list c))"
    using wf by (simp_all add: kc_wf_def)
  note n = kc_wf_node [OF wf e]
  then show "list_erase (ce_lru_iter e) (kc_lru_list c) = Some l"
    using filter_node [OF d n] by (force simp: list_erase_def l_def)
  have "k \<in> snd ` set (kc_lru_list c)" using n by force
  then show "kc_wf c'"
    using wf d length_filter_node [OF d(2)]
    by (auto simp: kc_wf_def c'_def l_def distinct_map_filter)
  show "kc_abs c' = filter (\<lambda>x. fst x \<noteq> k) (kc_abs c)"
    by (auto simp: kc_abs_def c'_def l_def filter_map comp_def intro: map_cong)
qed

lemma kc_link:
  assumes wf: "kc_wf c" and k: "kc_map c k = None"
  shows "kc_wf (kc_insert k v c)" "kc_abs (kc_insert k v c) = (k, v) # kc_abs c"
proof -
  have n: "k \<notin> snd ` set (kc_lru_list c)" using wf k by (auto simp: kc_wf_def)
  moreover have "kc_next_node c \<notin> fst ` set (kc_lru_list c)" using wf by (force simp: kc_wf_def)
  ultimately show "kc_wf (kc_insert k v c)"
    using wf by (auto simp: kc_wf_def kc_insert_def Let_def image_iff less_Suc_eq)
  show "kc_abs (kc_insert k v c) = (k, v) # kc_abs c"
    using n by (force simp: kc_abs_def kc_insert_def Let_def)
qed

lemma kc_move_to_front:
  assumes wf: "kc_wf c" and e: "kc_map c k = Some e"
  obtains c' where "kc_move_to_front k (e\<lparr>ce_value := v\<rparr>) c = Some c'" "kc_wf c'"
    "kc_abs c' = (k, v) # filter (\<lambda>x. fst x \<noteq> k) (kc_abs c)" "kc_capacity c' = kc_capacity c"
proof -
  let ?l = "filter (\<lambda>n. snd n \<noteq> k) (kc_lru_list c)"
  let ?u = "c\<lparr>kc_lru_list := ?l, kc_map := (kc_map c)(k := None), kc_size := kc_size c - 1\<rparr>"
  note u = kc_unlink [OF wf e]
  have "kc_map ?u k = None" by simp
  note i = kc_link [OF u(2) this, of v]
  have "kc_move_to_front k (e\<lparr>ce_value := v\<rparr>) c = Some (kc_insert k v ?u)"
    using u(1) by (cases e) (simp add: kc_move_to_front_def kc_insert_def Let_def)
  moreover have "kc_capacity (kc_insert k v ?u) = kc_capacity c" by (simp add: kc_insert_def Let_def)
  ultimately show ?thesis using that i u(3) by simp
qed

lemma kc_evict_step:
  assumes wf: "kc_wf c" and l: "kc_lru_list c \<noteq> []"
  defines "c' \<equiv> c\<lparr>kc_lru_list := butlast (kc_lru_list c), kc_map := (kc_map c)(snd (last (kc_lru_list c)) := None),
                  kc_size := kc_size c - 1\<rparr>"
  shows "kc_wf c'" "kc_abs c' = butlast (kc_abs c)"
proof -
  let ?k = "snd (last (kc_lru_list c))"
  obtain xs n where xs: "kc_lru_list c = xs @ [n]" using l by (metis rev_exhaust)
  have "distinct (map snd (kc_lru_list c))" using wf by (simp add: kc_wf_def)
  then have f: "filter (\<lambda>m. snd m \<noteq> ?k) (kc_lru_list c) = butlast (kc_lru_list c)"
    by (simp add: xs filter_id_conv) (metis imageI)
  obtain e where e: "kc_map c ?k = Some e" using wf l by (force simp: kc_wf_def)
  show "kc_wf c'" using kc_unlink(2) [OF wf e] by (simp add: f c'_def)
  have "filter (\<lambda>x. fst x \<noteq> ?k) (kc_abs c) = butlast (kc_abs c)"
    using f by (simp add: kc_abs_def filter_map comp_def map_butlast)
  then show "kc_abs c' = butlast (kc_abs c)" using kc_unlink(3) [OF wf e] by (simp add: f c'_def)
qed

lemma kc_evict_correct:
  assumes "kc_wf c"
  shows "kc_wf (kc_evict c) \<and> kc_abs (kc_evict c) = take (nat (kc_capacity c - 1)) (kc_abs c) \<and>
    kc_capacity (kc_evict c) = kc_capacity c"
  using assms
proof (induction c rule: kc_evict.induct)
  case (1 c)
  have len: "length (kc_abs c) = length (kc_lru_list c)" by (simp add: kc_abs_def)
  show ?case
  proof (cases "kc_size c \<ge> kc_capacity c \<and> kc_lru_list c \<noteq> []")
    case True
    let ?c' = "c\<lparr>kc_lru_list := butlast (kc_lru_list c), kc_map := (kc_map c)(snd (last (kc_lru_list c)) := None),
                  kc_size := kc_size c - 1\<rparr>"
    have s: "kc_wf ?c'" "kc_abs ?c' = butlast (kc_abs c)" using kc_evict_step "1.prems" True by blast+
    have "kc_evict c = kc_evict ?c'" using True by (subst kc_evict.simps) (simp add: Let_def)
    moreover have "take (nat (kc_capacity c - 1)) (butlast (kc_abs c)) = take (nat (kc_capacity c - 1)) (kc_abs c)"
      using True "1.prems" len by (cases "kc_lru_list c") (auto simp: butlast_conv_take kc_wf_def min_def)
    ultimately show ?thesis using "1.IH" [OF True refl] s by simp
  next
    case False
    then have "kc_evict c = c" by (subst kc_evict.simps) auto
    moreover have "length (kc_abs c) \<le> nat (kc_capacity c - 1)"
      using False "1.prems" len by (auto simp: kc_wf_def)
    ultimately show ?thesis using "1.prems" by simp
  qed
qed

lemma kc_get_correct:
  assumes wf: "kc_wf c"
  obtains c' where "kc_get k v c = Some (fst (lru_get k v (kc_abs c)), fst (snd (lru_get k v (kc_abs c))), c')"
    "kc_wf c'" "kc_abs c' = snd (snd (lru_get k v (kc_abs c)))" "kc_capacity c' = kc_capacity c"
proof (cases "kc_map c k")
  case None
  then show ?thesis using that [of c] wf by (simp add: kc_get_def lru_get_def kc_abs_lookup)
next
  case (Some e)
  obtain c' where m: "kc_move_to_front k (e\<lparr>ce_value := ce_value e\<rparr>) c = Some c'" "kc_wf c'"
    "kc_abs c' = (k, ce_value e) # filter (\<lambda>x. fst x \<noteq> k) (kc_abs c)" "kc_capacity c' = kc_capacity c"
    using kc_move_to_front [OF wf Some] .
  have "e\<lparr>ce_value := ce_value e\<rparr> = e" by simp
  then show ?thesis using that [OF _ m(2)] m Some wf by (simp add: kc_get_def lru_get_def kc_abs_lookup)
qed

lemma kc_abs_keys: "kc_wf c \<Longrightarrow> k \<in> fst ` set (kc_abs c) \<longleftrightarrow> kc_map c k \<noteq> None"
  by (auto simp: kc_wf_def kc_abs_def image_image)

lemma kc_put_correct:
  assumes wf: "kc_wf c"
  obtains c' where "kc_put k v c = Some (0, c')" "kc_wf c'" "kc_abs c' = lru_put (kc_capacity c) k v (kc_abs c)"
    "kc_capacity c' = kc_capacity c"
proof (cases "kc_map c k")
  case None
  let ?c = "kc_evict c"
  have e: "kc_wf ?c" "kc_abs ?c = take (nat (kc_capacity c - 1)) (kc_abs c)" "kc_capacity ?c = kc_capacity c"
    using kc_evict_correct [OF wf] by auto
  have n: "k \<notin> fst ` set (kc_abs c)" using kc_abs_keys [OF wf] None by simp
  then have "k \<notin> fst ` set (kc_abs ?c)" using e(2) set_take_subset by fastforce
  then have "kc_map ?c k = None" using kc_abs_keys [OF e(1)] by simp
  from kc_link [OF e(1) this] show ?thesis
    using that None n e by (simp add: kc_put_def lru_put_def kc_insert_def Let_def)
next
  case (Some e)
  then have k: "k \<in> fst ` set (kc_abs c)" using kc_abs_keys [OF wf] by simp
  obtain c' where m: "kc_move_to_front k (e\<lparr>ce_value := v\<rparr>) c = Some c'" "kc_wf c'"
    "kc_abs c' = (k, v) # filter (\<lambda>x. fst x \<noteq> k) (kc_abs c)" "kc_capacity c' = kc_capacity c"
    using kc_move_to_front [OF wf Some] .
  show ?thesis using that [OF _ m(2)] m k Some by (simp add: kc_put_def lru_put_def)
qed

lemma kc_erase_correct:
  assumes wf: "kc_wf c"
  obtains c' where "kc_erase k c = Some (0, c')" "kc_wf c'" "kc_abs c' = filter (\<lambda>e. fst e \<noteq> k) (kc_abs c)"
    "kc_capacity c' = kc_capacity c"
proof (cases "kc_map c k")
  case None
  then have "k \<notin> fst ` set (kc_abs c)" using kc_abs_keys [OF wf] by simp
  then have "filter (\<lambda>e. fst e \<noteq> k) (kc_abs c) = kc_abs c" by (auto simp: filter_id_conv image_iff)
  then show ?thesis using that [of c] wf None by (simp add: kc_erase_def)
next
  case (Some e)
  then show ?thesis using that kc_unlink [OF wf Some] by (simp add: kc_erase_def)
qed

lemma kc_wf_empty [simp]: "kc_wf kc_new" "kc_abs kc_new = []" "kc_wf (kc_clear c)" "kc_abs (kc_clear c) = []"
  by (simp_all add: kc_wf_def kc_abs_def kc_new_def kc_clear_def)

section \<open>Runs of the cache\<close>

datatype ('k, 'v) cache_op = Get 'k | Put 'k 'v | Erase 'k | Clear

fun kc_step :: "('k, 'v) cache_op \<Rightarrow> ('k, 'v) ObKVCache \<Rightarrow> ('k, 'v) ObKVCache option" where
  "kc_step (Get k) c = map_option (\<lambda>r. snd (snd r)) (kc_get k undefined c)"
| "kc_step (Put k v) c = map_option snd (kc_put k v c)"
| "kc_step (Erase k) c = map_option snd (kc_erase k c)"
| "kc_step Clear c = Some (kc_clear c)"

fun lru_step :: "int \<Rightarrow> ('k, 'v) cache_op \<Rightarrow> ('k \<times> 'v) list \<Rightarrow> ('k \<times> 'v) list" where
  "lru_step cap (Get k) l = snd (snd (lru_get k undefined l))"
| "lru_step cap (Put k v) l = lru_put cap k v l"
| "lru_step cap (Erase k) l = filter (\<lambda>e. fst e \<noteq> k) l"
| "lru_step cap Clear l = []"

lemma kc_step_correct:
  assumes "kc_wf c"
  shows "\<exists>c'. kc_step a c = Some c' \<and> kc_wf c' \<and> kc_abs c' = lru_step (kc_capacity c) a (kc_abs c) \<and>
    kc_capacity c' = kc_capacity c"
proof (cases a)
  case (Get k)
  then show ?thesis by (rule_tac kc_get_correct [OF assms, of k undefined]) simp
next
  case (Put k v)
  then show ?thesis by (rule_tac kc_put_correct [OF assms, of k v]) simp
next
  case (Erase k)
  then show ?thesis by (rule_tac kc_erase_correct [OF assms, of k]) simp
next
  case Clear
  have "kc_capacity (kc_clear c) = kc_capacity c" by (simp add: kc_clear_def)
  then show ?thesis using Clear by simp
qed

lemma kc_run_correct:
  assumes "kc_wf c"
  shows "\<exists>c'. foldo kc_step as c = Some c' \<and> kc_wf c' \<and> kc_abs c' = fold (lru_step (kc_capacity c)) as (kc_abs c) \<and>
    kc_capacity c' = kc_capacity c"
  using assms
proof (induction as arbitrary: c)
  case (Cons a as)
  from kc_step_correct [OF Cons.prems, of a] obtain c1 where
    1: "kc_step a c = Some c1" "kc_wf c1" "kc_abs c1 = lru_step (kc_capacity c) a (kc_abs c)" "kc_capacity c1 = kc_capacity c"
    by blast
  then show ?case using Cons.IH [OF 1(2)] by simp
qed simp

lemma length_lru_step:
  assumes "int (length l) \<le> max 1 cap"
  shows "int (length (lru_step cap a l)) \<le> max 1 cap"
proof -
  have f: "Suc (length (filter (\<lambda>e. fst e \<noteq> k) l)) \<le> length l" if "(k, w) \<in> set l" for k w
    using that by (intro Suc_leI length_filter_less) auto
  show ?thesis
  proof (cases a)
    case (Get k)
    then show ?thesis using assms f [of k] by (force simp: lru_get_def dest: map_of_SomeD split: option.split)
  next
    case (Put k v)
    then show ?thesis using assms f [of k] by (fastforce simp: lru_put_def)
  next
    case (Erase k)
    have "int (length (filter (\<lambda>e. fst e \<noteq> k) l)) \<le> int (length l)" by simp
    also note assms
    finally show ?thesis using Erase by simp
  qed simp
qed

lemma length_lru_run: "int (length l) \<le> max 1 cap \<Longrightarrow> int (length (fold (lru_step cap) as l)) \<le> max 1 cap"
  by (induction as arbitrary: l) (simp_all add: length_lru_step)

text \<open>\<open>lru_front k v T l\<close>: the pair is in the list, and only keys of \<open>T\<close> are before it.\<close>

definition lru_front :: "'k \<Rightarrow> 'v \<Rightarrow> 'k set \<Rightarrow> ('k \<times> 'v) list \<Rightarrow> bool" where
  "lru_front k v T l \<longleftrightarrow> distinct (map fst l) \<and> (\<exists>ys zs. l = ys @ (k, v) # zs \<and> fst ` set ys \<subseteq> T)"

lemma lru_front_touch:
  assumes "lru_front k v T l" "k' \<noteq> k"
  shows "lru_front k v (insert k' T) ((k', w) # filter (\<lambda>e. fst e \<noteq> k') l)"
proof -
  obtain ys zs where l: "distinct (map fst l)" "l = ys @ (k, v) # zs" "fst ` set ys \<subseteq> T"
    using assms(1) by (auto simp: lru_front_def)
  then have "(k', w) # filter (\<lambda>e. fst e \<noteq> k') l =
      ((k', w) # filter (\<lambda>e. fst e \<noteq> k') ys) @ (k, v) # filter (\<lambda>e. fst e \<noteq> k') zs"
    using assms(2) by simp
  moreover have "distinct (map fst ((k', w) # filter (\<lambda>e. fst e \<noteq> k') l))"
    using l(1) by (auto simp: distinct_map_filter)
  moreover have "fst ` set ((k', w) # filter (\<lambda>e. fst e \<noteq> k') ys) \<subseteq> insert k' T" using l(3) by auto
  ultimately show ?thesis unfolding lru_front_def by blast
qed

lemma lru_front_new:
  assumes "lru_front k v T l" "k' \<noteq> k" "k' \<notin> fst ` set l" "finite T" "int (card (insert k' T)) < cap"
  shows "lru_front k v (insert k' T) ((k', w) # take (nat (cap - 1)) l)"
proof -
  obtain ys zs where l: "distinct (map fst l)" "l = ys @ (k, v) # zs" "fst ` set ys \<subseteq> T"
    using assms(1) by (auto simp: lru_front_def)
  have "fst ` set ys \<subseteq> T - {k'}" using l(2,3) assms(3) by auto
  then have "card (fst ` set ys) \<le> card (T - {k'})" using assms(4) by (simp add: card_mono)
  moreover have "card (fst ` set ys) = length ys"
    using l(1,2) distinct_card [of "map fst ys"] by simp
  moreover have "card (T - {k'}) < card (insert k' T)" using assms(4) by (intro psubset_card_mono) auto
  ultimately have n: "length ys < nat (cap - 1)" using assms(5) by linarith
  then have "take (nat (cap - 1)) l = ys @ (k, v) # take (nat (cap - 1) - length ys - 1) zs"
    using l(2) by (simp add: take_Cons')
  moreover have "distinct (map fst ((k', w) # take (nat (cap - 1)) l))"
    using l(1) assms(3) by (auto simp: take_map [symmetric] dest: in_set_takeD)
  moreover have "fst ` set ((k', w) # ys) \<subseteq> insert k' T" using l(3) by auto
  ultimately show ?thesis unfolding lru_front_def by (metis append_Cons)
qed

fun op_key :: "('k, 'v) cache_op \<Rightarrow> 'k option" where
  "op_key (Get k) = Some k"
| "op_key (Put k v) = Some k"
| "op_key (Erase k) = None"
| "op_key Clear = None"

lemma lru_front_step:
  assumes "lru_front k v T l" "op_key a = Some k'" "k' \<noteq> k" "finite T" "int (card (insert k' T)) < cap"
  shows "lru_front k v (insert k' T) (lru_step cap a l)"
proof (cases a)
  case (Get k1)
  have "lru_front k v (insert k' T) l" using assms(1) unfolding lru_front_def by blast
  then show ?thesis using Get assms(2) lru_front_touch [OF assms(1,3)] by (simp add: lru_get_def split: option.split)
next
  case (Put k1 w)
  then show ?thesis using assms lru_front_touch [OF assms(1,3)] lru_front_new [OF assms(1,3)] by (simp add: lru_put_def)
qed (use assms in simp_all)

lemma lru_front_run:
  assumes "lru_front k v T l" "\<forall>a \<in> set as. \<exists>k'. op_key a = Some k' \<and> k' \<noteq> k" "finite T"
    and "int (card (T \<union> (\<lambda>a. the (op_key a)) ` set as)) < cap"
  shows "\<exists>T'. lru_front k v T' (fold (lru_step cap) as l)"
  using assms
proof (induction as arbitrary: T l)
  case (Cons a as)
  obtain k' where k': "op_key a = Some k'" "k' \<noteq> k" using Cons.prems(2) by auto
  have "card (insert k' T) \<le> card (T \<union> (\<lambda>a. the (op_key a)) ` set (a # as))"
    using Cons.prems(3) k' by (intro card_mono) auto
  then have "lru_front k v (insert k' T) (lru_step cap a l)"
    using Cons.prems(4) by (intro lru_front_step [OF Cons.prems(1) k' Cons.prems(3)]) linarith
  from Cons.IH [OF this] show ?case using Cons.prems(2-4) k' by (simp add: Un_insert_left)
qed auto

lemma lru_front_lookup: "lru_front k v T l \<Longrightarrow> map_of l k = Some v"
  by (auto simp: lru_front_def)

section \<open>Properties of the cache\<close>

text \<open>
  C4. The cache implements a least-recently-used list.  Every run of gets, puts, erases and
  clears from a freshly initialised cache is defined (no operation uses an iterator whose node
  is gone), ends in the list that the abstract operations give, holds at most \<open>cap\<close> entries
  (one, when the capacity is not positive), and a get then answers as the abstract one.
\<close>

theorem cache_refines_lru:
  "\<exists>c. foldo kc_step as (snd (kc_init cap kc_new)) = Some c \<and> kc_wf c \<and>
     kc_abs c = fold (lru_step cap) as [] \<and> kc_size c \<le> max 1 cap \<and>
     (\<forall>k v. \<exists>c'. kc_get k v c = Some (fst (lru_get k v (kc_abs c)), fst (snd (lru_get k v (kc_abs c))), c'))"
proof -
  have i: "kc_wf (snd (kc_init cap kc_new))" "kc_abs (snd (kc_init cap kc_new)) = []"
    "kc_capacity (snd (kc_init cap kc_new)) = cap"
    by (simp_all add: kc_init_def kc_new_def kc_wf_def kc_abs_def)
  obtain c where c: "foldo kc_step as (snd (kc_init cap kc_new)) = Some c" "kc_wf c" "kc_abs c = fold (lru_step cap) as []"
    using kc_run_correct [OF i(1), of as] unfolding i(2,3) by blast
  have "kc_size c = int (length (kc_abs c))" using c(2) by (simp add: kc_wf_def kc_abs_def)
  then have "kc_size c \<le> max 1 cap" using c(3) length_lru_run [of "[]" cap as] by simp
  moreover have "\<exists>c'. kc_get k v c = Some (fst (lru_get k v (kc_abs c)), fst (snd (lru_get k v (kc_abs c))), c')" for k v
    by (rule kc_get_correct [OF c(2), of k v]) blast
  ultimately show ?thesis using c by blast
qed

text \<open>
  A cached value survives until the capacity is used up by other keys: after a put of \<open>k\<close>
  and any gets and puts of fewer than \<open>capacity\<close> different other keys, a get of \<open>k\<close> finds it.
\<close>

theorem cache_keeps_recent:
  assumes wf: "kc_wf c" and others: "\<forall>a \<in> set as. \<exists>k'. op_key a = Some k' \<and> k' \<noteq> k"
    and few: "int (card ((\<lambda>a. the (op_key a)) ` set as)) < kc_capacity c"
  shows "\<exists>c1 c2. foldo kc_step (Put k v # as) c = Some c1 \<and> kc_get k w c1 = Some (True, v, c2)"
proof -
  let ?cap = "kc_capacity c"
  have "distinct (map fst (kc_abs c))" using wf by (simp add: kc_wf_def kc_abs_def comp_def)
  then have "distinct (map fst (lru_put ?cap k v (kc_abs c)))"
    by (auto simp: lru_put_def distinct_map_filter take_map [symmetric] dest: in_set_takeD)
  then have "lru_front k v {} (lru_step ?cap (Put k v) (kc_abs c))"
    unfolding lru_front_def by (auto simp: lru_put_def intro: exI [of _ "[]"])
  from lru_front_run [OF this others, of ?cap] few
  have m: "map_of (fold (lru_step ?cap) (Put k v # as) (kc_abs c)) k = Some v"
    using lru_front_lookup by fastforce
  obtain c1 where c1: "foldo kc_step (Put k v # as) c = Some c1" "kc_wf c1"
    "kc_abs c1 = fold (lru_step ?cap) (Put k v # as) (kc_abs c)"
    using kc_run_correct [OF wf] by blast
  have "lru_get k w (kc_abs c1) = (True, v, (k, v) # filter (\<lambda>e. fst e \<noteq> k) (kc_abs c1))"
    using m c1(3) by (simp add: lru_get_def)
  then obtain c2 where "kc_get k w c1 = Some (True, v, c2)" using kc_get_correct [OF c1(2), of k w] by auto
  then show ?thesis using c1(1) by blast
qed

theorem cache_keeps_recent_witness:
  "\<exists>c1 c2. foldo kc_step [Put (1::int) ''a'', Put 2 ''b'', Get 2, Put 3 ''c''] (snd (kc_init 3 kc_new)) = Some c1 \<and>
     kc_get 1 [] c1 = Some (True, ''a'', c2)"
proof (rule cache_keeps_recent)
  show "kc_wf (snd (kc_init 3 kc_new))" by (simp add: kc_init_def kc_new_def kc_wf_def)
qed (simp_all add: kc_init_def)

text \<open>
  \<^verbatim>\<open>init\<close> on a cache that already holds entries breaks the count: the entries stay, the
  size is reset to zero, and the next puts overfill the cache.
\<close>

theorem cache_reinit_overfills:
  "\<exists>c. foldo kc_step [Put (1::int) ''a'', Put 2 ''b''] (snd (kc_init 2 kc_new)) = Some c \<and>
     map_option (\<lambda>c. (kc_size c, length (kc_lru_list c))) (foldo kc_step [Put 3 ''c'', Put 4 ''d''] (snd (kc_init 2 c)))
       = Some (2, 4)"
  by (simp add: kc_put_def kc_init_def kc_new_def kc_insert_def kc_evict.simps Let_def)

end
