(* ===== verification/Ob_Schema.thy ===== *)
theory Ob_Schema
  imports Ob_Prelude
begin

text \<open>
  Database, table and column schemas and the service that keeps them in memory:
  \<^verbatim>\<open>share/schema/ob_column_schema.h\<close>, \<^verbatim>\<open>ob_table_schema.h\<close>, \<^verbatim>\<open>ob_database_schema.h\<close> and
  \<^verbatim>\<open>ob_schema_service.{h,cpp}\<close>.

  A name is a \<^verbatim>\<open>char[128]\<close>, the type \<open>char128\<close>.  A C string argument is the list of its bytes
  before the terminating zero.  The schemas are serialised by copying their object representation,
  padding included.  The order in which a \<^verbatim>\<open>std::unordered_map\<close> is iterated is not specified: the
  operations that iterate take the keys in that order as an argument.
\<close>

section \<open>Names\<close>

typedef char128 = "{b :: bytes. length b = 128}" morphisms chars mk_chars
  by (rule exI [of _ "replicate 128 0"]) simp

lemma length_chars [simp, layout]: "length (chars n) = 128"
  using chars [of n] by simp

lemma chars_mk_chars [simp]: "length b = 128 \<Longrightarrow> chars (mk_chars b) = b"
  by (simp add: mk_chars_inverse)

lemma mk_chars_chars [simp, layout]: "mk_chars (chars n) = n"
  by (rule chars_inverse)

definition name_zero :: char128 where "name_zero = mk_chars (replicate 128 0)"

text \<open>\<^verbatim>\<open>strncpy(dst, name, sizeof(dst) - 1)\<close> on a non-null name: the last byte is not written.\<close>

definition name_set :: "bytes option \<Rightarrow> char128 \<Rightarrow> char128" where
  "name_set name old =
     (case name of None \<Rightarrow> old
      | Some s \<Rightarrow> mk_chars (take 127 (s @ replicate 127 0) @ drop 127 (chars old)))"

text \<open>The C string in an array; without a terminating zero it is read past its end.\<close>

definition name_get :: "char128 \<Rightarrow> bytes option" where
  "name_get n = (if 0 \<in> set (chars n) then Some (takeWhile (\<lambda>b. b \<noteq> 0) (chars n)) else None)"

section \<open>Columns\<close>

text \<open>\<open>cs_pad\<close> are the four padding bytes between \<^verbatim>\<open>data_type_\<close> and \<^verbatim>\<open>data_length_\<close>; the constructor
  leaves them as they are.\<close>

record ObColumnSchemaV2 =
  cs_column_id :: u64
  cs_column_name :: char128
  cs_data_type :: u32
  cs_pad :: u32
  cs_data_length :: u64

definition cs_new :: "u32 \<Rightarrow> ObColumnSchemaV2" where
  "cs_new pad = \<lparr>cs_column_id = 0, cs_column_name = name_zero, cs_data_type = 0, cs_pad = pad, cs_data_length = 0\<rparr>"

definition cs_reset :: ObColumnSchemaV2 where
  "cs_reset = cs_new 0"

definition cs_set_column_name :: "bytes option \<Rightarrow> ObColumnSchemaV2 \<Rightarrow> ObColumnSchemaV2" where
  "cs_set_column_name name c = c\<lparr>cs_column_name := name_set name (cs_column_name c)\<rparr>"

definition cs_size :: nat where "cs_size = 152"

definition cs_enc :: "ObColumnSchemaV2 \<Rightarrow> bytes" where
  "cs_enc c = put_word (cs_column_id c) @ chars (cs_column_name c) @ put_word (cs_data_type c) @ put_word (cs_pad c) @
     put_word (cs_data_length c)"

definition cs_dec :: "bytes \<Rightarrow> ObColumnSchemaV2" where
  "cs_dec b = \<lparr>cs_column_id = get_word (bslice 0 8 b), cs_column_name = mk_chars (bslice 8 128 b),
     cs_data_type = get_word (bslice 136 4 b), cs_pad = get_word (bslice 140 4 b), cs_data_length = get_word (bslice 144 8 b)\<rparr>"

interpretation csh: pod_layout cs_enc cs_dec cs_size
  by unfold_locales (simp_all add: cs_enc_def cs_dec_def cs_size_def layout)

definition cs_serialize :: "ObColumnSchemaV2 \<Rightarrow> bytes \<Rightarrow> nat \<Rightarrow> ret \<times> bytes \<times> nat" where
  "cs_serialize c buf pos = pod_serialize (cs_enc c) buf pos"

definition cs_deserialize :: "ObColumnSchemaV2 \<Rightarrow> bytes \<Rightarrow> nat \<Rightarrow> ret \<times> ObColumnSchemaV2 \<times> nat" where
  "cs_deserialize c buf pos = pod_deserialize cs_size cs_dec c buf pos"

section \<open>Tables\<close>

record ObTableSchema =
  tbs_table_id :: u64
  tbs_table_name :: char128
  tbs_database_id :: u64
  tbs_schema_version :: u64
  tbs_column_count :: u64
  tbs_columns :: "ObColumnSchemaV2 list"

definition tbs_new :: ObTableSchema where
  "tbs_new = \<lparr>tbs_table_id = 0, tbs_table_name = name_zero, tbs_database_id = 0, tbs_schema_version = 0, tbs_column_count = 0,
     tbs_columns = []\<rparr>"

definition tbs_reset :: "ObTableSchema \<Rightarrow> ObTableSchema" where
  "tbs_reset t = \<lparr>tbs_table_id = 0, tbs_table_name = mk_chars (0 # drop 1 (chars (tbs_table_name t))), tbs_database_id = 0,
     tbs_schema_version = 0, tbs_column_count = 0, tbs_columns = []\<rparr>"

definition tbs_set_table_name :: "bytes option \<Rightarrow> ObTableSchema \<Rightarrow> ObTableSchema" where
  "tbs_set_table_name name t = t\<lparr>tbs_table_name := name_set name (tbs_table_name t)\<rparr>"

definition tbs_add_column :: "ObColumnSchemaV2 \<Rightarrow> ObTableSchema \<Rightarrow> ret \<times> ObTableSchema" where
  "tbs_add_column c t =
     (0, t\<lparr>tbs_columns := tbs_columns t @ [c], tbs_column_count := word_of_nat (length (tbs_columns t) + 1)\<rparr>)"

text \<open>The outer option is None when the vector is indexed out of its range.\<close>

definition tbs_get_column :: "int \<Rightarrow> ObTableSchema \<Rightarrow> ObColumnSchemaV2 option option" where
  "tbs_get_column idx t =
     (if idx < 0 \<or> idx \<ge> sint (tbs_column_count t) then Some None
      else if nat idx < length (tbs_columns t) then Some (Some (tbs_columns t ! nat idx)) else None)"

definition tbs_get_serialize_size :: "ObTableSchema \<Rightarrow> nat" where
  "tbs_get_serialize_size t = 5 * 8 + length (tbs_columns t) * cs_size"

text \<open>The five fields before the columns, 160 bytes with the name.\<close>

definition tbs_head :: "ObTableSchema \<Rightarrow> bytes" where
  "tbs_head t = put_word (tbs_table_id t) @ chars (tbs_table_name t) @ put_word (tbs_database_id t) @
     put_word (tbs_schema_version t) @ put_word (tbs_column_count t)"

fun tbs_write_columns :: "ObColumnSchemaV2 list \<Rightarrow> nat \<Rightarrow> bytes \<Rightarrow> nat \<Rightarrow> (ret \<times> bytes \<times> nat) option" where
  "tbs_write_columns cols 0 buf pos = Some (0, buf, pos)"
| "tbs_write_columns [] (Suc n) buf pos = None"
| "tbs_write_columns (c # cols) (Suc n) buf pos =
     (case cs_serialize c buf pos of (r, buf, pos) \<Rightarrow>
        if r \<noteq> 0 then Some (-1, buf, pos) else tbs_write_columns cols n buf pos)"

definition tbs_serialize :: "ObTableSchema \<Rightarrow> bytes \<Rightarrow> nat \<Rightarrow> (ret \<times> bytes \<times> nat) option" where
  "tbs_serialize t buf pos =
     (if length buf < pos + tbs_get_serialize_size t then Some (-1, buf, pos)
      else if length buf < pos + 160 then None
      else tbs_write_columns (tbs_columns t) (nat (sint (tbs_column_count t))) (blit pos (tbs_head t) buf) (pos + 160))"

fun tbs_read_columns :: "u32 \<Rightarrow> nat \<Rightarrow> bytes \<Rightarrow> nat \<Rightarrow> ObColumnSchemaV2 list \<Rightarrow> ret \<times> ObColumnSchemaV2 list \<times> nat" where
  "tbs_read_columns pad 0 buf pos cols = (0, cols, pos)"
| "tbs_read_columns pad (Suc n) buf pos cols =
     (case cs_deserialize (cs_new pad) buf pos of (r, c, pos) \<Rightarrow>
        if r \<noteq> 0 then (-1, cols, pos) else tbs_read_columns pad n buf pos (cols @ [c]))"

definition tbs_deserialize :: "u32 \<Rightarrow> ObTableSchema \<Rightarrow> bytes \<Rightarrow> nat \<Rightarrow> (ret \<times> ObTableSchema \<times> nat) option" where
  "tbs_deserialize pad t buf pos =
     (if length buf < pos + 5 * 8 then Some (-1, t, pos)
      else if length buf < pos + 160 then None
      else let b = bslice pos 160 buf;
               t = \<lparr>tbs_table_id = get_word (bslice 0 8 b), tbs_table_name = mk_chars (bslice 8 128 b),
                    tbs_database_id = get_word (bslice 136 8 b), tbs_schema_version = get_word (bslice 144 8 b),
                    tbs_column_count = get_word (bslice 152 8 b), tbs_columns = []\<rparr>;
               (r, cols, pos) = tbs_read_columns pad (nat (sint (tbs_column_count t))) buf (pos + 160) []
           in Some (r, t\<lparr>tbs_columns := cols\<rparr>, pos))"

section \<open>Databases\<close>

record ObDatabaseSchema =
  dbs_database_id :: u64
  dbs_database_name :: char128

definition dbs_new :: ObDatabaseSchema where
  "dbs_new = \<lparr>dbs_database_id = 0, dbs_database_name = name_zero\<rparr>"

definition dbs_reset :: ObDatabaseSchema where
  "dbs_reset = dbs_new"

definition dbs_set_database_name :: "bytes option \<Rightarrow> ObDatabaseSchema \<Rightarrow> ObDatabaseSchema" where
  "dbs_set_database_name name d = d\<lparr>dbs_database_name := name_set name (dbs_database_name d)\<rparr>"

definition dbs_size :: nat where "dbs_size = 136"

definition dbs_enc :: "ObDatabaseSchema \<Rightarrow> bytes" where
  "dbs_enc d = put_word (dbs_database_id d) @ chars (dbs_database_name d)"

definition dbs_dec :: "bytes \<Rightarrow> ObDatabaseSchema" where
  "dbs_dec b = \<lparr>dbs_database_id = get_word (bslice 0 8 b), dbs_database_name = mk_chars (bslice 8 128 b)\<rparr>"

interpretation dbh: pod_layout dbs_enc dbs_dec dbs_size
  by unfold_locales (simp_all add: dbs_enc_def dbs_dec_def dbs_size_def layout)

definition dbs_serialize :: "ObDatabaseSchema \<Rightarrow> bytes \<Rightarrow> nat \<Rightarrow> ret \<times> bytes \<times> nat" where
  "dbs_serialize d buf pos = pod_serialize (dbs_enc d) buf pos"

definition dbs_deserialize :: "ObDatabaseSchema \<Rightarrow> bytes \<Rightarrow> nat \<Rightarrow> ret \<times> ObDatabaseSchema \<times> nat" where
  "dbs_deserialize d buf pos = pod_deserialize dbs_size dbs_dec d buf pos"

section \<open>Service\<close>

record ObSchemaService =
  ss_next_database_id :: u64
  ss_next_table_id :: u64
  ss_databases :: "u64 \<rightharpoonup> ObDatabaseSchema"
  ss_tables :: "u64 \<rightharpoonup> ObTableSchema"

definition ss_new :: ObSchemaService where
  "ss_new = \<lparr>ss_next_database_id = 1, ss_next_table_id = 1, ss_databases = Map.empty, ss_tables = Map.empty\<rparr>"

definition ss_create_database :: "bytes \<Rightarrow> ObSchemaService \<Rightarrow> ret \<times> u64 \<times> ObSchemaService" where
  "ss_create_database db_name s =
     (let database_id = ss_next_database_id s;
          db = dbs_set_database_name (Some db_name) (dbs_new\<lparr>dbs_database_id := database_id\<rparr>)
      in (0, database_id, s\<lparr>ss_next_database_id := database_id + 1, ss_databases := (ss_databases s)(database_id \<mapsto> db)\<rparr>))"

text \<open>The loops that compare names in the order \<open>ks\<close> of the map: the key of the first entry that has the name.\<close>

fun first_named :: "('a \<Rightarrow> char128) \<Rightarrow> (u64 \<rightharpoonup> 'a) \<Rightarrow> bytes \<Rightarrow> u64 list \<Rightarrow> u64 option option" where
  "first_named nm m name [] = Some None"
| "first_named nm m name (k # ks) = do {
     v \<leftarrow> m k;
     n \<leftarrow> name_get (nm v);
     if n = name then Some (Some k) else first_named nm m name ks
   }"

definition ss_drop_database :: "u64 list \<Rightarrow> bytes \<Rightarrow> ObSchemaService \<Rightarrow> (ret \<times> ObSchemaService) option" where
  "ss_drop_database ks db_name s =
     map_option (\<lambda>r. case r of None \<Rightarrow> (-1, s) | Some k \<Rightarrow> (0, s\<lparr>ss_databases := (ss_databases s)(k := None)\<rparr>))
       (first_named dbs_database_name (ss_databases s) db_name ks)"

definition ss_get_database_by_name :: "u64 list \<Rightarrow> bytes \<Rightarrow> ObSchemaService \<Rightarrow> ObDatabaseSchema option option" where
  "ss_get_database_by_name ks db_name s =
     map_option (\<lambda>r. case r of None \<Rightarrow> None | Some k \<Rightarrow> ss_databases s k)
       (first_named dbs_database_name (ss_databases s) db_name ks)"

definition ss_get_database_by_id :: "u64 \<Rightarrow> ObSchemaService \<Rightarrow> ObDatabaseSchema option" where
  "ss_get_database_by_id database_id s = ss_databases s database_id"

fun all_names :: "('a \<Rightarrow> char128) \<Rightarrow> (u64 \<rightharpoonup> 'a) \<Rightarrow> u64 list \<Rightarrow> bytes list option" where
  "all_names nm m [] = Some []"
| "all_names nm m (k # ks) = do {
     v \<leftarrow> m k;
     n \<leftarrow> name_get (nm v);
     ns \<leftarrow> all_names nm m ks;
     Some (n # ns)
   }"

definition ss_get_all_databases :: "u64 list \<Rightarrow> bytes list \<Rightarrow> ObSchemaService \<Rightarrow> (ret \<times> bytes list) option" where
  "ss_get_all_databases ks db_names s = map_option (\<lambda>ns. (0, db_names @ ns)) (all_names dbs_database_name (ss_databases s) ks)"

definition ss_create_table :: "ObTableSchema \<Rightarrow> ObSchemaService \<Rightarrow> ret \<times> ObTableSchema \<times> ObSchemaService" where
  "ss_create_table t s =
     (let table_id = ss_next_table_id s;
          t = t\<lparr>tbs_table_id := table_id, tbs_schema_version := 1\<rparr>
      in (sint (ucast table_id :: u32), t,
          s\<lparr>ss_next_table_id := table_id + 1, ss_tables := (ss_tables s)(table_id \<mapsto> t)\<rparr>))"

definition ss_drop_table :: "u64 list \<Rightarrow> u64 \<Rightarrow> bytes \<Rightarrow> ObSchemaService \<Rightarrow> (ret \<times> ObSchemaService) option" where
  "ss_drop_table ks database_id table_name s =
     map_option (\<lambda>r. case r of None \<Rightarrow> (-1, s) | Some k \<Rightarrow> (0, s\<lparr>ss_tables := (ss_tables s)(k := None)\<rparr>))
       (first_named tbs_table_name (ss_tables s) table_name ks)"

definition ss_get_table_schema :: "u64 list \<Rightarrow> bytes \<Rightarrow> ObSchemaService \<Rightarrow> ObTableSchema option option" where
  "ss_get_table_schema ks table_name s =
     map_option (\<lambda>r. case r of None \<Rightarrow> None | Some k \<Rightarrow> ss_tables s k)
       (first_named tbs_table_name (ss_tables s) table_name ks)"

definition ss_get_all_tables :: "u64 list \<Rightarrow> u64 \<Rightarrow> bytes list \<Rightarrow> ObSchemaService \<Rightarrow> (ret \<times> bytes list) option" where
  "ss_get_all_tables ks database_id table_names s =
     map_option (\<lambda>ns. (0, table_names @ ns))
       (all_names tbs_table_name (ss_tables s)
          (filter (\<lambda>k. case ss_tables s k of None \<Rightarrow> True | Some t \<Rightarrow> tbs_database_id t = database_id) ks))"

definition ss_replay_ddl :: "u32 \<Rightarrow> bytes option \<Rightarrow> ObSchemaService \<Rightarrow> (ret \<times> ObSchemaService) option" where
  "ss_replay_ddl pad buf s =
     (case buf of None \<Rightarrow> Some (-1, s)
      | Some [] \<Rightarrow> Some (-1, s)
      | Some (type # ptr) \<Rightarrow>
          if type = 0 then
            (case dbs_deserialize dbs_new ptr 0 of (r, db, pos) \<Rightarrow>
               if r \<noteq> 0 then Some (-1, s)
               else Some (0, s\<lparr>ss_databases := (ss_databases s)(dbs_database_id db \<mapsto> db)\<rparr>))
          else if type = 1 then do {
            (r, table, pos) \<leftarrow> tbs_deserialize pad tbs_new ptr 0;
            if r \<noteq> 0 then Some (-1, s)
            else Some (0, s\<lparr>ss_tables := (ss_tables s)(tbs_table_id table \<mapsto> table)\<rparr>)
          } else Some (0, s))"

section \<open>Names of a bounded length\<close>

lemma chars_name_set:
  "chars (name_set (Some s) name_zero) = take 127 s @ replicate (127 - length s) 0 @ [0]"
proof -
  have "drop 127 (replicate 128 (0 :: byte)) = [0]" by simp
  then show ?thesis by (simp add: name_set_def name_zero_def min_def)
qed

lemma name_get_set: "0 \<notin> set s \<Longrightarrow> name_get (name_set (Some s) name_zero) = Some (take 127 s)"
  by (auto simp: name_get_def chars_name_set takeWhile_append dest: in_set_takeD)

lemma name_get_set_short: "0 \<notin> set s \<Longrightarrow> length s < 128 \<Longrightarrow> name_get (name_set (Some s) name_zero) = Some s"
  by (simp add: name_get_set)

section \<open>Serialised tables\<close>

lemma blit_blit: "p \<le> length b \<Longrightarrow> blit (p + length xs) ys (blit p xs b) = blit p (xs @ ys) b"
  by (simp add: blit_def ac_simps)

definition columns_bytes :: "ObColumnSchemaV2 list \<Rightarrow> bytes" where
  "columns_bytes cols = concat (map cs_enc cols)"

lemma length_columns_bytes [simp]: "length (columns_bytes cols) = length cols * cs_size"
  by (induction cols) (simp_all add: columns_bytes_def csh.length_enc)

lemma columns_bytes_Cons: "columns_bytes (c # cols) = cs_enc c @ columns_bytes cols"
  by (simp add: columns_bytes_def)

lemma tbs_write_columns_ok:
  "pos + length cols * cs_size \<le> length buf \<Longrightarrow>
   tbs_write_columns cols (length cols) buf pos = Some (0, blit pos (columns_bytes cols) buf, pos + length cols * cs_size)"
proof (induction cols arbitrary: buf pos)
  case Nil
  then show ?case by (simp add: columns_bytes_def blit_def)
next
  case (Cons c cols)
  have s: "cs_serialize c buf pos = (0, blit pos (cs_enc c) buf, pos + cs_size)"
    unfolding cs_serialize_def using Cons.prems by (intro csh.serialize_ok) simp
  have l: "length (blit pos (cs_enc c) buf) = length buf" using Cons.prems by (simp add: csh.length_enc)
  have "blit (pos + cs_size) (columns_bytes cols) (blit pos (cs_enc c) buf) = blit pos (columns_bytes (c # cols)) buf"
    using blit_blit [of pos buf "cs_enc c" "columns_bytes cols"] Cons.prems by (simp add: csh.length_enc columns_bytes_Cons)
  then show ?case using s Cons.IH [of "pos + cs_size" "blit pos (cs_enc c) buf"] Cons.prems l by (simp add: add.assoc)
qed

lemma tbs_write_columns_short:
  "cols \<noteq> [] \<Longrightarrow> length buf < pos + length cols * cs_size \<Longrightarrow>
   \<exists>buf' pos'. tbs_write_columns cols (length cols) buf pos = Some (-1, buf', pos')"
proof (induction cols arbitrary: buf pos)
  case (Cons c cols)
  show ?case
  proof (cases "length buf < pos + cs_size")
    case True
    then show ?thesis by (simp add: cs_serialize_def csh.serialize_error)
  next
    case False
    then have "cols \<noteq> []" "length (blit pos (cs_enc c) buf) = length buf" using Cons.prems by (auto simp: csh.length_enc)
    then show ?thesis using False Cons.IH [of "blit pos (cs_enc c) buf" "pos + cs_size"] Cons.prems
      by (simp add: cs_serialize_def csh.serialize_ok)
  qed
qed simp

lemma tbs_read_columns_ok:
  "bslice pos (length cols * cs_size) buf = columns_bytes cols \<Longrightarrow> pos + length cols * cs_size \<le> length buf \<Longrightarrow>
   tbs_read_columns pad (length cols) buf pos acc = (0, acc @ cols, pos + length cols * cs_size)"
proof (induction cols arbitrary: pos acc)
  case (Cons c cols)
  have sp: "bslice pos cs_size buf @ bslice (pos + cs_size) (length cols * cs_size) buf = cs_enc c @ columns_bytes cols"
    using Cons.prems(1) by (simp add: bslice_split [symmetric] columns_bytes_Cons)
  have l: "length (bslice pos cs_size buf) = length (cs_enc c)" using Cons.prems(2) by (simp add: csh.length_enc)
  then have b: "bslice pos cs_size buf = cs_enc c" "bslice (pos + cs_size) (length cols * cs_size) buf = columns_bytes cols"
    using sp by simp_all
  have "cs_deserialize (cs_new pad) buf pos = (0, c, pos + cs_size)"
    unfolding cs_deserialize_def using b(1) Cons.prems(2) by (intro csh.roundtrip_slice) simp_all
  then show ?case using Cons.IH [OF b(2), of "acc @ [c]"] Cons.prems(2) by (simp add: add.assoc)
qed simp

lemma length_tbs_head: "length (tbs_head t) = 160"
  by (simp add: tbs_head_def)



text \<open>
  The size that \<^verbatim>\<open>ObTableSchema::get_serialize_size\<close> announces is too small, since it does not
  count the name: a buffer of exactly that size never works.  Without columns \<^verbatim>\<open>serialize\<close> writes
  past the buffer, and otherwise it fails at the last column.
\<close>

theorem table_serialize_size_too_small:
  assumes "tbs_column_count t = word_of_nat (length (tbs_columns t))" "length (tbs_columns t) < 2 ^ 63"
    and "length buf = tbs_get_serialize_size t"
  shows "map_option fst (tbs_serialize t buf 0) = (if tbs_columns t = [] then None else Some (-1))"
proof (cases "tbs_columns t")
  case Nil
  then show ?thesis using assms by (simp add: tbs_serialize_def tbs_get_serialize_size_def)
next
  case (Cons c cols)
  let ?b = "blit 0 (tbs_head t) buf"
  have l: "length buf = 192 + length cols * 152" using assms(3) Cons by (simp add: tbs_get_serialize_size_def cs_size_def)
  then have "length ?b < 160 + length (tbs_columns t) * cs_size"
    using Cons by (simp add: length_tbs_head cs_size_def)
  then obtain buf' pos' where "tbs_write_columns (tbs_columns t) (length (tbs_columns t)) ?b 160 = Some (-1, buf', pos')"
    using tbs_write_columns_short [of "tbs_columns t" ?b 160] Cons by auto
  moreover have "nat (sint (tbs_column_count t)) = length (tbs_columns t)" using assms(1,2) by (simp add: sint_nat64)
  ultimately show ?thesis using Cons assms(3) l by (simp add: tbs_serialize_def del: tbs_write_columns.simps)
qed

theorem table_serialize_size_too_small_witness:
  "map_option fst (tbs_serialize (snd (tbs_add_column (cs_new 0) tbs_new)) (replicate 192 0) 0) = Some (-1)"
  using table_serialize_size_too_small [of "snd (tbs_add_column (cs_new 0) tbs_new)" "replicate 192 0"]
  by (simp add: tbs_add_column_def tbs_new_def tbs_get_serialize_size_def cs_size_def)

section \<open>Databases by name\<close>

definition named :: "('a \<Rightarrow> char128) \<Rightarrow> (u64 \<rightharpoonup> 'a) \<Rightarrow> bytes \<Rightarrow> u64 \<Rightarrow> bool" where
  "named nm m name k \<longleftrightarrow> (\<exists>v. m k = Some v \<and> name_get (nm v) = Some name)"

text \<open>\<open>m\<close> is what the service stands for: the id of each database name.\<close>

definition ss_ok :: "ObSchemaService \<Rightarrow> (bytes \<rightharpoonup> u64) \<Rightarrow> bool" where
  "ss_ok s m \<longleftrightarrow>
     (\<forall>n k. m n = Some k \<longleftrightarrow> named dbs_database_name (ss_databases s) n k) \<and>
     (\<forall>k d. ss_databases s k = Some d \<longrightarrow>
        dbs_database_id d = k \<and> k < ss_next_database_id s \<and> name_get (dbs_database_name d) \<noteq> None)"

lemma ss_ok_new: "ss_ok ss_new Map.empty"
  by (simp add: ss_ok_def ss_new_def named_def)

lemma first_named_found:
  "\<forall>k \<in> set ks. \<exists>n. named nm m n k \<Longrightarrow>
   \<exists>r. first_named nm m name ks = Some r \<and>
     (case r of None \<Rightarrow> \<forall>k \<in> set ks. \<not> named nm m name k | Some k \<Rightarrow> k \<in> set ks \<and> named nm m name k)"
proof (induction ks)
  case (Cons k ks)
  obtain v n where v: "m k = Some v" "name_get (nm v) = Some n" using Cons.prems by (auto simp: named_def)
  obtain r where r: "first_named nm m name ks = Some r"
    "case r of None \<Rightarrow> \<forall>k \<in> set ks. \<not> named nm m name k | Some k \<Rightarrow> k \<in> set ks \<and> named nm m name k"
    using Cons by auto
  show ?case
  proof (cases "n = name")
    case True
    then show ?thesis using v by (simp add: named_def)
  next
    case False
    then show ?thesis using v r by (intro exI [of _ r]) (auto simp: named_def split: option.splits)
  qed
qed simp

lemma first_named_ok:
  assumes "ss_ok s m" "set ks = dom (ss_databases s)"
  shows "first_named dbs_database_name (ss_databases s) name ks = Some (m name)"
proof -
  have all: "\<forall>k \<in> set ks. \<exists>n. named dbs_database_name (ss_databases s) n k"
    using assms by (fastforce simp: ss_ok_def named_def)
  obtain r where r: "first_named dbs_database_name (ss_databases s) name ks = Some r"
    "case r of None \<Rightarrow> \<forall>k \<in> set ks. \<not> named dbs_database_name (ss_databases s) name k
     | Some k \<Rightarrow> k \<in> set ks \<and> named dbs_database_name (ss_databases s) name k"
    using first_named_found [OF all, of name] by blast
  have eq: "m name = Some k \<longleftrightarrow> named dbs_database_name (ss_databases s) name k" for k
    using assms(1) by (simp add: ss_ok_def)
  have "r = m name"
  proof (cases r)
    case None
    then have "\<forall>k. \<not> named dbs_database_name (ss_databases s) name k" using r(2) assms(2) by (auto simp: named_def)
    then show ?thesis using eq None by (metis option.exhaust)
  next
    case (Some k)
    then show ?thesis using r(2) eq [of k] by simp
  qed
  then show ?thesis using r(1) by simp
qed

lemma ss_ok_next: "ss_ok s m \<Longrightarrow> ss_databases s (ss_next_database_id s) = None"
  unfolding ss_ok_def by (cases "ss_databases s (ss_next_database_id s)") auto

lemma ss_ok_create:
  assumes ok: "ss_ok s m" and name: "0 \<notin> set name" "length name < 128" "m name = None"
    and room: "ss_next_database_id s < -1"
  shows "\<exists>s'. ss_create_database name s = (0, ss_next_database_id s, s') \<and>
    ss_ok s' (m(name \<mapsto> ss_next_database_id s)) \<and> ss_next_database_id s' = ss_next_database_id s + 1"
proof -
  let ?k = "ss_next_database_id s"
  let ?d = "dbs_set_database_name (Some name) (dbs_new\<lparr>dbs_database_id := ?k\<rparr>)"
  let ?s = "s\<lparr>ss_next_database_id := ?k + 1, ss_databases := (ss_databases s)(?k \<mapsto> ?d)\<rparr>"
  have d: "name_get (dbs_database_name ?d) = Some name" "dbs_database_id ?d = ?k"
    using name(1,2) by (simp_all add: dbs_set_database_name_def dbs_new_def name_get_set_short)
  have lt: "k < ?k + 1" if "k \<le> ?k" for k
    using that unat_plus_1 [OF room] by (simp add: word_less_nat_alt word_le_nat_alt)
  have nd: "named dbs_database_name ((ss_databases s)(?k \<mapsto> ?d)) n k \<longleftrightarrow>
      (if k = ?k then n = name else named dbs_database_name (ss_databases s) n k)" for n k
    using d(1) by (auto simp: named_def)
  have "named dbs_database_name (ss_databases s) n k \<longleftrightarrow> m n = Some k" for n k
    using ok by (simp add: ss_ok_def)
  moreover have "m n \<noteq> Some ?k" for n
    using ok ss_ok_next [OF ok] by (simp add: ss_ok_def named_def)
  ultimately have "(m(name \<mapsto> ?k)) n = Some k \<longleftrightarrow> named dbs_database_name ((ss_databases s)(?k \<mapsto> ?d)) n k" for n k
    using name(3) by (auto simp: nd)
  moreover have "dbs_database_id e = k \<and> k < ?k + 1 \<and> name_get (dbs_database_name e) \<noteq> None"
    if "((ss_databases s)(?k \<mapsto> ?d)) k = Some e" for k e
    using that ok d lt less_imp_le [of k ?k] by (auto simp: ss_ok_def split: if_splits)
  ultimately have "ss_ok ?s (m(name \<mapsto> ?k))" by (simp add: ss_ok_def)
  then show ?thesis by (simp add: ss_create_database_def Let_def)
qed

lemma ss_ok_drop:
  assumes ok: "ss_ok s m" and ks: "set ks = dom (ss_databases s)"
  shows "\<exists>s'. ss_drop_database ks name s = Some (if m name = None then -1 else 0, s') \<and> ss_ok s' (m(name := None)) \<and>
    ss_next_database_id s' = ss_next_database_id s"
proof (cases "m name")
  case None
  then show ?thesis using ok first_named_ok [OF ok ks, of name] by (simp add: ss_drop_database_def fun_upd_idem)
next
  case (Some k)
  let ?s = "s\<lparr>ss_databases := (ss_databases s)(k := None)\<rparr>"
  have eq: "m n = Some j \<longleftrightarrow> named dbs_database_name (ss_databases s) n j" for n j
    using ok by (simp add: ss_ok_def)
  have "(m(name := None)) n = Some j \<longleftrightarrow> named dbs_database_name ((ss_databases s)(k := None)) n j" for n j
    using Some eq [of n j] eq [of name k] by (auto simp: named_def)
  then have "ss_ok ?s (m(name := None))" using ok by (simp add: ss_ok_def)
  then show ?thesis using Some first_named_ok [OF ok ks, of name] by (simp add: ss_drop_database_def)
qed

lemma ss_ok_get:
  assumes ok: "ss_ok s m" and ks: "set ks = dom (ss_databases s)"
  shows "map_option (map_option dbs_database_id) (ss_get_database_by_name ks name s) = Some (m name)"
proof (cases "m name")
  case (Some k)
  then obtain d where "ss_databases s k = Some d" "dbs_database_id d = k" using ok by (auto simp: ss_ok_def named_def)
  then show ?thesis using Some first_named_ok [OF ok ks, of name] by (simp add: ss_get_database_by_name_def)
qed (simp add: first_named_ok [OF ok ks] ss_get_database_by_name_def)

lemma ss_ok_found:
  assumes "ss_ok s m" "set ks = dom (ss_databases s)"
  shows "(\<exists>d. ss_get_database_by_name ks name s = Some (Some d)) \<longleftrightarrow> name \<in> dom m"
proof -
  obtain a where "ss_get_database_by_name ks name s = Some a" "m name = map_option dbs_database_id a"
    using ss_ok_get [OF assms, of name] by auto
  then show ?thesis by (cases a) auto
qed

section \<open>Tables and replay\<close>

text \<open>
  Tables are told apart by their ids and looked up by their names alone.  A second table of the
  same name is accepted, and which of the two a lookup finds depends on the order in which the hash
  map is iterated; and dropping a table of one database drops the table of that name of another.
\<close>

theorem table_names_not_unique:
  "let t = tbs_set_table_name (Some [116]) (tbs_new\<lparr>tbs_database_id := 1\<rparr>);
       s = snd (snd (ss_create_table t (snd (snd (ss_create_table t ss_new)))))
   in dom (ss_tables s) = {1, 2} \<and>
      map_option (map_option tbs_table_id) (ss_get_table_schema [1, 2] [116] s) = Some (Some 1) \<and>
      map_option (map_option tbs_table_id) (ss_get_table_schema [2, 1] [116] s) = Some (Some 2) \<and>
      map_option (\<lambda>(r, s). (r, dom (ss_tables s))) (ss_drop_table [1, 2] 77 [116] s) = Some (0, {2})"
proof -
  have "name_get (name_set (Some [116]) name_zero) = Some [116]" by (rule name_get_set_short) simp_all
  then show ?thesis
    by (auto simp: ss_create_table_def ss_new_def tbs_set_table_name_def tbs_new_def ss_get_table_schema_def ss_drop_table_def
        Let_def split: if_splits)
qed

text \<open>
  Replaying a database record does not advance the id counter.  When the record has the next
  free id, the next database that is created gets the same id and replaces the replayed one.
\<close>

theorem replayed_database_overwritten:
  assumes "dbs_database_id d = ss_next_database_id s"
  shows "\<exists>s1 s2. ss_replay_ddl pad (Some (0 # dbs_enc d)) s = Some (0, s1) \<and>
    ss_get_database_by_id (dbs_database_id d) s1 = Some d \<and>
    ss_create_database name s1 = (0, dbs_database_id d, s2) \<and>
    ss_get_database_by_id (dbs_database_id d) s2 =
      Some (dbs_set_database_name (Some name) (dbs_new\<lparr>dbs_database_id := dbs_database_id d\<rparr>))"
proof -
  have "dbs_deserialize dbs_new (dbs_enc d) 0 = (0, d, dbs_size)"
    unfolding dbs_deserialize_def using dbh.roundtrip_slice [of 0 "dbs_enc d" d dbs_new]
    by (simp add: dbh.length_enc bslice_def)
  then show ?thesis
    using assms by (simp add: ss_replay_ddl_def ss_get_database_by_id_def ss_create_database_def Let_def)
qed

theorem replayed_database_overwritten_witness:
  "\<exists>s1 s2. ss_replay_ddl 0 (Some (0 # dbs_enc (dbs_new\<lparr>dbs_database_id := 1\<rparr>))) ss_new = Some (0, s1) \<and>
    ss_get_database_by_id 1 s1 = Some (dbs_new\<lparr>dbs_database_id := 1\<rparr>) \<and>
    ss_create_database [97] s1 = (0, 1, s2) \<and>
    ss_get_database_by_id 1 s2 = Some (dbs_set_database_name (Some [97]) (dbs_new\<lparr>dbs_database_id := 1\<rparr>))"
  using replayed_database_overwritten [of "dbs_new\<lparr>dbs_database_id := 1\<rparr>" ss_new 0 "[97]"] by (simp add: ss_new_def)

end
