(* ===== verification/Ob_Slog.thy ===== *)
theory Ob_Slog
  imports Ob_Log_Service
begin

text \<open>
  The storage log for metadata, \<^verbatim>\<open>storage/slog/ob_storage_logger.h\<close> and \<^verbatim>\<open>.cpp\<close>: an append-only file
  of entries, each a 24-byte header and its data.

  Files are a map from paths to contents.  The outcomes of \<^verbatim>\<open>open\<close> and \<^verbatim>\<open>write\<close> are those of the
  parameter \<open>io\<close>; \<open>junk\<close> is the content of memory from \<^verbatim>\<open>malloc\<close>.  The callback of \<^verbatim>\<open>replay\<close> is a
  function on the state behind its \<^verbatim>\<open>ctx\<close> argument.
\<close>

section \<open>Entries\<close>

record ObStorageLogParam =
  lp_tenant_id :: u64
  lp_log_type :: u32
  lp_data :: "bytes option"
  lp_data_len :: int

definition lp_init :: ObStorageLogParam where
  "lp_init = \<lparr>lp_tenant_id = 1, lp_log_type = 0, lp_data = None, lp_data_len = 0\<rparr>"

record ObStorageLogEntry =
  se_magic :: u32
  se_total_size :: u32
  se_tenant_id :: u64
  se_log_type :: u32
  se_data_len :: u32

definition SLOG_MAGIC :: u32 where "SLOG_MAGIC = 0x534C4F47"

definition se_header_size :: nat where "se_header_size = 24"

datatype ObStorageLogType =
  SLOG_INVALID | SLOG_CREATE_TABLET | SLOG_DELETE_TABLET | SLOG_CREATE_SSTABLE | SLOG_CREATE_DATABASE | SLOG_DROP_DATABASE

fun slog_type_val :: "ObStorageLogType \<Rightarrow> u32" where
  "slog_type_val SLOG_INVALID = 0"
| "slog_type_val SLOG_CREATE_TABLET = 1"
| "slog_type_val SLOG_DELETE_TABLET = 2"
| "slog_type_val SLOG_CREATE_SSTABLE = 3"
| "slog_type_val SLOG_CREATE_DATABASE = 4"
| "slog_type_val SLOG_DROP_DATABASE = 5"

definition se_enc :: "ObStorageLogEntry \<Rightarrow> bytes" where
  "se_enc e = put_word (se_magic e) @ put_word (se_total_size e) @ put_word (se_tenant_id e) @
     put_word (se_log_type e) @ put_word (se_data_len e)"

definition se_dec :: "bytes \<Rightarrow> ObStorageLogEntry" where
  "se_dec b = \<lparr>se_magic = get_word (bslice 0 4 b), se_total_size = get_word (bslice 4 4 b),
     se_tenant_id = get_word (bslice 8 8 b), se_log_type = get_word (bslice 16 4 b),
     se_data_len = get_word (bslice 20 4 b)\<rparr>"

interpretation seh: pod_layout se_enc se_dec se_header_size
  by unfold_locales (simp_all add: se_enc_def se_dec_def se_header_size_def layout)

section \<open>Logger\<close>

record ObStorageLogger =
  sl_slog_dir :: string
  sl_slog_file_path :: string
  sl_fd :: int
  sl_is_inited :: bool

definition slog_new :: ObStorageLogger where
  "slog_new = \<lparr>sl_slog_dir = [], sl_slog_file_path = [], sl_fd = -1, sl_is_inited = False\<rparr>"

text \<open>\<open>fd\<close> is the descriptor the system hands out, when it opens the file.\<close>

definition slog_init :: "io \<Rightarrow> nat \<Rightarrow> string \<Rightarrow> ObStorageLogger \<Rightarrow> file_store \<Rightarrow> ret \<times> ObStorageLogger \<times> file_store" where
  "slog_init io fd log_dir st fs =
     (if sl_is_inited st then (0, st, fs)
      else let st = st\<lparr>sl_slog_dir := log_dir, sl_slog_file_path := log_dir @ ''/slog_0''\<rparr>
           in if io_open_ok io then
                (0, st\<lparr>sl_fd := int fd, sl_is_inited := True\<rparr>,
                 case fs (sl_slog_file_path st) of None \<Rightarrow> fs(sl_slog_file_path st \<mapsto> []) | Some _ \<Rightarrow> fs)
              else (-1, st\<lparr>sl_fd := -1\<rparr>, fs))"

definition slog_destroy :: "ObStorageLogger \<Rightarrow> ObStorageLogger" where
  "slog_destroy st = st\<lparr>sl_fd := (if sl_fd st \<ge> 0 then -1 else sl_fd st), sl_is_inited := False\<rparr>"

text \<open>The buffer that \<^verbatim>\<open>write_log\<close> hands to \<^verbatim>\<open>write\<close>.  A negative length makes the buffer smaller
  than the header stored into it, and one above the size of the data reads past it.\<close>

definition slog_entry :: "(nat \<Rightarrow> byte) \<Rightarrow> ObStorageLogParam \<Rightarrow> bytes option" where
  "slog_entry junk param =
     (if lp_data_len param < 0 then None
      else let n = nat (lp_data_len param);
               entry_size = se_header_size + n;
               hdr = \<lparr>se_magic = SLOG_MAGIC, se_total_size = word_of_nat entry_size,
                      se_tenant_id = lp_tenant_id param, se_log_type = lp_log_type param,
                      se_data_len = word_of_int (lp_data_len param)\<rparr>
           in case lp_data param of
                None \<Rightarrow> Some (se_enc hdr @ drop se_header_size (malloc_bytes junk entry_size))
              | Some d \<Rightarrow> if length d < n then None else Some (se_enc hdr @ take n d))"

definition slog_write_log :: "(nat \<Rightarrow> byte) \<Rightarrow> io \<Rightarrow> ObStorageLogParam \<Rightarrow> ObStorageLogger \<Rightarrow> file_store
    \<Rightarrow> (ret \<times> file_store) option" where
  "slog_write_log junk io param st fs =
     (if \<not> sl_is_inited st \<or> sl_fd st < 0 then Some (-1, fs)
      else do {
        buf \<leftarrow> slog_entry junk param;
        old \<leftarrow> fs (sl_slog_file_path st);
        let written = io_written io (length buf);
        let fs = fs(sl_slog_file_path st \<mapsto> old @ take (nat written) buf);
        if written \<noteq> int (length buf) then Some (-1, fs) else Some (0, fs)
      })"

type_synonym 's slog_callback = "ObStorageLogEntry \<Rightarrow> bytes \<Rightarrow> 's \<Rightarrow> (ret \<times> 's) option"

text \<open>The loop of \<^verbatim>\<open>replay\<close> over the bytes after the read position.  A negative length is passed on to
  \<^verbatim>\<open>malloc\<close>, \<^verbatim>\<open>read\<close> and \<^verbatim>\<open>memcpy\<close>, without a defined result.\<close>

function (sequential) slog_replay_loop :: "'s slog_callback option \<Rightarrow> bytes \<Rightarrow> 's \<Rightarrow> int \<Rightarrow> (int \<times> 's) option" where
  "slog_replay_loop callback bs s recovered =
     (if length bs < se_header_size then Some (recovered, s)
      else let hdr = se_dec (take se_header_size bs);
               data_len = sint (se_data_len hdr);
               rest = drop se_header_size bs
           in if se_magic hdr \<noteq> SLOG_MAGIC then Some (recovered, s)
              else if data_len < 0 then None
              else if int (length rest) < data_len then Some (recovered, s)
              else Option.bind
                     (case callback of None \<Rightarrow> Some s | Some cb \<Rightarrow> map_option snd (cb hdr (take (nat data_len) rest) s))
                     (\<lambda>s. slog_replay_loop callback (drop (nat data_len) rest) s (recovered + 1)))"
  by pat_completeness auto

termination slog_replay_loop
  by (relation "measure (\<lambda>(cb, bs, s, n). length bs)") (auto simp: se_header_size_def)

declare slog_replay_loop.simps [simp del]

definition slog_replay :: "io \<Rightarrow> 's slog_callback option \<Rightarrow> ObStorageLogger \<Rightarrow> file_store \<Rightarrow> 's \<Rightarrow> (int \<times> 's) option" where
  "slog_replay io callback st fs s =
     (case fs (sl_slog_file_path st) of
        None \<Rightarrow> Some (0, s)
      | Some bs \<Rightarrow> if io_open_ok io then slog_replay_loop callback bs s 0 else Some (0, s))"

section \<open>Replay of whole entries\<close>

text \<open>A parameter whose entry is defined and whose length fits the header.\<close>

definition lp_ok :: "ObStorageLogParam \<Rightarrow> bool" where
  "lp_ok p \<longleftrightarrow> (\<exists>d. lp_data p = Some d \<and> lp_data_len p = int (length d) \<and> length d < 2 ^ 31)"

definition lp_header :: "ObStorageLogParam \<Rightarrow> ObStorageLogEntry" where
  "lp_header p = \<lparr>se_magic = SLOG_MAGIC, se_total_size = word_of_nat (se_header_size + length (the (lp_data p))),
     se_tenant_id = lp_tenant_id p, se_log_type = lp_log_type p, se_data_len = word_of_nat (length (the (lp_data p)))\<rparr>"

definition lp_bytes :: "ObStorageLogParam \<Rightarrow> bytes" where
  "lp_bytes p = se_enc (lp_header p) @ the (lp_data p)"

lemma slog_entry_ok: "lp_ok p \<Longrightarrow> slog_entry junk p = Some (lp_bytes p)"
  by (auto simp: lp_ok_def slog_entry_def lp_bytes_def lp_header_def Let_def)

lemma lp_header_data_len: "lp_ok p \<Longrightarrow> sint (se_data_len (lp_header p)) = int (length (the (lp_data p)))"
  by (auto simp: lp_ok_def lp_header_def sint_nat32)

definition lp_deliver :: "'s slog_callback \<Rightarrow> ObStorageLogParam \<Rightarrow> 's \<Rightarrow> 's option" where
  "lp_deliver cb p s = map_option snd (cb (lp_header p) (the (lp_data p)) s)"

lemma slog_loop_entry:
  assumes "lp_ok p"
  shows "slog_replay_loop (Some cb) (lp_bytes p @ rest) s n =
    Option.bind (lp_deliver cb p s) (\<lambda>s. slog_replay_loop (Some cb) rest s (n + 1))"
proof -
  have t: "take se_header_size (lp_bytes p @ rest) = se_enc (lp_header p)"
    "drop se_header_size (lp_bytes p @ rest) = the (lp_data p) @ rest"
    using seh.length_enc [of "lp_header p"] by (simp_all add: lp_bytes_def)
  have "se_magic (lp_header p) = SLOG_MAGIC" by (simp add: lp_header_def)
  then show ?thesis
    using t lp_header_data_len [OF assms] seh.length_enc [of "lp_header p"]
    by (subst slog_replay_loop.simps) (simp add: seh.dec_enc lp_deliver_def lp_bytes_def Let_def)
qed

text \<open>A torn entry at the end: a proper prefix of an entry stops the replay.\<close>

lemma slog_loop_torn:
  assumes "lp_ok p" "k < length (lp_bytes p)"
  shows "slog_replay_loop cb (take k (lp_bytes p)) s n = Some (n, s)"
proof (cases "k < se_header_size")
  case True
  then have "length (take k (lp_bytes p)) < se_header_size" by simp
  then show ?thesis by (subst slog_replay_loop.simps) simp
next
  case False
  define b where "b = take k (lp_bytes p)"
  have l: "length (se_enc (lp_header p)) = se_header_size" by (rule seh.length_enc)
  then have t: "take se_header_size b = se_enc (lp_header p)" "\<not> length b < se_header_size"
    "int (length (drop se_header_size b)) < int (length (the (lp_data p)))"
    using False assms(2) by (simp_all add: lp_bytes_def min_def b_def)
  have "se_magic (lp_header p) = SLOG_MAGIC" by (simp add: lp_header_def)
  then have "slog_replay_loop cb b s n = Some (n, s)"
    using t lp_header_data_len [OF assms(1)]
    by (subst slog_replay_loop.simps) (simp add: seh.dec_enc Let_def del: length_drop)
  then show ?thesis by (simp add: b_def)
qed

lemma slog_loop_entries:
  assumes "\<forall>p \<in> set ps. lp_ok p"
    and tail: "\<And>s n. slog_replay_loop (Some cb) rest s n = Some (n, s)"
  shows "slog_replay_loop (Some cb) (concat (map lp_bytes ps) @ rest) s n =
    map_option (Pair (n + int (length ps))) (foldo (lp_deliver cb) ps s)"
  using assms(1)
proof (induction ps arbitrary: s n)
  case (Cons p ps)
  then show ?case
    by (simp add: slog_loop_entry) (cases "lp_deliver cb p s"; simp add: algebra_simps)
qed (simp add: tail)

section \<open>The log as a sequence of parameters\<close>

definition slog_holds :: "ObStorageLogger \<Rightarrow> file_store \<Rightarrow> ObStorageLogParam list \<Rightarrow> bool" where
  "slog_holds st fs ps \<longleftrightarrow>
     sl_is_inited st \<and> sl_fd st \<ge> 0 \<and> sl_slog_file_path st = sl_slog_dir st @ ''/slog_0'' \<and>
     (\<forall>p \<in> set ps. lp_ok p) \<and> fs (sl_slog_dir st @ ''/slog_0'') = Some (concat (map lp_bytes ps))"

lemma slog_write_holds:
  assumes "slog_holds st fs ps" "lp_ok p"
  shows "\<exists>fs'. slog_write_log junk io_good p st fs = Some (0, fs') \<and> slog_holds st fs' (ps @ [p])"
  using assms by (simp add: slog_write_log_def slog_holds_def slog_entry_ok io_good_def)

lemma slog_writes_hold:
  assumes "slog_holds st fs ps" "\<forall>p \<in> set qs. lp_ok p"
  shows "\<exists>fs'. foldo (\<lambda>p fs. map_option snd (slog_write_log junk io_good p st fs)) qs fs = Some fs' \<and>
    slog_holds st fs' (ps @ qs)"
  using assms
proof (induction qs arbitrary: fs ps)
  case (Cons q qs)
  then obtain fs1 where "slog_write_log junk io_good q st fs = Some (0, fs1)" "slog_holds st fs1 (ps @ [q])"
    using slog_write_holds [of st fs ps q junk] by auto
  then show ?case using Cons.IH [of fs1 "ps @ [q]"] Cons.prems(2) by simp
qed simp

lemma slog_init_fresh:
  assumes "fs (dir @ ''/slog_0'') = None"
  shows "\<exists>st fs'. slog_init io_good fd dir slog_new fs = (0, st, fs') \<and> slog_holds st fs' [] \<and> sl_slog_dir st = dir"
  using assms by (simp add: slog_init_def slog_new_def slog_holds_def io_good_def)

lemma slog_init_restart:
  assumes "slog_holds st fs ps"
  shows "\<exists>st'. slog_init io_good fd (sl_slog_dir st) slog_new fs = (0, st', fs) \<and> slog_holds st' fs ps \<and>
    sl_slog_dir st' = sl_slog_dir st"
  using assms by (simp add: slog_init_def slog_new_def slog_holds_def io_good_def)

lemma slog_replay_holds:
  assumes "slog_holds st fs ps"
  shows "slog_replay io_good (Some cb) st fs s = map_option (Pair (int (length ps))) (foldo (lp_deliver cb) ps s)"
proof -
  have "slog_replay_loop (Some cb) [] s n = Some (n, s)" for s n
    by (subst slog_replay_loop.simps) (simp add: se_header_size_def)
  from slog_loop_entries [of ps cb "[]", OF _ this] show ?thesis
    using assms by (simp add: slog_replay_def slog_holds_def io_good_def)
qed

section \<open>The contract of a redo log\<close>

text \<open>One record type of one tenant, as the owner of the log sees it.\<close>

definition slog_param :: "u32 \<Rightarrow> bytes \<Rightarrow> ObStorageLogParam" where
  "slog_param t b = \<lparr>lp_tenant_id = 1, lp_log_type = t, lp_data = Some b, lp_data_len = int (length b)\<rparr>"

type_synonym slog = "ObStorageLogger \<times> file_store"

definition sl_holds :: "u32 \<Rightarrow> slog \<Rightarrow> bytes list \<Rightarrow> bool" where
  "sl_holds t l bs \<longleftrightarrow> slog_holds (fst l) (snd l) (map (slog_param t) bs)"

definition sl_fits :: "bytes list \<Rightarrow> bytes \<Rightarrow> bool" where
  "sl_fits bs b \<longleftrightarrow> length b < 2 ^ 31"

definition sl_append :: "(nat \<Rightarrow> byte) \<Rightarrow> u32 \<Rightarrow> bytes \<Rightarrow> slog \<Rightarrow> (ret \<times> slog) option" where
  "sl_append junk t b l = map_option (\<lambda>(r, fs). (r, fst l, fs)) (slog_write_log junk io_good (slog_param t b) (fst l) (snd l))"

definition sl_recover :: "nat \<Rightarrow> slog \<Rightarrow> slog option" where
  "sl_recover fd l = Some (snd (slog_init io_good fd (sl_slog_dir (fst l)) slog_new (snd l)))"

definition sl_replay :: "(bytes \<Rightarrow> 's \<Rightarrow> (ret \<times> 's) option) \<Rightarrow> slog \<Rightarrow> 's \<Rightarrow> (ret \<times> 's) option" where
  "sl_replay rep l s = map_option (\<lambda>(n, s). (0, s)) (slog_replay io_good (Some (\<lambda>hdr. rep)) (fst l) (snd l) s)"

lemma lp_ok_slog_param: "lp_ok (slog_param t b) \<longleftrightarrow> length b < 2 ^ 31"
  by (auto simp: lp_ok_def slog_param_def)

lemma foldo_deliver: "foldo (lp_deliver (\<lambda>hdr. rep)) (map (slog_param t) bs) s = foldo (\<lambda>b s. map_option snd (rep b s)) bs s"
proof (induction bs arbitrary: s)
  case (Cons b bs)
  then show ?case by (cases "rep b s") (simp_all add: lp_deliver_def slog_param_def)
qed simp

interpretation slg: redo_log "sl_holds t" sl_fits "sl_append junk t" "sl_recover fd" sl_replay for t junk fd
proof (unfold_locales, goal_cases)
  case (1 l bs b)
  then have "\<exists>fs'. slog_write_log junk io_good (slog_param t b) (fst l) (snd l) = Some (0, fs') \<and>
      slog_holds (fst l) fs' (map (slog_param t) (bs @ [b]))"
    using slog_write_holds [of "fst l" "snd l" "map (slog_param t) bs" "slog_param t b" junk]
    by (simp add: sl_holds_def sl_fits_def lp_ok_slog_param)
  then show ?case by (auto simp: sl_append_def sl_holds_def)
next
  case (2 l bs)
  then show ?case using slog_init_restart [of "fst l" "snd l" "map (slog_param t) bs" fd]
    by (auto simp: sl_recover_def sl_holds_def)
next
  case (3 l bs rep s)
  then show ?case
    by (simp add: sl_replay_def sl_holds_def slog_replay_holds foldo_deliver option.map_comp comp_def)
qed

section \<open>Properties of the storage log\<close>

text \<open>
  C27. Entries written to a new storage log are all delivered after a restart: reopening the file
  with a fresh logger and replaying it calls the callback once per entry, in the order of the
  writes, with the header and the data that were written, and counts them.
\<close>

theorem slog_recovers:
  assumes "fs (dir @ ''/slog_0'') = None" "\<forall>p \<in> set ps. lp_ok p"
  shows "\<exists>st fs1 fs2 st'.
    slog_init io_good fd dir slog_new fs = (0, st, fs1) \<and>
    foldo (\<lambda>p fs. map_option snd (slog_write_log junk io_good p st fs)) ps fs1 = Some fs2 \<and>
    slog_init io_good fd' dir slog_new fs2 = (0, st', fs2) \<and>
    slog_replay io_good (Some cb) st' fs2 s = map_option (Pair (int (length ps))) (foldo (lp_deliver cb) ps s)"
proof -
  obtain st fs1 where i: "slog_init io_good fd dir slog_new fs = (0, st, fs1)" "slog_holds st fs1 []" "sl_slog_dir st = dir"
    using slog_init_fresh [of fs dir fd] assms(1) by blast
  obtain fs2 where w: "foldo (\<lambda>p fs. map_option snd (slog_write_log junk io_good p st fs)) ps fs1 = Some fs2"
    "slog_holds st fs2 ps"
    using slog_writes_hold [OF i(2) assms(2)] by auto
  obtain st' where r: "slog_init io_good fd' dir slog_new fs2 = (0, st', fs2)" "slog_holds st' fs2 ps"
    using slog_init_restart [OF w(2)] i(3) by metis
  show ?thesis using i(1) w(1) r(1) slog_replay_holds [OF r(2), of cb s] by blast
qed

theorem slog_recovers_witness:
  "\<exists>st fs1 fs2 st'.
    slog_init io_good 3 ''d'' slog_new Map.empty = (0, st, fs1) \<and>
    foldo (\<lambda>p fs. map_option snd (slog_write_log (\<lambda>_. 0) io_good p st fs)) [slog_param 4 [97], slog_param 5 []] fs1 = Some fs2 \<and>
    slog_init io_good 4 ''d'' slog_new fs2 = (0, st', fs2) \<and>
    slog_replay io_good (Some (\<lambda>hdr d l. Some (0, l @ [(se_log_type hdr, d)]))) st' fs2 [] = Some (2, [(4, [97]), (5, [])])"
proof -
  let ?ps = "[slog_param 4 [97], slog_param 5 []]" and ?cb = "\<lambda>hdr d l. Some (0, l @ [(se_log_type hdr, d)])"
  have ok: "\<forall>p \<in> set ?ps. lp_ok p" by (simp add: lp_ok_slog_param)
  have "foldo (lp_deliver ?cb) ?ps [] = Some [(4, [97]), (5, [])]"
    by (simp add: lp_deliver_def slog_param_def lp_header_def)
  then show ?thesis
    using slog_recovers [of Map.empty "''d''" ?ps 3 "\<lambda>_. 0" 4 ?cb "[]", OF _ ok] by simp
qed

text \<open>
  C28. A write that the system cuts short is reported, and what it left in the file does not
  disturb the entries before it: replay delivers exactly these.
\<close>

theorem slog_torn_write:
  assumes h: "slog_holds st fs ps" and p: "lp_ok p"
    and w: "io_open_ok io" "io_written io (length (lp_bytes p)) = k" "k < int (length (lp_bytes p))"
  shows "\<exists>fs'. slog_write_log junk io p st fs = Some (-1, fs') \<and>
    slog_replay io_good (Some cb) st fs' s = map_option (Pair (int (length ps))) (foldo (lp_deliver cb) ps s)"
proof -
  let ?t = "take (nat k) (lp_bytes p)"
  have "lp_bytes p \<noteq> []" using seh.length_enc [of "lp_header p"] by (auto simp: lp_bytes_def se_header_size_def)
  then have "nat k < length (lp_bytes p)" using w(3) by (cases "k \<ge> 0") auto
  note loop = slog_loop_entries [OF _ slog_loop_torn [OF p this], of ps "cb"]
  have "slog_write_log junk io p st fs = Some (-1, fs(sl_slog_file_path st \<mapsto> concat (map lp_bytes ps) @ ?t))"
    using h p w(2,3) by (simp add: slog_write_log_def slog_holds_def slog_entry_ok)
  then show ?thesis using h loop by (simp add: slog_replay_def slog_holds_def io_good_def)
qed

theorem slog_torn_write_witness:
  "\<exists>st fs fs'. slog_init io_good 3 ''d'' slog_new Map.empty = (0, st, fs) \<and>
    slog_write_log (\<lambda>_. 0) (io_good\<lparr>io_written := (\<lambda>n. 24)\<rparr>) (slog_param 4 [97]) st fs = Some (-1, fs') \<and>
    slog_replay io_good (Some (\<lambda>hdr d (l :: bytes list). Some (0, d # l))) st fs' [] = Some (0, [])"
proof -
  obtain st fs where i: "slog_init io_good 3 ''d'' slog_new Map.empty = (0, st, fs)" "slog_holds st fs []"
    using slog_init_fresh [of Map.empty "''d''" 3] by auto
  have p: "lp_ok (slog_param 4 [97])" by (simp add: lp_ok_slog_param)
  have l: "length (lp_bytes (slog_param 4 [97])) = 25"
    by (simp add: lp_bytes_def seh.length_enc se_header_size_def) (simp add: slog_param_def)
  show ?thesis
    using i slog_torn_write [OF i(2) p, of "io_good\<lparr>io_written := (\<lambda>n. 24)\<rparr>" 24 "\<lambda>_. 0"
        "\<lambda>hdr d (l :: bytes list). Some (0, d # l)" "[]"] l
    by (simp add: io_good_def)
qed

text \<open>
  What a torn write left is never cut off, so the next successful write is lost.  Here the
  header of an entry of two bytes reaches the file and its data does not; the entry written next,
  whose write succeeds, is swallowed: replay delivers one entry, whose data is the start of the
  magic number of the second, and then stops.
\<close>

theorem slog_write_after_torn_is_lost:
  "\<exists>st fs1 fs2 fs3. slog_init io_good 3 ''d'' slog_new Map.empty = (0, st, fs1) \<and>
    slog_write_log (\<lambda>_. 0) (io_good\<lparr>io_written := (\<lambda>n. 24)\<rparr>) (slog_param 4 [97, 98]) st fs1 = Some (-1, fs2) \<and>
    slog_write_log (\<lambda>_. 0) io_good (slog_param 4 [99]) st fs2 = Some (0, fs3) \<and>
    slog_replay io_good (Some (\<lambda>hdr d l. Some (0, d # l))) st fs3 [] = Some (1, [[0x47, 0x4F]])"
proof -
  let ?p = "slog_param 4 [97, 98]" and ?q = "slog_param 4 [99]" and ?cb = "\<lambda>hdr d l. Some (0 :: ret, d # l)"
  let ?e = "se_enc (lp_header ?q)"
  obtain st fs1 where i: "slog_init io_good 3 ''d'' slog_new Map.empty = (0, st, fs1)" "slog_holds st fs1 []"
    using slog_init_fresh [of Map.empty "''d''" 3] by auto
  have ok: "lp_ok ?p" "lp_ok ?q" "lp_ok (slog_param 4 (take 2 ?e))" by (simp_all add: lp_ok_slog_param)
  have l: "length (lp_bytes ?p) = 26" "length ?e = 24"
    by (simp_all add: lp_bytes_def seh.length_enc se_header_size_def) (simp add: slog_param_def)
  have e2: "take 2 ?e = [0x47, 0x4F]"
    by (simp add: se_enc_def lp_header_def SLOG_MAGIC_def put_word_def byte_eval take_Cons')
  have "lp_header (slog_param 4 (take 2 ?e)) = lp_header ?p"
    using l(2) by (simp add: lp_header_def slog_param_def)
  then have eq: "se_enc (lp_header ?p) @ ?e @ [99] = lp_bytes (slog_param 4 (take 2 ?e)) @ drop 2 ?e @ [99]"
    by (simp add: lp_bytes_def) (simp add: slog_param_def)
  have stop: "slog_replay_loop (Some ?cb) (drop 2 ?e @ [99]) s n = Some (n, s)" for s n
    using l(2) by (subst slog_replay_loop.simps) (simp add: se_header_size_def)
  have "lp_deliver ?cb (slog_param 4 (take 2 ?e)) [] = Some [[0x47, 0x4F]]"
    unfolding e2 by (simp add: lp_deliver_def slog_param_def)
  then have r: "slog_replay_loop (Some ?cb) (se_enc (lp_header ?p) @ ?e @ [99]) [] 0 = Some (1, [[0x47, 0x4F]])"
    unfolding eq slog_loop_entry [OF ok(3)] by (simp add: stop)
  have t: "take 24 (lp_bytes ?p) = se_enc (lp_header ?p)" "lp_bytes ?q = ?e @ [99]"
    by (simp_all add: lp_bytes_def seh.length_enc se_header_size_def) (simp add: slog_param_def)
  let ?f = "sl_slog_file_path st"
  have w1: "slog_write_log (\<lambda>_. 0) (io_good\<lparr>io_written := (\<lambda>n. 24)\<rparr>) ?p st fs1 = Some (-1, fs1(?f \<mapsto> se_enc (lp_header ?p)))"
    using i(2) l(1) t(1) by (simp add: slog_write_log_def slog_holds_def slog_entry_ok [OF ok(1)])
  have w2: "slog_write_log (\<lambda>_. 0) io_good ?q st (fs1(?f \<mapsto> se_enc (lp_header ?p))) =
      Some (0, fs1(?f \<mapsto> se_enc (lp_header ?p) @ ?e @ [99]))"
    using i(2) t(2) by (simp add: slog_write_log_def slog_holds_def slog_entry_ok [OF ok(2)] io_good_def)
  have "slog_replay io_good (Some ?cb) st (fs1(?f \<mapsto> se_enc (lp_header ?p) @ ?e @ [99])) [] = Some (1, [[0x47, 0x4F]])"
    using r by (simp add: slog_replay_def io_good_def)
  then show ?thesis using i(1) w1 w2 by blast
qed

end
