(* ===== verification/Ob_DDL.thy ===== *)
theory Ob_DDL
  imports Ob_Schema Ob_Slog Ob_Blocks
begin

text \<open>
  The data definition service: \<^verbatim>\<open>rootserver/ob_ddl_operator.cpp\<close> and \<^verbatim>\<open>rootserver/ob_ddl_service.cpp\<close>.
  A \<^verbatim>\<open>CREATE DATABASE\<close> is a record in the log stream 1, an entry of the schema service, a macro block
  appended to \<^verbatim>\<open>block_file\<close> and an entry of the storage log.  After a restart \<^verbatim>\<open>recover_schema\<close> replays
  the stream and then the storage log.

  The state of the service is \<open>ObDDLService\<close>; the schema service, a process-wide singleton, and the
  files are passed beside it.  \<open>iter\<close> gives the order in which the hash map of databases is
  iterated, which the standard leaves open.
\<close>

type_synonym db_iter = "(u64 \<rightharpoonup> ObDatabaseSchema) \<Rightarrow> u64 list"

definition iterates :: "db_iter \<Rightarrow> bool" where
  "iterates iter \<longleftrightarrow> (\<forall>m. set (iter m) = dom m \<and> distinct (iter m))"

section \<open>Operator\<close>

definition op_create_database :: "db_iter \<Rightarrow> bytes \<Rightarrow> u64 \<Rightarrow> ObSchemaService \<Rightarrow> (ret \<times> u64 \<times> ObSchemaService) option" where
  "op_create_database iter db_name database_id s = do {
     r \<leftarrow> ss_get_database_by_name (iter (ss_databases s)) db_name s;
     if r \<noteq> None then Some (-1, database_id, s) else Some (ss_create_database db_name s)
   }"

definition op_create_table :: "ObTableSchema \<Rightarrow> u64 \<Rightarrow> ObSchemaService \<Rightarrow> ret \<times> u64 \<times> ObTableSchema \<times> ObSchemaService" where
  "op_create_table table_schema table_id s =
     (case ss_create_table table_schema s of (ret, t, s) \<Rightarrow>
        if ret < 0 then (ret, table_id, t, s) else (0, word_of_int ret, t, s))"

section \<open>Service\<close>

record ObDDLService =
  dd_log_service :: "(unit, unit) ObLogService option"
  dd_log_handler :: "nat option"
  dd_slog_logger :: ObStorageLogger
  dd_base_dir :: string
  dd_is_inited :: bool

definition dd_new :: ObDDLService where
  "dd_new = \<lparr>dd_log_service = None, dd_log_handler = None, dd_slog_logger = slog_new, dd_base_dir = [], dd_is_inited = False\<rparr>"

definition DDL_LS_ID :: int where "DDL_LS_ID = 1"

text \<open>\<open>logfs\<close> are the files of the log streams under the base directory.  The service registers itself
  as the replayer of its records, the only object of type \<open>unit\<close>.\<close>

definition dd_init :: "io \<Rightarrow> io \<Rightarrow> io \<Rightarrow> io \<Rightarrow> nat \<Rightarrow> (int \<Rightarrow> log_fs) \<Rightarrow> string \<Rightarrow> ObDDLService \<Rightarrow> file_store
    \<Rightarrow> (ret \<times> ObDDLService \<times> file_store) option" where
  "dd_init io1 io2 io3 io4 fd logfs base_dir dd files =
     (if dd_is_inited dd then Some (0, dd, files)
      else let dd = dd\<lparr>dd_base_dir := base_dir\<rparr>;
               (ret, svc) = ls_init (ls_new logfs)
           in if ret \<noteq> 0 then Some (ret, dd\<lparr>dd_log_service := Some svc\<rparr>, files)
              else case ls_start svc of (ret, svc) \<Rightarrow>
                if ret \<noteq> 0 then Some (ret, dd\<lparr>dd_log_service := Some svc\<rparr>, files)
                else do {
                  (ret, handler, svc) \<leftarrow> open_ls io1 io2 io3 DDL_LS_ID (dd_log_handler dd) svc;
                  let dd = dd\<lparr>dd_log_service := Some svc, dd_log_handler := handler\<rparr>;
                  if ret \<noteq> 0 then Some (ret, dd, files)
                  else do {
                    a \<leftarrow> handler;
                    svc \<leftarrow> svc_register a DDL_LOG_BASE_TYPE () svc;
                    let (_, slog, files) = slog_init io4 fd (base_dir @ ''/slog'') (dd_slog_logger dd) files;
                    Some (0, dd\<lparr>dd_log_service := Some svc, dd_slog_logger := slog, dd_is_inited := True\<rparr>, files)
                  }
                })"

definition ddl_db_record :: "bytes \<Rightarrow> bytes" where
  "ddl_db_record db_name = put_word (1 :: u64) @ put_word (word_of_nat (length db_name) :: u64) @ db_name"

definition ddl_table_record :: "bytes \<Rightarrow> u64 \<Rightarrow> bytes" where
  "ddl_table_record tbl_name db_id =
     put_word (3 :: u64) @ put_word (word_of_nat (length tbl_name) :: u64) @ tbl_name @ put_word db_id"

definition MACRO_SIZE :: nat where "MACRO_SIZE = 2 * 1024 * 1024"

definition ddl_schema :: "u64 \<Rightarrow> bytes \<Rightarrow> ObDatabaseSchema" where
  "ddl_schema database_id db_name = dbs_set_database_name (Some db_name) (dbs_new\<lparr>dbs_database_id := database_id\<rparr>)"

definition ddl_common_header :: ObMacroBlockCommonHeader where
  "ddl_common_header = ch_init\<lparr>ch_header_size := word_of_nat ch_size, ch_magic := MACRO_BLOCK_COMMON_HEADER_MAGIC,
     ch_version := MACRO_BLOCK_COMMON_HEADER_VERSION, ch_attr := macro_type_val MBT_SSTableData\<rparr>"

definition ddl_fixed_header :: "u64 \<Rightarrow> nat \<Rightarrow> FixedHeader" where
  "ddl_fixed_header database_id schema_size = fh_init\<lparr>fh_magic := SSTABLE_MACRO_BLOCK_HEADER_MAGIC, fh_tablet_id := database_id,
     fh_column_count := 1, fh_row_count := 1, fh_occupy_size := word_of_nat schema_size, fh_micro_block_count := 1,
     fh_row_store_type := 0, fh_micro_block_data_offset := word_of_nat (ch_size + fh_size),
     fh_micro_block_data_size := word_of_nat (ub_size + schema_size), fh_header_size := word_of_nat fh_size\<rparr>"

definition ddl_micro_header :: "nat \<Rightarrow> ObMicroBlockHeader" where
  "ddl_micro_header schema_size = ub_init\<lparr>ub_magic := MICRO_BLOCK_HEADER_MAGIC, ub_row_count := 1, ub_column_count := 1,
     ub_data_length := word_of_nat schema_size, ub_data_zlength := word_of_nat schema_size, ub_row_store_type := 0,
     ub_header_size := word_of_nat ub_size, ub_row_index_offset := word_of_nat schema_size\<rparr>"

text \<open>The macro block of a database.  The payload size is stored into the header after the copies.\<close>

definition ddl_macro_block :: "u64 \<Rightarrow> bytes \<Rightarrow> bytes" where
  "ddl_macro_block database_id db_name =
     (let (_, schema_buf, pos) = dbs_serialize (ddl_schema database_id db_name) (replicate dbs_size 0) 0;
          (_, b, offset) = ch_serialize ddl_common_header (replicate MACRO_SIZE 0) 0;
          (_, b, offset) = fh_serialize (ddl_fixed_header database_id (length schema_buf)) b offset;
          (_, b, offset) = ub_serialize (ddl_micro_header (length schema_buf)) b offset;
          b = blit offset schema_buf b;
          offset = offset + length schema_buf;
          payload_size = offset - ch_size
      in blit 16 (put_word (word_of_nat payload_size :: u32)) b)"

definition block_file_path :: "ObDDLService \<Rightarrow> string" where
  "block_file_path dd = dd_base_dir dd @ ''/sstable/block'' @ ''/block_file''"

text \<open>\<^verbatim>\<open>open(O_WRONLY | O_CREAT | O_APPEND)\<close> and one \<^verbatim>\<open>write\<close>, whose result is ignored.\<close>

definition ddl_append_block :: "io \<Rightarrow> bytes \<Rightarrow> ObDDLService \<Rightarrow> file_store \<Rightarrow> file_store" where
  "ddl_append_block io blk dd files =
     (if io_open_ok io then
        files(block_file_path dd \<mapsto> (case files (block_file_path dd) of None \<Rightarrow> [] | Some old \<Rightarrow> old) @
          take (nat (io_written io (length blk))) blk)
      else files)"

definition dd_create_database :: "(nat \<Rightarrow> byte) \<Rightarrow> io \<Rightarrow> io \<Rightarrow> io \<Rightarrow> db_iter \<Rightarrow> bytes \<Rightarrow> u64 \<Rightarrow> ObDDLService \<Rightarrow> ObSchemaService
    \<Rightarrow> file_store \<Rightarrow> (ret \<times> u64 \<times> ObDDLService \<times> ObSchemaService \<times> file_store) option" where
  "dd_create_database junk io1 io2 io3 iter db_name database_id dd s files =
     (if \<not> dd_is_inited dd \<or> dd_log_handler dd = None then Some (-1, database_id, dd, s, files)
      else do {
        a \<leftarrow> dd_log_handler dd;
        svc \<leftarrow> dd_log_service dd;
        (ret, lsn, scn, svc) \<leftarrow> svc_append junk io1 a (Some (ddl_db_record db_name)) DDL_LOG_BASE_TYPE lsn_init 0 svc;
        let dd = dd\<lparr>dd_log_service := Some svc\<rparr>;
        if ret \<noteq> 0 then Some (ret, database_id, dd, s, files)
        else do {
          (ret, database_id, s) \<leftarrow> op_create_database iter db_name database_id s;
          if ret \<noteq> 0 then Some (ret, database_id, dd, s, files)
          else do {
            let files = ddl_append_block io2 (ddl_macro_block database_id db_name) dd files;
            (_, files) \<leftarrow> slog_write_log junk io3
              \<lparr>lp_tenant_id = 1, lp_log_type = slog_type_val SLOG_CREATE_DATABASE, lp_data = Some db_name,
               lp_data_len = int (length db_name)\<rparr> (dd_slog_logger dd) files;
            Some (0, database_id, dd, s, files)
          }
        }
      })"

definition dd_create_table :: "(nat \<Rightarrow> byte) \<Rightarrow> io \<Rightarrow> ObTableSchema \<Rightarrow> u64 \<Rightarrow> ObDDLService \<Rightarrow> ObSchemaService
    \<Rightarrow> (ret \<times> u64 \<times> ObTableSchema \<times> ObDDLService \<times> ObSchemaService) option" where
  "dd_create_table junk io table_schema table_id dd s =
     (if \<not> dd_is_inited dd \<or> dd_log_handler dd = None then Some (-1, table_id, table_schema, dd, s)
      else do {
        a \<leftarrow> dd_log_handler dd;
        svc \<leftarrow> dd_log_service dd;
        tbl_name \<leftarrow> name_get (tbs_table_name table_schema);
        (ret, lsn, scn, svc) \<leftarrow> svc_append junk io a (Some (ddl_table_record tbl_name (tbs_database_id table_schema)))
          DDL_LOG_BASE_TYPE lsn_init 0 svc;
        let dd = dd\<lparr>dd_log_service := Some svc\<rparr>;
        if ret \<noteq> 0 then Some (ret, table_id, table_schema, dd, s)
        else case op_create_table table_schema table_id s of (ret, table_id, t, s) \<Rightarrow> Some (ret, table_id, t, dd, s)
      })"

text \<open>The buffer \<^verbatim>\<open>name[256]\<close> of \<^verbatim>\<open>replay\<close> as a C string: a longer name overwrites the stack, and a name
  that fills it has no terminating zero.  Reads outside the record have no defined result.\<close>

definition replayed_name :: "bytes \<Rightarrow> bytes option" where
  "replayed_name name = (if length name < 256 \<or> 0 \<in> set name then Some (takeWhile (\<lambda>b. b \<noteq> 0) name) else None)"

definition dd_replay :: "db_iter \<Rightarrow> bytes \<Rightarrow> ObSchemaService \<Rightarrow> (ret \<times> ObSchemaService) option" where
  "dd_replay iter b s =
     (if length b = 0 then Some (-1, s)
      else if length b < 16 then None
      else let type = get_word (bslice 0 8 b) :: u64;
               name_len = unat (get_word (bslice 8 8 b) :: u64)
           in if name_len > 256 \<or> length b < 16 + name_len then None
              else if type = 1 then do {
                name \<leftarrow> replayed_name (bslice 16 name_len b);
                (ret, new_id, s) \<leftarrow> op_create_database iter name 0 s;
                Some (0, s)
              } else if type = 3 then
                if length b < 16 + name_len + 8 then None
                else do {
                  name \<leftarrow> replayed_name (bslice 16 name_len b);
                  let ts = (tbs_set_table_name (Some name) tbs_new)\<lparr>tbs_database_id := get_word (bslice (16 + name_len) 8 b)\<rparr>;
                  (case op_create_table ts 0 s of (ret, tid, ts, s) \<Rightarrow> Some (0, s))
                }
              else Some (0, s))"

definition ddl_slog_callback :: "db_iter \<Rightarrow> ObSchemaService slog_callback" where
  "ddl_slog_callback iter entry d s =
     (if se_log_type entry = slog_type_val SLOG_CREATE_DATABASE then do {
        (ret, db_id, s) \<leftarrow> op_create_database iter (takeWhile (\<lambda>b. b \<noteq> 0) d) 0 s;
        Some (0, s)
      } else Some (0, s))"

definition dd_recover_schema :: "db_iter \<Rightarrow> (nat \<Rightarrow> byte) \<Rightarrow> io \<Rightarrow> io \<Rightarrow> ObDDLService \<Rightarrow> ObSchemaService \<Rightarrow> file_store
    \<Rightarrow> (ret \<times> ObSchemaService) option" where
  "dd_recover_schema iter junk io1 io2 dd s files =
     (if \<not> dd_is_inited dd then Some (0, s)
      else case dd_log_service dd of
        None \<Rightarrow> Some (0, s)
      | Some svc \<Rightarrow> do {
          (ret, s) \<leftarrow> replay_ls (\<lambda>x b lsn scn. dd_replay iter b) junk io1 DDL_LS_ID svc s;
          if ret \<noteq> 0 then Some (0, s)
          else do {
            (n, s) \<leftarrow> slog_replay io2 (Some (ddl_slog_callback iter)) (dd_slog_logger dd) files s;
            Some (0, s)
          }
        })"

section \<open>The logs of the service\<close>

text \<open>The state of an opened service whose stream holds the records \<open>recs\<close> and whose storage log holds
  the database names \<open>ss\<close>.\<close>

definition ddl_log :: "ObDDLService \<Rightarrow> file_store \<Rightarrow> bytes list \<Rightarrow> bytes list \<Rightarrow> bool" where
  "ddl_log dd files recs ss \<longleftrightarrow>
     (\<exists>svc a. dd_is_inited dd \<and> dd_log_service dd = Some svc \<and> dd_log_handler dd = Some a \<and> ls_handlers svc DDL_LS_ID = Some a \<and>
        clog_holds DDL_LS_ID DDL_LOG_BASE_TYPE () svc recs) \<and>
     slog_holds (dd_slog_logger dd) files (map (slog_param (slog_type_val SLOG_CREATE_DATABASE)) ss) \<and>
     sl_slog_dir (dd_slog_logger dd) = dd_base_dir dd @ ''/slog''"

definition dd_log_files :: "ObDDLService \<Rightarrow> int \<Rightarrow> log_fs" where
  "dd_log_files dd = (case dd_log_service dd of None \<Rightarrow> (\<lambda>_. lf_empty) | Some svc \<Rightarrow> pe_fs (ls_palf_env svc))"

lemma ddl_logE:
  assumes "ddl_log dd files recs ss"
  obtains svc a where "dd_is_inited dd" "dd_log_service dd = Some svc" "dd_log_handler dd = Some a"
    "ls_handlers svc DDL_LS_ID = Some a" "clog_holds DDL_LS_ID DDL_LOG_BASE_TYPE () svc recs"
    "slog_holds (dd_slog_logger dd) files (map (slog_param (slog_type_val SLOG_CREATE_DATABASE)) ss)"
    "sl_slog_dir (dd_slog_logger dd) = dd_base_dir dd @ ''/slog''"
  using assms by (auto simp: ddl_log_def)

text \<open>The service that \<^verbatim>\<open>init\<close> has started, before it opens the stream.\<close>

lemma ls_started:
  obtains svc1 svc2 where "ls_init (ls_new logfs) = (0, svc1)" "ls_start svc1 = (0, svc2)"
    "pe_fs (ls_palf_env svc2) = logfs" "ls_handlers svc2 = Map.empty"
  by (simp add: ls_init_def ls_start_def ls_new_def pe_init_def pe_start_def pe_new_def)

lemma dd_init_opens:
  fixes svc1 svc2 svc3 svc :: "(unit, unit) ObLogService"
  assumes s: "ls_init (ls_new logfs) = (0, svc1)" "ls_start svc1 = (0, svc2)"
    and o: "open_ls io_good io_good io_good DDL_LS_ID None svc2 = Some (0, Some a, svc3)"
      "svc_register a DDL_LOG_BASE_TYPE () svc3 = Some svc" "clog_holds DDL_LS_ID DDL_LOG_BASE_TYPE () svc recs"
      "ls_handlers svc DDL_LS_ID = Some a"
    and l: "slog_init io_good fd (base @ ''/slog'') slog_new files = (0, slog, files')"
      "slog_holds slog files' (map (slog_param (slog_type_val SLOG_CREATE_DATABASE)) ss)" "sl_slog_dir slog = base @ ''/slog''"
  shows "\<exists>dd. dd_init io_good io_good io_good io_good fd logfs base dd_new files = Some (0, dd, files') \<and>
    ddl_log dd files' recs ss \<and> dd_base_dir dd = base"
  using assms by (simp add: dd_init_def dd_new_def ddl_log_def Let_def)

lemma ddl_init_fresh:
  assumes "logfs DDL_LS_ID = lf_empty" "files (base @ ''/slog/slog_0'') = None"
  shows "\<exists>dd files'. dd_init io_good io_good io_good io_good fd logfs base dd_new files = Some (0, dd, files') \<and>
    ddl_log dd files' [] [] \<and> dd_base_dir dd = base \<and> (\<forall>f. f \<noteq> base @ ''/slog/slog_0'' \<longrightarrow> files' f = files f)"
proof -
  obtain svc1 svc2 :: "(unit, unit) ObLogService" where s: "ls_init (ls_new logfs) = (0, svc1)" "ls_start svc1 = (0, svc2)"
    "pe_fs (ls_palf_env svc2) = logfs" "ls_handlers svc2 = Map.empty"
    using ls_started .
  obtain a and svc3 svc :: "(unit, unit) ObLogService"
    where o: "open_ls io_good io_good io_good DDL_LS_ID None svc2 = Some (0, Some a, svc3)"
      "svc_register a DDL_LOG_BASE_TYPE () svc3 = Some svc" "clog_holds DDL_LS_ID DDL_LOG_BASE_TYPE () svc []"
      "ls_handlers svc DDL_LS_ID = Some a"
    using clog_open [of svc2 DDL_LS_ID DDL_LOG_BASE_TYPE "()"] s(3,4) assms(1) by auto
  obtain slog files' where l: "slog_init io_good fd (base @ ''/slog'') slog_new files = (0, slog, files')"
    "slog_holds slog files' []" "sl_slog_dir slog = base @ ''/slog''"
    using slog_init_fresh [of files "base @ ''/slog''" fd] assms(2) by auto
  have "files' f = files f" if "f \<noteq> base @ ''/slog/slog_0''" for f
    using l(1) that by (auto simp: slog_init_def slog_new_def io_good_def split: option.splits)
  then show ?thesis using dd_init_opens [OF s(1,2) o l(1) _ l(3), of "[]"] l(2) by auto
qed

lemma ddl_restart:
  assumes "ddl_log dd files recs ss"
  shows "\<exists>dd'. dd_init io_good io_good io_good io_good fd (dd_log_files dd) (dd_base_dir dd) dd_new files = Some (0, dd', files) \<and>
    ddl_log dd' files recs ss \<and> dd_base_dir dd' = dd_base_dir dd"
proof -
  obtain svc0 a0 where d: "dd_log_service dd = Some svc0" "clog_holds DDL_LS_ID DDL_LOG_BASE_TYPE () svc0 recs"
    "slog_holds (dd_slog_logger dd) files (map (slog_param (slog_type_val SLOG_CREATE_DATABASE)) ss)"
    "sl_slog_dir (dd_slog_logger dd) = dd_base_dir dd @ ''/slog''"
    using ddl_logE [OF assms] .
  obtain svc1 svc2 :: "(unit, unit) ObLogService" where s: "ls_init (ls_new (dd_log_files dd)) = (0, svc1)" "ls_start svc1 = (0, svc2)"
    "pe_fs (ls_palf_env svc2) = dd_log_files dd" "ls_handlers svc2 = Map.empty"
    using ls_started .
  obtain a and svc3 svc :: "(unit, unit) ObLogService"
    where o: "open_ls io_good io_good io_good DDL_LS_ID None svc2 = Some (0, Some a, svc3)"
      "svc_register a DDL_LOG_BASE_TYPE () svc3 = Some svc" "clog_holds DDL_LS_ID DDL_LOG_BASE_TYPE () svc recs"
      "ls_handlers svc DDL_LS_ID = Some a"
    using clog_reopen [OF d(2), of svc2 None] s(3,4) d(1) by (auto simp: dd_log_files_def)
  obtain slog where l: "slog_init io_good fd (dd_base_dir dd @ ''/slog'') slog_new files = (0, slog, files)"
    "slog_holds slog files (map (slog_param (slog_type_val SLOG_CREATE_DATABASE)) ss)" "sl_slog_dir slog = dd_base_dir dd @ ''/slog''"
    using slog_init_restart [OF d(3), of fd] d(4) by auto
  show ?thesis using dd_init_opens [OF s(1,2) o l] by blast
qed

lemma ddl_append:
  assumes d: "ddl_log dd files recs ss" and fit: "clog_fits DDL_LOG_BASE_TYPE recs b"
  obtains a svc lsn scn svc' where "dd_is_inited dd" "dd_log_handler dd = Some a" "dd_log_service dd = Some svc"
    "svc_append junk io_good a (Some b) DDL_LOG_BASE_TYPE lsn_init 0 svc = Some (0, lsn, scn, svc')"
    "ddl_log (dd\<lparr>dd_log_service := Some svc'\<rparr>) files (recs @ [b]) ss"
proof -
  obtain svc a where e: "dd_is_inited dd" "dd_log_service dd = Some svc" "dd_log_handler dd = Some a"
    "ls_handlers svc DDL_LS_ID = Some a" "clog_holds DDL_LS_ID DDL_LOG_BASE_TYPE () svc recs"
    using ddl_logE [OF d] .
  obtain svc' where c: "clog_append junk DDL_LS_ID DDL_LOG_BASE_TYPE b svc = Some (0, svc')"
    "clog_holds DDL_LS_ID DDL_LOG_BASE_TYPE () svc' (recs @ [b])"
    using clog.append_law [OF e(5) fit] by blast
  then obtain lsn scn where ap: "svc_append junk io_good a (Some b) DDL_LOG_BASE_TYPE lsn_init 0 svc = Some (0, lsn, scn, svc')"
    using e(4) by (auto simp: clog_append_def bind_eq_Some_conv)
  have "ls_handlers svc' DDL_LS_ID = Some a"
    using ap e(4) by (auto simp: svc_append_def bind_eq_Some_conv)
  then have "ddl_log (dd\<lparr>dd_log_service := Some svc'\<rparr>) files (recs @ [b]) ss"
    using d c(2) e by (auto simp: ddl_log_def)
  then show ?thesis using that e ap by blast
qed

lemma ddl_log_block:
  "ddl_log dd files recs ss \<Longrightarrow> ddl_log dd (ddl_append_block io blk dd files) recs ss"
  by (auto simp: ddl_log_def slog_holds_def ddl_append_block_def block_file_path_def)

lemma dd_create_ok:
  assumes d: "ddl_log dd files recs ss" and fit: "clog_fits DDL_LOG_BASE_TYPE recs (ddl_db_record name)"
    and len: "length name < 2 ^ 31" and op: "op_create_database iter name i s = Some (r, j, s')"
  shows "\<exists>dd' files'. dd_create_database junk io_good io_good io_good iter name i dd s files = Some (r, j, dd', s', files') \<and>
    ddl_log dd' files' (recs @ [ddl_db_record name]) (if r = 0 then ss @ [name] else ss) \<and> dd_base_dir dd' = dd_base_dir dd"
proof -
  obtain a svc lsn scn svc' where e: "dd_is_inited dd" "dd_log_handler dd = Some a" "dd_log_service dd = Some svc"
    "svc_append junk io_good a (Some (ddl_db_record name)) DDL_LOG_BASE_TYPE lsn_init 0 svc = Some (0, lsn, scn, svc')"
    "ddl_log (dd\<lparr>dd_log_service := Some svc'\<rparr>) files (recs @ [ddl_db_record name]) ss"
    using ddl_append [OF d fit] .
  let ?dd = "dd\<lparr>dd_log_service := Some svc'\<rparr>" and ?p = "slog_param (slog_type_val SLOG_CREATE_DATABASE) name"
  let ?files = "ddl_append_block io_good (ddl_macro_block j name) ?dd files"
  show ?thesis
  proof (cases "r = 0")
    case False
    then show ?thesis using e op by (simp add: dd_create_database_def)
  next
    case True
    have b: "ddl_log ?dd ?files (recs @ [ddl_db_record name]) ss" using ddl_log_block [OF e(5)] .
    then have "slog_holds (dd_slog_logger ?dd) ?files (map (slog_param (slog_type_val SLOG_CREATE_DATABASE)) ss)"
      by (simp add: ddl_log_def)
    then obtain files' where w: "slog_write_log junk io_good ?p (dd_slog_logger dd) ?files = Some (0, files')"
      "slog_holds (dd_slog_logger dd) files' (map (slog_param (slog_type_val SLOG_CREATE_DATABASE)) (ss @ [name]))"
      using slog_write_holds [of "dd_slog_logger dd" ?files _ ?p junk] len by (auto simp: lp_ok_slog_param)
    then have "ddl_log ?dd files' (recs @ [ddl_db_record name]) (ss @ [name])" using b by (simp add: ddl_log_def)
    then show ?thesis using e op True w(1) by (simp add: dd_create_database_def slog_param_def)
  qed
qed

lemma ddl_recover_ok:
  assumes d: "ddl_log dd files recs ss"
  shows "dd_recover_schema iter junk io_good io_good dd s files =
    Option.bind (foldo (\<lambda>b s. map_option snd (dd_replay iter b s)) recs s) (\<lambda>s.
      map_option (Pair 0)
        (foldo (lp_deliver (ddl_slog_callback iter)) (map (slog_param (slog_type_val SLOG_CREATE_DATABASE)) ss) s))"
proof -
  obtain svc a where e: "dd_is_inited dd" "dd_log_service dd = Some svc"
    "clog_holds DDL_LS_ID DDL_LOG_BASE_TYPE () svc recs"
    "slog_holds (dd_slog_logger dd) files (map (slog_param (slog_type_val SLOG_CREATE_DATABASE)) ss)"
    using ddl_logE [OF d] .
  have "replay_ls (\<lambda>x b lsn scn. dd_replay iter b) junk io_good DDL_LS_ID svc s =
      map_option (Pair 0) (foldo (\<lambda>b s. map_option snd (dd_replay iter b s)) recs s)"
    using clog.replay_law [OF e(3), of junk "dd_replay iter" s] by (simp add: clog_replay_def)
  moreover have "Option.bind (map_option (Pair n) x) (\<lambda>(n, s). Some (0, s)) = map_option (Pair 0) x"
    for n :: int and x :: "ObSchemaService option"
    by (cases x) simp_all
  ultimately show ?thesis
    using e(1,2) by (cases "foldo (\<lambda>b s. map_option snd (dd_replay iter b s)) recs s")
      (simp_all add: dd_recover_schema_def slog_replay_holds [OF e(4)])
qed

section \<open>Creating databases\<close>

definition db_name_ok :: "bytes \<Rightarrow> bool" where
  "db_name_ok name \<longleftrightarrow> 0 \<notin> set name \<and> length name < 128"

lemma op_create_exists:
  assumes "iterates iter" "ss_ok s m" "m name \<noteq> None"
  shows "op_create_database iter name i s = Some (-1, i, s)"
proof -
  have ks: "set (iter (ss_databases s)) = dom (ss_databases s)" using assms(1) by (simp add: iterates_def)
  have "\<exists>d. ss_get_database_by_name (iter (ss_databases s)) name s = Some (Some d)"
    using ss_ok_get [OF assms(2) ks, of name] assms(3)
    by (cases "ss_get_database_by_name (iter (ss_databases s)) name s") auto
  then show ?thesis by (auto simp: op_create_database_def)
qed

lemma op_create_new:
  assumes "iterates iter" "ss_ok s m" "m name = None"
  shows "op_create_database iter name i s = Some (ss_create_database name s)"
proof -
  have ks: "set (iter (ss_databases s)) = dom (ss_databases s)" using assms(1) by (simp add: iterates_def)
  have "ss_get_database_by_name (iter (ss_databases s)) name s = Some None"
    using ss_ok_get [OF assms(2) ks, of name] assms(3)
    by (cases "ss_get_database_by_name (iter (ss_databases s)) name s") auto
  then show ?thesis by (simp add: op_create_database_def)
qed

lemma op_create_ok:
  assumes "iterates iter" "ss_ok s m" "db_name_ok name" "ss_next_database_id s < -1"
  obtains r j s' where "op_create_database iter name i s = Some (r, j, s')"
    "ss_ok s' (if m name = None then m(name \<mapsto> ss_next_database_id s) else m)"
    "r = (if m name = None then 0 else -1)" "unat (ss_next_database_id s') \<le> unat (ss_next_database_id s) + 1"
proof (cases "m name")
  case None
  then obtain s' where "ss_create_database name s = (0, ss_next_database_id s, s')"
    "ss_ok s' (m(name \<mapsto> ss_next_database_id s))" "ss_next_database_id s' = ss_next_database_id s + 1"
    using ss_ok_create [OF assms(2) _ _ None assms(4)] assms(3) by (auto simp: db_name_ok_def)
  then show ?thesis
    using that None op_create_new [OF assms(1,2) None] unat_plus_1 [OF assms(4)] by simp
next
  case (Some k)
  then show ?thesis using that op_create_exists [OF assms(1,2)] assms(2) by simp
qed

definition op_creates :: "db_iter \<Rightarrow> bytes list \<Rightarrow> ObSchemaService \<Rightarrow> ObSchemaService option" where
  "op_creates iter names s = foldo (\<lambda>n s. map_option (\<lambda>(r, i, s). s) (op_create_database iter n 0 s)) names s"

lemma op_create_id: "map_option (\<lambda>(r, i, s). (r, s)) (op_create_database iter name i s) =
    map_option (\<lambda>(r, i, s). (r, s)) (op_create_database iter name j s)"
  by (cases "ss_get_database_by_name (iter (ss_databases s)) name s") (auto simp: op_create_database_def)

lemma op_creates_ok:
  assumes it: "iterates iter"
  shows "ss_ok s m \<Longrightarrow> \<forall>n \<in> set names. db_name_ok n \<Longrightarrow> unat (ss_next_database_id s) + length names < 2 ^ 64 - 1 \<Longrightarrow>
    \<exists>s' m'. op_creates iter names s = Some s' \<and> ss_ok s' m' \<and> dom m' = dom m \<union> set names \<and>
      unat (ss_next_database_id s') \<le> unat (ss_next_database_id s) + length names"
proof (induction names arbitrary: s m)
  case (Cons n names)
  have lt: "ss_next_database_id s < -1"
    using Cons.prems(3) by (simp add: word_less_nat_alt unsigned_minus_1_eq_mask mask_eq_exp_minus_1)
  obtain r j s1 where c: "op_create_database iter n 0 s = Some (r, j, s1)"
    "ss_ok s1 (if m n = None then m(n \<mapsto> ss_next_database_id s) else m)"
    "unat (ss_next_database_id s1) \<le> unat (ss_next_database_id s) + 1"
    by (rule op_create_ok [OF it Cons.prems(1) _ lt, of n 0]) (use Cons.prems(2) in auto)
  obtain s' m' where "op_creates iter names s1 = Some s'" "ss_ok s' m'"
    "dom m' = dom (if m n = None then m(n \<mapsto> ss_next_database_id s) else m) \<union> set names"
    "unat (ss_next_database_id s') \<le> unat (ss_next_database_id s1) + length names"
    using Cons.IH [OF c(2)] Cons.prems(2,3) c(3) by auto
  then show ?case using c by (intro exI [of _ s'] exI [of _ m']) (auto simp: op_creates_def)
qed (auto simp: op_creates_def)

lemma op_creates_known:
  assumes "iterates iter" "ss_ok s m" "set names \<subseteq> dom m"
  shows "op_creates iter names s = Some s"
  using assms(3)
proof (induction names)
  case (Cons n names)
  then have "op_create_database iter n 0 s = Some (-1, 0, s)" by (intro op_create_exists [OF assms(1,2)]) auto
  then show ?case using Cons by (simp add: op_creates_def)
qed (simp add: op_creates_def)

text \<open>Replaying the record of a database does what its creation did to the schema.\<close>

lemma takeWhile_no_zero: "0 \<notin> set name \<Longrightarrow> takeWhile (\<lambda>b. b \<noteq> (0 :: byte)) name = name"
  by (auto simp: takeWhile_eq_all_conv)

lemma dd_replay_record:
  assumes "0 \<notin> set name" "length name < 256"
  shows "dd_replay iter (ddl_db_record name) s = map_option (\<lambda>(r, i, s). (0, s)) (op_create_database iter name 0 s)"
proof -
  have l: "unat (word_of_nat (length name) :: u64) = length name"
    using assms(2) by (simp add: unsigned_of_nat take_bit_nat_eq_self)
  have b: "bslice 0 8 (ddl_db_record name) = put_word (1 :: u64)"
    "bslice 8 8 (ddl_db_record name) = put_word (word_of_nat (length name) :: u64)"
    "bslice 16 (length name) (ddl_db_record name) = name" "length (ddl_db_record name) = 16 + length name"
    by (simp_all add: ddl_db_record_def layout)
  have "replayed_name name = Some name" using assms by (simp add: replayed_name_def takeWhile_no_zero)
  then show ?thesis
    using assms(2) by (cases "op_create_database iter name 0 s")
      (auto simp: dd_replay_def b l Let_def)
qed

lemma dd_replay_too_long:
  assumes "0 \<notin> set name" "256 \<le> length name" "length name < 2 ^ 64"
  shows "dd_replay iter (ddl_db_record name) s = None"
proof -
  have l: "unat (word_of_nat (length name) :: u64) = length name"
    using assms(3) by (simp add: unsigned_of_nat take_bit_nat_eq_self)
  have b: "bslice 0 8 (ddl_db_record name) = put_word (1 :: u64)"
    "bslice 8 8 (ddl_db_record name) = put_word (word_of_nat (length name) :: u64)"
    "bslice 16 (length name) (ddl_db_record name) = name" "length (ddl_db_record name) = 16 + length name"
    by (simp_all add: ddl_db_record_def layout)
  have "replayed_name name = None" using assms(1,2) by (simp add: replayed_name_def)
  moreover have "bslice 16 256 (ddl_db_record name) = name" if "length name = 256" using b(3) that by simp
  ultimately show ?thesis using assms(2) by (auto simp: dd_replay_def b(1,2,4) l Let_def)
qed

lemma ddl_slog_deliver:
  assumes "0 \<notin> set name"
  shows "lp_deliver (ddl_slog_callback iter) (slog_param (slog_type_val SLOG_CREATE_DATABASE) name) s =
    map_option (\<lambda>(r, i, s). s) (op_create_database iter name 0 s)"
proof -
  have "se_log_type (lp_header (slog_param (slog_type_val SLOG_CREATE_DATABASE) name)) = slog_type_val SLOG_CREATE_DATABASE"
    "the (lp_data (slog_param (slog_type_val SLOG_CREATE_DATABASE) name)) = name"
    by (simp_all add: lp_header_def slog_param_def)
  then show ?thesis
    by (cases "op_create_database iter name 0 s")
      (auto simp: lp_deliver_def ddl_slog_callback_def takeWhile_no_zero [OF assms])
qed

lemma ddl_replay_records:
  assumes "\<forall>n \<in> set names. 0 \<notin> set n \<and> length n < 256"
  shows "foldo (\<lambda>b s. map_option snd (dd_replay iter b s)) (map ddl_db_record names) s = op_creates iter names s"
  using assms
proof (induction names arbitrary: s)
  case (Cons n names)
  then show ?case by (cases "op_create_database iter n 0 s") (auto simp: op_creates_def dd_replay_record)
qed (simp add: op_creates_def)

lemma ddl_slog_entries:
  assumes "\<forall>n \<in> set names. 0 \<notin> set n"
  shows "foldo (lp_deliver (ddl_slog_callback iter)) (map (slog_param (slog_type_val SLOG_CREATE_DATABASE)) names) s =
    op_creates iter names s"
  using assms
proof (induction names arbitrary: s)
  case (Cons n names)
  then show ?case
    by (cases "op_create_database iter n 0 s") (auto simp: op_creates_def ddl_slog_deliver simp del: slog_type_val.simps)
qed (simp add: op_creates_def)

section \<open>Recovery of the schema\<close>

definition dd_creates :: "(nat \<Rightarrow> byte) \<Rightarrow> db_iter \<Rightarrow> bytes list \<Rightarrow> ObDDLService \<times> ObSchemaService \<times> file_store
    \<Rightarrow> (ObDDLService \<times> ObSchemaService \<times> file_store) option" where
  "dd_creates junk iter names =
     foldo (\<lambda>n (dd, s, files). map_option (\<lambda>(r, i, dd, s, files). (dd, s, files))
              (dd_create_database junk io_good io_good io_good iter n 0 dd s files)) names"

lemma log_size_count: "length ps \<le> log_size ps"
  by (induction ps) (auto simp: entry_size_def lgh_size_def)

lemma length_ddl_db_record: "length (ddl_db_record n) = 16 + length n"
  by (simp add: ddl_db_record_def)

lemma ddl_db_record_nonempty: "ddl_db_record n \<noteq> []"
  by (metis length_ddl_db_record add_is_0 list.size(3) zero_neq_numeral)

lemma dd_creates_ok:
  assumes it: "iterates iter"
  shows "ddl_log dd files (map ddl_db_record cs) ss \<Longrightarrow> ss_ok s m \<Longrightarrow> \<forall>n \<in> set names. db_name_ok n \<Longrightarrow>
    unat (ss_next_database_id s) + length names < 2 ^ 64 - 1 \<Longrightarrow>
    entries_fit (unat PALF_BLOCK_SIZE) 0 (map (typed DDL_LOG_BASE_TYPE) (map ddl_db_record (cs @ names))) \<Longrightarrow>
    log_size (map (typed DDL_LOG_BASE_TYPE) (map ddl_db_record (cs @ names))) < 2 ^ 63 \<Longrightarrow>
    \<exists>dd' s' files' ss'. dd_creates junk iter names (dd, s, files) = Some (dd', s', files') \<and>
      op_creates iter names s = Some s' \<and> ddl_log dd' files' (map ddl_db_record (cs @ names)) ss' \<and>
      set ss' \<subseteq> set ss \<union> set names \<and> dd_base_dir dd' = dd_base_dir dd"
proof (induction names arbitrary: dd files cs ss s m)
  case Nil
  then show ?case by (auto simp: dd_creates_def op_creates_def)
next
  case (Cons n names)
  have lt: "ss_next_database_id s < -1"
    using Cons.prems(4) by (simp add: word_less_nat_alt unsigned_minus_1_eq_mask mask_eq_exp_minus_1)
  obtain r j s1 where c: "op_create_database iter n 0 s = Some (r, j, s1)"
    "ss_ok s1 (if m n = None then m(n \<mapsto> ss_next_database_id s) else m)"
    "unat (ss_next_database_id s1) \<le> unat (ss_next_database_id s) + 1"
    by (rule op_create_ok [OF it Cons.prems(2) _ lt, of n 0]) (use Cons.prems(3) in auto)
  have fit: "clog_fits DDL_LOG_BASE_TYPE (map ddl_db_record cs) (ddl_db_record n)"
    using Cons.prems(5,6) by (auto simp: clog_fits_def entries_fit_append ddl_db_record_nonempty)
  have len: "length n < 2 ^ 31" using Cons.prems(3) by (simp add: db_name_ok_def)
  obtain dd1 files1 where d: "dd_create_database junk io_good io_good io_good iter n 0 dd s files = Some (r, j, dd1, s1, files1)"
    "ddl_log dd1 files1 (map ddl_db_record (cs @ [n])) (if r = 0 then ss @ [n] else ss)" "dd_base_dir dd1 = dd_base_dir dd"
    using dd_create_ok [OF Cons.prems(1) fit len c(1), of junk] by auto
  obtain dd' s' files' ss' where "dd_creates junk iter names (dd1, s1, files1) = Some (dd', s', files')"
    "op_creates iter names s1 = Some s'" "ddl_log dd' files' (map ddl_db_record ((cs @ [n]) @ names)) ss'"
    "set ss' \<subseteq> set (if r = 0 then ss @ [n] else ss) \<union> set names" "dd_base_dir dd' = dd_base_dir dd1"
    using Cons.IH [OF d(2) c(2)] Cons.prems(3-6) c(3) by auto
  then show ?case
    using c(1) d(1,3) by (intro exI [of _ dd'] exI [of _ s'] exI [of _ files'] exI [of _ ss'])
      (auto simp: dd_creates_def op_creates_def split: if_splits)
qed

text \<open>
  C3. The databases survive a restart.  On an empty disk the service is opened and the databases
  \<open>names\<close> are created, repeated names included.  When all memory is lost, opening a new service on
  the files and recovering an empty schema service rebuilds exactly the schema that was lost, ids
  included: the stream replays every creation, and the storage log adds nothing to it.
\<close>

theorem ddl_recovery:
  assumes it: "iterates iter" and disk: "logfs DDL_LS_ID = lf_empty" "files (base @ ''/slog/slog_0'') = None"
    and names: "\<forall>n \<in> set names. db_name_ok n"
    and fit: "entries_fit (unat PALF_BLOCK_SIZE) 0 (map (typed DDL_LOG_BASE_TYPE) (map ddl_db_record names))"
      "log_size (map (typed DDL_LOG_BASE_TYPE) (map ddl_db_record names)) < 2 ^ 63"
  shows "\<exists>dd0 files0 dd s files1 dd'.
    dd_init io_good io_good io_good io_good fd logfs base dd_new files = Some (0, dd0, files0) \<and>
    dd_creates junk iter names (dd0, ss_new, files0) = Some (dd, s, files1) \<and>
    dd_init io_good io_good io_good io_good fd' (dd_log_files dd) base dd_new files1 = Some (0, dd', files1) \<and>
    dd_recover_schema iter junk' io_good io_good dd' ss_new files1 = Some (0, s) \<and>
    (\<forall>n. (\<exists>d. ss_get_database_by_name (iter (ss_databases s)) n s = Some (Some d)) \<longleftrightarrow> n \<in> set names)"
proof -
  obtain dd0 files0 where i: "dd_init io_good io_good io_good io_good fd logfs base dd_new files = Some (0, dd0, files0)"
    "ddl_log dd0 files0 [] []" "dd_base_dir dd0 = base"
    using ddl_init_fresh [of logfs files base fd] disk by blast
  have bound: "unat (ss_next_database_id ss_new) + length names < 2 ^ 64 - 1"
    using log_size_count [of "map (typed DDL_LOG_BASE_TYPE) (map ddl_db_record names)"] fit(2) by (simp add: ss_new_def)
  obtain dd s files1 ss where c: "dd_creates junk iter names (dd0, ss_new, files0) = Some (dd, s, files1)"
    "op_creates iter names ss_new = Some s" "ddl_log dd files1 (map ddl_db_record names) ss" "set ss \<subseteq> set names"
    "dd_base_dir dd = base"
    using dd_creates_ok [OF it, of dd0 files0 "[]" "[]" ss_new Map.empty names junk] i(2,3) names fit bound ss_ok_new by auto
  obtain m where m: "ss_ok s m" "dom m = set names"
    using op_creates_ok [OF it ss_ok_new names bound] c(2) by auto
  obtain dd' where r: "dd_init io_good io_good io_good io_good fd' (dd_log_files dd) base dd_new files1 = Some (0, dd', files1)"
    "ddl_log dd' files1 (map ddl_db_record names) ss"
    using ddl_restart [OF c(3), of fd'] c(5) by auto
  have z: "\<forall>n \<in> set names. 0 \<notin> set n \<and> length n < 256" "\<forall>n \<in> set ss. 0 \<notin> set n"
    using names c(4) by (auto simp: db_name_ok_def)
  have "dd_recover_schema iter junk' io_good io_good dd' ss_new files1 = Some (0, s)"
    unfolding ddl_recover_ok [OF r(2)] ddl_replay_records [OF z(1)] ddl_slog_entries [OF z(2)] c(2)
    using op_creates_known [OF it m(1), of ss] c(4) m(2) by simp
  moreover have "(\<exists>d. ss_get_database_by_name (iter (ss_databases s)) n s = Some (Some d)) \<longleftrightarrow> n \<in> set names" for n
    using ss_ok_found [OF m(1), of "iter (ss_databases s)" n] it m(2) by (auto simp: iterates_def)
  ultimately show ?thesis using i(1) c(1) r(1) by blast
qed

definition sorted_iter :: db_iter where
  "sorted_iter m = sorted_list_of_set (dom m)"

lemma iterates_sorted: "iterates sorted_iter"
  by (simp add: iterates_def sorted_iter_def)

theorem ddl_recovery_witness:
  "\<exists>dd0 files0 dd s files1 dd'.
    dd_init io_good io_good io_good io_good 3 (\<lambda>_. lf_empty) ''store'' dd_new Map.empty = Some (0, dd0, files0) \<and>
    dd_creates (\<lambda>_. 0) sorted_iter [[115, 121, 115], [97], [97]] (dd0, ss_new, files0) = Some (dd, s, files1) \<and>
    dd_init io_good io_good io_good io_good 4 (dd_log_files dd) ''store'' dd_new files1 = Some (0, dd', files1) \<and>
    dd_recover_schema sorted_iter (\<lambda>_. 255) io_good io_good dd' ss_new files1 = Some (0, s) \<and>
    (\<forall>n. (\<exists>d. ss_get_database_by_name (sorted_iter (ss_databases s)) n s = Some (Some d)) \<longleftrightarrow>
       n \<in> set [[115, 121, 115], [97], [97]])"
proof (rule ddl_recovery)
  show "iterates sorted_iter" by (rule iterates_sorted)
  show "\<forall>n \<in> set [[115, 121, 115], [97], [97]]. db_name_ok n" by (simp add: db_name_ok_def)
qed (simp_all add: length_ddl_db_record length_typed entry_size_def SCAN_BUF_def PALF_BLOCK_SIZE_def blh_size_def lgh_size_def)

section \<open>Names that do not fit\<close>

lemma iter_singleton: "iterates iter \<Longrightarrow> dom m = {k} \<Longrightarrow> iter m = [k]"
proof -
  assume "iterates iter" "dom m = {k}"
  then have "set (iter m) = {k}" "distinct (iter m)" by (simp_all add: iterates_def)
  then have "set (iter m) = {k}" "length (iter m) = 1" using distinct_card [of "iter m"] by simp_all
  then show ?thesis by (auto simp: length_Suc_conv)
qed

lemma iter_empty: "iterates iter \<Longrightarrow> iter Map.empty = []"
  by (simp add: iterates_def flip: set_empty)

text \<open>A name of 128 bytes and more is stored cut, so a lookup never finds it again.\<close>

lemma op_create_long_first:
  assumes "iterates iter"
  shows "op_create_database iter name i ss_new = Some (ss_create_database name ss_new)"
  using iter_empty [OF assms]
  by (simp add: op_create_database_def ss_get_database_by_name_def ss_new_def)

lemma op_create_long_again:
  assumes "iterates iter" "0 \<notin> set name" "128 \<le> length name"
    and "s = snd (snd (ss_create_database name ss_new))"
  shows "op_create_database iter name i s = Some (ss_create_database name s)"
proof -
  let ?d = "ddl_schema 1 name"
  have s: "ss_databases s = [1 \<mapsto> ?d]" by (simp add: assms(4) ss_create_database_def ss_new_def ddl_schema_def Let_def)
  have "name_get (dbs_database_name ?d) = Some (take 127 name)"
    using assms(2) by (simp add: ddl_schema_def dbs_set_database_name_def dbs_new_def name_get_set)
  moreover have "take 127 name \<noteq> name" using assms(3) by (auto dest: arg_cong [of _ _ length])
  ultimately have "ss_get_database_by_name [1] name s = Some None"
    by (simp add: ss_get_database_by_name_def s)
  then show ?thesis using iter_singleton [OF assms(1), of "ss_databases s" 1] s by (simp add: op_create_database_def)
qed

lemma ddl_record_fits:
  "length name < 3900 \<Longrightarrow> clog_fits DDL_LOG_BASE_TYPE [] (ddl_db_record name)"
  using ddl_db_record_nonempty [of name]
  by (simp add: clog_fits_def length_ddl_db_record length_typed entry_size_def SCAN_BUF_def PALF_BLOCK_SIZE_def blh_size_def lgh_size_def)

text \<open>
  A database name of 128 bytes or more is not recovered.  It is created without an error, and
  after a restart the schema is not the one that was lost: a name of fewer than 256 bytes comes back
  twice, under two ids, once from the stream and once from the storage log, and the replay of a
  longer name overruns the buffer \<^verbatim>\<open>name[256]\<close>.
\<close>

theorem long_database_name:
  assumes it: "iterates iter" and disk: "logfs DDL_LS_ID = lf_empty" "files (base @ ''/slog/slog_0'') = None"
    and name: "0 \<notin> set name" "128 \<le> length name" "length name < 3900"
  shows "\<exists>dd0 files0 dd s files1 dd'.
    dd_init io_good io_good io_good io_good fd logfs base dd_new files = Some (0, dd0, files0) \<and>
    dd_create_database junk io_good io_good io_good iter name 0 dd0 ss_new files0 = Some (0, 1, dd, s, files1) \<and>
    dom (ss_databases s) = {1} \<and>
    dd_init io_good io_good io_good io_good fd' (dd_log_files dd) base dd_new files1 = Some (0, dd', files1) \<and>
    map_option (\<lambda>(r, s). (r, dom (ss_databases s))) (dd_recover_schema iter junk' io_good io_good dd' ss_new files1) =
      (if length name < 256 then Some (0, {1, 2}) else None)"
proof -
  let ?s = "snd (snd (ss_create_database name ss_new))"
  have s: "ss_create_database name ss_new = (0, 1, ?s)" "dom (ss_databases ?s) = {1}"
    "dom (ss_databases (snd (snd (ss_create_database name ?s)))) = {1, 2}"
    by (simp_all add: ss_create_database_def ss_new_def Let_def insert_commute)
  obtain dd0 files0 where i: "dd_init io_good io_good io_good io_good fd logfs base dd_new files = Some (0, dd0, files0)"
    "ddl_log dd0 files0 [] []" "dd_base_dir dd0 = base"
    using ddl_init_fresh [of logfs files base fd] disk by blast
  obtain dd files1 where c: "dd_create_database junk io_good io_good io_good iter name 0 dd0 ss_new files0 = Some (0, 1, dd, ?s, files1)"
    "ddl_log dd files1 [ddl_db_record name] [name]" "dd_base_dir dd = base"
    using dd_create_ok [OF i(2) ddl_record_fits [OF name(3)], of iter 0 ss_new 0 1 ?s junk] op_create_long_first [OF it, of name 0]
      s(1) name(3) i(3) by auto
  obtain dd' where r: "dd_init io_good io_good io_good io_good fd' (dd_log_files dd) base dd_new files1 = Some (0, dd', files1)"
    "ddl_log dd' files1 [ddl_db_record name] [name]"
    using ddl_restart [OF c(2), of fd'] c(3) by auto
  have "map_option (\<lambda>(r, s). (r, dom (ss_databases s))) (dd_recover_schema iter junk' io_good io_good dd' ss_new files1) =
      (if length name < 256 then Some (0, {1, 2}) else None)"
  proof (cases "length name < 256")
    case True
    have 1: "op_creates iter [name] ss_new = Some ?s"
      using s(1) op_create_long_first [OF it, of name 0] by (simp add: op_creates_def split: prod.splits)
    obtain x y where 2: "ss_create_database name ?s = (x, y, snd (snd (ss_create_database name ?s)))" by (metis prod.collapse)
    have 3: "op_creates iter [name] ?s = Some (snd (snd (ss_create_database name ?s)))"
      using 2 op_create_long_again [OF it name(1,2) refl, of 0] by (simp add: op_creates_def split: prod.splits)
    show ?thesis
      using True name(1) ddl_replay_records [of "[name]" iter ss_new] ddl_slog_entries [of "[name]" iter ?s] 1 3 s(3)
      by (simp add: ddl_recover_ok [OF r(2)] del: foldo.simps)
  next
    case False
    then show ?thesis using name dd_replay_too_long [OF name(1), of iter ss_new] by (simp add: ddl_recover_ok [OF r(2)])
  qed
  then show ?thesis using i(1) c(1) r(1) s(2) by blast
qed

theorem long_database_name_witness:
  "\<exists>dd0 files0 dd s files1 dd'.
    dd_init io_good io_good io_good io_good 3 (\<lambda>_. lf_empty) ''store'' dd_new Map.empty = Some (0, dd0, files0) \<and>
    dd_create_database (\<lambda>_. 0) io_good io_good io_good sorted_iter (replicate 128 97) 0 dd0 ss_new files0 = Some (0, 1, dd, s, files1) \<and>
    dom (ss_databases s) = {1} \<and>
    dd_init io_good io_good io_good io_good 4 (dd_log_files dd) ''store'' dd_new files1 = Some (0, dd', files1) \<and>
    map_option (\<lambda>(r, s). (r, dom (ss_databases s))) (dd_recover_schema sorted_iter (\<lambda>_. 0) io_good io_good dd' ss_new files1) =
      Some (0, {1, 2})"
  using long_database_name [of sorted_iter "\<lambda>_. lf_empty" Map.empty "''store''" "replicate 128 97" 3 "\<lambda>_. 0" 4 "\<lambda>_. 0"] iterates_sorted
  by simp

section \<open>What creation leaves behind\<close>

text \<open>
  A refused \<^verbatim>\<open>CREATE DATABASE\<close> is logged all the same: for a name that exists, the call returns -1
  and changes neither the schema nor the files, but its record stays in the stream.
\<close>

theorem refused_database_logged:
  assumes "iterates iter" "ss_ok s m" "m name \<noteq> None" "ddl_log dd files recs ss"
    and "clog_fits DDL_LOG_BASE_TYPE recs (ddl_db_record name)"
  shows "\<exists>dd'. dd_create_database junk io_good io2 io3 iter name i dd s files = Some (-1, i, dd', s, files) \<and>
    ddl_log dd' files (recs @ [ddl_db_record name]) ss"
proof -
  obtain a svc lsn scn svc' where e: "dd_is_inited dd" "dd_log_handler dd = Some a" "dd_log_service dd = Some svc"
    "svc_append junk io_good a (Some (ddl_db_record name)) DDL_LOG_BASE_TYPE lsn_init 0 svc = Some (0, lsn, scn, svc')"
    "ddl_log (dd\<lparr>dd_log_service := Some svc'\<rparr>) files (recs @ [ddl_db_record name]) ss"
    using ddl_append [OF assms(4,5)] .
  then show ?thesis using op_create_exists [OF assms(1-3), of i] by (simp add: dd_create_database_def)
qed

lemma first_database:
  obtains dd0 files0 dd s files1 where
    "dd_init io_good io_good io_good io_good 3 (\<lambda>_. lf_empty) ''store'' dd_new Map.empty = Some (0, dd0, files0)"
    "ddl_log dd0 files0 [] []" "dd_base_dir dd0 = ''store''"
    "dd_create_database (\<lambda>_. 0) io_good io_good io_good sorted_iter [97] 0 dd0 ss_new files0 = Some (0, 1, dd, s, files1)"
    "ddl_log dd files1 [ddl_db_record [97]] [[97]]" "ss_ok s [[97] \<mapsto> 1]"
proof -
  obtain dd0 files0 where i: "dd_init io_good io_good io_good io_good 3 (\<lambda>_. lf_empty) ''store'' dd_new Map.empty = Some (0, dd0, files0)"
    "ddl_log dd0 files0 [] []" "dd_base_dir dd0 = ''store''"
    using ddl_init_fresh [of "\<lambda>_. lf_empty" Map.empty "''store''" 3] by auto
  have lt: "ss_next_database_id ss_new < -1"
    by (simp add: ss_new_def word_less_nat_alt unsigned_minus_1_eq_mask mask_eq_exp_minus_1)
  obtain s where s: "ss_create_database [97] ss_new = (0, 1, s)" "ss_ok s [[97] \<mapsto> 1]"
    using ss_ok_create [OF ss_ok_new, of "[97]", OF _ _ _ lt] by (auto simp: ss_new_def)
  then have "op_create_database sorted_iter [97] 0 ss_new = Some (0, 1, s)"
    using op_create_new [OF iterates_sorted ss_ok_new] by simp
  then obtain dd files1 where "dd_create_database (\<lambda>_. 0) io_good io_good io_good sorted_iter [97] 0 dd0 ss_new files0 = Some (0, 1, dd, s, files1)"
    "ddl_log dd files1 [ddl_db_record [97]] [[97]]"
    using dd_create_ok [OF i(2) ddl_record_fits [of "[97]"], of sorted_iter 0 ss_new 0 1 s "\<lambda>_. 0"] by auto
  then show ?thesis using that i s(2) by blast
qed

lemma second_record_fits: "clog_fits DDL_LOG_BASE_TYPE [ddl_db_record [97]] (ddl_db_record [97])"
  by (simp add: clog_fits_def ddl_db_record_nonempty length_ddl_db_record length_typed entry_size_def SCAN_BUF_def PALF_BLOCK_SIZE_def
      blh_size_def lgh_size_def)

theorem refused_database_logged_witness:
  "\<exists>dd s files dd'. ddl_log dd files [ddl_db_record [97]] [[97]] \<and>
    dd_create_database (\<lambda>_. 0) io_good io_good io_good sorted_iter [97] 9 dd s files = Some (-1, 9, dd', s, files) \<and>
    ddl_log dd' files ([ddl_db_record [97]] @ [ddl_db_record [97]]) [[97]]"
proof -
  obtain dd s files where d: "ddl_log dd files [ddl_db_record [97]] [[97]]" "ss_ok s [[97] \<mapsto> 1]"
    by (rule first_database)
  show ?thesis
    using refused_database_logged [OF iterates_sorted d(2) _ d(1) second_record_fits, of "\<lambda>_. 0" io_good io_good 9] d(1)
    by auto
qed

lemma ddl_macro_block_bytes:
  "ddl_macro_block k name =
     ch_enc (ddl_common_header\<lparr>ch_payload_size := 280\<rparr>) @ fh_enc (ddl_fixed_header k 136) @ ub_enc (ddl_micro_header 136) @
     dbs_enc (ddl_schema k name) @ replicate (MACRO_SIZE - 304) 0"
proof -
  let ?z = "replicate MACRO_SIZE (0 :: byte)"
  have m: "304 \<le> MACRO_SIZE" by (simp add: MACRO_SIZE_def)
  have d: "dbs_serialize (ddl_schema k name) (replicate dbs_size 0) 0 = (0, dbs_enc (ddl_schema k name), dbs_size)"
    by (simp add: dbs_serialize_def dbh.serialize_ok blit_0 dbh.length_enc)
  let ?c = "ch_enc ddl_common_header" and ?f = "fh_enc (ddl_fixed_header k 136)" and ?u = "ub_enc (ddl_micro_header 136)"
    and ?s = "dbs_enc (ddl_schema k name)"
  have l: "length ?c = 24" "length ?f = 88" "length ?u = 56" "length ?s = 136"
    by (simp_all add: chh.length_enc fhh.length_enc ubh.length_enc dbh.length_enc ch_size_def fh_size_def ub_size_def dbs_size_def)
  have 1: "ch_serialize ddl_common_header ?z 0 = (0, blit 0 ?c ?z, 24)"
    using m by (simp add: ch_serialize_def chh.serialize_ok ch_size_def)
  have l1: "length (blit 0 ?c ?z) = MACRO_SIZE" using m l by simp
  have 2: "fh_serialize (ddl_fixed_header k 136) (blit 0 ?c ?z) 24 = (0, blit 0 (?c @ ?f) ?z, 112)"
    using m l1 blit_blit [of 0 ?z ?c ?f] l by (simp add: fh_serialize_def fhh.serialize_ok fh_size_def)
  have l2: "length (blit 0 (?c @ ?f) ?z) = MACRO_SIZE" using m l by simp
  have 3: "ub_serialize (ddl_micro_header 136) (blit 0 (?c @ ?f) ?z) 112 = (0, blit 0 (?c @ ?f @ ?u) ?z, 168)"
    using m l2 blit_blit [of 0 ?z "?c @ ?f" ?u] l by (simp add: ub_serialize_def ubh.serialize_ok ub_size_def)
  have 4: "blit 168 ?s (blit 0 (?c @ ?f @ ?u) ?z) = ?c @ ?f @ ?u @ ?s @ replicate (MACRO_SIZE - 304) 0"
    using m blit_blit [of 0 ?z "?c @ ?f @ ?u" ?s] l by (simp add: blit_0)
  have 5: "blit 16 (put_word (280 :: u32)) (?c @ rest) = ch_enc (ddl_common_header\<lparr>ch_payload_size := 280\<rparr>) @ rest" for rest
    by (simp add: ch_enc_def blit_def)
  show ?thesis
    unfolding ddl_macro_block_def d Let_def case_prod_conv l(4) 1 2 3 4 by (simp add: 5 ch_size_def)
qed

lemma ddl_macro_block_readback:
  "ch_deserialize c0 (ddl_macro_block k name) 0 = (0, ddl_common_header\<lparr>ch_payload_size := 280\<rparr>, 24)"
  "fh_deserialize f0 (ddl_macro_block k name) 24 = (0, ddl_fixed_header k 136, 112)"
  "ub_deserialize u0 (ddl_macro_block k name) 112 = (0, ddl_micro_header 136, 168)"
  "dbs_deserialize d0 (ddl_macro_block k name) 168 = (0, ddl_schema k name, 304)"
  "length (ddl_macro_block k name) = MACRO_SIZE"
proof -
  let ?b = "ddl_macro_block k name"
  note len = chh.length_enc fhh.length_enc ubh.length_enc dbh.length_enc ch_size_def fh_size_def ub_size_def dbs_size_def
  show l: "length ?b = MACRO_SIZE" by (simp add: ddl_macro_block_bytes len MACRO_SIZE_def)
  have m: "304 \<le> MACRO_SIZE" by (simp add: MACRO_SIZE_def)
  have sl: "bslice 0 24 ?b = ch_enc (ddl_common_header\<lparr>ch_payload_size := 280\<rparr>)" "bslice 24 88 ?b = fh_enc (ddl_fixed_header k 136)"
    "bslice 112 56 ?b = ub_enc (ddl_micro_header 136)" "bslice 168 136 ?b = dbs_enc (ddl_schema k name)"
    by (simp_all add: ddl_macro_block_bytes len slice_skip slice_here)
  show "ch_deserialize c0 ?b 0 = (0, ddl_common_header\<lparr>ch_payload_size := 280\<rparr>, 24)"
    using chh.roundtrip_slice [of 0 ?b _ c0] sl(1) l m by (simp add: ch_deserialize_def ch_size_def)
  show "fh_deserialize f0 ?b 24 = (0, ddl_fixed_header k 136, 112)"
    using fhh.roundtrip_slice [of 24 ?b _ f0] sl(2) l m by (simp add: fh_deserialize_def fh_size_def)
  show "ub_deserialize u0 ?b 112 = (0, ddl_micro_header 136, 168)"
    using ubh.roundtrip_slice [of 112 ?b _ u0] sl(3) l m by (simp add: ub_deserialize_def ub_size_def)
  show "dbs_deserialize d0 ?b 168 = (0, ddl_schema k name, 304)"
    using dbh.roundtrip_slice [of 168 ?b _ d0] sl(4) l m by (simp add: dbs_deserialize_def dbs_size_def)
qed

text \<open>
  C35. Every database gets its own macro block.  A successful \<^verbatim>\<open>CREATE DATABASE\<close> appends one block of
  2 MB to \<^verbatim>\<open>block_file\<close> and keeps what was there; the three headers of the block are valid, with the
  id of the database and the sizes of the parts, and the schema read from it is the one the schema
  service holds.
\<close>

theorem database_block_readback:
  assumes d: "ddl_log dd files recs ss"
    and c: "dd_create_database junk io1 io_good io3 iter name i dd s files = Some (0, k, dd', s', files')"
  shows "\<exists>blk d. files' (block_file_path dd) = Some (case_option [] id (files (block_file_path dd)) @ blk) \<and>
    length blk = MACRO_SIZE \<and> ch_is_valid (fst (snd (ch_deserialize ch_init blk 0))) \<and>
    fst (snd (fh_deserialize fh_init blk 24)) = ddl_fixed_header k 136 \<and> ub_is_valid (fst (snd (ub_deserialize ub_init blk 112))) \<and>
    dbs_deserialize dbs_new blk 168 = (0, d, 304) \<and> ss_get_database_by_id k s' = Some d"
proof -
  let ?blk = "ddl_macro_block k name"
  obtain svc a where e: "dd_is_inited dd" "dd_log_service dd = Some svc" "dd_log_handler dd = Some a"
    "sl_slog_file_path (dd_slog_logger dd) = dd_base_dir dd @ ''/slog/slog_0''"
    using d by (auto simp: ddl_log_def slog_holds_def)
  obtain svc' r where
    op: "op_create_database iter name i s = Some (0, k, s')" and
    w: "slog_write_log junk io3 \<lparr>lp_tenant_id = 1, lp_log_type = 4, lp_data = Some name, lp_data_len = int (length name)\<rparr>
      (dd_slog_logger dd) (ddl_append_block io_good ?blk (dd\<lparr>dd_log_service := Some svc'\<rparr>) files) = Some (r, files')"
    using c e(1-3) by (auto simp: dd_create_database_def bind_eq_Some_conv Let_def split: if_splits)
  have p: "block_file_path dd \<noteq> sl_slog_file_path (dd_slog_logger dd)" by (simp add: e(4) block_file_path_def)
  have "files' (block_file_path dd) = ddl_append_block io_good ?blk (dd\<lparr>dd_log_service := Some svc'\<rparr>) files (block_file_path dd)"
    using w p by (auto simp: slog_write_log_def bind_eq_Some_conv Let_def split: if_splits)
  then have f: "files' (block_file_path dd) = Some (case_option [] id (files (block_file_path dd)) @ ?blk)"
    by (auto simp: ddl_append_block_def io_good_def block_file_path_def split: option.splits)
  have "ss_get_database_by_id k s' = Some (ddl_schema k name)"
    using op by (auto simp: op_create_database_def bind_eq_Some_conv ss_create_database_def ss_get_database_by_id_def ddl_schema_def
        Let_def split: if_splits)
  then show ?thesis
    using f ddl_macro_block_readback [where k = k and name = name]
    by (intro exI [of _ ?blk] exI [of _ "ddl_schema k name"])
      (simp add: ch_is_valid_def ub_is_valid_def ddl_common_header_def ddl_micro_header_def)
qed

theorem database_block_readback_witness:
  "\<exists>dd s files1 blk d. dd_base_dir dd = ''store'' \<and>
    files1 (block_file_path dd) = Some ([] @ blk) \<and>
    length blk = MACRO_SIZE \<and> ch_is_valid (fst (snd (ch_deserialize ch_init blk 0))) \<and>
    fst (snd (fh_deserialize fh_init blk 24)) = ddl_fixed_header 1 136 \<and> ub_is_valid (fst (snd (ub_deserialize ub_init blk 112))) \<and>
    dbs_deserialize dbs_new blk 168 = (0, d, 304) \<and> ss_get_database_by_id 1 s = Some d"
proof -
  obtain dd0 files0 dd s files1 where f:
    "dd_init io_good io_good io_good io_good 3 (\<lambda>_. lf_empty) ''store'' dd_new Map.empty = Some (0, dd0, files0)"
    "ddl_log dd0 files0 [] []" "dd_base_dir dd0 = ''store''"
    "dd_create_database (\<lambda>_. 0) io_good io_good io_good sorted_iter [97] 0 dd0 ss_new files0 = Some (0, 1, dd, s, files1)"
    by (rule first_database)
  have "files0 (block_file_path dd0) = None"
    using f(1) ddl_init_fresh [of "\<lambda>_. lf_empty" Map.empty "''store''" 3] f(3) by (auto simp: block_file_path_def)
  then show ?thesis using database_block_readback [OF f(2,4)] f(3) by (intro exI [of _ dd0]) auto
qed

end
