(* ===== verification/Ob_Value.thy ===== *)
theory Ob_Value
  imports Ob_Prelude
begin

text \<open>
  Values of the SQL layer: \<^verbatim>\<open>observer/common/value.cpp\<close>, the types of \<^verbatim>\<open>observer/common/type\<close> and the
  comparators of \<^verbatim>\<open>common/lang/comparator.cpp\<close>.

  A \<open>Value\<close> is a tag, a union and a flag that says whether the value owns the array its pointer leads to.  The union is
  the member that was written last; reading another member has no defined result.  Arrays live in a store that hands out
  fresh addresses, so that freeing an array twice and reading a freed one show up as \<^term>\<open>None\<close>; \<open>Vars\<close> are the
  objects of a program, and \<open>vstep\<close> the member functions on them.

  What a value holds is its \<open>view\<close>, on which conversions, arithmetic and comparison are defined.  The operations of the
  hardware on \<^verbatim>\<open>float\<close>, and the library's conversions between floats and text, are the parameter \<open>float_ops\<close>; a float
  is its bit pattern.  A failed \<^verbatim>\<open>ASSERT\<close> and an overflow of \<^verbatim>\<open>int\<close> are \<^term>\<open>None\<close>.
\<close>

section \<open>Types\<close>

datatype AttrType = UNDEFINED | CHARS | INTS | FLOATS | VECTORS | BOOLEANS | MAXTYPE

fun attr_type_val :: "AttrType \<Rightarrow> u32" where
  "attr_type_val UNDEFINED = 0"
| "attr_type_val CHARS = 1"
| "attr_type_val INTS = 2"
| "attr_type_val FLOATS = 3"
| "attr_type_val VECTORS = 4"
| "attr_type_val BOOLEANS = 5"
| "attr_type_val MAXTYPE = 6"

definition ATTR_TYPE_NAME :: "string list" where
  "ATTR_TYPE_NAME = [''undefined'', ''chars'', ''ints'', ''floats'', ''vectors'', ''booleans'']"

definition attr_type_to_string :: "AttrType \<Rightarrow> string" where
  "attr_type_to_string type =
     (if type \<noteq> MAXTYPE then ATTR_TYPE_NAME ! unat (attr_type_val type) else ''unknown'')"

definition attr_types :: "AttrType list" where
  "attr_types = [UNDEFINED, CHARS, INTS, FLOATS, VECTORS, BOOLEANS, MAXTYPE]"

definition lower :: "byte \<Rightarrow> byte" where
  "lower b = (if 65 \<le> b \<and> b \<le> 90 then b + 32 else b)"

definition strcasecmp_eq :: "bytes \<Rightarrow> bytes \<Rightarrow> bool" where
  "strcasecmp_eq a b \<longleftrightarrow> map lower (c_str a) = map lower (c_str b)"

fun type_from :: "AttrType list \<Rightarrow> string list \<Rightarrow> bytes \<Rightarrow> AttrType" where
  "type_from (t # ts) (n # ns) s = (if strcasecmp_eq (str n) s then t else type_from ts ns s)"
| "type_from _ _ s = UNDEFINED"

definition attr_type_from_string :: "bytes \<Rightarrow> AttrType" where
  "attr_type_from_string s = type_from attr_types ATTR_TYPE_NAME s"

definition is_numerical_type :: "AttrType \<Rightarrow> bool" where
  "is_numerical_type type \<longleftrightarrow> type = INTS \<or> type = FLOATS"

definition is_string_type :: "AttrType \<Rightarrow> bool" where
  "is_string_type type \<longleftrightarrow> type = CHARS"

section \<open>Values and their memory\<close>

datatype val = IntV int | FloatV u32 | BoolV bool | PtrV "nat option"

record Value =
  attr_type :: AttrType
  v_length :: int
  v_value :: val
  own_data :: bool

record Arrays =
  ar_mem :: "nat \<rightharpoonup> bytes"
  ar_next :: nat

definition ar_alloc :: "bytes \<Rightarrow> Arrays \<Rightarrow> nat \<times> Arrays" where
  "ar_alloc bs h = (ar_next h, h\<lparr>ar_mem := (ar_mem h)(ar_next h \<mapsto> bs), ar_next := ar_next h + 1\<rparr>)"

definition ar_delete :: "nat \<Rightarrow> Arrays \<Rightarrow> Arrays option" where
  "ar_delete a h = (if ar_mem h a = None then None else Some (h\<lparr>ar_mem := (ar_mem h)(a := None)\<rparr>))"

fun pointer_value :: "val \<Rightarrow> nat option option" where
  "pointer_value (PtrV p) = Some p"
| "pointer_value _ = None"

definition v_new :: Value where
  "v_new = \<lparr>attr_type = UNDEFINED, v_length = 0, v_value = IntV 0, own_data = False\<rparr>"

definition v_reset :: "Value \<Rightarrow> Arrays \<Rightarrow> (Value \<times> Arrays) option" where
  "v_reset v h = do {
     (value, h) \<leftarrow>
       (if attr_type v = CHARS \<and> own_data v then do {
          p \<leftarrow> pointer_value (v_value v);
          (case p of
             None \<Rightarrow> Some (v_value v, h)
           | Some a \<Rightarrow> do { h \<leftarrow> ar_delete a h; Some (PtrV None, h) })
        } else Some (v_value v, h));
     Some (\<lparr>attr_type = UNDEFINED, v_length = 0, v_value = value, own_data = False\<rparr>, h)
   }"

definition set_int :: "int \<Rightarrow> Value \<Rightarrow> Arrays \<Rightarrow> (Value \<times> Arrays) option" where
  "set_int i v h = do {
     (v, h) \<leftarrow> v_reset v h;
     Some (v\<lparr>attr_type := INTS, v_value := IntV i, v_length := 4\<rparr>, h)
   }"

definition set_float :: "u32 \<Rightarrow> Value \<Rightarrow> Arrays \<Rightarrow> (Value \<times> Arrays) option" where
  "set_float f v h = do {
     (v, h) \<leftarrow> v_reset v h;
     Some (v\<lparr>attr_type := FLOATS, v_value := FloatV f, v_length := 4\<rparr>, h)
   }"

definition set_boolean :: "bool \<Rightarrow> Value \<Rightarrow> Arrays \<Rightarrow> (Value \<times> Arrays) option" where
  "set_boolean b v h = do {
     (v, h) \<leftarrow> v_reset v h;
     Some (v\<lparr>attr_type := BOOLEANS, v_value := BoolV b, v_length := 1\<rparr>, h)
   }"

text \<open>The text is the memory behind the pointer; \<^verbatim>\<open>strlen\<close> and \<^verbatim>\<open>strnlen\<close> must find a NUL byte in it or stop
  before its end.\<close>

definition c_strlen :: "bytes \<Rightarrow> int \<Rightarrow> nat option" where
  "c_strlen s len =
     (let n = length (c_str s)
      in if len > 0 then (if n < length s \<or> nat len \<le> n then Some (min n (nat len)) else None)
         else if n < length s then Some n else None)"

definition set_string :: "bytes option \<Rightarrow> int \<Rightarrow> Value \<Rightarrow> Arrays \<Rightarrow> (Value \<times> Arrays) option" where
  "set_string s len v h = do {
     (v, h) \<leftarrow> v_reset v h;
     (case s of
        None \<Rightarrow> Some (v\<lparr>attr_type := CHARS, v_value := PtrV None, v_length := 0\<rparr>, h)
      | Some s \<Rightarrow> do {
          n \<leftarrow> c_strlen s len;
          let (a, h) = ar_alloc (take n s @ [0]) h;
          Some (v\<lparr>attr_type := CHARS, own_data := True, v_value := PtrV (Some a), v_length := int n\<rparr>, h)
        })
   }"

definition set_empty_string :: "int \<Rightarrow> Value \<Rightarrow> Arrays \<Rightarrow> (Value \<times> Arrays) option" where
  "set_empty_string len v h = do {
     (v, h) \<leftarrow> v_reset v h;
     if len < 0 then None
     else do {
       let (a, h) = ar_alloc (replicate (nat len) 0 @ [0]) h;
       Some (v\<lparr>attr_type := CHARS, own_data := True, v_value := PtrV (Some a), v_length := len\<rparr>, h)
     }
   }"

definition set_string_from_other :: "Value \<Rightarrow> Value \<Rightarrow> Arrays \<Rightarrow> (Value \<times> Arrays) option" where
  "set_string_from_other other v h =
     (if \<not> own_data v then Some (v, h)
      else do {
        p \<leftarrow> pointer_value (v_value other);
        (case p of
           None \<Rightarrow> Some (v, h)
         | Some a \<Rightarrow>
             if v_length v = 0 then Some (v, h)
             else do {
               src \<leftarrow> ar_mem h a;
               if v_length v < 0 \<or> nat (v_length v) > length src then None
               else do {
                 let (a', h) = ar_alloc (take (nat (v_length v)) src @ [0]) h;
                 Some (v\<lparr>v_value := PtrV (Some a')\<rparr>, h)
               }
             })
      })"

definition copy_fields :: "Value \<Rightarrow> Value \<Rightarrow> Arrays \<Rightarrow> (Value \<times> Arrays) option" where
  "copy_fields other v h =
     (let v = v\<lparr>attr_type := attr_type other, v_length := v_length other, own_data := own_data other\<rparr>
      in if attr_type v = CHARS then set_string_from_other other v h
         else Some (v\<lparr>v_value := v_value other\<rparr>, h))"

definition copy_new :: "Value \<Rightarrow> Arrays \<Rightarrow> (Value \<times> Arrays) option" where
  "copy_new other h = copy_fields other v_new h"

definition move_new :: "Value \<Rightarrow> Value \<times> Value" where
  "move_new other = (other, other\<lparr>own_data := False, v_length := 0\<rparr>)"

text \<open>The assignments on two different objects; assigning an object to itself does nothing.\<close>

definition copy_assign :: "Value \<Rightarrow> Value \<Rightarrow> Arrays \<Rightarrow> (Value \<times> Arrays) option" where
  "copy_assign other v h = do {
     (v, h) \<leftarrow> v_reset v h;
     copy_fields other v h
   }"

definition move_assign :: "Value \<Rightarrow> Value \<Rightarrow> Arrays \<Rightarrow> (Value \<times> Value \<times> Arrays) option" where
  "move_assign other v h = do {
     (v, h) \<leftarrow> v_reset v h;
     let (v, other) = move_new other;
     Some (v, other, h)
   }"

definition set_type :: "AttrType \<Rightarrow> Value \<Rightarrow> Value" where
  "set_type type v = v\<lparr>attr_type := type\<rparr>"

definition set_data :: "bytes \<Rightarrow> int \<Rightarrow> Value \<Rightarrow> Arrays \<Rightarrow> (Value \<times> Arrays) option" where
  "set_data data len v h =
     (case attr_type v of
        CHARS \<Rightarrow> set_string (Some data) len v h
      | INTS \<Rightarrow> if length data < 4 then None else Some (v\<lparr>v_value := IntV (sint (get_word (take 4 data) :: u32)), v_length := len\<rparr>, h)
      | FLOATS \<Rightarrow> if length data < 4 then None else Some (v\<lparr>v_value := FloatV (get_word (take 4 data)), v_length := len\<rparr>, h)
      | BOOLEANS \<Rightarrow> if length data < 4 then None else Some (v\<lparr>v_value := BoolV (get_word (take 4 data) \<noteq> (0 :: u32)), v_length := len\<rparr>, h)
      | _ \<Rightarrow> Some (v, h))"

section \<open>Programs on values\<close>

text \<open>The member functions on the named objects of a program.  A constructor needs a name that is free, the other
  operations one that is in use.\<close>

record Vars =
  vs_val :: "nat \<rightharpoonup> Value"
  vs_heap :: Arrays

datatype vop =
    Construct nat
  | FromInt nat int
  | FromFloat nat u32
  | FromBool nat bool
  | FromString nat "bytes option" int
  | FromData nat AttrType bytes int
  | CopyNew nat nat
  | MoveNew nat nat
  | Assign nat nat
  | MoveAssign nat nat
  | SetInt nat int
  | SetFloat nat u32
  | SetBoolean nat bool
  | SetString nat "bytes option" int
  | SetEmptyString nat int
  | SetData nat bytes int
  | Reset nat
  | Destroy nat

definition on_var :: "nat \<Rightarrow> (Value \<Rightarrow> Arrays \<Rightarrow> (Value \<times> Arrays) option) \<Rightarrow> Vars \<Rightarrow> Vars option" where
  "on_var x f st = do {
     v \<leftarrow> vs_val st x;
     (v, h) \<leftarrow> f v (vs_heap st);
     Some \<lparr>vs_val = (vs_val st)(x \<mapsto> v), vs_heap = h\<rparr>
   }"

definition new_var :: "nat \<Rightarrow> (Value \<Rightarrow> Arrays \<Rightarrow> (Value \<times> Arrays) option) \<Rightarrow> Vars \<Rightarrow> Vars option" where
  "new_var x f st = (if vs_val st x = None then on_var x f (st\<lparr>vs_val := (vs_val st)(x \<mapsto> v_new)\<rparr>) else None)"

fun vstep :: "vop \<Rightarrow> Vars \<Rightarrow> Vars option" where
  "vstep (Construct x) st = new_var x (\<lambda>v h. Some (v, h)) st"
| "vstep (FromInt x i) st = new_var x (set_int i) st"
| "vstep (FromFloat x f) st = new_var x (set_float f) st"
| "vstep (FromBool x b) st = new_var x (set_boolean b) st"
| "vstep (FromString x s len) st = new_var x (set_string s len) st"
| "vstep (FromData x type data len) st = new_var x (\<lambda>v. set_data data len (v\<lparr>attr_type := type\<rparr>)) st"
| "vstep (CopyNew x y) st = (case vs_val st y of None \<Rightarrow> None | Some w \<Rightarrow> new_var x (\<lambda>_. copy_new w) st)"
| "vstep (MoveNew x y) st =
     (case vs_val st y of
        None \<Rightarrow> None
      | Some w \<Rightarrow> if vs_val st x = None then Some (st\<lparr>vs_val := (vs_val st)(x \<mapsto> fst (move_new w), y \<mapsto> snd (move_new w))\<rparr>) else None)"
| "vstep (Assign x y) st =
     (if x = y then Some st else case vs_val st y of None \<Rightarrow> None | Some w \<Rightarrow> on_var x (copy_assign w) st)"
| "vstep (MoveAssign x y) st =
     (if x = y then Some st
      else case (vs_val st x, vs_val st y) of
        (Some v, Some w) \<Rightarrow> do {
          (v, w, h) \<leftarrow> move_assign w v (vs_heap st);
          Some \<lparr>vs_val = (vs_val st)(x \<mapsto> v, y \<mapsto> w), vs_heap = h\<rparr>
        }
      | _ \<Rightarrow> None)"
| "vstep (SetInt x i) st = on_var x (set_int i) st"
| "vstep (SetFloat x f) st = on_var x (set_float f) st"
| "vstep (SetBoolean x b) st = on_var x (set_boolean b) st"
| "vstep (SetString x s len) st = on_var x (set_string s len) st"
| "vstep (SetEmptyString x len) st = on_var x (set_empty_string len) st"
| "vstep (SetData x data len) st = on_var x (set_data data len) st"
| "vstep (Reset x) st = on_var x v_reset st"
| "vstep (Destroy x) st = do {
     st \<leftarrow> on_var x v_reset st;
     Some (st\<lparr>vs_val := (vs_val st)(x := None)\<rparr>)
   }"

fun vrun :: "vop list \<Rightarrow> Vars \<Rightarrow> Vars option" where
  "vrun [] st = Some st"
| "vrun (op # ops) st = do { st \<leftarrow> vstep op st; vrun ops st }"

definition vs_start :: Vars where
  "vs_start = \<lparr>vs_val = (\<lambda>_. None), vs_heap = \<lparr>ar_mem = (\<lambda>_. None), ar_next = 0\<rparr>\<rparr>"

subsection \<open>The type invariant\<close>

text \<open>The tag agrees with the union, an owner's pointer leads to a live array of its length and the terminator, no array
  has two owners and none is without one.\<close>

fun tag_ok :: "AttrType \<Rightarrow> val \<Rightarrow> bool" where
  "tag_ok CHARS u \<longleftrightarrow> (case u of PtrV _ \<Rightarrow> True | _ \<Rightarrow> False)"
| "tag_ok INTS u \<longleftrightarrow> (case u of IntV _ \<Rightarrow> True | _ \<Rightarrow> False)"
| "tag_ok FLOATS u \<longleftrightarrow> (case u of FloatV _ \<Rightarrow> True | _ \<Rightarrow> False)"
| "tag_ok BOOLEANS u \<longleftrightarrow> (case u of BoolV _ \<Rightarrow> True | _ \<Rightarrow> False)"
| "tag_ok _ u \<longleftrightarrow> True"

fun array_of :: "val \<Rightarrow> nat set" where
  "array_of (PtrV (Some a)) = {a}"
| "array_of _ = {}"

definition owned :: "Value \<Rightarrow> nat set" where
  "owned v = (if own_data v then array_of (v_value v) else {})"

definition live_string :: "Arrays \<Rightarrow> Value \<Rightarrow> bool" where
  "live_string h v \<longleftrightarrow> attr_type v = CHARS \<and> 0 \<le> v_length v \<and>
     (case v_value v of
        PtrV (Some a) \<Rightarrow> (case ar_mem h a of Some buf \<Rightarrow> length buf = nat (v_length v) + 1 \<and> last buf = 0 | None \<Rightarrow> False)
      | _ \<Rightarrow> False)"

definition v_wf :: "Arrays \<Rightarrow> Value \<Rightarrow> bool" where
  "v_wf h v \<longleftrightarrow> tag_ok (attr_type v) (v_value v) \<and> (own_data v \<longrightarrow> live_string h v)"

definition ar_wf :: "Arrays \<Rightarrow> bool" where
  "ar_wf h \<longleftrightarrow> (\<forall>a. ar_next h \<le> a \<longrightarrow> ar_mem h a = None)"

definition owned_by :: "(nat \<rightharpoonup> Value) \<Rightarrow> nat set" where
  "owned_by m = {a. \<exists>x v. m x = Some v \<and> a \<in> owned v}"

definition vinv :: "Vars \<Rightarrow> bool" where
  "vinv st \<longleftrightarrow> ar_wf (vs_heap st) \<and> (\<forall>x v. vs_val st x = Some v \<longrightarrow> v_wf (vs_heap st) v) \<and>
     (\<forall>x y v w. vs_val st x = Some v \<longrightarrow> vs_val st y = Some w \<longrightarrow> x \<noteq> y \<longrightarrow> owned v \<inter> owned w = {}) \<and>
     dom (ar_mem (vs_heap st)) = owned_by (vs_val st)"

text \<open>What an operation on one object does to the store: it frees the array the object owned or keeps it, and takes at
  most a fresh one.\<close>

definition vtrans :: "Arrays \<Rightarrow> Value \<Rightarrow> Arrays \<Rightarrow> Value \<Rightarrow> bool" where
  "vtrans h v h' v' \<longleftrightarrow> ar_wf h' \<and> v_wf h' v' \<and> ar_next h \<le> ar_next h' \<and>
     (\<forall>a. a < ar_next h \<longrightarrow> a \<notin> owned v \<longrightarrow> ar_mem h' a = ar_mem h a) \<and>
     dom (ar_mem h') = dom (ar_mem h) - owned v \<union> owned v' \<and>
     (\<forall>a \<in> owned v'. a \<in> owned v \<or> ar_next h \<le> a)"

lemma vtrans_refl: "ar_wf h \<Longrightarrow> v_wf h v \<Longrightarrow> vtrans h v h v"
proof -
  assume a: "ar_wf h" "v_wf h v"
  have "owned v \<subseteq> dom (ar_mem h)"
    using a(2) by (auto simp: owned_def v_wf_def live_string_def split: val.splits option.splits)
  then show ?thesis using a by (auto simp: vtrans_def)
qed

lemma vtrans_trans:
  assumes h: "ar_wf h" and 1: "vtrans h v h1 v1" and 2: "vtrans h1 v1 h2 v2"
  shows "vtrans h v h2 v2"
proof -
  have v1: "a \<in> owned v \<or> ar_next h \<le> a" if "a \<in> owned v1" for a using 1 that by (simp add: vtrans_def)
  have v2: "a \<in> owned v \<or> ar_next h \<le> a" if "a \<in> owned v2" for a
    using 1 2 that v1 by (force simp: vtrans_def)
  have low: "a < ar_next h" if "a \<in> dom (ar_mem h)" for a using h that by (metis ar_wf_def domIff linorder_not_le)
  have "dom (ar_mem h) - owned v - owned v1 = dom (ar_mem h) - owned v" using v1 low by fastforce
  then have d: "dom (ar_mem h2) = dom (ar_mem h) - owned v \<union> owned v2" using 1 2 by (auto simp: vtrans_def)
  have f: "ar_mem h2 a = ar_mem h a" if "a < ar_next h" "a \<notin> owned v" for a
  proof -
    have "a \<notin> owned v1" using v1 that by fastforce
    then show ?thesis using 1 2 that by (simp add: vtrans_def)
  qed
  show ?thesis using 1 2 d f v2 by (simp add: vtrans_def)
qed

text \<open>Plain updates of an object that owns nothing, and taking a fresh array.\<close>

lemma vtrans_plain:
  assumes "ar_wf h" "\<not> own_data v" "\<not> own_data v'" "tag_ok (attr_type v') (v_value v')"
  shows "vtrans h v h v'"
  using assms by (simp add: vtrans_def v_wf_def owned_def)

lemma vtrans_alloc:
  assumes h: "ar_wf h" and v: "\<not> own_data v" and a: "ar_alloc buf h = (a, h')"
    and v': "attr_type v' = CHARS" "own_data v'" "v_value v' = PtrV (Some a)" "v_length v' = int n" "length buf = n + 1" "last buf = 0"
  shows "vtrans h v h' v'"
proof -
  have h': "a = ar_next h" "ar_mem h' = (ar_mem h)(a \<mapsto> buf)" "ar_next h' = ar_next h + 1" using a by (auto simp: ar_alloc_def)
  moreover have "live_string h' v'" using v' h' by (simp add: live_string_def)
  ultimately show ?thesis using h v v' by (auto simp: vtrans_def v_wf_def owned_def ar_wf_def)
qed

lemma v_reset_trans:
  assumes h: "ar_wf h" and v: "v_wf h v"
  obtains v' h' where "v_reset v h = Some (v', h')" "vtrans h v h' v'" "\<not> own_data v'" "attr_type v' = UNDEFINED"
proof (cases "own_data v")
  case True
  then obtain a buf where l: "attr_type v = CHARS" "v_value v = PtrV (Some a)" "ar_mem h a = Some buf"
    using v by (auto simp: v_wf_def live_string_def split: val.splits option.splits)
  let ?h = "h\<lparr>ar_mem := (ar_mem h)(a := None)\<rparr>" and ?v = "\<lparr>attr_type = UNDEFINED, v_length = 0, v_value = PtrV None, own_data = False\<rparr>"
  have "v_reset v h = Some (?v, ?h)" using True l by (simp add: v_reset_def ar_delete_def)
  moreover have "vtrans h v ?h ?v" using True l h by (auto simp: vtrans_def v_wf_def owned_def ar_wf_def)
  ultimately show thesis using that by simp
next
  case False
  then show thesis using that [OF _ vtrans_plain [OF h False]] by (simp add: v_reset_def)
qed

lemma set_plain_trans:
  assumes h: "ar_wf h" and v: "v_wf h v" and u: "\<And>v. \<not> own_data v \<Longrightarrow> \<not> own_data (u v) \<and> tag_ok (attr_type (u v)) (v_value (u v))"
  shows "\<exists>v' h'. do { (v, h) \<leftarrow> v_reset v h; Some (u v, h) } = Some (v', h') \<and> vtrans h v h' v'"
proof -
  obtain v1 h1 where 1: "v_reset v h = Some (v1, h1)" "vtrans h v h1 v1" "\<not> own_data v1" by (rule v_reset_trans [OF h v])
  have "vtrans h1 v1 h1 (u v1)" using vtrans_plain [of h1 v1 "u v1"] u 1 by (simp add: vtrans_def)
  then show ?thesis using vtrans_trans [OF h 1(2)] 1(1) by auto
qed

lemma set_array_trans:
  assumes h: "ar_wf h" and v: "v_wf h v"
  shows "\<exists>v' h'. do { (v, h) \<leftarrow> v_reset v h; let (a, h) = ar_alloc (buf @ [0]) h;
     Some (v\<lparr>attr_type := CHARS, own_data := True, v_value := PtrV (Some a), v_length := int (length buf)\<rparr>, h) } = Some (v', h') \<and> vtrans h v h' v'"
proof -
  obtain v1 h1 where 1: "v_reset v h = Some (v1, h1)" "vtrans h v h1 v1" "\<not> own_data v1" by (rule v_reset_trans [OF h v])
  obtain a h2 where a: "ar_alloc (buf @ [0]) h1 = (a, h2)" by force
  let ?v = "v1\<lparr>attr_type := CHARS, own_data := True, v_value := PtrV (Some a), v_length := int (length buf)\<rparr>"
  have "ar_wf h1" using 1 by (simp add: vtrans_def)
  then have "vtrans h1 v1 h2 ?v" using vtrans_alloc [OF _ 1(3) a, of ?v "length buf"] by simp
  then show ?thesis using vtrans_trans [OF h 1(2)] 1(1) a by auto
qed

lemma set_int_trans: "ar_wf h \<Longrightarrow> v_wf h v \<Longrightarrow> \<exists>v' h'. set_int i v h = Some (v', h') \<and> vtrans h v h' v'"
  unfolding set_int_def by (rule set_plain_trans [where u = "\<lambda>v. v\<lparr>attr_type := INTS, v_value := IntV i, v_length := 4\<rparr>"]) simp_all

lemma set_float_trans: "ar_wf h \<Longrightarrow> v_wf h v \<Longrightarrow> \<exists>v' h'. set_float f v h = Some (v', h') \<and> vtrans h v h' v'"
  unfolding set_float_def by (rule set_plain_trans [where u = "\<lambda>v. v\<lparr>attr_type := FLOATS, v_value := FloatV f, v_length := 4\<rparr>"]) simp_all

lemma set_boolean_trans: "ar_wf h \<Longrightarrow> v_wf h v \<Longrightarrow> \<exists>v' h'. set_boolean b v h = Some (v', h') \<and> vtrans h v h' v'"
  unfolding set_boolean_def by (rule set_plain_trans [where u = "\<lambda>v. v\<lparr>attr_type := BOOLEANS, v_value := BoolV b, v_length := 1\<rparr>"]) simp_all

text \<open>A C string, or a buffer at least as long as the length that is asked for.\<close>

definition text_ok :: "bytes option \<Rightarrow> int \<Rightarrow> bool" where
  "text_ok s len \<longleftrightarrow> (case s of None \<Rightarrow> True | Some s \<Rightarrow> c_strlen s len \<noteq> None)"

lemma c_strlen_le: "c_strlen s len = Some n \<Longrightarrow> n \<le> length s"
  using length_takeWhile_le [of "\<lambda>b. b \<noteq> 0" s] by (auto simp: c_strlen_def c_str_def Let_def split: if_splits)

lemma set_string_trans:
  assumes "ar_wf h" "v_wf h v" "text_ok s len"
  shows "\<exists>v' h'. set_string s len v h = Some (v', h') \<and> vtrans h v h' v'"
proof (cases s)
  case None
  then show ?thesis
    using set_plain_trans [OF assms (1,2), where u = "\<lambda>v. v\<lparr>attr_type := CHARS, v_value := PtrV None, v_length := 0\<rparr>"]
    by (simp add: set_string_def)
next
  case (Some t)
  then obtain n where n: "c_strlen t len = Some n" using assms by (auto simp: text_ok_def)
  then have "length (take n t) = n" using c_strlen_le by simp
  then show ?thesis using set_array_trans [OF assms (1,2), of "take n t"] Some n by (simp add: set_string_def)
qed

lemma set_empty_string_trans:
  assumes "ar_wf h" "v_wf h v" "0 \<le> len"
  shows "\<exists>v' h'. set_empty_string len v h = Some (v', h') \<and> vtrans h v h' v'"
  using set_array_trans [OF assms (1,2), of "replicate (nat len) 0"] assms (3) by (simp add: set_empty_string_def)

definition data_ok :: "AttrType \<Rightarrow> bytes \<Rightarrow> int \<Rightarrow> bool" where
  "data_ok type data len \<longleftrightarrow>
     (if type = CHARS then text_ok (Some data) len else type \<in> {INTS, FLOATS, BOOLEANS} \<longrightarrow> 4 \<le> length data)"

lemma set_data_trans:
  assumes "ar_wf h" "v_wf h v" "data_ok (attr_type v) data len"
  shows "\<exists>v' h'. set_data data len v h = Some (v', h') \<and> vtrans h v h' v'"
proof (cases "own_data v \<or> attr_type v = CHARS")
  case True
  then have "attr_type v = CHARS" using assms (2) by (auto simp: v_wf_def live_string_def)
  then show ?thesis using set_string_trans [OF assms (1,2)] assms (3) by (simp add: set_data_def data_ok_def)
next
  case False
  then show ?thesis
    using assms vtrans_plain [OF assms (1)] vtrans_refl [OF assms (1,2)]
    by (cases "attr_type v") (simp_all add: set_data_def data_ok_def)
qed

text \<open>A copy is well-formed when the original is not a string, or owns one that is not empty.\<close>

definition copyable :: "Value \<Rightarrow> bool" where
  "copyable v \<longleftrightarrow> (attr_type v = CHARS \<longrightarrow> own_data v \<and> v_length v \<noteq> 0)"

lemma copy_fields_trans:
  assumes h: "ar_wf h" and v: "\<not> own_data v" and w: "v_wf h w" "copyable w"
  shows "\<exists>v' h'. copy_fields w v h = Some (v', h') \<and> vtrans h v h' v'"
proof (cases "attr_type w = CHARS")
  case True
  then have o: "own_data w" "v_length w \<noteq> 0" using w by (auto simp: copyable_def)
  then obtain a buf where l: "v_value w = PtrV (Some a)" "ar_mem h a = Some buf" "0 \<le> v_length w" "length buf = nat (v_length w) + 1"
    using w by (auto simp: v_wf_def live_string_def split: val.splits option.splits)
  let ?n = "nat (v_length w)"
  obtain a' h' where al: "ar_alloc (take ?n buf @ [0]) h = (a', h')" by force
  let ?v = "v\<lparr>attr_type := CHARS, v_length := v_length w, own_data := True, v_value := PtrV (Some a')\<rparr>"
  have "vtrans h v h' ?v" using vtrans_alloc [OF h v al, of ?v ?n] l by simp
  moreover have "copy_fields w v h = Some (?v, h')"
    using True o l al by (simp add: copy_fields_def set_string_from_other_def Let_def)
  ultimately show ?thesis by blast
next
  case False
  then have "\<not> own_data w" using w by (auto simp: v_wf_def live_string_def)
  then show ?thesis using False w vtrans_plain [OF h v] by (auto simp: copy_fields_def v_wf_def Let_def)
qed

lemma v_new_wf: "v_wf h v_new" "\<not> own_data v_new" "owned v_new = {}"
  by (simp_all add: v_wf_def v_new_def owned_def)

subsection \<open>Every operation keeps the invariant\<close>

lemma owned_live: "v_wf h v \<Longrightarrow> a \<in> owned v \<Longrightarrow> a \<in> dom (ar_mem h)"
  by (auto simp: owned_def v_wf_def live_string_def split: if_splits val.splits option.splits)

lemma ar_wf_less: "ar_wf h \<Longrightarrow> a \<in> dom (ar_mem h) \<Longrightarrow> a < ar_next h"
  by (metis ar_wf_def domIff linorder_not_le)

lemma v_wf_frame:
  assumes "v_wf h w" "\<And>a. a \<in> owned w \<Longrightarrow> ar_mem h' a = ar_mem h a"
  shows "v_wf h' w"
  using assms by (auto simp: v_wf_def owned_def live_string_def split: val.splits option.splits)

lemma vtrans_frame:
  assumes h: "ar_wf h" and t: "vtrans h v h' v'" and w: "v_wf h w" and d: "owned v \<inter> owned w = {}"
  shows "v_wf h' w" "owned v' \<inter> owned w = {}"
proof -
  have low: "a < ar_next h" "a \<notin> owned v" if "a \<in> owned w" for a
    using that d ar_wf_less [OF h owned_live [OF w]] by auto
  show "v_wf h' w" using t low by (intro v_wf_frame [OF w]) (simp add: vtrans_def)
  show "owned v' \<inter> owned w = {}" using t low by (force simp: vtrans_def)
qed

lemma owned_by_split: "m x = Some v \<Longrightarrow> owned_by m = owned v \<union> owned_by (m(x := None))"
  unfolding owned_by_def by (rule set_eqI) (simp, metis option.inject)

lemma owned_by_None: "m x = None \<Longrightarrow> m(x := None) = m"
  by auto

lemma vinv_update:
  assumes st: "vinv st" and x: "vs_val st x = Some v" and t: "vtrans (vs_heap st) v h' v'"
  shows "vinv \<lparr>vs_val = (vs_val st)(x \<mapsto> v'), vs_heap = h'\<rparr>"
proof -
  let ?m = "vs_val st" and ?m' = "(vs_val st)(x \<mapsto> v')" and ?h = "vs_heap st"
  have h: "ar_wf ?h" using st by (simp add: vinv_def)
  have w: "v_wf ?h w" if "?m y = Some w" for y w using st that by (simp add: vinv_def)
  have dj: "owned v \<inter> owned w = {}" if "?m y = Some w" "y \<noteq> x" for y w using st x that by (fastforce simp: vinv_def)
  have dis: "owned v \<inter> owned_by (?m(x := None)) = {}" using dj by (auto simp: owned_by_def)
  have "dom (ar_mem ?h) = owned v \<union> owned_by (?m(x := None))" using st owned_by_split [of ?m x v] x by (simp add: vinv_def)
  then have "dom (ar_mem h') = owned v' \<union> owned_by (?m(x := None))" using t dis by (auto simp: vtrans_def)
  then have d: "dom (ar_mem h') = owned_by ?m'" using owned_by_split [of ?m' x v'] by simp
  have wf: "v_wf h' w" if "?m' y = Some w" for y w
    using that t vtrans_frame (1) [OF h t w dj] by (cases "y = x") (auto simp: vtrans_def)
  have dj': "owned u \<inter> owned w = {}" if "?m' y = Some u" "?m' z = Some w" "y \<noteq> z" for y z u w
  proof -
    consider "y = x" "z \<noteq> x" | "y \<noteq> x" "z = x" | "y \<noteq> x" "z \<noteq> x" using \<open>y \<noteq> z\<close> by blast
    then show ?thesis
    proof cases
      case 1
      then show ?thesis using that vtrans_frame (2) [OF h t w dj, of z w z] by simp
    next
      case 2
      then show ?thesis using that vtrans_frame (2) [OF h t w dj, of y u y] by (simp add: Int_commute)
    next
      case 3
      then show ?thesis using that st unfolding vinv_def by (metis fun_upd_other)
    qed
  qed
  show ?thesis using t wf dj' d by (auto simp: vinv_def vtrans_def)
qed

lemma vinv_new:
  assumes st: "vinv st" and x: "vs_val st x = None"
  shows "vinv (st\<lparr>vs_val := (vs_val st)(x \<mapsto> v_new)\<rparr>)"
proof -
  have "owned_by ((vs_val st)(x \<mapsto> v_new)) = owned_by (vs_val st)"
    using owned_by_split [of "(vs_val st)(x \<mapsto> v_new)" x v_new] owned_by_None [of "vs_val st" x] x by (simp add: v_new_wf)
  then show ?thesis using st by (simp add: vinv_def v_new_wf)
qed

lemma vinv_remove:
  assumes st: "vinv st" and x: "vs_val st x = Some v" "owned v = {}"
  shows "vinv (st\<lparr>vs_val := (vs_val st)(x := None)\<rparr>)"
  using st owned_by_split [of "vs_val st" x v] x by (simp add: vinv_def)

lemma vinv_move:
  assumes st: "vinv st" and x: "vs_val st x = Some v" "\<not> own_data v" and y: "vs_val st y = Some w" "x \<noteq> y"
  shows "vinv (st\<lparr>vs_val := (vs_val st)(x \<mapsto> fst (move_new w), y \<mapsto> snd (move_new w))\<rparr>)"
proof -
  let ?m = "vs_val st" and ?w = "w\<lparr>own_data := False, v_length := 0\<rparr>"
  let ?m' = "?m(x \<mapsto> w, y \<mapsto> ?w)"
  have ww: "v_wf (vs_heap st) w" using st y by (simp add: vinv_def)
  have o: "owned v = {}" "owned ?w = {}" using x by (simp_all add: owned_def)
  have wf: "v_wf (vs_heap st) ?w" using ww by (simp add: v_wf_def)
  have "owned_by ?m = owned w \<union> owned_by (?m(y := None, x := None))"
    using owned_by_split [of ?m y w] owned_by_split [of "?m(y := None)" x v] x y o by simp
  moreover have "owned_by ?m' = owned w \<union> owned_by (?m(y := None, x := None))"
    using owned_by_split [of ?m' y ?w] owned_by_split [of "?m'(y := None)" x w] y o by (simp add: fun_upd_twist)
  moreover have "owned u \<inter> owned u' = {}" if "?m' a = Some u" "?m' b = Some u'" "a \<noteq> b" for a b u u'
  proof -
    let ?src = "\<lambda>c. if c = x then y else c"
    have src: "?m (?src c) = Some v' \<and> c \<noteq> y" if "?m' c = Some v'" "owned v' \<noteq> {}" for c v'
      using that y o(2) by (auto split: if_splits)
    show ?thesis
    proof (rule ccontr)
      assume ne: "owned u \<inter> owned u' \<noteq> {}"
      then have "owned u \<noteq> {}" "owned u' \<noteq> {}" by auto
      note s = src [OF that(1) this(1)] src [OF that(2) this(2)]
      then have "?m (?src a) = Some u" "?m (?src b) = Some u'" "?src a \<noteq> ?src b" using that(3) by auto
      then show False using ne st unfolding vinv_def by blast
    qed
  qed
  ultimately show ?thesis using st ww wf by (simp add: vinv_def move_new_def)
qed

lemma copy_assign_trans:
  assumes h: "ar_wf h" and v: "v_wf h v" and w: "v_wf h w" "copyable w" and d: "owned v \<inter> owned w = {}"
  shows "\<exists>v' h'. copy_assign w v h = Some (v', h') \<and> vtrans h v h' v'"
proof -
  obtain v1 h1 where 1: "v_reset v h = Some (v1, h1)" "vtrans h v h1 v1" "\<not> own_data v1" by (rule v_reset_trans [OF h v])
  have "ar_wf h1" using 1 by (simp add: vtrans_def)
  from copy_fields_trans [OF this 1(3) vtrans_frame (1) [OF h 1(2) w(1) d] w(2)]
  show ?thesis using 1(1) vtrans_trans [OF h 1(2)] by (auto simp: copy_assign_def)
qed

lemma on_var_ok:
  assumes st: "vinv st" and x: "vs_val st x = Some v" and f: "\<exists>v' h'. f v (vs_heap st) = Some (v', h') \<and> vtrans (vs_heap st) v h' v'"
  shows "\<exists>st'. on_var x f st = Some st' \<and> vinv st'"
  using f x vinv_update [OF st x] by (auto simp: on_var_def)

lemma new_var_ok:
  assumes st: "vinv st" and x: "vs_val st x = None"
    and f: "\<exists>v' h'. f v_new (vs_heap st) = Some (v', h') \<and> vtrans (vs_heap st) v_new h' v'"
  shows "\<exists>st'. new_var x f st = Some st' \<and> vinv st'"
  using on_var_ok [OF vinv_new [OF st x], of x v_new f] x f by (simp add: new_var_def)

text \<open>The programs considered: names are used as constructors and other operations require, text is terminated, and no
  string is copied that is empty or that its object does not own.\<close>

fun vop_ok :: "vop \<Rightarrow> Vars \<Rightarrow> bool" where
  "vop_ok (Construct x) st \<longleftrightarrow> vs_val st x = None"
| "vop_ok (FromInt x i) st \<longleftrightarrow> vs_val st x = None"
| "vop_ok (FromFloat x f) st \<longleftrightarrow> vs_val st x = None"
| "vop_ok (FromBool x b) st \<longleftrightarrow> vs_val st x = None"
| "vop_ok (FromString x s len) st \<longleftrightarrow> vs_val st x = None \<and> text_ok s len"
| "vop_ok (FromData x type data len) st \<longleftrightarrow> vs_val st x = None \<and> type \<in> {CHARS, INTS, FLOATS, BOOLEANS} \<and> data_ok type data len"
| "vop_ok (CopyNew x y) st \<longleftrightarrow> vs_val st x = None \<and> (case vs_val st y of Some w \<Rightarrow> copyable w | None \<Rightarrow> False)"
| "vop_ok (MoveNew x y) st \<longleftrightarrow> vs_val st x = None \<and> vs_val st y \<noteq> None"
| "vop_ok (Assign x y) st \<longleftrightarrow> vs_val st x \<noteq> None \<and> (case vs_val st y of Some w \<Rightarrow> x = y \<or> copyable w | None \<Rightarrow> False)"
| "vop_ok (MoveAssign x y) st \<longleftrightarrow> vs_val st x \<noteq> None \<and> vs_val st y \<noteq> None"
| "vop_ok (SetInt x i) st \<longleftrightarrow> vs_val st x \<noteq> None"
| "vop_ok (SetFloat x f) st \<longleftrightarrow> vs_val st x \<noteq> None"
| "vop_ok (SetBoolean x b) st \<longleftrightarrow> vs_val st x \<noteq> None"
| "vop_ok (SetString x s len) st \<longleftrightarrow> vs_val st x \<noteq> None \<and> text_ok s len"
| "vop_ok (SetEmptyString x len) st \<longleftrightarrow> vs_val st x \<noteq> None \<and> 0 \<le> len"
| "vop_ok (SetData x data len) st \<longleftrightarrow> (case vs_val st x of Some v \<Rightarrow> data_ok (attr_type v) data len | None \<Rightarrow> False)"
| "vop_ok (Reset x) st \<longleftrightarrow> vs_val st x \<noteq> None"
| "vop_ok (Destroy x) st \<longleftrightarrow> vs_val st x \<noteq> None"

fun vops_ok :: "vop list \<Rightarrow> Vars \<Rightarrow> bool" where
  "vops_ok [] st \<longleftrightarrow> True"
| "vops_ok (op # ops) st \<longleftrightarrow> vop_ok op st \<and> (case vstep op st of Some st' \<Rightarrow> vops_ok ops st' | None \<Rightarrow> True)"

lemmas value_trans = set_int_trans set_float_trans set_boolean_trans set_string_trans set_empty_string_trans set_data_trans

lemma from_data_trans:
  assumes h: "ar_wf h" and t: "type \<in> {CHARS, INTS, FLOATS, BOOLEANS}" and d: "data_ok type data len"
  shows "\<exists>v' h'. set_data data len (v_new\<lparr>attr_type := type\<rparr>) h = Some (v', h') \<and> vtrans h v_new h' v'"
proof (cases "type = CHARS")
  case True
  have r: "v_reset (v_new\<lparr>attr_type := CHARS\<rparr>) h = v_reset v_new h" by (simp add: v_reset_def v_new_def)
  then have "set_string (Some data) len (v_new\<lparr>attr_type := CHARS\<rparr>) h = set_string (Some data) len v_new h"
    by (simp add: set_string_def)
  then show ?thesis using set_string_trans [OF h v_new_wf(1)] d True by (simp add: set_data_def data_ok_def)
next
  case False
  then show ?thesis using t d vtrans_plain [OF h v_new_wf(2)] by (auto simp: set_data_def data_ok_def v_new_def)
qed

lemma vstep_move_assign:
  assumes st: "vinv st" and x: "vs_val st x = Some v" and y: "vs_val st y = Some w"
  shows "\<exists>st'. vstep (MoveAssign x y) st = Some st' \<and> vinv st'"
proof (cases "x = y")
  case False
  have h: "ar_wf (vs_heap st)" "v_wf (vs_heap st) v" using st x by (simp_all add: vinv_def)
  obtain v1 h1 where 1: "v_reset v (vs_heap st) = Some (v1, h1)" "vtrans (vs_heap st) v h1 v1" "\<not> own_data v1"
    by (rule v_reset_trans [OF h])
  have "vinv \<lparr>vs_val = (vs_val st)(x \<mapsto> v1), vs_heap = h1\<rparr>" by (rule vinv_update [OF st x 1(2)])
  from vinv_move [OF this, of x v1 y w] show ?thesis using x y False 1 by (simp add: move_assign_def move_new_def)
qed (use assms in simp)

lemma vstep_destroy:
  assumes st: "vinv st" and x: "vs_val st x = Some v"
  shows "\<exists>st'. vstep (Destroy x) st = Some st' \<and> vinv st'"
proof -
  have h: "ar_wf (vs_heap st)" "v_wf (vs_heap st) v" using st x by (simp_all add: vinv_def)
  obtain v1 h1 where 1: "v_reset v (vs_heap st) = Some (v1, h1)" "vtrans (vs_heap st) v h1 v1" "\<not> own_data v1"
    by (rule v_reset_trans [OF h])
  have "vinv \<lparr>vs_val = (vs_val st)(x \<mapsto> v1), vs_heap = h1\<rparr>" by (rule vinv_update [OF st x 1(2)])
  from vinv_remove [OF this, of x v1] show ?thesis using x 1 by (simp add: on_var_def owned_def)
qed

lemma vstep_ok:
  assumes st: "vinv st" and op: "vop_ok op st"
  shows "\<exists>st'. vstep op st = Some st' \<and> vinv st'"
proof -
  have h: "ar_wf (vs_heap st)" using st by (simp add: vinv_def)
  have wf: "v_wf (vs_heap st) v" if "vs_val st x = Some v" for x v using st that by (simp add: vinv_def)
  note new = new_var_ok [OF st] and on = on_var_ok [OF st] and n = v_new_wf(1)
  show ?thesis
  proof (cases op)
    case (Construct x)
    then show ?thesis using op vtrans_refl [OF h n] by (auto intro!: new)
  next
    case (FromData x type data len)
    then show ?thesis using op from_data_trans [OF h] by (auto intro!: new)
  next
    case (CopyNew x y)
    then obtain w where "vs_val st y = Some w" "copyable w" "vs_val st x = None" using op by (auto split: option.splits)
    then show ?thesis using CopyNew copy_fields_trans [OF h v_new_wf(2) wf, of y w] by (auto simp: copy_new_def intro!: new)
  next
    case (MoveNew x y)
    then obtain w where y: "vs_val st y = Some w" "vs_val st x = None" using op by auto
    then have "x \<noteq> y" by auto
    then show ?thesis using vinv_move [OF vinv_new [OF st y(2)], of x v_new y w] MoveNew y v_new_wf(2) by simp
  next
    case (Assign x y)
    show ?thesis
    proof (cases "x = y")
      case True
      then show ?thesis using Assign st by simp
    next
      case False
      then obtain v w where vw: "vs_val st x = Some v" "vs_val st y = Some w" "copyable w"
        using Assign op by (auto split: option.splits)
      then have "owned v \<inter> owned w = {}" using st False by (auto simp: vinv_def)
      then show ?thesis using Assign False vw copy_assign_trans [OF h wf wf] by (auto intro!: on)
    qed
  next
    case (MoveAssign x y)
    then obtain v w where "vs_val st x = Some v" "vs_val st y = Some w" using op by auto
    then show ?thesis unfolding MoveAssign by (rule vstep_move_assign [OF st])
  next
    case (Destroy x)
    then obtain v where "vs_val st x = Some v" using op by auto
    then show ?thesis unfolding Destroy by (rule vstep_destroy [OF st])
  next
    case (Reset x)
    then obtain v where x: "vs_val st x = Some v" using op by auto
    have "\<exists>v' h'. v_reset v (vs_heap st) = Some (v', h') \<and> vtrans (vs_heap st) v h' v'"
      using v_reset_trans [OF h wf [OF x]] by metis
    then show ?thesis using on [OF x] Reset by simp
  qed (use op value_trans [OF h] n wf in \<open>auto intro!: new on split: option.splits\<close>)
qed

lemma vs_start_inv: "vinv vs_start"
  by (simp add: vinv_def vs_start_def ar_wf_def owned_by_def)

text \<open>
  C5. Values keep their type and their memory.  Along every program that does not copy an empty or foreign string each member
  function is defined, and afterwards the tag of every value names the member of the union that was written, every owned
  pointer leads to a live, terminated array of the recorded length, no array is owned twice and none is lost: there is no
  double free, no dangling pointer and no leak.
\<close>
theorem value_type_invariant:
  assumes "vops_ok ops vs_start"
  shows "\<exists>st. vrun ops vs_start = Some st \<and> vinv st"
proof -
  have "\<exists>st'. vrun ops st = Some st' \<and> vinv st'" if "vinv st" "vops_ok ops st" for st
    using that
  proof (induction ops arbitrary: st)
    case (Cons op ops)
    obtain st1 where 1: "vstep op st = Some st1" "vinv st1" using vstep_ok [of st op] Cons.prems by auto
    then show ?case using Cons.IH [of st1] Cons.prems by simp
  qed simp
  then show ?thesis using vs_start_inv assms by blast
qed

theorem value_type_invariant_witness:
  "\<exists>st. vrun [FromString 0 (Some [97, 98, 0]) 0, CopyNew 1 0, FromInt 2 7, Assign 2 1, MoveAssign 0 2, SetInt 1 3, Destroy 0] vs_start = Some st \<and> vinv st"
  using value_type_invariant [of "[FromString 0 (Some [97, 98, 0]) 0, CopyNew 1 0, FromInt 2 7, Assign 2 1, MoveAssign 0 2, SetInt 1 3, Destroy 0]"]
  by (simp add: vs_start_def new_var_def on_var_def set_string_def v_reset_def v_new_def c_strlen_def c_str_def Let_def ar_alloc_def text_ok_def
      copy_new_def copy_fields_def set_string_from_other_def copyable_def set_int_def copy_assign_def move_assign_def move_new_def ar_delete_def)

text \<open>The restriction is needed.  The copy of an empty string owns an array that does not exist: assigned over an integer it
  leaves the integer in the union, and the destructor frees it as a pointer.\<close>

theorem empty_string_copy_undefined:
  "vrun [FromString 0 (Some [0]) 0, FromInt 1 5, Assign 1 0] vs_start \<noteq> None"
  "vrun [FromString 0 (Some [0]) 0, FromInt 1 5, Assign 1 0, Destroy 1] vs_start = None"
  by (simp_all add: vs_start_def new_var_def on_var_def set_string_def v_reset_def v_new_def c_strlen_def c_str_def Let_def ar_alloc_def
      set_int_def copy_assign_def copy_fields_def set_string_from_other_def)

section \<open>What a value holds\<close>

text \<open>For a string the bytes of its recorded length, for a null pointer \<^term>\<open>None\<close>.\<close>

datatype pval = PUndefined | PChars "bytes option" | PInts int | PFloats u32 | PVectors | PBooleans bool

fun ptype :: "pval \<Rightarrow> AttrType" where
  "ptype PUndefined = UNDEFINED"
| "ptype (PChars s) = CHARS"
| "ptype (PInts i) = INTS"
| "ptype (PFloats f) = FLOATS"
| "ptype PVectors = VECTORS"
| "ptype (PBooleans b) = BOOLEANS"

definition view :: "Arrays \<Rightarrow> Value \<Rightarrow> pval option" where
  "view h v =
     (case (attr_type v, v_value v) of
        (CHARS, PtrV None) \<Rightarrow> Some (PChars None)
      | (CHARS, PtrV (Some a)) \<Rightarrow> (case ar_mem h a of None \<Rightarrow> None | Some buf \<Rightarrow> Some (PChars (Some (take (nat (v_length v)) buf))))
      | (INTS, IntV i) \<Rightarrow> Some (PInts i)
      | (FLOATS, FloatV f) \<Rightarrow> Some (PFloats f)
      | (BOOLEANS, BoolV b) \<Rightarrow> Some (PBooleans b)
      | (UNDEFINED, _) \<Rightarrow> Some PUndefined
      | (VECTORS, _) \<Rightarrow> Some PVectors
      | _ \<Rightarrow> None)"

text \<open>A copy holds what the original holds, and later changes of either leave the other alone: they have no array in
  common, and an operation on one object touches no array of another.\<close>

lemma view_frame:
  assumes "own_data v \<or> attr_type v \<noteq> CHARS" "\<And>a. a \<in> owned v \<Longrightarrow> ar_mem h' a = ar_mem h a"
  shows "view h' v = view h v"
proof (cases "attr_type v")
  case CHARS
  then have "own_data v" using assms (1) by simp
  then show ?thesis using assms (2) CHARS by (auto simp: view_def owned_def split: val.splits option.splits)
qed (simp_all add: view_def split: val.splits)

lemma copy_fields_view:
  assumes h: "ar_wf h" and w: "v_wf h w" "copyable w" and c: "copy_fields w v h = Some (v', h')"
  shows "view h' v' = view h w" "view h' w = view h w"
proof -
  have "view h' v' = view h w \<and> view h' w = view h w"
  proof (cases "attr_type w = CHARS")
    case True
    then have o: "own_data w" "v_length w \<noteq> 0" using w by (auto simp: copyable_def)
    then obtain a buf where l: "v_value w = PtrV (Some a)" "ar_mem h a = Some buf" "length buf = nat (v_length w) + 1"
      using w by (auto simp: v_wf_def live_string_def split: val.splits option.splits)
    have "a \<noteq> ar_next h" using h l by (auto simp: ar_wf_def)
    then show ?thesis
      using c True o l by (auto simp: copy_fields_def set_string_from_other_def ar_alloc_def view_def Let_def split: if_splits)
  next
    case False
    then have "v_value v' = v_value w \<and> attr_type v' = attr_type w \<and> v_length v' = v_length w \<and> h' = h"
      using c by (auto simp: copy_fields_def Let_def)
    then show ?thesis by (simp add: view_def split: AttrType.split val.split option.split)
  qed
  then show "view h' v' = view h w" "view h' w = view h w" by simp_all
qed

section \<open>Numbers and text\<close>

definition fits32 :: "int \<Rightarrow> bool" where
  "fits32 i \<longleftrightarrow> - (2 ^ 31) \<le> i \<and> i < 2 ^ 31"

definition trunc32 :: "int \<Rightarrow> int" where
  "trunc32 i = sint (word_of_int i :: u32)"

definition is_space :: "byte \<Rightarrow> bool" where
  "is_space b \<longleftrightarrow> b = 32 \<or> 9 \<le> b \<and> b \<le> 13"

definition is_digit :: "byte \<Rightarrow> bool" where
  "is_digit b \<longleftrightarrow> 48 \<le> b \<and> b \<le> 57"

fun digits_val :: "nat \<Rightarrow> bytes \<Rightarrow> nat" where
  "digits_val acc [] = acc"
| "digits_val acc (d # ds) = digits_val (acc * 10 + (unat d - 48)) ds"

text \<open>An optional sign and the longest run of digits behind leading white space: the number, if there is one, and what
  follows it.\<close>

definition scan_int :: "bytes \<Rightarrow> (int \<times> bytes) option" where
  "scan_int s =
     (let s = dropWhile is_space s;
          neg = (s \<noteq> [] \<and> hd s = 45);
          body = (if s \<noteq> [] \<and> (hd s = 45 \<or> hd s = 43) then tl s else s);
          ds = takeWhile is_digit body
      in if ds = [] then None
         else Some (if neg then - int (digits_val 0 ds) else int (digits_val 0 ds), drop (length ds) body))"

text \<open>\<^verbatim>\<open>std::stol\<close> throws when there is no number or it does not fit in 64 bits.\<close>

definition stol :: "bytes \<Rightarrow> int option" where
  "stol s =
     (case scan_int s of
        None \<Rightarrow> None
      | Some (n, rest) \<Rightarrow> if - (2 ^ 63) \<le> n \<and> n < 2 ^ 63 then Some n else None)"

fun dec_nat :: "nat \<Rightarrow> bytes" where
  "dec_nat n = (if n < 10 then [word_of_nat (48 + n)] else dec_nat (n div 10) @ [word_of_nat (48 + n mod 10)])"

declare dec_nat.simps [simp del]

definition dec_int :: "int \<Rightarrow> bytes" where
  "dec_int i = (if i < 0 then 45 # dec_nat (nat (- i)) else dec_nat (nat i))"

text \<open>The floating point operations the values use.\<close>

record float_ops =
  fo_add :: "u32 \<Rightarrow> u32 \<Rightarrow> u32"
  fo_sub :: "u32 \<Rightarrow> u32 \<Rightarrow> u32"
  fo_mul :: "u32 \<Rightarrow> u32 \<Rightarrow> u32"
  fo_div :: "u32 \<Rightarrow> u32 \<Rightarrow> u32"
  fo_neg :: "u32 \<Rightarrow> u32"
  fo_max :: u32
  fo_of_int :: "int \<Rightarrow> u32"
  fo_to_int :: "u32 \<Rightarrow> int option"
  fo_gt_eps :: "u32 \<Rightarrow> bool"
  fo_ge_eps :: "u32 \<Rightarrow> bool"
  fo_lt_eps :: "u32 \<Rightarrow> bool"
  fo_lt_neg_eps :: "u32 \<Rightarrow> bool"
  fo_gt_neg_eps :: "u32 \<Rightarrow> bool"
  fo_le_neg_eps :: "u32 \<Rightarrow> bool"
  fo_double_to_str :: "u32 \<Rightarrow> bytes"
  fo_stof :: "bytes \<Rightarrow> u32 option"
  fo_stream :: "bytes \<Rightarrow> u32 option"

section \<open>Conversions\<close>

definition get_int :: "float_ops \<Rightarrow> pval \<Rightarrow> int option" where
  "get_int fo v =
     (case v of
        PChars None \<Rightarrow> None
      | PChars (Some s) \<Rightarrow> Some (case stol (c_str s) of None \<Rightarrow> 0 | Some n \<Rightarrow> trunc32 n)
      | PInts i \<Rightarrow> Some i
      | PFloats f \<Rightarrow> fo_to_int fo f
      | PBooleans b \<Rightarrow> Some (if b then 1 else 0)
      | _ \<Rightarrow> Some 0)"

definition get_float :: "float_ops \<Rightarrow> pval \<Rightarrow> u32 option" where
  "get_float fo v =
     (case v of
        PChars None \<Rightarrow> None
      | PChars (Some s) \<Rightarrow> Some (case fo_stof fo (c_str s) of None \<Rightarrow> 0 | Some f \<Rightarrow> f)
      | PInts i \<Rightarrow> Some (fo_of_int fo i)
      | PFloats f \<Rightarrow> Some f
      | PBooleans b \<Rightarrow> Some (fo_of_int fo (if b then 1 else 0))
      | _ \<Rightarrow> Some 0)"

text \<open>Whatever the conversions of a string yield, a string is true: the handler of the exceptions and the end of the
  block both return whether there is a string.\<close>

definition get_boolean :: "float_ops \<Rightarrow> pval \<Rightarrow> bool option" where
  "get_boolean fo v =
     (case v of
        PChars None \<Rightarrow> None
      | PChars (Some s) \<Rightarrow>
          (case fo_stof fo (c_str s) of
             None \<Rightarrow> Some True
           | Some f \<Rightarrow>
               if fo_ge_eps fo f \<or> fo_le_neg_eps fo f then Some True
               else (case stol (c_str s) of None \<Rightarrow> Some True | Some n \<Rightarrow> if trunc32 n \<noteq> 0 then Some True else Some True))
      | PInts i \<Rightarrow> Some (i \<noteq> 0)
      | PFloats f \<Rightarrow> Some (fo_ge_eps fo f \<or> fo_le_neg_eps fo f)
      | PBooleans b \<Rightarrow> Some b
      | _ \<Rightarrow> Some False)"

definition char_to_string :: "bytes option \<Rightarrow> (RC \<times> bytes) option" where
  "char_to_string s = (case s of None \<Rightarrow> None | Some s \<Rightarrow> Some (SUCCESS, c_str s))"

definition integer_to_string :: "int \<Rightarrow> RC \<times> bytes" where
  "integer_to_string i = (SUCCESS, dec_int i)"

definition float_to_string :: "float_ops \<Rightarrow> u32 \<Rightarrow> RC \<times> bytes" where
  "float_to_string fo f = (SUCCESS, fo_double_to_str fo f)"

definition type_to_string :: "float_ops \<Rightarrow> pval \<Rightarrow> (RC \<times> bytes) option" where
  "type_to_string fo v =
     (case v of
        PChars s \<Rightarrow> char_to_string s
      | PInts i \<Rightarrow> Some (integer_to_string i)
      | PFloats f \<Rightarrow> Some (float_to_string fo f)
      | PVectors \<Rightarrow> Some (UNIMPLEMENTED, [])
      | _ \<Rightarrow> Some (UNSUPPORTED, []))"

definition v_to_string :: "float_ops \<Rightarrow> pval \<Rightarrow> bytes option" where
  "v_to_string fo v = do {
     (rc, res) \<leftarrow> type_to_string fo v;
     Some (if rc \<noteq> SUCCESS then [] else res)
   }"

text \<open>Reading a value of a type from text.  \<^verbatim>\<open>operator>>\<close> skips white space, fails when the number does not fit, and
  must have reached the end of the text.\<close>

definition char_from_str :: "bytes \<Rightarrow> RC \<times> pval" where
  "char_from_str data = (SUCCESS, PChars (Some (c_str data)))"

definition integer_from_str :: "bytes \<Rightarrow> pval \<Rightarrow> RC \<times> pval" where
  "integer_from_str data v =
     (case scan_int data of
        Some (n, []) \<Rightarrow> if fits32 n then (SUCCESS, PInts n) else (SCHEMA_FIELD_TYPE_MISMATCH, v)
      | _ \<Rightarrow> (SCHEMA_FIELD_TYPE_MISMATCH, v))"

definition float_from_str :: "float_ops \<Rightarrow> bytes \<Rightarrow> pval \<Rightarrow> RC \<times> pval" where
  "float_from_str fo data v =
     (case fo_stream fo data of Some f \<Rightarrow> (SUCCESS, PFloats f) | None \<Rightarrow> (SCHEMA_FIELD_TYPE_MISMATCH, v))"

definition set_value_from_str :: "float_ops \<Rightarrow> AttrType \<Rightarrow> bytes \<Rightarrow> pval \<Rightarrow> (RC \<times> pval) option" where
  "set_value_from_str fo type data v =
     (case type of
        CHARS \<Rightarrow> Some (char_from_str data)
      | INTS \<Rightarrow> Some (integer_from_str data v)
      | FLOATS \<Rightarrow> Some (float_from_str fo data v)
      | MAXTYPE \<Rightarrow> None
      | _ \<Rightarrow> Some (UNSUPPORTED, v))"

definition v_set_value :: "float_ops \<Rightarrow> pval \<Rightarrow> pval option" where
  "v_set_value fo value =
     (case value of
        PInts i \<Rightarrow> map_option PInts (get_int fo value)
      | PFloats f \<Rightarrow> map_option PFloats (get_float fo value)
      | PChars s \<Rightarrow> map_option (\<lambda>s. PChars (Some (c_str s))) (v_to_string fo value)
      | PBooleans b \<Rightarrow> map_option PBooleans (get_boolean fo value)
      | _ \<Rightarrow> None)"

section \<open>Comparison and arithmetic\<close>

definition INT32_MAX :: int where "INT32_MAX = 2147483647"

definition compare_int :: "int \<Rightarrow> int \<Rightarrow> int" where
  "compare_int v1 v2 = (if v1 > v2 then 1 else if v1 < v2 then - 1 else 0)"

text \<open>Both values pass through an \<^verbatim>\<open>int\<close>.\<close>

definition compare_int64 :: "int \<Rightarrow> int \<Rightarrow> int" where
  "compare_int64 v1 v2 = compare_int (trunc32 v1) (trunc32 v2)"

definition compare_float :: "float_ops \<Rightarrow> u32 \<Rightarrow> u32 \<Rightarrow> int" where
  "compare_float fo v1 v2 =
     (let cmp = fo_sub fo v1 v2 in if fo_gt_eps fo cmp then 1 else if fo_lt_neg_eps fo cmp then - 1 else 0)"

fun strncmp :: "bytes \<Rightarrow> bytes \<Rightarrow> nat \<Rightarrow> int" where
  "strncmp (a # as) (b # bs) (Suc n) =
     (if a < b then - 1 else if b < a then 1 else if a = 0 then 0 else strncmp as bs n)"
| "strncmp _ _ _ = 0"

definition compare_string :: "bytes \<Rightarrow> bytes \<Rightarrow> int" where
  "compare_string s1 s2 =
     (let maxlen = min (length s1) (length s2);
          result = strncmp s1 s2 maxlen
      in if result \<noteq> 0 then (if result < 0 then - 1 else 1)
         else if length s1 > maxlen then 1
         else if length s2 > maxlen then - 1
         else 0)"

definition char_compare :: "pval \<Rightarrow> pval \<Rightarrow> int option" where
  "char_compare left right =
     (case (left, right) of (PChars (Some s), PChars (Some t)) \<Rightarrow> Some (compare_string s t) | _ \<Rightarrow> None)"

definition integer_compare :: "float_ops \<Rightarrow> pval \<Rightarrow> pval \<Rightarrow> int option" where
  "integer_compare fo left right =
     (case (left, right) of
        (PInts i, PInts j) \<Rightarrow> Some (compare_int i j)
      | (PInts i, PFloats g) \<Rightarrow> do { l \<leftarrow> get_float fo left; r \<leftarrow> get_float fo right; Some (compare_float fo l r) }
      | _ \<Rightarrow> None)"

definition float_compare :: "float_ops \<Rightarrow> pval \<Rightarrow> pval \<Rightarrow> int option" where
  "float_compare fo left right =
     (if ptype left = FLOATS \<and> (ptype right = INTS \<or> ptype right = FLOATS)
      then do { l \<leftarrow> get_float fo left; r \<leftarrow> get_float fo right; Some (compare_float fo l r) }
      else None)"

definition v_compare :: "float_ops \<Rightarrow> pval \<Rightarrow> pval \<Rightarrow> int option" where
  "v_compare fo left right =
     (case ptype left of
        CHARS \<Rightarrow> char_compare left right
      | INTS \<Rightarrow> integer_compare fo left right
      | FLOATS \<Rightarrow> float_compare fo left right
      | _ \<Rightarrow> Some INT32_MAX)"

definition int_result :: "int \<Rightarrow> (RC \<times> pval) option" where
  "int_result n = (if fits32 n then Some (SUCCESS, PInts n) else None)"

definition integer_add :: "float_ops \<Rightarrow> pval \<Rightarrow> pval \<Rightarrow> (RC \<times> pval) option" where
  "integer_add fo left right = do { l \<leftarrow> get_int fo left; r \<leftarrow> get_int fo right; int_result (l + r) }"

definition float_add :: "float_ops \<Rightarrow> pval \<Rightarrow> pval \<Rightarrow> (RC \<times> pval) option" where
  "float_add fo left right = do { l \<leftarrow> get_float fo left; r \<leftarrow> get_float fo right; Some (SUCCESS, PFloats (fo_add fo l r)) }"

definition value_add :: "float_ops \<Rightarrow> pval \<Rightarrow> pval \<Rightarrow> pval \<Rightarrow> (RC \<times> pval) option" where
  "value_add fo left right result =
     (case ptype result of
        INTS \<Rightarrow> integer_add fo left right
      | FLOATS \<Rightarrow> float_add fo left right
      | VECTORS \<Rightarrow> Some (UNIMPLEMENTED, result)
      | _ \<Rightarrow> Some (UNSUPPORTED, result))"

definition integer_subtract :: "float_ops \<Rightarrow> pval \<Rightarrow> pval \<Rightarrow> (RC \<times> pval) option" where
  "integer_subtract fo left right = do { l \<leftarrow> get_int fo left; r \<leftarrow> get_int fo right; int_result (l - r) }"

definition float_subtract :: "float_ops \<Rightarrow> pval \<Rightarrow> pval \<Rightarrow> (RC \<times> pval) option" where
  "float_subtract fo left right = do { l \<leftarrow> get_float fo left; r \<leftarrow> get_float fo right; Some (SUCCESS, PFloats (fo_sub fo l r)) }"

definition value_subtract :: "float_ops \<Rightarrow> pval \<Rightarrow> pval \<Rightarrow> pval \<Rightarrow> (RC \<times> pval) option" where
  "value_subtract fo left right result =
     (case ptype result of
        INTS \<Rightarrow> integer_subtract fo left right
      | FLOATS \<Rightarrow> float_subtract fo left right
      | VECTORS \<Rightarrow> Some (UNIMPLEMENTED, result)
      | _ \<Rightarrow> Some (UNSUPPORTED, result))"

definition integer_multiply :: "float_ops \<Rightarrow> pval \<Rightarrow> pval \<Rightarrow> (RC \<times> pval) option" where
  "integer_multiply fo left right = do { l \<leftarrow> get_int fo left; r \<leftarrow> get_int fo right; int_result (l * r) }"

definition float_multiply :: "float_ops \<Rightarrow> pval \<Rightarrow> pval \<Rightarrow> (RC \<times> pval) option" where
  "float_multiply fo left right = do { l \<leftarrow> get_float fo left; r \<leftarrow> get_float fo right; Some (SUCCESS, PFloats (fo_mul fo l r)) }"

definition value_multiply :: "float_ops \<Rightarrow> pval \<Rightarrow> pval \<Rightarrow> pval \<Rightarrow> (RC \<times> pval) option" where
  "value_multiply fo left right result =
     (case ptype result of
        INTS \<Rightarrow> integer_multiply fo left right
      | FLOATS \<Rightarrow> float_multiply fo left right
      | VECTORS \<Rightarrow> Some (UNIMPLEMENTED, result)
      | _ \<Rightarrow> Some (UNSUPPORTED, result))"

text \<open>Division exists for floats only; by a number within \<^verbatim>\<open>EPSILON\<close> of zero it gives the largest float.\<close>

definition float_divide :: "float_ops \<Rightarrow> pval \<Rightarrow> pval \<Rightarrow> (RC \<times> pval) option" where
  "float_divide fo left right = do {
     r \<leftarrow> get_float fo right;
     if fo_gt_neg_eps fo r \<and> fo_lt_eps fo r then Some (SUCCESS, PFloats (fo_max fo))
     else do { l \<leftarrow> get_float fo left; Some (SUCCESS, PFloats (fo_div fo l r)) }
   }"

definition value_divide :: "float_ops \<Rightarrow> pval \<Rightarrow> pval \<Rightarrow> pval \<Rightarrow> (RC \<times> pval) option" where
  "value_divide fo left right result =
     (case ptype result of FLOATS \<Rightarrow> float_divide fo left right | _ \<Rightarrow> Some (UNSUPPORTED, result))"

definition integer_negative :: "float_ops \<Rightarrow> pval \<Rightarrow> (RC \<times> pval) option" where
  "integer_negative fo v = do { i \<leftarrow> get_int fo v; int_result (- i) }"

definition float_negative :: "float_ops \<Rightarrow> pval \<Rightarrow> (RC \<times> pval) option" where
  "float_negative fo v = do { f \<leftarrow> get_float fo v; Some (SUCCESS, PFloats (fo_neg fo f)) }"

definition value_negative :: "float_ops \<Rightarrow> pval \<Rightarrow> pval \<Rightarrow> (RC \<times> pval) option" where
  "value_negative fo v result =
     (case ptype result of
        INTS \<Rightarrow> integer_negative fo v
      | FLOATS \<Rightarrow> float_negative fo v
      | _ \<Rightarrow> Some (UNSUPPORTED, result))"

definition integer_cast_to :: "float_ops \<Rightarrow> pval \<Rightarrow> AttrType \<Rightarrow> pval \<Rightarrow> (RC \<times> pval) option" where
  "integer_cast_to fo v type result =
     (if type = FLOATS then do { i \<leftarrow> get_int fo v; Some (SUCCESS, PFloats (fo_of_int fo i)) }
      else Some (SCHEMA_FIELD_TYPE_MISMATCH, result))"

definition char_cast_to :: "pval \<Rightarrow> RC \<times> pval" where
  "char_cast_to result = (UNIMPLEMENTED, result)"

definition value_cast_to :: "float_ops \<Rightarrow> pval \<Rightarrow> AttrType \<Rightarrow> pval \<Rightarrow> (RC \<times> pval) option" where
  "value_cast_to fo v type result =
     (case ptype v of
        CHARS \<Rightarrow> Some (char_cast_to result)
      | INTS \<Rightarrow> integer_cast_to fo v type result
      | _ \<Rightarrow> Some (UNSUPPORTED, result))"

definition char_cast_cost :: "AttrType \<Rightarrow> int" where
  "char_cast_cost type = (if type = CHARS then 0 else INT32_MAX)"

definition integer_cast_cost :: "AttrType \<Rightarrow> int" where
  "integer_cast_cost type = (if type = INTS then 0 else if type = FLOATS then 1 else INT32_MAX)"

definition default_cast_cost :: "AttrType \<Rightarrow> AttrType \<Rightarrow> int" where
  "default_cast_cost own type = (if type = own then 0 else INT32_MAX)"

definition cast_cost :: "AttrType \<Rightarrow> AttrType \<Rightarrow> int" where
  "cast_cost own type =
     (case own of CHARS \<Rightarrow> char_cast_cost type | INTS \<Rightarrow> integer_cast_cost type | _ \<Rightarrow> default_cast_cost own type)"

subsection \<open>Text of integers\<close>

lemma dec_nat_digits: "dec_nat n \<noteq> [] \<and> (\<forall>d \<in> set (dec_nat n). is_digit d)"
proof (induction n rule: dec_nat.induct)
  case (1 n)
  have d: "is_digit (word_of_nat (48 + m))" if "m < 10" for m
  proof -
    have "unat (word_of_nat (48 + m) :: byte) = 48 + m" using that by (subst unat_of_nat) simp
    then show ?thesis using that by (simp add: is_digit_def word_le_nat_alt)
  qed
  show ?case using 1 d by (subst (1 2) dec_nat.simps) auto
qed

lemma digits_val_append: "digits_val acc (ds @ es) = digits_val (digits_val acc ds) es"
  by (induction ds arbitrary: acc) simp_all

lemma digits_val_dec: "digits_val 0 (dec_nat n) = n"
proof (induction n rule: dec_nat.induct)
  case (1 n)
  have u: "unat (word_of_nat (48 + m) :: byte) - 48 = m" if "m < 10" for m using that by (subst unat_of_nat) simp
  show ?case using 1 u [of n] u [of "n mod 10"] by (subst dec_nat.simps) (simp add: digits_val_append)
qed

lemma scan_int_dec: "scan_int (dec_int i) = Some (i, [])"
proof -
  have nd: "\<not> is_space d" "d \<noteq> 45" "d \<noteq> 43" if "is_digit d" for d :: byte
    using that by (auto simp: is_digit_def is_space_def word_le_nat_alt)
  have tw: "takeWhile is_digit (dec_nat n) = dec_nat n" for n using dec_nat_digits by (simp add: takeWhile_eq_all_conv)
  have hd: "hd (dec_nat n) \<noteq> 45" "hd (dec_nat n) \<noteq> 43" "dropWhile is_space (dec_nat n) = dec_nat n" "dec_nat n \<noteq> []" for n
    using dec_nat_digits [of n] nd by (cases "dec_nat n"; simp)+
  have sp: "dropWhile is_space (45 # xs) = 45 # xs" for xs by (simp add: is_space_def)
  show ?thesis
  proof (cases "i < 0")
    case True
    then show ?thesis by (simp add: scan_int_def dec_int_def sp tw hd digits_val_dec del: dropWhile.simps)
  next
    case False
    then show ?thesis by (simp add: scan_int_def dec_int_def tw hd digits_val_dec)
  qed
qed

lemma trunc32_fits: "fits32 i \<Longrightarrow> trunc32 i = i"
  by (simp add: trunc32_def fits32_def int_word_sint)

text \<open>
  C32. Integers survive their text.  For every \<^verbatim>\<open>int\<close>, reading the text that \<^verbatim>\<open>to_string\<close> prints gives the value back,
  and a string value with that text converts to the same number.
\<close>
theorem int_text_roundtrip:
  assumes "fits32 i"
  shows "\<exists>s. v_to_string fo (PInts i) = Some s \<and> set_value_from_str fo INTS s v = Some (SUCCESS, PInts i) \<and>
    get_int fo (PChars (Some s)) = Some i"
proof -
  have "\<not> is_digit 0" by (simp add: is_digit_def)
  then have "\<forall>d \<in> set (dec_int i). d \<noteq> 0" using dec_nat_digits by (auto simp: dec_int_def)
  then have "c_str (dec_int i) = dec_int i" by (simp add: c_str_def takeWhile_eq_all_conv)
  then show ?thesis using assms
    by (simp add: v_to_string_def type_to_string_def integer_to_string_def set_value_from_str_def integer_from_str_def scan_int_dec get_int_def stol_def trunc32_fits)
      (auto simp: fits32_def)
qed

theorem int_text_roundtrip_witness:
  "\<forall>fo. \<exists>s. v_to_string fo (PInts (- 42)) = Some s \<and> set_value_from_str fo INTS s PUndefined = Some (SUCCESS, PInts (- 42)) \<and>
    get_int fo (PChars (Some s)) = Some (- 42)"
  by (intro allI int_text_roundtrip) (simp add: fits32_def)

subsection \<open>Order of values\<close>

definition byte_less :: "(byte \<times> byte) set" where
  "byte_less = {(a, b). a < b}"

lemma compare_string_Cons:
  "compare_string (a # s) (b # t) = (if a < b then - 1 else if b < a then 1 else if a = 0 then (if length s < length t then - 1 else if length t < length s then 1 else 0) else compare_string s t)"
  by (auto simp: compare_string_def Let_def min_def split: if_splits)

lemma compare_string_less: "0 \<notin> set s \<Longrightarrow> compare_string s t = - 1 \<longleftrightarrow> (s, t) \<in> lexord byte_less"
proof (induction s arbitrary: t)
  case Nil
  then show ?case by (cases t) (simp_all add: compare_string_def)
next
  case (Cons a s)
  then show ?case
    by (cases t) (auto simp: compare_string_def [of _ "[]"] compare_string_Cons byte_less_def)
qed

lemma compare_string_greater: "0 \<notin> set s \<Longrightarrow> compare_string s t = 1 \<longleftrightarrow> (t, s) \<in> lexord byte_less"
proof (induction s arbitrary: t)
  case Nil
  then show ?case by (cases t) (simp_all add: compare_string_def)
next
  case (Cons a s)
  then show ?case
    by (cases t) (auto simp: compare_string_def [of _ "[]"] compare_string_Cons byte_less_def)
qed

lemma compare_string_range: "compare_string s t \<in> {- 1, 0, 1}"
  by (auto simp: compare_string_def Let_def)

lemma byte_lexord: "s = t \<or> (s, t) \<in> lexord byte_less \<or> (t, s) \<in> lexord byte_less" "(s, s) \<notin> lexord byte_less"
  "(s, t) \<in> lexord byte_less \<Longrightarrow> (t, s) \<notin> lexord byte_less"
proof -
  have "\<forall>a b. (a, b) \<in> byte_less \<or> a = b \<or> (b, a) \<in> byte_less" by (auto simp: byte_less_def)
  then show "s = t \<or> (s, t) \<in> lexord byte_less \<or> (t, s) \<in> lexord byte_less" using lexord_linear by metis
  show irr: "(s, s) \<notin> lexord byte_less" for s by (rule lexord_irreflexive) (simp add: byte_less_def)
  have "trans byte_less" by (auto simp: trans_def byte_less_def)
  then have "trans (lexord byte_less)" by (rule lexord_transI)
  then show "(s, t) \<in> lexord byte_less \<Longrightarrow> (t, s) \<notin> lexord byte_less" using irr by (meson transE)
qed

text \<open>
  C33. Strings compare in lexicographic order.  The comparison of two string values, which compares a common prefix with
  \<^verbatim>\<open>strncmp\<close> and then the lengths, is -1, 0 or 1 exactly when the first string precedes, equals or follows the second in the
  lexicographic order of unsigned bytes, provided the first has no NUL byte, which holds for every value made by
  \<^verbatim>\<open>set_string\<close>.
\<close>
theorem string_compare_lexicographic:
  assumes "0 \<notin> set s"
  shows "v_compare fo (PChars (Some s)) (PChars (Some t)) =
    Some (if s = t then 0 else if (s, t) \<in> lexord byte_less then - 1 else 1)"
proof -
  have "compare_string s t = (if s = t then 0 else if (s, t) \<in> lexord byte_less then - 1 else 1)"
    using compare_string_less [OF assms, of t] compare_string_greater [OF assms, of t] compare_string_range [of s t]
      byte_lexord (1,3) [of s t] byte_lexord (2) by auto
  then show ?thesis by (simp add: v_compare_def char_compare_def)
qed

theorem string_compare_lexicographic_witness:
  "\<forall>fo. v_compare fo (PChars (Some [97, 98])) (PChars (Some [97, 200])) = Some (- 1)"
  using string_compare_lexicographic [of "[97, 98]" _ "[97, 200]"] by (simp add: byte_less_def)

lemma set_string_no_nul:
  assumes "set_string (Some s) len v h = Some (v', h')"
  shows "\<exists>t. view h' v' = Some (PChars (Some t)) \<and> 0 \<notin> set t"
proof -
  obtain v1 h1 n where 1: "v_reset v h = Some (v1, h1)" "c_strlen s len = Some n"
    "v' = v1\<lparr>attr_type := CHARS, own_data := True, v_value := PtrV (Some (ar_next h1)), v_length := int n\<rparr>"
    "ar_mem h' (ar_next h1) = Some (take n s @ [0])"
    using assms by (auto simp: set_string_def bind_eq_Some_conv ar_alloc_def Let_def)
  have n: "n \<le> length (c_str s)" using 1(2) by (auto simp: c_strlen_def Let_def split: if_splits)
  have "0 \<notin> set (c_str s)" by (auto simp: c_str_def dest: set_takeWhileD)
  moreover have "take n s = take n (c_str s)"
  proof -
    have "c_str s = take (length (c_str s)) s" unfolding c_str_def by (rule takeWhile_eq_take)
    then show ?thesis using n by (metis min.absorb1 take_take)
  qed
  ultimately have "0 \<notin> set (take n s)" by (metis in_set_takeD)
  moreover have "length (take n s) = n" using n c_strlen_le [OF 1(2)] by simp
  ultimately show ?thesis using 1 by (simp add: view_def)
qed

text \<open>The comparison of 64-bit integers loses their upper half, and booleans are never equal.\<close>

theorem compare_int64_truncates: "compare_int64 (2 ^ 32) 0 = 0"
  by (simp add: compare_int64_def compare_int_def trunc32_def)

theorem booleans_never_equal: "v_compare fo (PBooleans b) right = Some INT32_MAX"
  by (simp add: v_compare_def)

end
