(* ===== verification/Ob_Server.thy ===== *)
theory Ob_Server
  imports Ob_DDL Ob_Value
begin

text \<open>
  The server around the schema: \<^verbatim>\<open>init_global_objects\<close> of \<^verbatim>\<open>observer/common/init.cpp\<close>, the session's current
  database, and the executors of the statements that create, drop, use and list databases and tables
  (\<^verbatim>\<open>observer/sql/executor\<close>).

  \<open>Server\<close> gathers the objects these share: the DDL service, the schema service, the files and the
  session.  Names are C strings without their terminating zero, as in \<open>Ob_Schema\<close>.
\<close>

section \<open>Session\<close>

record Session =
  sn_current_db_name :: bytes
  sn_current_database_id :: u64

definition sn_new :: Session where
  "sn_new = \<lparr>sn_current_db_name = [], sn_current_database_id = 0\<rparr>"

definition sn_set_current_db :: "db_iter \<Rightarrow> bytes \<Rightarrow> ObSchemaService \<Rightarrow> Session \<Rightarrow> Session option" where
  "sn_set_current_db iter dbname s sn = do {
     schema \<leftarrow> ss_get_database_by_name (iter (ss_databases s)) dbname s;
     Some (case schema of None \<Rightarrow> sn
           | Some d \<Rightarrow> sn\<lparr>sn_current_db_name := dbname, sn_current_database_id := dbs_database_id d\<rparr>)
   }"

section \<open>Start\<close>

record Server =
  sv_ddl :: ObDDLService
  sv_schema :: ObSchemaService
  sv_files :: file_store
  sv_session :: Session

definition sys_name :: bytes where "sys_name = [115, 121, 115]"

text \<open>\<^verbatim>\<open>init_global_objects\<close> in a new process: all objects are new, \<open>logfs\<close> and \<open>files\<close> are what the disk
  has.  Return codes of the calls are ignored, as in the source.\<close>

definition init_global_objects :: "(nat \<Rightarrow> byte) \<Rightarrow> nat \<Rightarrow> db_iter \<Rightarrow> (int \<Rightarrow> log_fs) \<Rightarrow> file_store \<Rightarrow> (ret \<times> Server) option" where
  "init_global_objects junk fd iter logfs files = do {
     (_, dd, files) \<leftarrow> dd_init io_good io_good io_good io_good fd logfs ''miniob/store'' dd_new files;
     (recovered, s) \<leftarrow> dd_recover_schema iter junk io_good io_good dd ss_new files;
     sys \<leftarrow> (if recovered = 0 then Some None else ss_get_database_by_name (iter (ss_databases s)) sys_name s);
     (dd, s, files) \<leftarrow>
       (if recovered = 0 \<or> sys = None then
          map_option (\<lambda>(r, i, dd, s, files). (dd, s, files))
            (dd_create_database junk io_good io_good io_good iter sys_name 0 dd s files)
        else Some (dd, s, files));
     sn \<leftarrow> sn_set_current_db iter sys_name s sn_new;
     Some (0, \<lparr>sv_ddl = dd, sv_schema = s, sv_files = files, sv_session = sn\<rparr>)
   }"

section \<open>Executors\<close>

definition create_database_execute :: "(nat \<Rightarrow> byte) \<Rightarrow> io \<Rightarrow> io \<Rightarrow> io \<Rightarrow> db_iter \<Rightarrow> bytes \<Rightarrow> Server \<Rightarrow> (RC \<times> Server) option" where
  "create_database_execute junk io1 io2 io3 iter db_name w = do {
     (ret, db_id, dd, s, files) \<leftarrow> dd_create_database junk io1 io2 io3 iter db_name 0 (sv_ddl w) (sv_schema w) (sv_files w);
     Some (if ret = 0 then SUCCESS else INTERNAL, w\<lparr>sv_ddl := dd, sv_schema := s, sv_files := files\<rparr>)
   }"

text \<open>\<^verbatim>\<open>strcasecmp(a, b) == 0\<close> in the C locale.\<close>

definition to_lower :: "byte \<Rightarrow> byte" where
  "to_lower b = (if 65 \<le> b \<and> b \<le> 90 then b + 32 else b)"

definition strcaseeq :: "bytes \<Rightarrow> bytes \<Rightarrow> bool" where
  "strcaseeq a b \<longleftrightarrow> map to_lower a = map to_lower b"

definition drop_database_execute :: "db_iter \<Rightarrow> bytes \<Rightarrow> Server \<Rightarrow> (RC \<times> Server) option" where
  "drop_database_execute iter db_name w = do {
     sn \<leftarrow> (if strcaseeq (sn_current_db_name (sv_session w)) db_name
            then sn_set_current_db iter sys_name (sv_schema w) (sv_session w) else Some (sv_session w));
     (ret, s) \<leftarrow> ss_drop_database (iter (ss_databases (sv_schema w))) db_name (sv_schema w);
     Some (SUCCESS, w\<lparr>sv_session := sn, sv_schema := s\<rparr>)
   }"

definition use_database_execute :: "db_iter \<Rightarrow> bytes \<Rightarrow> Server \<Rightarrow> (RC \<times> Server) option" where
  "use_database_execute iter db_name w = do {
     sn \<leftarrow> sn_set_current_db iter db_name (sv_schema w) (sv_session w);
     Some (if sn_current_database_id sn = 0 then SCHEMA_DB_NOT_EXIST else SUCCESS, w\<lparr>sv_session := sn\<rparr>)
   }"

record AttrInfoSqlNode =
  ai_type :: AttrType
  ai_name :: bytes
  ai_length :: u64

fun add_columns :: "u32 \<Rightarrow> AttrInfoSqlNode list \<Rightarrow> ObTableSchema \<Rightarrow> ObTableSchema" where
  "add_columns pad [] t = t"
| "add_columns pad (attr # attrs) t =
     (let col = cs_set_column_name (Some (ai_name attr)) (cs_new pad);
          col = col\<lparr>cs_data_type := attr_type_val (ai_type attr), cs_data_length := ai_length attr\<rparr>
      in add_columns pad attrs (snd (tbs_add_column col t)))"

definition create_table_execute :: "u32 \<Rightarrow> bytes \<Rightarrow> AttrInfoSqlNode list \<Rightarrow> Server \<Rightarrow> RC \<times> Server" where
  "create_table_execute pad table_name attr_infos w =
     (let t = (tbs_set_table_name (Some table_name) tbs_new)\<lparr>tbs_database_id := sn_current_database_id (sv_session w)\<rparr>;
          t = add_columns pad attr_infos t;
          (ret, t, s) = ss_create_table t (sv_schema w)
      in (if ret > 0 then SUCCESS else INTERNAL, w\<lparr>sv_schema := s\<rparr>))"

text \<open>A result set: the names of its columns and the cells of its rows.\<close>

record SqlResult =
  sr_header :: "bytes list"
  sr_rows :: "bytes list list"

definition str_bytes :: "string \<Rightarrow> bytes" where
  "str_bytes s = map of_char s"

definition show_databases_execute :: "db_iter \<Rightarrow> Server \<Rightarrow> (RC \<times> SqlResult) option" where
  "show_databases_execute iter w = do {
     (ret, db_names) \<leftarrow> ss_get_all_databases (iter (ss_databases (sv_schema w))) [] (sv_schema w);
     Some (SUCCESS, \<lparr>sr_header = [str_bytes ''Database''], sr_rows = map (\<lambda>s. [s]) db_names\<rparr>)
   }"

definition show_tables_execute :: "((u64 \<rightharpoonup> ObTableSchema) \<Rightarrow> u64 list) \<Rightarrow> Server \<Rightarrow> (RC \<times> SqlResult) option" where
  "show_tables_execute titer w = do {
     (ret, table_names) \<leftarrow> ss_get_all_tables (titer (ss_tables (sv_schema w))) (sn_current_database_id (sv_session w)) [] (sv_schema w);
     Some (SUCCESS, \<lparr>sr_header = [str_bytes ''Tables_in_'' @ sn_current_db_name (sv_session w)], sr_rows = map (\<lambda>s. [s]) table_names\<rparr>)
   }"

section \<open>What a restart recovers\<close>

text \<open>A server whose stream holds the creations of \<open>cs\<close>; the schema stands for \<open>m\<close>.\<close>

definition sv_ok :: "Server \<Rightarrow> bytes list \<Rightarrow> bytes list \<Rightarrow> (bytes \<rightharpoonup> u64) \<Rightarrow> bool" where
  "sv_ok w cs ss m \<longleftrightarrow>
     ddl_log (sv_ddl w) (sv_files w) (map ddl_db_record cs) ss \<and> dd_base_dir (sv_ddl w) = ''miniob/store'' \<and>
     (\<forall>n \<in> set cs. db_name_ok n) \<and> set ss \<subseteq> set cs \<and> ss_ok (sv_schema w) m"

definition cs_fit :: "bytes list \<Rightarrow> bool" where
  "cs_fit cs \<longleftrightarrow> entries_fit (unat PALF_BLOCK_SIZE) 0 (map (typed DDL_LOG_BASE_TYPE) (map ddl_db_record cs)) \<and>
     log_size (map (typed DDL_LOG_BASE_TYPE) (map ddl_db_record cs)) < 2 ^ 63"

lemma sys_name_ok: "db_name_ok sys_name"
  by (simp add: db_name_ok_def sys_name_def)

lemma cs_fit_count: "cs_fit cs \<Longrightarrow> length cs < 2 ^ 63"
  using log_size_count [of "map (typed DDL_LOG_BASE_TYPE) (map ddl_db_record cs)"] by (simp add: cs_fit_def)

lemma cs_fit_prefix: "cs_fit (cs @ ds) \<Longrightarrow> cs_fit cs"
  by (auto simp: cs_fit_def entries_fit_append)

lemma op_creates_new:
  assumes it: "iterates iter" and cs: "\<forall>n \<in> set cs. db_name_ok n" "length cs < 2 ^ 63"
  obtains s m where "op_creates iter cs ss_new = Some s" "ss_ok s m" "dom m = set cs" "unat (ss_next_database_id s) \<le> 1 + length cs"
proof -
  have "unat (ss_next_database_id ss_new) + length cs < 2 ^ 64 - 1" using cs(2) by (simp add: ss_new_def)
  from op_creates_ok [OF it ss_ok_new cs(1) this] show ?thesis using that by (auto simp: ss_new_def)
qed

lemma op_create_tables: "op_create_database iter n i s = Some (r, j, s') \<Longrightarrow> ss_tables s' = ss_tables s"
  by (auto simp: op_create_database_def ss_create_database_def bind_eq_Some_conv Let_def split: if_splits)

lemma op_creates_tables: "op_creates iter cs s = Some s' \<Longrightarrow> ss_tables s' = ss_tables s"
proof (induction cs arbitrary: s)
  case (Cons n cs)
  then obtain r j s1 where "op_create_database iter n 0 s = Some (r, j, s1)" "op_creates iter cs s1 = Some s'"
    by (auto simp: op_creates_def bind_eq_Some_conv)
  then show ?case using Cons.IH op_create_tables by metis
qed (simp add: op_creates_def)

lemma op_creates_snoc: "op_creates iter (cs @ [n]) s =
    Option.bind (op_creates iter cs s) (\<lambda>s. map_option (\<lambda>(r, i, s). s) (op_create_database iter n 0 s))"
proof -
  have "foldo f [] = Some" for f :: "bytes \<Rightarrow> ObSchemaService \<Rightarrow> ObSchemaService option" by (rule ext) simp
  then show ?thesis by (cases "op_creates iter cs s") (simp_all add: op_creates_def foldo_append)
qed

text \<open>The start on a disk whose logs hold creations: the schema is rebuilt, and the name \<^verbatim>\<open>sys\<close> logged once more.\<close>

lemma server_starts:
  assumes it: "iterates iter" and init: "dd_init io_good io_good io_good io_good fd logfs ''miniob/store'' dd_new files = Some (0, dd, files')"
    and log: "ddl_log dd files' (map ddl_db_record cs) ss" and base: "dd_base_dir dd = ''miniob/store''"
    and cs: "\<forall>n \<in> set cs. db_name_ok n" "set ss \<subseteq> set cs" "cs_fit (cs @ [sys_name])"
  obtains w ss' m where "init_global_objects junk fd iter logfs files = Some (0, w)"
    "op_creates iter (cs @ [sys_name]) ss_new = Some (sv_schema w)" "sv_ok w (cs @ [sys_name]) ss' m"
    "dom m = insert sys_name (set cs)" "sn_current_db_name (sv_session w) = sys_name"
proof -
  have n: "length cs < 2 ^ 63" using cs_fit_count [OF cs_fit_prefix [OF cs(3)]] .
  obtain s m where s: "op_creates iter cs ss_new = Some s" "ss_ok s m" "dom m = set cs" "unat (ss_next_database_id s) \<le> 1 + length cs"
    using op_creates_new [OF it cs(1) n] .
  have z: "\<forall>n \<in> set cs. 0 \<notin> set n \<and> length n < 256" "\<forall>n \<in> set ss. 0 \<notin> set n" using cs(1,2) by (auto simp: db_name_ok_def)
  have rec: "dd_recover_schema iter junk io_good io_good dd ss_new files' = Some (0, s)"
    unfolding ddl_recover_ok [OF log] ddl_replay_records [OF z(1)] ddl_slog_entries [OF z(2)] s(1)
    using op_creates_known [OF it s(2), of ss] cs(2) s(3) by simp
  have lt: "ss_next_database_id s < -1"
    using s(4) n by (simp add: word_less_nat_alt unsigned_minus_1_eq_mask mask_eq_exp_minus_1)
  obtain r j s1 where c: "op_create_database iter sys_name 0 s = Some (r, j, s1)"
    "ss_ok s1 (if m sys_name = None then m(sys_name \<mapsto> ss_next_database_id s) else m)"
    by (rule op_create_ok [OF it s(2) sys_name_ok lt, of 0])
  define m' where "m' = (if m sys_name = None then m(sys_name \<mapsto> ss_next_database_id s) else m)"
  have m': "ss_ok s1 m'" "dom m' = insert sys_name (set cs)" using c(2) s(3) by (auto simp: m'_def split: if_splits)
  have fit: "clog_fits DDL_LOG_BASE_TYPE (map ddl_db_record cs) (ddl_db_record sys_name)"
    using cs(3) by (simp add: clog_fits_def cs_fit_def ddl_db_record_nonempty)
  obtain dd1 files1 where d: "dd_create_database junk io_good io_good io_good iter sys_name 0 dd s files' = Some (r, j, dd1, s1, files1)"
    "ddl_log dd1 files1 (map ddl_db_record (cs @ [sys_name])) (if r = 0 then ss @ [sys_name] else ss)" "dd_base_dir dd1 = ''miniob/store''"
    using dd_create_ok [OF log fit _ c(1), of junk] base by (auto simp: sys_name_def)
  obtain e where e: "ss_get_database_by_name (iter (ss_databases s1)) sys_name s1 = Some (Some e)"
    using ss_ok_found [OF m'(1), of "iter (ss_databases s1)" sys_name] it m'(2) by (auto simp: iterates_def)
  let ?w = "\<lparr>sv_ddl = dd1, sv_schema = s1, sv_files = files1,
    sv_session = sn_new\<lparr>sn_current_db_name := sys_name, sn_current_database_id := dbs_database_id e\<rparr>\<rparr>"
  have "init_global_objects junk fd iter logfs files = Some (0, ?w)"
    using init rec d(1) e by (simp add: init_global_objects_def sn_set_current_db_def)
  moreover have "op_creates iter (cs @ [sys_name]) ss_new = Some (sv_schema ?w)" using s(1) c(1) by (simp add: op_creates_snoc)
  moreover have "sv_ok ?w (cs @ [sys_name]) (if r = 0 then ss @ [sys_name] else ss) m'"
    using d(2,3) m'(1) cs(1,2) sys_name_ok by (auto simp: sv_ok_def)
  ultimately show ?thesis using m'(2) by (rule that) simp
qed

lemma server_starts_fresh:
  assumes "iterates iter" "logfs DDL_LS_ID = lf_empty" "files ''miniob/store/slog/slog_0'' = None"
  obtains w ss m where "init_global_objects junk fd iter logfs files = Some (0, w)"
    "op_creates iter [sys_name] ss_new = Some (sv_schema w)" "sv_ok w [sys_name] ss m" "dom m = {sys_name}"
    "sn_current_db_name (sv_session w) = sys_name"
proof -
  obtain dd files' where i: "dd_init io_good io_good io_good io_good fd logfs ''miniob/store'' dd_new files = Some (0, dd, files')"
    "ddl_log dd files' [] []" "dd_base_dir dd = ''miniob/store''"
    using ddl_init_fresh [of logfs files "''miniob/store''" fd] assms(2,3) by auto
  have "cs_fit ([] @ [sys_name])"
    by (simp add: cs_fit_def sys_name_def length_ddl_db_record length_typed entry_size_def SCAN_BUF_def PALF_BLOCK_SIZE_def blh_size_def lgh_size_def)
  then show ?thesis
    using server_starts [OF assms(1) i(1), of "[]" "[]" junk] i(2,3) that by auto
qed

lemma server_restarts:
  assumes it: "iterates iter" and ok: "sv_ok w cs ss m" and fit: "cs_fit (cs @ [sys_name])"
  obtains w' ss' m' where "init_global_objects junk fd iter (dd_log_files (sv_ddl w)) (sv_files w) = Some (0, w')"
    "op_creates iter (cs @ [sys_name]) ss_new = Some (sv_schema w')" "sv_ok w' (cs @ [sys_name]) ss' m'"
    "dom m' = insert sys_name (set cs)" "sn_current_db_name (sv_session w') = sys_name"
proof -
  have o: "ddl_log (sv_ddl w) (sv_files w) (map ddl_db_record cs) ss" "dd_base_dir (sv_ddl w) = ''miniob/store''"
    "\<forall>n \<in> set cs. db_name_ok n" "set ss \<subseteq> set cs" using ok by (auto simp: sv_ok_def)
  obtain dd' where r: "dd_init io_good io_good io_good io_good fd (dd_log_files (sv_ddl w)) ''miniob/store'' dd_new (sv_files w) = Some (0, dd', sv_files w)"
    "ddl_log dd' (sv_files w) (map ddl_db_record cs) ss" "dd_base_dir dd' = ''miniob/store''"
    using ddl_restart [OF o(1), of fd] o(2) by auto
  show ?thesis using server_starts [OF it r(1,2,3) o(3,4) fit, of junk] that .
qed

lemma sv_found:
  assumes "iterates iter" "ss_ok s m"
  shows "(\<exists>d. ss_get_database_by_name (iter (ss_databases s)) n s = Some (Some d)) \<longleftrightarrow> n \<in> dom m"
    "ss_get_database_by_name (iter (ss_databases s)) n s = Some None \<longleftrightarrow> n \<notin> dom m"
proof -
  have ks: "set (iter (ss_databases s)) = dom (ss_databases s)" using assms(1) by (simp add: iterates_def)
  show "(\<exists>d. ss_get_database_by_name (iter (ss_databases s)) n s = Some (Some d)) \<longleftrightarrow> n \<in> dom m"
    using ss_ok_found [OF assms(2) ks] .
  then show "ss_get_database_by_name (iter (ss_databases s)) n s = Some None \<longleftrightarrow> n \<notin> dom m"
    using ss_ok_get [OF assms(2) ks, of n] by (cases "ss_get_database_by_name (iter (ss_databases s)) n s") auto
qed

text \<open>
  C21. A restart of the server brings back the databases that were ever created, and \<^verbatim>\<open>sys\<close>.  Since
  \<^verbatim>\<open>recover_schema\<close> always returns 0, every start logs the creation of \<^verbatim>\<open>sys\<close> once more: the stream
  grows by one record with each start.
\<close>

theorem server_restart_recovers:
  assumes "iterates iter" "sv_ok w cs ss m" "cs_fit (cs @ [sys_name])"
  shows "\<exists>w' ss'. init_global_objects junk fd iter (dd_log_files (sv_ddl w)) (sv_files w) = Some (0, w') \<and>
    (\<forall>n. (\<exists>d. ss_get_database_by_name (iter (ss_databases (sv_schema w'))) n (sv_schema w') = Some (Some d)) \<longleftrightarrow>
       n \<in> set cs \<or> n = sys_name) \<and>
    ddl_log (sv_ddl w') (sv_files w') (map ddl_db_record cs @ [ddl_db_record sys_name]) ss' \<and>
    sn_current_db_name (sv_session w') = sys_name"
proof -
  obtain w' ss' m' where r: "init_global_objects junk fd iter (dd_log_files (sv_ddl w)) (sv_files w) = Some (0, w')"
    "sv_ok w' (cs @ [sys_name]) ss' m'" "dom m' = insert sys_name (set cs)" "sn_current_db_name (sv_session w') = sys_name"
    using server_restarts [OF assms, of junk fd] by metis
  then have "ss_ok (sv_schema w') m'" "ddl_log (sv_ddl w') (sv_files w') (map ddl_db_record cs @ [ddl_db_record sys_name]) ss'"
    by (simp_all add: sv_ok_def)
  then show ?thesis using r(1,3,4) sv_found(1) [OF assms(1)] by (intro exI [of _ w'] exI [of _ ss']) auto
qed

lemma started_server:
  obtains w ss m where "init_global_objects (\<lambda>_. 0) 3 sorted_iter (\<lambda>_. lf_empty) Map.empty = Some (0, w)"
    "sv_ok w [sys_name] ss m" "dom m = {sys_name}" "ss_next_table_id (sv_schema w) = 1"
    "sn_current_database_id (sv_session w) = 1" "cs_fit ([sys_name] @ [sys_name])"
proof -
  obtain w ss m where w: "init_global_objects (\<lambda>_. 0) 3 sorted_iter (\<lambda>_. lf_empty) Map.empty = Some (0, w)"
    "op_creates sorted_iter [sys_name] ss_new = Some (sv_schema w)" "sv_ok w [sys_name] ss m" "dom m = {sys_name}"
    by (rule server_starts_fresh [OF iterates_sorted, of "\<lambda>_. lf_empty" Map.empty "\<lambda>_. 0" 3]) simp_all
  have "op_creates sorted_iter [sys_name] ss_new = Some (snd (snd (ss_create_database sys_name ss_new)))"
    using op_create_long_first [OF iterates_sorted, of sys_name 0]
    by (cases "ss_create_database sys_name ss_new") (simp add: op_creates_def)
  then have s: "sv_schema w = snd (snd (ss_create_database sys_name ss_new))" using w(2) by simp
  have i: "sn_current_database_id (sv_session w) = 1"
  proof -
    have "ss_get_database_by_name (sorted_iter (ss_databases (sv_schema w))) sys_name (sv_schema w) = Some (Some (ddl_schema 1 sys_name))"
      using sv_found(1) [OF iterates_sorted, of "sv_schema w" m sys_name] w(3,4) s
      by (auto simp: sv_ok_def ss_create_database_def ss_new_def ddl_schema_def ss_get_database_by_name_def Let_def
          split: option.splits if_splits)
    then show ?thesis
      using w(1) by (auto simp: init_global_objects_def sn_set_current_db_def ddl_schema_def dbs_set_database_name_def bind_eq_Some_conv)
  qed
  have "cs_fit ([sys_name] @ [sys_name])"
    by (simp add: cs_fit_def sys_name_def length_ddl_db_record length_typed entry_size_def SCAN_BUF_def PALF_BLOCK_SIZE_def blh_size_def lgh_size_def)
  then show ?thesis using that w(1,3,4) i s by (simp add: ss_create_database_def ss_new_def Let_def)
qed

theorem server_restart_recovers_witness:
  "\<exists>w w' ss'. init_global_objects (\<lambda>_. 0) 3 sorted_iter (\<lambda>_. lf_empty) Map.empty = Some (0, w) \<and>
    init_global_objects (\<lambda>_. 9) 4 sorted_iter (dd_log_files (sv_ddl w)) (sv_files w) = Some (0, w') \<and>
    ddl_log (sv_ddl w') (sv_files w') [ddl_db_record sys_name, ddl_db_record sys_name] ss'"
proof -
  obtain w ss m where w: "init_global_objects (\<lambda>_. 0) 3 sorted_iter (\<lambda>_. lf_empty) Map.empty = Some (0, w)"
    "sv_ok w [sys_name] ss m" "cs_fit ([sys_name] @ [sys_name])"
    by (rule started_server)
  show ?thesis using w(1) server_restart_recovers [OF iterates_sorted w(2,3), of "\<lambda>_. 9" 4] by auto
qed

text \<open>
  A dropped database comes back.  \<^verbatim>\<open>DROP DATABASE\<close> changes the schema in memory and logs nothing, so
  after a restart the database is there again.
\<close>

theorem restart_undoes_drop:
  assumes it: "iterates iter" and ok: "sv_ok w cs ss m" and fit: "cs_fit (cs @ [sys_name])" and n: "n \<in> set cs"
  shows "\<exists>w1 w2 d. drop_database_execute iter n w = Some (SUCCESS, w1) \<and>
    ss_get_database_by_name (iter (ss_databases (sv_schema w1))) n (sv_schema w1) = Some None \<and>
    init_global_objects junk fd iter (dd_log_files (sv_ddl w1)) (sv_files w1) = Some (0, w2) \<and>
    ss_get_database_by_name (iter (ss_databases (sv_schema w2))) n (sv_schema w2) = Some (Some d)"
proof -
  let ?s = "sv_schema w"
  have s: "ss_ok ?s m" using ok by (simp add: sv_ok_def)
  have ks: "set (iter (ss_databases ?s)) = dom (ss_databases ?s)" using it by (simp add: iterates_def)
  obtain r s1 where d: "ss_drop_database (iter (ss_databases ?s)) n ?s = Some (r, s1)" "ss_ok s1 (m(n := None))"
    using ss_ok_drop [OF s ks, of n] by auto
  obtain sn where sn: "(if strcaseeq (sn_current_db_name (sv_session w)) n
      then sn_set_current_db iter sys_name ?s (sv_session w) else Some (sv_session w)) = Some sn"
    using ss_ok_get [OF s ks, of sys_name] by (cases "strcaseeq (sn_current_db_name (sv_session w)) n") (auto simp: sn_set_current_db_def)
  let ?w = "w\<lparr>sv_session := sn, sv_schema := s1\<rparr>"
  have ok1: "sv_ok ?w cs ss (m(n := None))" using ok d(2) by (simp add: sv_ok_def)
  have "drop_database_execute iter n w = Some (SUCCESS, ?w)"
    unfolding drop_database_execute_def sn using d(1) by simp
  moreover have "ss_get_database_by_name (iter (ss_databases (sv_schema ?w))) n (sv_schema ?w) = Some None"
    using sv_found(2) [OF it d(2), of n] by simp
  moreover obtain w2 ss2 m2 where r: "init_global_objects junk fd iter (dd_log_files (sv_ddl ?w)) (sv_files ?w) = Some (0, w2)"
    "sv_ok w2 (cs @ [sys_name]) ss2 m2" "dom m2 = insert sys_name (set cs)"
    by (rule server_restarts [OF it ok1 fit, of junk fd])
  moreover obtain d' where "ss_get_database_by_name (iter (ss_databases (sv_schema w2))) n (sv_schema w2) = Some (Some d')"
    using sv_found(1) [OF it, of "sv_schema w2" m2 n] r(2,3) n by (auto simp: sv_ok_def)
  ultimately show ?thesis by blast
qed

theorem restart_undoes_drop_witness:
  "\<exists>w w1 w2 d. init_global_objects (\<lambda>_. 0) 3 sorted_iter (\<lambda>_. lf_empty) Map.empty = Some (0, w) \<and>
    drop_database_execute sorted_iter sys_name w = Some (SUCCESS, w1) \<and>
    ss_get_database_by_name (sorted_iter (ss_databases (sv_schema w1))) sys_name (sv_schema w1) = Some None \<and>
    init_global_objects (\<lambda>_. 9) 4 sorted_iter (dd_log_files (sv_ddl w1)) (sv_files w1) = Some (0, w2) \<and>
    ss_get_database_by_name (sorted_iter (ss_databases (sv_schema w2))) sys_name (sv_schema w2) = Some (Some d)"
proof -
  obtain w ss m where w: "init_global_objects (\<lambda>_. 0) 3 sorted_iter (\<lambda>_. lf_empty) Map.empty = Some (0, w)"
    "sv_ok w [sys_name] ss m" "cs_fit ([sys_name] @ [sys_name])"
    by (rule started_server)
  show ?thesis using w(1) restart_undoes_drop [OF iterates_sorted w(2,3), of sys_name "\<lambda>_. 9" 4] by auto
qed

text \<open>
  Tables do not survive a restart.  \<^verbatim>\<open>CREATE TABLE\<close> stores the table in the schema service and
  bypasses the DDL service and its log; after a restart the schema has no table at all.
\<close>

theorem restart_forgets_tables:
  assumes it: "iterates iter" and ok: "sv_ok w cs ss m" and fit: "cs_fit (cs @ [sys_name])"
    and room: "0 < sint (ucast (ss_next_table_id (sv_schema w)) :: u32)"
  shows "\<exists>w1 w2. create_table_execute pad name attrs w = (SUCCESS, w1) \<and>
    ss_tables (sv_schema w1) (ss_next_table_id (sv_schema w)) \<noteq> None \<and>
    init_global_objects junk fd iter (dd_log_files (sv_ddl w1)) (sv_files w1) = Some (0, w2) \<and>
    ss_tables (sv_schema w2) = Map.empty"
proof -
  obtain w1 where c: "create_table_execute pad name attrs w = (SUCCESS, w1)" "sv_ddl w1 = sv_ddl w" "sv_files w1 = sv_files w"
    "ss_tables (sv_schema w1) (ss_next_table_id (sv_schema w)) \<noteq> None"
    using room by (simp add: create_table_execute_def ss_create_table_def Let_def)
  obtain w2 where r: "init_global_objects junk fd iter (dd_log_files (sv_ddl w)) (sv_files w) = Some (0, w2)"
    "op_creates iter (cs @ [sys_name]) ss_new = Some (sv_schema w2)"
    by (rule server_restarts [OF it ok fit, of junk fd])
  then show ?thesis using c op_creates_tables [OF r(2)] by (auto simp: ss_new_def)
qed

theorem restart_forgets_tables_witness:
  "\<exists>w w1 w2. init_global_objects (\<lambda>_. 0) 3 sorted_iter (\<lambda>_. lf_empty) Map.empty = Some (0, w) \<and>
    create_table_execute 0 [116] [\<lparr>ai_type = INTS, ai_name = [97], ai_length = 4\<rparr>] w = (SUCCESS, w1) \<and>
    ss_tables (sv_schema w1) 1 \<noteq> None \<and>
    init_global_objects (\<lambda>_. 9) 4 sorted_iter (dd_log_files (sv_ddl w1)) (sv_files w1) = Some (0, w2) \<and>
    ss_tables (sv_schema w2) = Map.empty"
proof -
  obtain w ss m where w: "init_global_objects (\<lambda>_. 0) 3 sorted_iter (\<lambda>_. lf_empty) Map.empty = Some (0, w)"
    "sv_ok w [sys_name] ss m" "ss_next_table_id (sv_schema w) = 1" "cs_fit ([sys_name] @ [sys_name])"
    by (rule started_server)
  have "0 < sint (ucast (ss_next_table_id (sv_schema w)) :: u32)" using w(3) by simp
  from restart_forgets_tables [OF iterates_sorted w(2,4) this, of 0 "[116]" _ "\<lambda>_. 9" 4] w(1,3)
  show ?thesis by auto
qed

text \<open>
  \<^verbatim>\<open>USE\<close> of a database that does not exist reports success.  The executor looks at the id of the
  current database, which a failed switch leaves as it was: once any database is in use, the
  statement returns \<^verbatim>\<open>SUCCESS\<close> and the session stays where it is.  \<^verbatim>\<open>DROP\<close> of it succeeds as well.
\<close>

theorem use_missing_database:
  assumes "iterates iter" "ss_ok (sv_schema w) m" "m n = None" "sn_current_database_id (sv_session w) \<noteq> 0"
  shows "use_database_execute iter n w = Some (SUCCESS, w) \<and>
    (\<not> strcaseeq (sn_current_db_name (sv_session w)) n \<longrightarrow> drop_database_execute iter n w = Some (SUCCESS, w))"
proof -
  have ks: "set (iter (ss_databases (sv_schema w))) = dom (ss_databases (sv_schema w))" using assms(1) by (simp add: iterates_def)
  have f: "ss_get_database_by_name (iter (ss_databases (sv_schema w))) n (sv_schema w) = Some None"
    using sv_found(2) [OF assms(1,2), of n] assms(3) by auto
  have "ss_drop_database (iter (ss_databases (sv_schema w))) n (sv_schema w) = Some (-1, sv_schema w)"
    using first_named_ok [OF assms(2) ks, of n] assms(3) by (simp add: ss_drop_database_def)
  then show ?thesis
    using f assms(4) by (simp add: use_database_execute_def sn_set_current_db_def drop_database_execute_def)
qed

theorem use_missing_database_witness:
  "\<exists>w. init_global_objects (\<lambda>_. 0) 3 sorted_iter (\<lambda>_. lf_empty) Map.empty = Some (0, w) \<and>
    use_database_execute sorted_iter [120] w = Some (SUCCESS, w)"
proof -
  obtain w ss m where w: "init_global_objects (\<lambda>_. 0) 3 sorted_iter (\<lambda>_. lf_empty) Map.empty = Some (0, w)"
    "sv_ok w [sys_name] ss m" "dom m = {sys_name}" "sn_current_database_id (sv_session w) = 1"
    by (rule started_server)
  have "m [120] = None" using w(3) by (auto simp: sys_name_def)
  then show ?thesis using use_missing_database [OF iterates_sorted, of w m "[120]"] w by (auto simp: sv_ok_def)
qed

end
