(* ===== verification/Ob_Net.thy ===== *)
theory Ob_Net
  imports Ob_Prelude
begin

text \<open>
  The buffers below the wire protocols (\<^verbatim>\<open>observer/net/ring_buffer\<close> and \<^verbatim>\<open>buffered_writer\<close>): the ring
  buffer, which refines a bounded queue of bytes, and the writer that drains it into a socket.
  A result \<open>None\<close> is a copy outside a buffer or a loop that does not end.
\<close>

section \<open>The ring buffer\<close>

record RingBuffer =
  rb_buffer :: bytes
  rb_data_size :: int
  rb_write_pos :: int

definition DEFAULT_BUFFER_SIZE :: int where
  "DEFAULT_BUFFER_SIZE = 16 * 1024"

definition rb_new :: "int \<Rightarrow> RingBuffer" where
  "rb_new sz = \<lparr>rb_buffer = replicate (nat sz) 0, rb_data_size = 0, rb_write_pos = 0\<rparr>"

definition rb_capacity :: "RingBuffer \<Rightarrow> int" where
  "rb_capacity rb = int (length (rb_buffer rb))"

definition rb_size :: "RingBuffer \<Rightarrow> int" where
  "rb_size rb = rb_data_size rb"

definition rb_remain :: "RingBuffer \<Rightarrow> int" where
  "rb_remain rb = rb_capacity rb - rb_size rb"

definition rb_read_pos :: "RingBuffer \<Rightarrow> int" where
  "rb_read_pos rb = (rb_write_pos rb - rb_size rb + rb_capacity rb) mod rb_capacity rb"

text \<open>\<^verbatim>\<open>buffer\<close> returns a pointer into the ring, here its offset, and the number of bytes there.\<close>

definition rb_view :: "RingBuffer \<Rightarrow> RC \<times> int \<times> int" where
  "rb_view rb =
     (let sz = rb_size rb
      in if sz = 0 then (SUCCESS, 0, 0)
         else let read_pos = rb_read_pos rb;
                  read_size = (if read_pos < rb_write_pos rb then rb_write_pos rb - read_pos else rb_capacity rb - read_pos)
              in (SUCCESS, read_pos, read_size))"

definition rb_forward :: "int \<Rightarrow> RingBuffer \<Rightarrow> RC \<times> RingBuffer" where
  "rb_forward sz rb =
     (if sz \<le> 0 then (INVALID_ARGUMENT, rb)
      else if sz > rb_size rb then (INVALID_ARGUMENT, rb)
      else (SUCCESS, rb\<lparr>rb_data_size := rb_data_size rb - sz\<rparr>))"

text \<open>The bytes that \<^verbatim>\<open>memcpy\<close> takes from offset \<open>off\<close> of the ring.\<close>

definition rb_bytes :: "int \<Rightarrow> int \<Rightarrow> RingBuffer \<Rightarrow> bytes option" where
  "rb_bytes off n rb = (if 0 \<le> off \<and> 0 \<le> n \<and> off + n \<le> rb_capacity rb then Some (bslice (nat off) (nat n) (rb_buffer rb)) else None)"

function rb_read_loop :: "int \<Rightarrow> int \<Rightarrow> bytes \<Rightarrow> RingBuffer \<Rightarrow> (RC \<times> int \<times> bytes \<times> RingBuffer) option" where
  "rb_read_loop sz read_size out rb =
     (if read_size < sz \<and> rb_size rb > 0 then
        (case rb_view rb of (rc, tmp_buf, tmp_size) \<Rightarrow>
           if rc \<noteq> SUCCESS then Some (rc, read_size, out, rb)
           else let copy_size = min (sz - read_size) tmp_size
                in case rb_bytes tmp_buf copy_size rb of
                     None \<Rightarrow> None
                   | Some bs \<Rightarrow>
                       (case rb_forward copy_size rb of (rc, rb') \<Rightarrow>
                          if rc = SUCCESS then rb_read_loop sz (read_size + copy_size) (out @ bs) rb'
                          else Some (rc, read_size + copy_size, out @ bs, rb')))
      else Some (SUCCESS, read_size, out, rb))"
  by pat_completeness auto
termination
  by (relation "measure (\<lambda>(sz, read_size, out, rb). nat (rb_data_size rb))")
    (auto simp: rb_forward_def rb_size_def split: if_splits)

declare rb_read_loop.simps [simp del]

definition rb_read :: "int \<Rightarrow> int \<Rightarrow> RingBuffer \<Rightarrow> (RC \<times> int \<times> bytes \<times> RingBuffer) option" where
  "rb_read sz read_size rb =
     (if sz < 0 then Some (INVALID_ARGUMENT, read_size, [], rb) else rb_read_loop sz 0 [] rb)"

partial_function (option) rb_write_loop :: "bytes \<Rightarrow> int \<Rightarrow> int \<Rightarrow> RingBuffer \<Rightarrow> (RC \<times> int \<times> RingBuffer) option" where
  "rb_write_loop data sz write_size rb =
     (if write_size < sz \<and> rb_remain rb > 0 then
        let read_pos = rb_read_pos rb;
            tmp_buf_size = (if read_pos \<le> rb_write_pos rb then rb_capacity rb - rb_write_pos rb else read_pos - rb_write_pos rb);
            copy_size = min (sz - write_size) tmp_buf_size
        in if copy_size < 0 \<or> rb_write_pos rb < 0 \<or> rb_write_pos rb + copy_size > rb_capacity rb \<or>
              write_size < 0 \<or> write_size + copy_size > int (length data) then None
           else rb_write_loop data sz (write_size + copy_size)
             (rb\<lparr>rb_buffer := blit (nat (rb_write_pos rb)) (bslice (nat write_size) (nat copy_size) data) (rb_buffer rb),
                 rb_write_pos := (rb_write_pos rb + copy_size) mod rb_capacity rb,
                 rb_data_size := rb_data_size rb + copy_size\<rparr>)
      else Some (SUCCESS, write_size, rb))"

definition rb_write :: "bytes \<Rightarrow> int \<Rightarrow> int \<Rightarrow> RingBuffer \<Rightarrow> (RC \<times> int \<times> RingBuffer) option" where
  "rb_write data sz write_size rb =
     (if sz < 0 then Some (INVALID_ARGUMENT, write_size, rb) else rb_write_loop data sz 0 rb)"

section \<open>The ring buffer is a bounded queue\<close>

definition rb_wf :: "RingBuffer \<Rightarrow> bool" where
  "rb_wf rb \<longleftrightarrow> 0 \<le> rb_data_size rb \<and> rb_data_size rb \<le> rb_capacity rb \<and> 0 \<le> rb_write_pos rb \<and>
     (rb_write_pos rb < rb_capacity rb \<or> rb_capacity rb = 0)"

definition rb_abs :: "RingBuffer \<Rightarrow> bytes" where
  "rb_abs rb = map (\<lambda>i. rb_buffer rb ! nat ((rb_read_pos rb + int i) mod rb_capacity rb)) [0 ..< nat (rb_size rb)]"

lemma length_rb_abs [simp]: "length (rb_abs rb) = nat (rb_size rb)"
  by (simp add: rb_abs_def)

lemma rb_new_wf: "rb_wf (rb_new sz)" "rb_abs (rb_new sz) = []" "rb_capacity (rb_new sz) = max 0 sz"
  by (auto simp: rb_new_def rb_wf_def rb_abs_def rb_size_def rb_capacity_def)

lemma ring_pos:
  fixes r x cap :: int
  assumes "0 \<le> r" "r < cap" "0 \<le> x" "x \<le> cap"
  shows "(r + x) mod cap = (if r + x < cap then r + x else r + x - cap)"
proof (cases "r + x < cap")
  case False
  have "(r + x - cap) mod cap = r + x - cap" by (rule mod_pos_pos_trivial) (use assms False in auto)
  moreover have "(r + x) mod cap = (r + x - cap) mod cap" by simp
  ultimately show ?thesis using False by metis
qed (use assms in simp)

lemma rb_read_pos_bounds:
  assumes "rb_wf rb" "rb_capacity rb > 0"
  shows "0 \<le> rb_read_pos rb" "rb_read_pos rb < rb_capacity rb" "rb_write_pos rb = (rb_read_pos rb + rb_size rb) mod rb_capacity rb"
proof -
  show "0 \<le> rb_read_pos rb" "rb_read_pos rb < rb_capacity rb" using assms by (simp_all add: rb_read_pos_def)
  have "(rb_read_pos rb + rb_size rb) mod rb_capacity rb = (rb_write_pos rb + rb_capacity rb) mod rb_capacity rb"
    unfolding rb_read_pos_def by (simp add: mod_add_left_eq)
  then show "rb_write_pos rb = (rb_read_pos rb + rb_size rb) mod rb_capacity rb" using assms by (simp add: rb_wf_def mod_pos_pos_trivial)
qed

definition rb_put :: "bytes \<Rightarrow> RingBuffer \<Rightarrow> RingBuffer" where
  "rb_put d rb = rb\<lparr>rb_buffer := blit (nat (rb_write_pos rb)) d (rb_buffer rb),
     rb_write_pos := (rb_write_pos rb + int (length d)) mod rb_capacity rb, rb_data_size := rb_data_size rb + int (length d)\<rparr>"

lemma rb_put_basic:
  assumes "rb_wf rb" "rb_write_pos rb + int (length d) \<le> rb_capacity rb" "int (length d) \<le> rb_remain rb"
  shows "rb_capacity (rb_put d rb) = rb_capacity rb" "rb_wf (rb_put d rb)" "rb_read_pos (rb_put d rb) = rb_read_pos rb"
    "rb_size (rb_put d rb) = rb_size rb + int (length d)"
proof -
  have "nat (rb_write_pos rb) + length d \<le> length (rb_buffer rb)"
    using assms by (simp add: rb_wf_def rb_capacity_def) linarith
  then show c: "rb_capacity (rb_put d rb) = rb_capacity rb" by (simp add: rb_put_def rb_capacity_def)
  show s: "rb_size (rb_put d rb) = rb_size rb + int (length d)" by (simp add: rb_put_def rb_size_def)
  show "rb_wf (rb_put d rb)" using assms s by (auto simp: rb_wf_def c rb_remain_def rb_size_def) (auto simp: rb_put_def)
  have "rb_read_pos (rb_put d rb) =
      ((rb_write_pos rb + int (length d)) mod rb_capacity rb - (rb_size rb + int (length d)) + rb_capacity rb) mod rb_capacity rb"
    unfolding rb_read_pos_def c s by (simp add: rb_put_def)
  also have "\<dots> = ((rb_write_pos rb + int (length d)) - (rb_size rb + int (length d)) + rb_capacity rb) mod rb_capacity rb"
    by (simp add: mod_diff_left_eq)
  finally show "rb_read_pos (rb_put d rb) = rb_read_pos rb" by (simp add: rb_read_pos_def)
qed

lemma rb_put_abs:
  assumes wf: "rb_wf rb" and w: "rb_write_pos rb + int (length d) \<le> rb_capacity rb" and n: "int (length d) \<le> rb_remain rb"
  shows "rb_abs (rb_put d rb) = rb_abs rb @ d"
proof (cases "d = []")
  case True
  have "blit (nat (rb_write_pos rb)) [] (rb_buffer rb) = rb_buffer rb" by (simp add: blit_def)
  then show ?thesis using True rb_put_basic(1,3,4) [OF wf w n] by (simp add: rb_abs_def rb_put_def)
next
  case False
  let ?c = "rb_capacity rb" and ?r = "rb_read_pos rb" and ?s = "rb_size rb" and ?w = "rb_write_pos rb" and ?k = "int (length d)"
  note b = rb_put_basic [OF wf w n]
  have k: "?k > 0" using False by simp
  then have s: "0 \<le> ?s" "?s + ?k \<le> ?c" and w0: "0 \<le> ?w" and c: "?c > 0"
    using wf w n unfolding rb_wf_def rb_size_def rb_remain_def by linarith+
  note r = rb_read_pos_bounds [OF wf c]
  have len: "nat ?w + length d \<le> length (rb_buffer rb)" using w w0 by (simp add: rb_capacity_def)
  have wp: "?w = (if ?r + ?s < ?c then ?r + ?s else ?r + ?s - ?c)" using ring_pos [of ?r ?c ?s] r s k by simp
  have at: "rb_buffer (rb_put d rb) ! nat ((?r + int i) mod ?c) =
      (if int i < ?s then rb_buffer rb ! nat ((?r + int i) mod ?c) else d ! (i - nat ?s))" if i: "int i < ?s + ?k" for i
  proof -
    have p: "(?r + int i) mod ?c = (if ?r + int i < ?c then ?r + int i else ?r + int i - ?c)"
      using ring_pos [of ?r ?c "int i"] r(1,2) i s(2) by simp
    let ?p = "(?r + int i) mod ?c"
    have pb: "0 \<le> ?p" "?p < ?c" using c by simp_all
    then have nb: "rb_buffer (rb_put d rb) ! nat ?p =
        (if nat ?w \<le> nat ?p \<and> nat ?p < nat ?w + length d then d ! (nat ?p - nat ?w) else rb_buffer rb ! nat ?p)"
      using nth_blit [OF len, of "nat ?p"] by (simp add: rb_put_def rb_capacity_def nat_less_iff)
    show ?thesis
    proof (cases "int i < ?s")
      case True
      have "\<not> (?w \<le> ?p \<and> ?p < ?w + ?k)" using p wp True s r(1,2) by (auto split: if_splits)
      then have "\<not> (nat ?w \<le> nat ?p \<and> nat ?p < nat ?w + length d)" using pb(1) w0 by linarith
      then have "rb_buffer (rb_put d rb) ! nat ?p = rb_buffer rb ! nat ?p" unfolding nb by (rule if_not_P)
      then show ?thesis using True by simp
    next
      case False
      have "?p = ?w + (int i - ?s)" using p wp False i w s r(1,2) by (auto split: if_splits)
      then show ?thesis using nb False i w0 s(1) by (auto simp: nat_add_distrib nat_diff_distrib)
    qed
  qed
  show ?thesis
  proof (rule nth_equalityI)
    show "length (rb_abs (rb_put d rb)) = length (rb_abs rb @ d)" using b(4) s k by simp
    fix i
    assume "i < length (rb_abs (rb_put d rb))"
    then have i: "int i < ?s + ?k" using b(4) by simp
    then show "rb_abs (rb_put d rb) ! i = (rb_abs rb @ d) ! i"
      using at [OF i] b(1,3,4) by (auto simp: rb_abs_def nth_append nat_less_iff)
  qed
qed


lemma rb_forward_ok:
  assumes wf: "rb_wf rb" and n: "0 < n" "n \<le> rb_size rb"
  obtains rb' where "rb_forward n rb = (SUCCESS, rb')" "rb_wf rb'" "rb_capacity rb' = rb_capacity rb"
    "rb_size rb' = rb_size rb - n" "rb_abs rb' = drop (nat n) (rb_abs rb)"
proof -
  let ?rb = "rb\<lparr>rb_data_size := rb_data_size rb - n\<rparr>" and ?c = "rb_capacity rb"
  have c: "rb_capacity ?rb = ?c" "rb_size ?rb = rb_size rb - n" by (simp_all add: rb_capacity_def rb_size_def)
  have "rb_read_pos ?rb = (rb_write_pos rb - (rb_size rb - n) + ?c) mod ?c" unfolding rb_read_pos_def c by simp
  also have "\<dots> = ((rb_write_pos rb - rb_size rb + ?c) mod ?c + n) mod ?c"
    unfolding mod_add_left_eq by (simp add: algebra_simps)
  finally have r: "rb_read_pos ?rb = (rb_read_pos rb + n) mod ?c" by (simp add: rb_read_pos_def)
  have "rb_abs ?rb = drop (nat n) (rb_abs rb)"
  proof (rule nth_equalityI)
    show "length (rb_abs ?rb) = length (drop (nat n) (rb_abs rb))" using n c by simp
    fix i
    assume i: "i < length (rb_abs ?rb)"
    have "((rb_read_pos rb + n) mod ?c + int i) mod ?c = (rb_read_pos rb + int (nat n + i)) mod ?c"
      unfolding mod_add_left_eq using n by (simp add: algebra_simps)
    moreover have "nat n + i < nat (rb_size rb)" using i n c(2) by simp
    ultimately show "rb_abs ?rb ! i = drop (nat n) (rb_abs rb) ! i"
      using i n c unfolding rb_abs_def r by (simp add: nat_less_iff)
  qed
  moreover have "rb_wf ?rb" using wf n by (simp add: rb_wf_def rb_size_def rb_capacity_def)
  moreover have "rb_forward n rb = (SUCCESS, ?rb)" using n by (simp add: rb_forward_def)
  ultimately show thesis using that c by blast
qed

lemma rb_view_ok:
  assumes wf: "rb_wf rb" and s: "rb_size rb > 0"
  obtains off k where "rb_view rb = (SUCCESS, off, k)" "0 < k" "k \<le> rb_size rb"
    "\<And>n. 0 \<le> n \<Longrightarrow> n \<le> k \<Longrightarrow> rb_bytes off n rb = Some (take (nat n) (rb_abs rb))"
proof -
  let ?c = "rb_capacity rb" and ?r = "rb_read_pos rb" and ?w = "rb_write_pos rb" and ?s = "rb_size rb"
  have c: "?c > 0" "?s \<le> ?c" using wf s by (auto simp: rb_wf_def rb_size_def)
  note r = rb_read_pos_bounds [OF wf c(1)]
  have wp: "?w = (if ?r + ?s < ?c then ?r + ?s else ?r + ?s - ?c)" using ring_pos [of ?r ?c ?s] r s c by simp
  define k where "k = (if ?r < ?w then ?w - ?r else ?c - ?r)"
  have k: "0 < k" "k \<le> ?s" "?r + k \<le> ?c" using wp s c r(1,2) by (auto simp: k_def split: if_splits)
  have "rb_bytes ?r n rb = Some (take (nat n) (rb_abs rb))" if n: "0 \<le> n" "n \<le> k" for n
  proof -
    have "bslice (nat ?r) (nat n) (rb_buffer rb) = take (nat n) (rb_abs rb)"
    proof (rule nth_equalityI)
      show "length (bslice (nat ?r) (nat n) (rb_buffer rb)) = length (take (nat n) (rb_abs rb))"
        using n k r(1) by (simp add: rb_capacity_def)
      fix i
      assume "i < length (bslice (nat ?r) (nat n) (rb_buffer rb))"
      then have i: "int i < n" by (simp add: zless_nat_eq_int_zless)
      then have "(?r + int i) mod ?c = ?r + int i" using n k r(1) by (simp add: mod_pos_pos_trivial)
      then show "bslice (nat ?r) (nat n) (rb_buffer rb) ! i = take (nat n) (rb_abs rb) ! i"
        using i n k r(1) by (simp add: bslice_def rb_abs_def nat_add_distrib rb_capacity_def nat_less_iff)
    qed
    then show ?thesis using n k r(1) by (simp add: rb_bytes_def)
  qed
  moreover have "rb_view rb = (SUCCESS, ?r, k)" using s by (simp add: rb_view_def k_def Let_def)
  ultimately show thesis using that k by blast
qed

lemma rb_read_loop_ok:
  assumes "rb_wf rb" "0 \<le> rs" "rs \<le> n"
  shows "\<exists>rb'. rb_read_loop n rs out rb = Some (SUCCESS, rs + min (n - rs) (rb_size rb), out @ take (nat (n - rs)) (rb_abs rb), rb') \<and>
    rb_wf rb' \<and> rb_capacity rb' = rb_capacity rb \<and> rb_abs rb' = drop (nat (n - rs)) (rb_abs rb)"
  using assms
proof (induction n rs out rb rule: rb_read_loop.induct)
  case (1 n rs out rb)
  show ?case
  proof (cases "rs < n \<and> rb_size rb > 0")
    case False
    then have "rs = n \<or> rb_abs rb = []" using 1(3,4) by (auto simp: rb_abs_def)
    moreover have "0 \<le> rb_size rb" using 1(2) by (simp add: rb_wf_def rb_size_def)
    ultimately show ?thesis using False 1(2-4) by (subst rb_read_loop.simps) auto
  next
    case True
    obtain off k where v: "rb_view rb = (SUCCESS, off, k)" "0 < k" "k \<le> rb_size rb"
      "\<And>m. 0 \<le> m \<Longrightarrow> m \<le> k \<Longrightarrow> rb_bytes off m rb = Some (take (nat m) (rb_abs rb))"
      using rb_view_ok [OF 1(2)] True by metis
    let ?m = "min (n - rs) k"
    have m: "0 < ?m" "?m \<le> rb_size rb" "?m \<le> n - rs" using True v(2,3) by auto
    have bts: "rb_bytes off ?m rb = Some (take (nat ?m) (rb_abs rb))" using v(4) [of ?m] m by simp
    obtain rb1 where f: "rb_forward ?m rb = (SUCCESS, rb1)" "rb_wf rb1" "rb_capacity rb1 = rb_capacity rb"
      "rb_size rb1 = rb_size rb - ?m" "rb_abs rb1 = drop (nat ?m) (rb_abs rb)"
      using rb_forward_ok [OF 1(2) m(1,2)] .
    obtain rb' where IH: "rb_read_loop n (rs + ?m) (out @ take (nat ?m) (rb_abs rb)) rb1 =
        Some (SUCCESS, rs + ?m + min (n - (rs + ?m)) (rb_size rb1), (out @ take (nat ?m) (rb_abs rb)) @ take (nat (n - (rs + ?m))) (rb_abs rb1), rb')"
      "rb_wf rb'" "rb_capacity rb' = rb_capacity rb1" "rb_abs rb' = drop (nat (n - (rs + ?m))) (rb_abs rb1)"
      using 1(1) [OF True v(1) [symmetric] refl _ refl bts f(1) [symmetric] refl f(2)] 1(3) m by auto
    have sum: "nat (n - rs) = nat ?m + nat (n - (rs + ?m))" using m by (simp add: nat_add_distrib [symmetric])
    have "take (nat (n - rs)) (rb_abs rb) = take (nat ?m) (rb_abs rb) @ take (nat (n - (rs + ?m))) (drop (nat ?m) (rb_abs rb))"
      unfolding sum by (rule take_add)
    moreover have "drop (nat (n - rs)) (rb_abs rb) = drop (nat (n - (rs + ?m))) (drop (nat ?m) (rb_abs rb))"
      unfolding sum by (simp add: add.commute)
    moreover have "rs + ?m + min (n - (rs + ?m)) (rb_size rb1) = rs + min (n - rs) (rb_size rb)" using f(4) by simp
    moreover have "rb_read_loop n rs out rb = rb_read_loop n (rs + ?m) (out @ take (nat ?m) (rb_abs rb)) rb1"
      using True v(1) bts f(1) by (subst rb_read_loop.simps) (simp add: Let_def)
    ultimately show ?thesis using IH f(3,5) by simp
  qed
qed

lemma rb_write_loop_ok:
  assumes "rb_wf rb" "0 \<le> ws" "ws \<le> n" "n = int (length d)"
  shows "\<exists>rb'. rb_write_loop d n ws rb = Some (SUCCESS, ws + min (n - ws) (rb_remain rb), rb') \<and> rb_wf rb' \<and>
    rb_capacity rb' = rb_capacity rb \<and> rb_abs rb' = rb_abs rb @ take (nat (rb_remain rb)) (drop (nat ws) d)"
  using assms
proof (induction "nat (rb_remain rb)" arbitrary: ws rb rule: less_induct)
  case less
  have r0: "0 \<le> rb_remain rb" using less(2) by (simp add: rb_wf_def rb_remain_def rb_size_def)
  show ?case
  proof (cases "ws < n \<and> rb_remain rb > 0")
    case False
    then have "ws = n \<or> rb_remain rb = 0" using less(3,4) r0 by auto
    then show ?thesis using False less(2-5) r0 by (subst rb_write_loop.simps) auto
  next
    case True
    let ?c = "rb_capacity rb" and ?r = "rb_read_pos rb" and ?w = "rb_write_pos rb" and ?s = "rb_size rb"
    define t where "t = (if ?r \<le> ?w then ?c - ?w else ?r - ?w)"
    have c: "?c > 0" "0 \<le> ?s" "?s < ?c" "0 \<le> ?w" "?w < ?c" using less(2) True by (auto simp: rb_wf_def rb_remain_def rb_size_def)
    note r = rb_read_pos_bounds [OF less(2) c(1)]
    have wp: "?w = (if ?r + ?s < ?c then ?r + ?s else ?r + ?s - ?c)" using ring_pos [of ?r ?c ?s] r c by simp
    have t: "0 < t" "?w + t \<le> ?c" "t \<le> rb_remain rb" using wp c r(1,2) by (auto simp: t_def rb_remain_def split: if_splits)
    define k where "k = min (n - ws) t"
    let ?d = "bslice (nat ws) (nat k) d"
    have k: "0 < k" "k \<le> t" "ws + k \<le> n" using True t by (auto simp: k_def)
    have len: "int (length ?d) = k" using k less(3,5) by simp
    have pre: "?w + int (length ?d) \<le> ?c" "int (length ?d) \<le> rb_remain rb" using len k t by linarith+
    note pb = rb_put_basic [OF less(2) pre] and pa = rb_put_abs [OF less(2) pre]
    have rem: "rb_remain (rb_put ?d rb) = rb_remain rb - k" unfolding rb_remain_def pb(1,4) len by simp
    have step: "rb_write_loop d n ws rb = rb_write_loop d n (ws + k) (rb_put ?d rb)"
      using True k t less(3) less(5) [symmetric] c(4) len
      by (subst rb_write_loop.simps) (simp add: Let_def t_def [symmetric] k_def [symmetric] rb_put_def)
    have "nat (rb_remain (rb_put ?d rb)) < nat (rb_remain rb)" using rem k True by simp
    from less(1) [OF this pb(2) _ k(3) less(5)] less(3) k(1)
    obtain rb' where IH: "rb_write_loop d n (ws + k) (rb_put ?d rb) =
        Some (SUCCESS, ws + k + min (n - (ws + k)) (rb_remain (rb_put ?d rb)), rb')" "rb_wf rb'"
      "rb_capacity rb' = rb_capacity (rb_put ?d rb)"
      "rb_abs rb' = rb_abs (rb_put ?d rb) @ take (nat (rb_remain (rb_put ?d rb))) (drop (nat (ws + k)) d)" by auto
    have "nat (rb_remain rb) = nat k + nat (rb_remain rb - k)" "nat (ws + k) = nat k + nat ws"
      using k t less(3) by (simp_all add: nat_add_distrib [symmetric])
    then have "take (nat (rb_remain rb)) (drop (nat ws) d) = ?d @ take (nat (rb_remain rb - k)) (drop (nat (ws + k)) d)"
      by (simp add: bslice_def take_add)
    moreover have "ws + k + min (n - (ws + k)) (rb_remain rb - k) = ws + min (n - ws) (rb_remain rb)" by simp
    ultimately show ?thesis using step IH pa pb(1) rem by simp
  qed
qed


definition sample_ring :: RingBuffer where
  "sample_ring = \<lparr>rb_buffer = [3, 0, 1, 2], rb_data_size = 3, rb_write_pos = 1\<rparr>"


section \<open>The buffered writer\<close>

text \<open>
  What the peer has received from a socket, and how many times \<^verbatim>\<open>::write\<close> was called on it.  The
  outcomes of these calls are a parameter \<open>net\<close>: call number \<open>i\<close> for \<open>n\<close> bytes takes some of them,
  fails with \<^verbatim>\<open>EAGAIN\<close> or \<^verbatim>\<open>EINTR\<close>, or fails for good.
\<close>

record Socket =
  sk_out :: bytes
  sk_calls :: nat

datatype sys_write = Wrote nat | Again | Failed

type_synonym net = "nat \<Rightarrow> nat \<Rightarrow> sys_write"

record BufferedWriter =
  wr_fd :: int
  wr_buffer :: RingBuffer

definition wr_new :: "int \<Rightarrow> int \<Rightarrow> BufferedWriter" where
  "wr_new fd sz = \<lparr>wr_fd = fd, wr_buffer = rb_new sz\<rparr>"

partial_function (option) wr_send :: "net \<Rightarrow> bytes \<Rightarrow> Socket \<Rightarrow> (int \<times> Socket) option" where
  "wr_send net buf sk =
     (let calls = sk_calls sk + 1
      in case net (sk_calls sk) (length buf) of
           Wrote k \<Rightarrow>
             if min k (length buf) = 0 then wr_send net buf (sk\<lparr>sk_calls := calls\<rparr>)
             else Some (int (min k (length buf)), sk\<lparr>sk_calls := calls, sk_out := sk_out sk @ take k buf\<rparr>)
         | Again \<Rightarrow> wr_send net buf (sk\<lparr>sk_calls := calls\<rparr>)
         | Failed \<Rightarrow> Some (-1, sk\<lparr>sk_calls := calls\<rparr>))"

partial_function (option) wr_flush_loop :: "net \<Rightarrow> int \<Rightarrow> int \<Rightarrow> BufferedWriter \<Rightarrow> Socket \<Rightarrow> (RC \<times> BufferedWriter \<times> Socket) option" where
  "wr_flush_loop net sz write_size w sk =
     (if rb_size (wr_buffer w) > 0 \<and> sz > write_size then
        (case rb_view (wr_buffer w) of (rc, buf, read_size) \<Rightarrow>
           if rc \<noteq> SUCCESS then Some (rc, w, sk)
           else do {
             bs \<leftarrow> rb_bytes buf read_size (wr_buffer w);
             (tmp_write_size, sk) \<leftarrow> wr_send net bs sk;
             if tmp_write_size < 0 then Some (IOERR_WRITE, w, sk)
             else wr_flush_loop net sz (write_size + tmp_write_size)
               (w\<lparr>wr_buffer := snd (rb_forward tmp_write_size (wr_buffer w))\<rparr>) sk
           })
      else Some (SUCCESS, w, sk))"

definition wr_flush_internal :: "net \<Rightarrow> int \<Rightarrow> BufferedWriter \<Rightarrow> Socket \<Rightarrow> (RC \<times> BufferedWriter \<times> Socket) option" where
  "wr_flush_internal net sz w sk =
     (if wr_fd w < 0 then Some (INVALID_ARGUMENT, w, sk) else wr_flush_loop net sz 0 w sk)"

partial_function (option) wr_flush_all :: "net \<Rightarrow> BufferedWriter \<Rightarrow> Socket \<Rightarrow> (RC \<times> BufferedWriter \<times> Socket) option" where
  "wr_flush_all net w sk =
     (if rb_size (wr_buffer w) > 0 then do {
        (rc, w, sk) \<leftarrow> wr_flush_internal net (rb_size (wr_buffer w)) w sk;
        if rc = SUCCESS then wr_flush_all net w sk else Some (rc, w, sk)
      } else Some (SUCCESS, w, sk))"

definition wr_flush :: "net \<Rightarrow> BufferedWriter \<Rightarrow> Socket \<Rightarrow> (RC \<times> BufferedWriter \<times> Socket) option" where
  "wr_flush net w sk = (if wr_fd w < 0 then Some (INVALID_ARGUMENT, w, sk) else wr_flush_all net w sk)"

definition wr_close :: "net \<Rightarrow> BufferedWriter \<Rightarrow> Socket \<Rightarrow> (RC \<times> BufferedWriter \<times> Socket) option" where
  "wr_close net w sk =
     (if wr_fd w < 0 then Some (SUCCESS, w, sk)
      else do {
        (rc, w, sk) \<leftarrow> wr_flush net w sk;
        if rc \<noteq> SUCCESS then Some (rc, w, sk) else Some (SUCCESS, w\<lparr>wr_fd := -1\<rparr>, sk)
      })"

definition wr_write :: "net \<Rightarrow> bytes \<Rightarrow> int \<Rightarrow> int \<Rightarrow> BufferedWriter \<Rightarrow> Socket \<Rightarrow> (RC \<times> int \<times> BufferedWriter \<times> Socket) option" where
  "wr_write net data sz write_size w sk =
     (if wr_fd w < 0 then Some (INVALID_ARGUMENT, write_size, w, sk)
      else do {
        (rc, w, sk) \<leftarrow> (if rb_remain (wr_buffer w) = 0 then wr_flush_internal net sz w sk else Some (SUCCESS, w, sk));
        if rc \<noteq> SUCCESS then Some (rc, write_size, w, sk)
        else do {
          (rc, write_size, rb) \<leftarrow> rb_write data sz write_size (wr_buffer w);
          Some (rc, write_size, w\<lparr>wr_buffer := rb\<rparr>, sk)
        }
      })"

partial_function (option) wr_writen_loop :: "net \<Rightarrow> bytes \<Rightarrow> int \<Rightarrow> int \<Rightarrow> BufferedWriter \<Rightarrow> Socket \<Rightarrow> (RC \<times> BufferedWriter \<times> Socket) option" where
  "wr_writen_loop net data sz write_size w sk =
     (if write_size < sz then do {
        (rc, tmp_write_size, w, sk) \<leftarrow> wr_write net (drop (nat write_size) data) (sz - write_size) 0 w sk;
        if rc \<noteq> SUCCESS then Some (rc, w, sk)
        else wr_writen_loop net data sz (write_size + tmp_write_size) w sk
      } else Some (SUCCESS, w, sk))"

definition wr_writen :: "net \<Rightarrow> bytes \<Rightarrow> int \<Rightarrow> BufferedWriter \<Rightarrow> Socket \<Rightarrow> (RC \<times> BufferedWriter \<times> Socket) option" where
  "wr_writen net data sz w sk =
     (if wr_fd w < 0 then Some (INVALID_ARGUMENT, w, sk) else wr_writen_loop net data sz 0 w sk)"

subsection \<open>Nothing is lost, repeated or reordered\<close>

text \<open>The bytes a writer has taken so far: those the peer has and those still in the ring.\<close>

definition wr_stream :: "BufferedWriter \<Rightarrow> Socket \<Rightarrow> bytes" where
  "wr_stream w sk = sk_out sk @ rb_abs (wr_buffer w)"

definition wr_ok :: "BufferedWriter \<Rightarrow> bool" where
  "wr_ok w \<longleftrightarrow> wr_fd w \<ge> 0 \<and> rb_wf (wr_buffer w) \<and> rb_capacity (wr_buffer w) > 0"

text \<open>A network that goes on: no call fails for good, and again and again one takes some bytes.\<close>

definition net_fair :: "net \<Rightarrow> bool" where
  "net_fair net \<longleftrightarrow> (\<forall>i n. net i n \<noteq> Failed) \<and> (\<forall>i. \<exists>j \<ge> i. \<forall>n. \<exists>k > 0. net j n = Wrote k)"

lemma wr_send_result:
  assumes "wr_send net buf sk = Some y"
  shows "(fst y < 0 \<and> sk_out (snd y) = sk_out sk \<and> (\<exists>i n. net i n = Failed)) \<or>
    (0 < fst y \<and> fst y \<le> int (length buf) \<and> sk_out (snd y) = sk_out sk @ take (nat (fst y)) buf)"
proof (rule wr_send.raw_induct [OF _ assms])
  fix f :: "net \<Rightarrow> bytes \<Rightarrow> Socket \<Rightarrow> (int \<times> Socket) option" and net buf sk y
  assume IH: "\<And>net buf sk y. f net buf sk = Some y \<Longrightarrow>
      (fst y < 0 \<and> sk_out (snd y) = sk_out sk \<and> (\<exists>i n. net i n = Failed)) \<or>
      (0 < fst y \<and> fst y \<le> int (length buf) \<and> sk_out (snd y) = sk_out sk @ take (nat (fst y)) buf)"
    and body: "(let calls = sk_calls sk + 1
      in case net (sk_calls sk) (length buf) of
           Wrote k \<Rightarrow>
             if min k (length buf) = 0 then f net buf (sk\<lparr>sk_calls := calls\<rparr>)
             else Some (int (min k (length buf)), sk\<lparr>sk_calls := calls, sk_out := sk_out sk @ take k buf\<rparr>)
         | Again \<Rightarrow> f net buf (sk\<lparr>sk_calls := calls\<rparr>)
         | Failed \<Rightarrow> Some (-1, sk\<lparr>sk_calls := calls\<rparr>)) = Some y"
  show "(fst y < 0 \<and> sk_out (snd y) = sk_out sk \<and> (\<exists>i n. net i n = Failed)) \<or>
      (0 < fst y \<and> fst y \<le> int (length buf) \<and> sk_out (snd y) = sk_out sk @ take (nat (fst y)) buf)"
  proof (cases "net (sk_calls sk) (length buf)")
    case (Wrote k)
    then show ?thesis using body IH [of net buf "sk\<lparr>sk_calls := sk_calls sk + 1\<rparr>" y]
      by (cases "min k (length buf) = 0") (auto simp: Let_def min_def split: if_splits)
  next
    case Again
    then show ?thesis using body IH [of net buf "sk\<lparr>sk_calls := sk_calls sk + 1\<rparr>" y] by (simp add: Let_def)
  next
    case Failed
    then show ?thesis using body by (auto simp: Let_def)
  qed
qed

text \<open>What a step of the writer that takes the bytes \<open>p\<close> keeps, whatever the network does: the
  stream of bytes, the ring, and the reason for a failure.\<close>

definition wr_kept :: "net \<Rightarrow> BufferedWriter \<Rightarrow> Socket \<Rightarrow> bytes \<Rightarrow> RC \<times> BufferedWriter \<times> Socket \<Rightarrow> bool" where
  "wr_kept net w sk p = (\<lambda>(rc, w', sk').
     wr_ok w' \<and> rb_capacity (wr_buffer w') = rb_capacity (wr_buffer w) \<and> wr_stream w' sk' = wr_stream w sk @ p \<and>
     (rc = SUCCESS \<or> rc = IOERR_WRITE \<and> (\<exists>i n. net i n = Failed)))"

definition wr_flushed :: "net \<Rightarrow> int \<Rightarrow> int \<Rightarrow> BufferedWriter \<Rightarrow> Socket \<Rightarrow> RC \<times> BufferedWriter \<times> Socket \<Rightarrow> bool" where
  "wr_flushed net sz ws w sk y \<longleftrightarrow> wr_kept net w sk [] y \<and> (case y of (rc, w', sk') \<Rightarrow>
     rc = SUCCESS \<longrightarrow> rb_size (wr_buffer w') = 0 \<or> rb_size (wr_buffer w) - rb_size (wr_buffer w') \<ge> sz - ws)"

lemma wr_flush_step:
  assumes ok: "wr_ok w" and s: "rb_size (wr_buffer w) > 0"
  obtains off n bs where "rb_view (wr_buffer w) = (SUCCESS, off, n)" "rb_bytes off n (wr_buffer w) = Some bs" "bs \<noteq> []"
    "\<And>k. 0 < k \<Longrightarrow> k \<le> int (length bs) \<Longrightarrow> \<exists>rb. rb_forward k (wr_buffer w) = (SUCCESS, rb) \<and> wr_ok (w\<lparr>wr_buffer := rb\<rparr>) \<and>
       rb_capacity rb = rb_capacity (wr_buffer w) \<and> rb_size rb = rb_size (wr_buffer w) - k \<and>
       take (nat k) bs @ rb_abs rb = rb_abs (wr_buffer w)"
proof -
  have wf: "rb_wf (wr_buffer w)" using ok by (simp add: wr_ok_def)
  obtain off n where v: "rb_view (wr_buffer w) = (SUCCESS, off, n)" "0 < n" "n \<le> rb_size (wr_buffer w)"
    "\<And>m. 0 \<le> m \<Longrightarrow> m \<le> n \<Longrightarrow> rb_bytes off m (wr_buffer w) = Some (take (nat m) (rb_abs (wr_buffer w)))"
    using rb_view_ok [OF wf s] by metis
  let ?bs = "take (nat n) (rb_abs (wr_buffer w))"
  have len: "int (length ?bs) = n" using v(2,3) by simp
  have A: "\<exists>rb. rb_forward k (wr_buffer w) = (SUCCESS, rb) \<and> wr_ok (w\<lparr>wr_buffer := rb\<rparr>) \<and>
       rb_capacity rb = rb_capacity (wr_buffer w) \<and> rb_size rb = rb_size (wr_buffer w) - k \<and>
       take (nat k) ?bs @ rb_abs rb = rb_abs (wr_buffer w)" if k: "0 < k" "k \<le> int (length ?bs)" for k
  proof -
    have kn: "k \<le> n" "k \<le> rb_size (wr_buffer w)" using k len v(3) by linarith+
    obtain rb where "rb_forward k (wr_buffer w) = (SUCCESS, rb)" "rb_wf rb" "rb_capacity rb = rb_capacity (wr_buffer w)"
      "rb_size rb = rb_size (wr_buffer w) - k" "rb_abs rb = drop (nat k) (rb_abs (wr_buffer w))"
      using rb_forward_ok [OF wf k(1) kn(2)] .
    then show ?thesis using ok kn(1) by (auto simp: wr_ok_def min_absorb1)
  qed
  have ne: "?bs \<noteq> []"
  proof
    assume "?bs = []"
    then show False using len v(2) by (simp only: list.size)
  qed
  show thesis by (rule that [OF v(1) _ ne A]) (use v(4) [of n] v(2) in simp_all)
qed

lemma wr_flush_loop_result:
  assumes "wr_flush_loop net sz ws w sk = Some y"
  shows "wr_ok w \<longrightarrow> wr_flushed net sz ws w sk y"
proof (rule wr_flush_loop.raw_induct [OF _ assms])
  fix f :: "net \<Rightarrow> int \<Rightarrow> int \<Rightarrow> BufferedWriter \<Rightarrow> Socket \<Rightarrow> (RC \<times> BufferedWriter \<times> Socket) option" and net sz ws w sk y
  assume IH: "\<And>net sz ws w sk y. f net sz ws w sk = Some y \<Longrightarrow> wr_ok w \<longrightarrow> wr_flushed net sz ws w sk y"
    and body: "(if rb_size (wr_buffer w) > 0 \<and> sz > ws then
        (case rb_view (wr_buffer w) of (rc, buf, read_size) \<Rightarrow>
           if rc \<noteq> SUCCESS then Some (rc, w, sk)
           else do {
             bs \<leftarrow> rb_bytes buf read_size (wr_buffer w);
             (tmp_write_size, sk) \<leftarrow> wr_send net bs sk;
             if tmp_write_size < 0 then Some (IOERR_WRITE, w, sk)
             else f net sz (ws + tmp_write_size) (w\<lparr>wr_buffer := snd (rb_forward tmp_write_size (wr_buffer w))\<rparr>) sk
           })
      else Some (SUCCESS, w, sk)) = Some y"
  show "wr_ok w \<longrightarrow> wr_flushed net sz ws w sk y"
  proof
    assume ok: "wr_ok w"
    show "wr_flushed net sz ws w sk y"
    proof (cases "rb_size (wr_buffer w) > 0 \<and> sz > ws")
      case False
      moreover have "rb_size (wr_buffer w) \<ge> 0" using ok by (simp add: wr_ok_def rb_wf_def rb_size_def)
      ultimately show ?thesis using body ok by (auto simp: wr_flushed_def wr_kept_def)
    next
      case True
      obtain off n bs where v: "rb_view (wr_buffer w) = (SUCCESS, off, n)" "rb_bytes off n (wr_buffer w) = Some bs" "bs \<noteq> []"
        "\<And>k. 0 < k \<Longrightarrow> k \<le> int (length bs) \<Longrightarrow> \<exists>rb. rb_forward k (wr_buffer w) = (SUCCESS, rb) \<and> wr_ok (w\<lparr>wr_buffer := rb\<rparr>) \<and>
           rb_capacity rb = rb_capacity (wr_buffer w) \<and> rb_size rb = rb_size (wr_buffer w) - k \<and>
           take (nat k) bs @ rb_abs rb = rb_abs (wr_buffer w)"
        using wr_flush_step [OF ok] True by metis
      obtain k sk1 where w: "wr_send net bs sk = Some (k, sk1)"
        using body True v(1,2) by (cases "wr_send net bs sk") auto
      show ?thesis
      proof (cases "k < 0")
        case neg: True
        have "y = (IOERR_WRITE, w, sk1)" using body True v(1,2) w neg by simp
        then show ?thesis using wr_send_result [OF w] ok neg by (auto simp: wr_flushed_def wr_kept_def wr_stream_def rc_defs)
      next
        case False
        then have k: "0 < k" "k \<le> int (length bs)" "sk_out sk1 = sk_out sk @ take (nat k) bs"
          using wr_send_result [OF w] by auto
        obtain rb where rb: "rb_forward k (wr_buffer w) = (SUCCESS, rb)" "wr_ok (w\<lparr>wr_buffer := rb\<rparr>)"
          "rb_capacity rb = rb_capacity (wr_buffer w)" "rb_size rb = rb_size (wr_buffer w) - k"
          "take (nat k) bs @ rb_abs rb = rb_abs (wr_buffer w)"
          using v(4) [OF k(1,2)] by blast
        have "f net sz (ws + k) (w\<lparr>wr_buffer := rb\<rparr>) sk1 = Some y" using body True v(1,2) w False rb(1) by simp
        from IH [OF this] rb(2-5) k(3) show ?thesis by (auto simp: wr_flushed_def wr_kept_def wr_stream_def)
      qed
    qed
  qed
qed

lemma wr_flush_internal_result:
  assumes "wr_ok w" "wr_flush_internal net sz w sk = Some y"
  shows "wr_flushed net sz 0 w sk y"
  using assms wr_flush_loop_result [of net sz 0 w sk y] by (auto simp: wr_flush_internal_def wr_ok_def split: if_splits)

lemma wr_flush_result:
  assumes ok: "wr_ok w" and f: "wr_flush net w sk = Some y"
  shows "wr_kept net w sk [] y \<and> (fst y = SUCCESS \<longrightarrow> rb_size (wr_buffer (fst (snd y))) = 0)"
proof (cases "rb_size (wr_buffer w) > 0")
  case False
  moreover have "rb_size (wr_buffer w) \<ge> 0" using ok by (simp add: wr_ok_def rb_wf_def rb_size_def)
  moreover have "wr_flush net w sk = Some (SUCCESS, w, sk)"
    using False ok by (simp add: wr_flush_def wr_ok_def) (subst wr_flush_all.simps, simp)
  ultimately show ?thesis using f ok by (auto simp: wr_kept_def)
next
  case True
  have "wr_flush_all net w sk = Some y" using f ok by (simp add: wr_flush_def wr_ok_def)
  then obtain rc w1 sk1 where i: "wr_flush_internal net (rb_size (wr_buffer w)) w sk = Some (rc, w1, sk1)"
      "(if rc = SUCCESS then wr_flush_all net w1 sk1 else Some (rc, w1, sk1)) = Some y"
    using True by (subst (asm) wr_flush_all.simps) (auto split: bind_splits)
  note fl = wr_flush_internal_result [OF ok i(1)]
  show ?thesis
  proof (cases "rc = SUCCESS")
    case False
    then show ?thesis using i(2) fl by (auto simp: wr_flushed_def)
  next
    case s: True
    have "rb_size (wr_buffer w1) \<ge> 0" using fl by (simp add: wr_flushed_def wr_kept_def wr_ok_def rb_wf_def rb_size_def)
    then have z: "rb_size (wr_buffer w1) = 0" using fl s by (auto simp: wr_flushed_def)
    then have "y = (SUCCESS, w1, sk1)" using i(2) s by (subst (asm) wr_flush_all.simps) simp
    then show ?thesis using fl s z by (simp add: wr_flushed_def)
  qed
qed

lemma wr_kept_trans: "wr_kept net w sk p (rc, w1, sk1) \<Longrightarrow> wr_kept net w1 sk1 q y \<Longrightarrow> wr_kept net w sk (p @ q) y"
  by (auto simp: wr_kept_def)

lemma wr_write_result:
  assumes ok: "wr_ok w" and w: "wr_write net d (int (length d)) 0 w sk = Some (rc, n, w', sk')"
  shows "\<exists>m. n = int m \<and> m \<le> length d \<and> wr_kept net w sk (take m d) (rc, w', sk') \<and> (rc = SUCCESS \<and> d \<noteq> [] \<longrightarrow> 0 < m)"
proof -
  let ?fl = "if rb_remain (wr_buffer w) = 0 then wr_flush_internal net (int (length d)) w sk else Some (SUCCESS, w, sk)"
  have fd: "\<not> wr_fd w < 0" using ok by (simp add: wr_ok_def)
  obtain rc1 w1 sk1 where f: "?fl = Some (rc1, w1, sk1)" using w fd by (cases ?fl) (auto simp: wr_write_def)
  have k: "wr_kept net w sk [] (rc1, w1, sk1) \<and> (rc1 = SUCCESS \<and> d \<noteq> [] \<longrightarrow> rb_remain (wr_buffer w1) > 0)"
  proof (cases "rb_remain (wr_buffer w) = 0")
    case True
    then have "wr_flushed net (int (length d)) 0 w sk (rc1, w1, sk1)" using f wr_flush_internal_result [OF ok] by simp
    then show ?thesis using True ok by (cases d) (auto simp: wr_flushed_def wr_kept_def wr_ok_def rb_remain_def)
  next
    case False
    then show ?thesis using f ok by (auto simp: wr_kept_def wr_ok_def rb_wf_def rb_remain_def rb_size_def)
  qed
  show ?thesis
  proof (cases "rc1 = SUCCESS")
    case False
    then have "n = 0 \<and> rc = rc1 \<and> w' = w1 \<and> sk' = sk1" using w f fd by (simp add: wr_write_def)
    then show ?thesis using k False by (auto intro: exI [of _ 0])
  next
    case True
    have wf: "rb_wf (wr_buffer w1)" using k by (simp add: wr_kept_def wr_ok_def)
    let ?m = "nat (min (int (length d)) (rb_remain (wr_buffer w1)))"
    have r0: "0 \<le> rb_remain (wr_buffer w1)" using wf by (simp add: rb_wf_def rb_remain_def rb_size_def)
    obtain rb where r: "rb_write d (int (length d)) 0 (wr_buffer w1) = Some (SUCCESS, int ?m, rb)" "rb_wf rb"
      "rb_capacity rb = rb_capacity (wr_buffer w1)" "rb_abs rb = rb_abs (wr_buffer w1) @ take ?m d"
      using rb_write_loop_ok [OF wf, of 0 "int (length d)" d] r0 by (auto simp: rb_write_def min_def)
    then have "rc = SUCCESS" "n = int ?m" "w' = w1\<lparr>wr_buffer := rb\<rparr>" "sk' = sk1" using w f fd True by (simp_all add: wr_write_def)
    then show ?thesis using r k True r0 by (intro exI [of _ ?m]) (auto simp: wr_kept_def wr_ok_def wr_stream_def)
  qed
qed

lemma wr_writen_loop_result:
  assumes "wr_writen_loop net d n ws w sk = Some y"
  shows "wr_ok w \<and> 0 \<le> ws \<and> ws \<le> n \<and> n = int (length d) \<longrightarrow>
    (\<exists>m \<le> length d - nat ws. wr_kept net w sk (take m (drop (nat ws) d)) y \<and> (fst y = SUCCESS \<longrightarrow> m = length d - nat ws))"
proof (rule wr_writen_loop.raw_induct [OF _ assms])
  fix f :: "net \<Rightarrow> bytes \<Rightarrow> int \<Rightarrow> int \<Rightarrow> BufferedWriter \<Rightarrow> Socket \<Rightarrow> (RC \<times> BufferedWriter \<times> Socket) option" and net d n ws w sk y
  let ?R = "\<lambda>net d n ws w sk y. wr_ok w \<and> 0 \<le> ws \<and> ws \<le> n \<and> n = int (length d) \<longrightarrow>
    (\<exists>m \<le> length d - nat ws. wr_kept net w sk (take m (drop (nat ws) d)) y \<and> (fst y = SUCCESS \<longrightarrow> m = length d - nat ws))"
  assume IH: "\<And>net d n ws w sk y. f net d n ws w sk = Some y \<Longrightarrow> ?R net d n ws w sk y"
    and body: "(if ws < n then do {
        (rc, tmp_write_size, w, sk) \<leftarrow> wr_write net (drop (nat ws) d) (n - ws) 0 w sk;
        if rc \<noteq> SUCCESS then Some (rc, w, sk) else f net d n (ws + tmp_write_size) w sk
      } else Some (SUCCESS, w, sk)) = Some y"
  show "?R net d n ws w sk y"
  proof (intro impI, elim conjE)
    assume ok: "wr_ok w" and ws: "0 \<le> ws" "ws \<le> n" and n: "n = int (length d)"
    let ?d = "drop (nat ws) d"
    show "\<exists>m \<le> length d - nat ws. wr_kept net w sk (take m ?d) y \<and> (fst y = SUCCESS \<longrightarrow> m = length d - nat ws)"
    proof (cases "ws < n")
      case False
      then show ?thesis using body ok ws n by (auto simp: wr_kept_def)
    next
      case True
      have len: "n - ws = int (length ?d)" using ws n by simp
      obtain rc t w1 sk1 where w: "wr_write net ?d (int (length ?d)) 0 w sk = Some (rc, t, w1, sk1)"
          "(if rc \<noteq> SUCCESS then Some (rc, w1, sk1) else f net d n (ws + t) w1 sk1) = Some y"
        using body True unfolding len by (auto split: bind_splits)
      obtain m where m: "t = int m" "m \<le> length ?d" "wr_kept net w sk (take m ?d) (rc, w1, sk1)"
        using wr_write_result [OF ok w(1)] by blast
      show ?thesis
      proof (cases "rc = SUCCESS")
        case False
        then show ?thesis using w(2) m by (intro exI [of _ m]) auto
      next
        case s: True
        have pre: "wr_ok w1 \<and> 0 \<le> ws + t \<and> ws + t \<le> n \<and> n = int (length d)"
          using m ws n by (auto simp: wr_kept_def)
        obtain m' where m': "m' \<le> length d - nat (ws + t)" "wr_kept net w1 sk1 (take m' (drop (nat (ws + t)) d)) y"
          "fst y = SUCCESS \<longrightarrow> m' = length d - nat (ws + t)"
          using IH [of net d n "ws + t" w1 sk1 y] w(2) s pre by auto
        have e: "nat (ws + t) = m + nat ws" using m(1) ws by simp
        have "take (m + m') ?d = take m ?d @ take m' (drop (nat (ws + t)) d)" by (simp add: e take_add)
        then have "wr_kept net w sk (take (m + m') ?d) y" using wr_kept_trans [OF m(3) m'(2)] by simp
        moreover have L: "m \<le> length d - nat ws" using m(2) by simp
        then have "m + m' \<le> length d - nat ws" using m'(1) e by arith
        moreover have "fst y = SUCCESS \<longrightarrow> m + m' = length d - nat ws" using L m'(3) e by arith
        ultimately show ?thesis by blast
      qed
    qed
  qed
qed

subsection \<open>Every byte arrives\<close>

lemma wr_send_returns:
  assumes fair: "net_fair net" and buf: "buf \<noteq> []"
  shows "\<exists>y. wr_send net buf sk = Some y"
proof -
  obtain j where j: "j \<ge> sk_calls sk" "\<forall>n. \<exists>k > 0. net j n = Wrote k" using fair unfolding net_fair_def by blast
  then show ?thesis
  proof (induction "j - sk_calls sk" arbitrary: sk rule: less_induct)
    case less
    let ?sk = "sk\<lparr>sk_calls := sk_calls sk + 1\<rparr>"
    show ?case
    proof (cases "sk_calls sk = j")
      case True
      obtain k where "net (sk_calls sk) (length buf) = Wrote k" "k > 0" using less(3) True by blast
      then show ?thesis using buf by (subst wr_send.simps) (simp add: Let_def min_def)
    next
      case False
      then have "\<exists>y. wr_send net buf ?sk = Some y" using less(1) [of ?sk] less(2,3) by auto
      then show ?thesis
        by (subst wr_send.simps) (cases "net (sk_calls sk) (length buf)", auto simp: Let_def)
    qed
  qed
qed

lemma wr_flush_loop_returns:
  assumes fair: "net_fair net" and ok: "wr_ok w"
  shows "\<exists>y. wr_flush_loop net n ws w sk = Some y"
  using ok
proof (induction "nat (rb_size (wr_buffer w))" arbitrary: w ws sk rule: less_induct)
  case less
  show ?case
  proof (cases "rb_size (wr_buffer w) > 0 \<and> n > ws")
    case False
    then show ?thesis by (subst wr_flush_loop.simps) auto
  next
    case True
    obtain off m bs where v: "rb_view (wr_buffer w) = (SUCCESS, off, m)" "rb_bytes off m (wr_buffer w) = Some bs" "bs \<noteq> []"
      "\<And>k. 0 < k \<Longrightarrow> k \<le> int (length bs) \<Longrightarrow> \<exists>rb. rb_forward k (wr_buffer w) = (SUCCESS, rb) \<and> wr_ok (w\<lparr>wr_buffer := rb\<rparr>) \<and>
         rb_capacity rb = rb_capacity (wr_buffer w) \<and> rb_size rb = rb_size (wr_buffer w) - k \<and>
         take (nat k) bs @ rb_abs rb = rb_abs (wr_buffer w)"
      using wr_flush_step [OF less(2)] True by metis
    obtain k sk1 where s: "wr_send net bs sk = Some (k, sk1)" using wr_send_returns [OF fair v(3)] by (metis surj_pair)
    have "\<not> (\<exists>i n. net i n = Failed)" using fair by (simp add: net_fair_def)
    then have k: "0 < k" "k \<le> int (length bs)" using wr_send_result [OF s] by auto
    obtain rb where rb: "rb_forward k (wr_buffer w) = (SUCCESS, rb)" "wr_ok (w\<lparr>wr_buffer := rb\<rparr>)"
      "rb_size rb = rb_size (wr_buffer w) - k"
      using v(4) [OF k] by blast
    have "\<exists>y. wr_flush_loop net n (ws + k) (w\<lparr>wr_buffer := rb\<rparr>) sk1 = Some y"
      by (rule less(1)) (use rb k True in auto)
    then show ?thesis using True v(1,2) s k(1) rb(1) by (subst wr_flush_loop.simps) simp
  qed
qed

lemma wr_flush_internal_returns: "net_fair net \<Longrightarrow> wr_ok w \<Longrightarrow> \<exists>y. wr_flush_internal net n w sk = Some y"
  using wr_flush_loop_returns [of net w n 0 sk] by (simp add: wr_flush_internal_def wr_ok_def)

lemma wr_kept_fair: "net_fair net \<Longrightarrow> wr_kept net w sk p (rc, w', sk') \<Longrightarrow> rc = SUCCESS \<and> wr_ok w'"
  by (auto simp: wr_kept_def net_fair_def)

lemma wr_flush_returns:
  assumes fair: "net_fair net" and ok: "wr_ok w"
  shows "\<exists>y. wr_flush net w sk = Some y"
proof (cases "rb_size (wr_buffer w) > 0")
  case False
  then show ?thesis using ok by (simp add: wr_flush_def wr_ok_def) (subst wr_flush_all.simps, simp)
next
  case True
  obtain rc w1 sk1 where f: "wr_flush_internal net (rb_size (wr_buffer w)) w sk = Some (rc, w1, sk1)"
    using wr_flush_internal_returns [OF fair ok] by (metis surj_pair)
  note fl = wr_flush_internal_result [OF ok f]
  then have k: "wr_kept net w sk [] (rc, w1, sk1)" by (simp add: wr_flushed_def)
  have rc: "rc = SUCCESS" "wr_ok w1" using wr_kept_fair [OF fair k] by simp_all
  then have "rb_size (wr_buffer w1) = 0" using fl by (auto simp: wr_flushed_def wr_ok_def rb_wf_def rb_size_def)
  then have "wr_flush_all net w1 sk1 = Some (SUCCESS, w1, sk1)" by (subst wr_flush_all.simps) simp
  then have "wr_flush_all net w sk = Some (SUCCESS, w1, sk1)" using True f rc by (subst wr_flush_all.simps) simp
  then show ?thesis using ok by (simp add: wr_flush_def wr_ok_def)
qed

lemma wr_write_returns:
  assumes fair: "net_fair net" and ok: "wr_ok w"
  shows "\<exists>y. wr_write net d (int (length d)) 0 w sk = Some y"
proof -
  let ?fl = "if rb_remain (wr_buffer w) = 0 then wr_flush_internal net (int (length d)) w sk else Some (SUCCESS, w, sk)"
  have "\<exists>y. ?fl = Some y" using wr_flush_internal_returns [OF fair ok] by simp
  then obtain rc1 w1 sk1 where f: "?fl = Some (rc1, w1, sk1)" by (metis surj_pair)
  have "wr_ok w1" using f ok wr_flush_internal_result [OF ok] by (auto simp: wr_flushed_def wr_kept_def split: if_splits)
  then have "\<exists>y. rb_write d (int (length d)) 0 (wr_buffer w1) = Some y"
    using rb_write_loop_ok [of "wr_buffer w1" 0 "int (length d)" d] by (auto simp: rb_write_def wr_ok_def)
  then show ?thesis using f ok by (auto simp: wr_write_def wr_ok_def)
qed

lemma wr_writen_loop_returns:
  assumes fair: "net_fair net" and "wr_ok w" "0 \<le> ws" "ws \<le> int (length d)"
  shows "\<exists>y. wr_writen_loop net d (int (length d)) ws w sk = Some y"
  using assms(2-)
proof (induction "nat (int (length d) - ws)" arbitrary: ws w sk rule: less_induct)
  case less
  show ?case
  proof (cases "ws < int (length d)")
    case False
    then show ?thesis by (subst wr_writen_loop.simps) simp
  next
    case True
    let ?d = "drop (nat ws) d"
    have len: "int (length d) - ws = int (length ?d)" "?d \<noteq> []" using less(3,4) True by auto
    obtain rc t w1 sk1 where w: "wr_write net ?d (int (length ?d)) 0 w sk = Some (rc, t, w1, sk1)"
      using wr_write_returns [OF fair less(2), of ?d sk] by (metis surj_pair)
    obtain m where m: "t = int m" "m \<le> length ?d" "wr_kept net w sk (take m ?d) (rc, w1, sk1)" "rc = SUCCESS \<and> ?d \<noteq> [] \<longrightarrow> 0 < m"
      using wr_write_result [OF less(2) w] by blast
    have rc: "rc = SUCCESS" "wr_ok w1" using wr_kept_fair [OF fair m(3)] by simp_all
    have "\<exists>y. wr_writen_loop net d (int (length d)) (ws + t) w1 sk1 = Some y"
      by (rule less(1)) (use m rc len less(3,4) in auto)
    then show ?thesis using True w rc(1) len(1) by (subst wr_writen_loop.simps) simp
  qed
qed

lemma wr_writen_fair:
  assumes fair: "net_fair net" and ok: "wr_ok w"
  obtains w' sk' where "wr_writen net bs (int (length bs)) w sk = Some (SUCCESS, w', sk')" "wr_ok w'"
    "wr_stream w' sk' = wr_stream w sk @ bs"
proof -
  obtain rc w' sk' where r: "wr_writen net bs (int (length bs)) w sk = Some (rc, w', sk')"
    using wr_writen_loop_returns [OF fair ok order_refl, of bs sk] ok by (auto simp: wr_writen_def wr_ok_def)
  obtain n where n: "wr_kept net w sk (take n bs) (rc, w', sk')" "rc = SUCCESS \<longrightarrow> n = length bs"
    using wr_writen_loop_result [of net bs "int (length bs)" 0 w sk "(rc, w', sk')"] r ok by (auto simp: wr_writen_def wr_ok_def)
  have "rc = SUCCESS" "wr_ok w'" using wr_kept_fair [OF fair n(1)] by simp_all
  then show thesis using that r n by (simp add: wr_kept_def)
qed

lemma wr_flush_fair:
  assumes fair: "net_fair net" and ok: "wr_ok w"
  obtains w' sk' where "wr_flush net w sk = Some (SUCCESS, w', sk')" "wr_ok w'" "sk_out sk' = wr_stream w sk" "wr_stream w' sk' = wr_stream w sk"
proof -
  obtain rc w' sk' where f: "wr_flush net w sk = Some (rc, w', sk')" using wr_flush_returns [OF fair ok, of sk] by (metis surj_pair)
  note r = wr_flush_result [OF ok f]
  have k: "wr_kept net w sk [] (rc, w', sk')" using r by simp
  have rc: "rc = SUCCESS" "wr_ok w'" using wr_kept_fair [OF fair k] by simp_all
  then have "sk_out sk' = wr_stream w sk" using r by (auto simp: wr_kept_def wr_stream_def rb_abs_def)
  then show thesis using that f rc k by (simp add: wr_kept_def)
qed

text \<open>
  C8. A buffered writer delivers its stream.  For any behaviour of the socket, when \<^verbatim>\<open>writen\<close> and a
  following \<^verbatim>\<open>flush\<close> return, what the peer has received and what is still in the ring is what was there
  before followed by a prefix of the data; an error is \<^verbatim>\<open>IOERR_WRITE\<close> and comes from a failed call.
  When no call fails for good and again and again one makes progress, both return, report success, and
  the peer has received all data in order.
\<close>

theorem buffered_writer_delivers:
  assumes ok: "wr_ok w"
  shows "(wr_writen net d (int (length d)) w sk = Some (rc, w1, sk1) \<longrightarrow>
      (\<exists>m \<le> length d. wr_stream w1 sk1 = wr_stream w sk @ take m d \<and> (rc = SUCCESS \<longrightarrow> m = length d)) \<and>
      (rc = SUCCESS \<or> rc = IOERR_WRITE \<and> (\<exists>i n. net i n = Failed)) \<and>
      (wr_flush net w1 sk1 = Some (rc', w2, sk2) \<longrightarrow>
        wr_stream w2 sk2 = wr_stream w1 sk1 \<and> (rc' = SUCCESS \<longrightarrow> sk_out sk2 = wr_stream w1 sk1))) \<and>
    (net_fair net \<longrightarrow> (\<exists>w1 sk1 w2 sk2. wr_writen net d (int (length d)) w sk = Some (SUCCESS, w1, sk1) \<and>
      wr_flush net w1 sk1 = Some (SUCCESS, w2, sk2) \<and> sk_out sk2 = wr_stream w sk @ d))"
proof -
  have wn: "\<exists>m \<le> length d. wr_kept net w sk (take m d) y \<and> (fst y = SUCCESS \<longrightarrow> m = length d)"
    if "wr_writen net d (int (length d)) w sk = Some y" for y
    using that ok wr_writen_loop_result [of net d "int (length d)" 0 w sk y] by (simp add: wr_writen_def wr_ok_def)
  have fl: "wr_stream w2 sk2 = wr_stream w1 sk1 \<and> (rc' = SUCCESS \<longrightarrow> sk_out sk2 = wr_stream w1 sk1) \<and> (net_fair net \<longrightarrow> rc' = SUCCESS)"
    if "wr_ok w1" "wr_flush net w1 sk1 = Some (rc', w2, sk2)" for w1 sk1 rc' w2 sk2
    using wr_flush_result [OF that] by (auto simp: wr_kept_def wr_stream_def net_fair_def rb_abs_def)
  have "\<exists>w1 sk1 w2 sk2. wr_writen net d (int (length d)) w sk = Some (SUCCESS, w1, sk1) \<and>
      wr_flush net w1 sk1 = Some (SUCCESS, w2, sk2) \<and> sk_out sk2 = wr_stream w sk @ d" if fair: "net_fair net"
    using wr_writen_fair [OF fair ok, of d sk] wr_flush_fair [OF fair] by metis
  then show ?thesis using wn fl by (fastforce simp: wr_kept_def)
qed

theorem buffered_writer_delivers_witness:
  "\<exists>w1 sk1 w2 sk2. wr_writen (\<lambda>i n. if even i then Again else Wrote 2) [1, 2, 3, 4, 5] 5 (wr_new 7 3) \<lparr>sk_out = [], sk_calls = 0\<rparr> = Some (SUCCESS, w1, sk1) \<and>
    wr_flush (\<lambda>i n. if even i then Again else Wrote 2) w1 sk1 = Some (SUCCESS, w2, sk2) \<and> sk_out sk2 = [1, 2, 3, 4, 5]"
proof -
  have "wr_ok (wr_new 7 3)" by (simp add: wr_ok_def wr_new_def rb_new_wf)
  moreover have "net_fair (\<lambda>i n. if even i then Again else Wrote 2)"
  proof -
    have "\<exists>j \<ge> i. odd j" for i :: nat by (rule exI [of _ "2 * i + 1"]) simp
    then show ?thesis by (auto simp: net_fair_def)
  qed
  ultimately show ?thesis
    using buffered_writer_delivers [of "wr_new 7 3" "\<lambda>i n. if even i then Again else Wrote 2" "[1, 2, 3, 4, 5]" "\<lparr>sk_out = [], sk_calls = 0\<rparr>"]
    by (simp add: wr_stream_def wr_new_def rb_new_wf)
qed

end
