(* ===== verification/Ob_Mysql.thy ===== *)
theory Ob_Mysql
  imports Ob_Net
begin

text \<open>
  The MySQL text protocol of the server (\<^verbatim>\<open>observer/net/mysql_communicator.cpp\<close>): storing integers and
  strings in a packet buffer, the packets, and the communicator that answers a statement.  A buffer
  with a position, as the code has it in \<^verbatim>\<open>buf + pos\<close>, is a cursor; each \<^verbatim>\<open>store\<close> function returns
  the number of bytes it wrote and its callers add it to \<^verbatim>\<open>pos\<close>, so here it returns the moved cursor.
  A write past the end of the buffer is \<open>None\<close>.
\<close>

section \<open>Storing values in a packet\<close>

type_synonym cursor = "bytes \<times> nat"

definition put_bytes :: "bytes \<Rightarrow> cursor \<Rightarrow> cursor option" where
  "put_bytes bs c = (case c of (buf, pos) \<Rightarrow>
     if pos + length bs \<le> length buf then Some (blit pos bs buf, pos + length bs) else None)"

definition store_int1 :: "byte \<Rightarrow> cursor \<Rightarrow> cursor option" where
  "store_int1 value c = put_bytes [value] c"

definition store_int2 :: "u16 \<Rightarrow> cursor \<Rightarrow> cursor option" where
  "store_int2 value c = put_bytes (put_word value) c"

definition store_int3 :: "u32 \<Rightarrow> cursor \<Rightarrow> cursor option" where
  "store_int3 value c = put_bytes (take 3 (put_word value)) c"

definition store_int4 :: "u32 \<Rightarrow> cursor \<Rightarrow> cursor option" where
  "store_int4 value c = put_bytes (put_word value) c"

definition store_int6 :: "u64 \<Rightarrow> cursor \<Rightarrow> cursor option" where
  "store_int6 value c = put_bytes (take 6 (put_word value)) c"

definition store_int8 :: "u64 \<Rightarrow> cursor \<Rightarrow> cursor option" where
  "store_int8 value c = put_bytes (put_word value) c"

definition store_lenenc_int :: "u64 \<Rightarrow> cursor \<Rightarrow> cursor option" where
  "store_lenenc_int value c =
     (if value < 251 then put_bytes [ucast value] c
      else if value < push_bit 16 2 then put_bytes (0xFC # take 2 (put_word value)) c
      else if value < push_bit 24 2 then put_bytes (0xFD # take 3 (put_word value)) c
      else put_bytes (0xFE # put_word value) c)"

definition store_null_terminated_string :: "bytes option \<Rightarrow> cursor \<Rightarrow> cursor option" where
  "store_null_terminated_string s c =
     (case s of None \<Rightarrow> Some c | Some s \<Rightarrow> if c_str s = [] then Some c else put_bytes (c_str s @ [0]) c)"

definition store_fix_length_string :: "bytes \<Rightarrow> nat \<Rightarrow> cursor \<Rightarrow> cursor option" where
  "store_fix_length_string s len c =
     (if len = 0 then Some c else if len > length s then None else put_bytes (take len s) c)"

definition store_lenenc_string :: "bytes \<Rightarrow> cursor \<Rightarrow> cursor option" where
  "store_lenenc_string s c =
     (let len = length (c_str s)
      in do {
        c \<leftarrow> store_lenenc_int (word_of_nat len) c;
        store_fix_length_string (c_str s) len c
      })"

section \<open>Packets\<close>

definition CLIENT_PROTOCOL_41 :: u32 where "CLIENT_PROTOCOL_41 = 512"
definition CLIENT_TRANSACTIONS :: u32 where "CLIENT_TRANSACTIONS = 8192"
definition CLIENT_SESSION_TRACK :: u32 where "CLIENT_SESSION_TRACK = push_bit 23 1"
definition CLIENT_DEPRECATE_EOF :: u32 where "CLIENT_DEPRECATE_EOF = push_bit 24 1"
definition CLIENT_OPTIONAL_RESULTSET_METADATA :: u32 where "CLIENT_OPTIONAL_RESULTSET_METADATA = push_bit 25 1"

text \<open>Every packet ends by storing the payload length in its first three bytes and cutting the buffer.\<close>

definition finish_packet :: "cursor \<Rightarrow> bytes option" where
  "finish_packet c = (case c of (buf, pos) \<Rightarrow>
     map_option (\<lambda>(buf, _). take pos buf) (store_int3 (word_of_int (int pos - 4)) (buf, 0)))"

record HandshakeV10 =
  hs_sequence_id :: byte
  hs_protocol :: byte
  hs_server_version :: bytes
  hs_thread_id :: u32
  hs_auth_plugin_data_part_1 :: bytes
  hs_capability_flags_1 :: u16
  hs_character_set :: byte
  hs_status_flags :: u16
  hs_capability_flags_2 :: u16
  hs_auth_plugin_data_len :: byte
  hs_reserved :: bytes
  hs_auth_plugin_data_part_2 :: bytes

definition hs_new :: "byte \<Rightarrow> HandshakeV10" where
  "hs_new sequence = \<lparr>hs_sequence_id = sequence, hs_protocol = 10, hs_server_version = str ''5.7.25'', hs_thread_id = 21501807,
     hs_auth_plugin_data_part_1 = str ''12345678'', hs_capability_flags_1 = 0xF7DF, hs_character_set = 83, hs_status_flags = 0,
     hs_capability_flags_2 = 0, hs_auth_plugin_data_len = 0, hs_reserved = replicate 10 0,
     hs_auth_plugin_data_part_2 = str ''bbbbbbbbbbbb''\<rparr>"

definition hs_encode :: "u32 \<Rightarrow> HandshakeV10 \<Rightarrow> bytes option" where
  "hs_encode capabilities p = do {
     c \<leftarrow> Some (replicate 100 0, 3);
     c \<leftarrow> store_int1 (hs_sequence_id p) c;
     c \<leftarrow> store_int1 (hs_protocol p) c;
     c \<leftarrow> store_null_terminated_string (Some (hs_server_version p)) c;
     c \<leftarrow> store_int4 (hs_thread_id p) c;
     c \<leftarrow> store_null_terminated_string (Some (hs_auth_plugin_data_part_1 p)) c;
     c \<leftarrow> store_int2 (hs_capability_flags_1 p) c;
     c \<leftarrow> store_int1 (hs_character_set p) c;
     c \<leftarrow> store_int2 (hs_status_flags p) c;
     c \<leftarrow> store_int2 (hs_capability_flags_2 p) c;
     c \<leftarrow> store_int1 (hs_auth_plugin_data_len p) c;
     c \<leftarrow> store_fix_length_string (hs_reserved p) 10 c;
     c \<leftarrow> store_null_terminated_string (Some (hs_auth_plugin_data_part_2 p)) c;
     finish_packet c
   }"

record OkPacket =
  ok_sequence_id :: byte
  ok_header :: byte
  ok_affected_rows :: u32
  ok_last_insert_id :: u32
  ok_status_flags :: u16
  ok_warnings :: u16
  ok_info :: bytes

definition ok_new :: "byte \<Rightarrow> OkPacket" where
  "ok_new sequence = \<lparr>ok_sequence_id = sequence, ok_header = 0, ok_affected_rows = 0, ok_last_insert_id = 0,
     ok_status_flags = 0x22, ok_warnings = 0, ok_info = []\<rparr>"

definition ok_encode :: "u32 \<Rightarrow> OkPacket \<Rightarrow> bytes option" where
  "ok_encode capabilities p = do {
     c \<leftarrow> Some (replicate 100 0, 3);
     c \<leftarrow> store_int1 (ok_sequence_id p) c;
     c \<leftarrow> store_int1 (ok_header p) c;
     c \<leftarrow> store_lenenc_int (scast (ok_affected_rows p)) c;
     c \<leftarrow> store_lenenc_int (scast (ok_last_insert_id p)) c;
     c \<leftarrow> (if capabilities AND CLIENT_PROTOCOL_41 \<noteq> 0 then do {
             c \<leftarrow> store_int2 (ok_status_flags p) c;
             store_int2 (ok_warnings p) c
           } else if capabilities AND CLIENT_TRANSACTIONS \<noteq> 0 then store_int2 (ok_status_flags p) c
           else Some c);
     c \<leftarrow> (if capabilities AND CLIENT_SESSION_TRACK \<noteq> 0 then store_lenenc_string (ok_info p) c else Some c);
     finish_packet c
   }"

record EofPacket =
  eof_sequence_id :: byte
  eof_header :: byte
  eof_warnings :: u16
  eof_status_flags :: u16

definition eof_new :: "byte \<Rightarrow> EofPacket" where
  "eof_new sequence = \<lparr>eof_sequence_id = sequence, eof_header = 0xFE, eof_warnings = 0, eof_status_flags = 0x22\<rparr>"

definition eof_encode :: "u32 \<Rightarrow> EofPacket \<Rightarrow> bytes option" where
  "eof_encode capabilities p = do {
     c \<leftarrow> Some (replicate 10 0, 3);
     c \<leftarrow> store_int1 (eof_sequence_id p) c;
     c \<leftarrow> store_int1 (eof_header p) c;
     c \<leftarrow> (if capabilities AND CLIENT_PROTOCOL_41 \<noteq> 0 then do {
             c \<leftarrow> store_int2 (eof_warnings p) c;
             store_int2 (eof_status_flags p) c
           } else Some c);
     finish_packet c
   }"

record ErrPacket =
  err_sequence_id :: byte
  err_header :: byte
  err_error_code :: u16
  err_sql_state_marker :: bytes
  err_sql_state :: bytes
  err_error_message :: bytes

definition err_new :: "byte \<Rightarrow> ErrPacket" where
  "err_new sequence = \<lparr>err_sequence_id = sequence, err_header = 0xFF, err_error_code = 0, err_sql_state_marker = str ''#'',
     err_sql_state = str ''HY000'', err_error_message = []\<rparr>"

definition err_encode :: "u32 \<Rightarrow> ErrPacket \<Rightarrow> bytes option" where
  "err_encode capabilities p = do {
     c \<leftarrow> Some (replicate 1000 0, 3);
     c \<leftarrow> store_int1 (err_sequence_id p) c;
     c \<leftarrow> store_int1 (err_header p) c;
     c \<leftarrow> store_int2 (err_error_code p) c;
     c \<leftarrow> (if capabilities AND CLIENT_PROTOCOL_41 \<noteq> 0 then do {
             c \<leftarrow> store_fix_length_string (err_sql_state_marker p) 1 c;
             store_fix_length_string (err_sql_state p) 5 c
           } else Some c);
     c \<leftarrow> store_fix_length_string (err_error_message p) (length (err_error_message p)) c;
     finish_packet c
   }"

section \<open>Frames\<close>

text \<open>What a packet with sequence number \<open>s\<close> and payload \<open>p\<close> looks like on the wire, and how a client
  takes a stream apart.\<close>

definition frame :: "byte \<times> bytes \<Rightarrow> bytes" where
  "frame = (\<lambda>(s, p). le_bytes 3 (length p) @ s # p)"

function unframe :: "bytes \<Rightarrow> (byte \<times> bytes) list" where
  "unframe bs =
     (if length bs < 4 then []
      else let n = le_value (take 3 bs) in (bs ! 3, take n (drop 4 bs)) # unframe (drop (4 + n) bs))"
  by pat_completeness auto
termination by (relation "measure length") auto

declare unframe.simps [simp del]

lemma unframe_frames:
  "\<forall>f \<in> set fs. length (snd f) < 2 ^ 24 \<Longrightarrow> unframe (concat (map frame fs)) = fs"
proof (induction fs)
  case Nil
  then show ?case by (simp add: unframe.simps)
next
  case (Cons f fs)
  obtain s p where f: "f = (s, p)" by fastforce
  let ?rest = "concat (map frame fs)"
  have n: "le_value (le_bytes 3 (length p)) = length p" using Cons(2) by (simp add: f le_value_le_bytes)
  have "take 3 (frame f @ ?rest) = le_bytes 3 (length p)" "(frame f @ ?rest) ! 3 = s" "drop 4 (frame f @ ?rest) = p @ ?rest"
    "\<not> length (frame f @ ?rest) < 4"
    by (simp_all add: f frame_def nth_append)
  moreover have "drop (4 + length p) (frame f @ ?rest) = ?rest" by (simp add: f frame_def)
  ultimately show ?case using Cons n by (subst unframe.simps) (simp add: f Let_def)
qed

lemma put_bytes_append: "Option.bind (put_bytes xs c) (\<lambda>c. Option.bind (put_bytes ys c) f) = Option.bind (put_bytes (xs @ ys) c) f"
proof -
  have "blit (p + length xs) ys (blit p xs b) = blit p (xs @ ys) b" if "p + length (xs @ ys) \<le> length b" for p b
    using that by (simp add: blit_def ac_simps)
  then show ?thesis by (auto simp: put_bytes_def add.assoc split: prod.split)
qed

lemma put_bytes_append2: "Option.bind (put_bytes xs c) (put_bytes ys) = put_bytes (xs @ ys) c"
  using put_bytes_append [of xs c ys Some] by simp

lemma put_bytes_Nil [simp]: "put_bytes [] c = (if snd c \<le> length (fst c) then Some c else None)"
  by (auto simp: put_bytes_def blit_def split: prod.split)

lemma store_length:
  assumes "put_bytes (s # p) (buf, 3) = Some (buf1, pos)"
  shows "4 + length p \<le> length buf" "pos = 4 + length p"
    "\<exists>buf2. store_int3 (word_of_int (int pos - 4)) (buf1, 0) = Some (buf2, 3) \<and> take pos buf2 = frame (s, p) \<and> length buf2 = length buf"
proof -
  show l: "4 + length p \<le> length buf" and pos: "pos = 4 + length p" using assms by (simp_all add: put_bytes_def split: if_splits)
  have "take 3 (put_word (word_of_nat m :: u32)) = le_bytes 3 m" for m
    using le_bytes_mod [of 3 4 m] by (simp add: put_word_def unsigned_of_nat take_bit_eq_mod take_le_bytes)
  then have "store_int3 (word_of_int (int pos - 4)) (buf1, 0) = Some (blit 0 (le_bytes 3 (length p)) buf1, 3)"
    using assms l pos by (auto simp: store_int3_def put_bytes_def)
  moreover have "take pos (blit 0 (le_bytes 3 (length p)) buf1) = frame (s, p)" "length (blit 0 (le_bytes 3 (length p)) buf1) = length buf"
    using assms l pos by (auto simp: put_bytes_def frame_def blit_def)
  ultimately show "\<exists>buf2. store_int3 (word_of_int (int pos - 4)) (buf1, 0) = Some (buf2, 3) \<and> take pos buf2 = frame (s, p) \<and> length buf2 = length buf"
    by blast
qed

lemma finish_put:
  "Option.bind (put_bytes (s # p) (buf, 3)) finish_packet = (if 4 + length p \<le> length buf then Some (frame (s, p)) else None)"
proof (cases "put_bytes (s # p) (buf, 3)")
  case None
  then show ?thesis by (simp add: put_bytes_def split: if_splits)
next
  case (Some c)
  then obtain buf1 pos where c: "put_bytes (s # p) (buf, 3) = Some (buf1, pos)" by (cases c) simp
  then show ?thesis using store_length [OF c] by (auto simp: finish_packet_def)
qed

text \<open>The bytes that the \<^verbatim>\<open>store\<close> functions write.\<close>

definition lenenc :: "u64 \<Rightarrow> bytes" where
  "lenenc v =
     (if v < 251 then [ucast v]
      else if v < push_bit 16 2 then 0xFC # take 2 (put_word v)
      else if v < push_bit 24 2 then 0xFD # take 3 (put_word v)
      else 0xFE # put_word v)"

definition lenenc_str :: "bytes \<Rightarrow> bytes" where
  "lenenc_str s = lenenc (word_of_nat (length (c_str s))) @ c_str s"

lemma lenenc_not_Nil [simp]: "lenenc v \<noteq> []"
  by (simp add: lenenc_def)

lemma store_lenenc_int_put: "store_lenenc_int v c = put_bytes (lenenc v) c"
  by (simp add: store_lenenc_int_def lenenc_def)

lemma store_lenenc_string_put: "store_lenenc_string s c = put_bytes (lenenc_str s) c"
  using put_bytes_append2 [of "lenenc (word_of_nat (length (c_str s)))" c "c_str s"]
  by (cases "c_str s = []")
    (simp_all add: store_lenenc_string_def store_lenenc_int_put store_fix_length_string_def Let_def lenenc_str_def)

definition ok_payload :: "u32 \<Rightarrow> OkPacket \<Rightarrow> bytes" where
  "ok_payload caps p = ok_header p # lenenc (scast (ok_affected_rows p)) @ lenenc (scast (ok_last_insert_id p)) @
     (if caps AND CLIENT_PROTOCOL_41 \<noteq> 0 then put_word (ok_status_flags p) @ put_word (ok_warnings p)
      else if caps AND CLIENT_TRANSACTIONS \<noteq> 0 then put_word (ok_status_flags p) else []) @
     (if caps AND CLIENT_SESSION_TRACK \<noteq> 0 then lenenc_str (ok_info p) else [])"

definition eof_payload :: "u32 \<Rightarrow> EofPacket \<Rightarrow> bytes" where
  "eof_payload caps p = eof_header p # (if caps AND CLIENT_PROTOCOL_41 \<noteq> 0 then put_word (eof_warnings p) @ put_word (eof_status_flags p) else [])"

definition err_payload :: "u32 \<Rightarrow> ErrPacket \<Rightarrow> bytes" where
  "err_payload caps p = err_header p # put_word (err_error_code p) @
     (if caps AND CLIENT_PROTOCOL_41 \<noteq> 0 then take 1 (err_sql_state_marker p) @ take 5 (err_sql_state p) else []) @ err_error_message p"

lemmas store_puts = store_int1_def store_int2_def store_int4_def store_lenenc_int_put store_lenenc_string_put

lemma ok_encode_frame:
  "ok_encode caps p = (if 4 + length (ok_payload caps p) \<le> 100 then Some (frame (ok_sequence_id p, ok_payload caps p)) else None)"
  using finish_put [of "ok_sequence_id p" "ok_payload caps p" "replicate 100 0"]
  by (cases "caps AND CLIENT_PROTOCOL_41 = 0"; cases "caps AND CLIENT_TRANSACTIONS = 0"; cases "caps AND CLIENT_SESSION_TRACK = 0")
    (simp_all add: ok_encode_def store_puts put_bytes_append ok_payload_def)

lemma eof_encode_frame: "eof_encode caps p = Some (frame (eof_sequence_id p, eof_payload caps p))"
  using finish_put [of "eof_sequence_id p" "eof_payload caps p" "replicate 10 0"]
  by (cases "caps AND CLIENT_PROTOCOL_41 = 0") (simp_all add: eof_encode_def store_puts put_bytes_append eof_payload_def)

lemma err_encode_frame:
  assumes "length (err_sql_state_marker p) = 1" "length (err_sql_state p) = 5"
  shows "err_encode caps p = (if 4 + length (err_payload caps p) \<le> 1000 then Some (frame (err_sequence_id p, err_payload caps p)) else None)"
  using finish_put [of "err_sequence_id p" "err_payload caps p" "replicate 1000 0"] assms
  by (cases "caps AND CLIENT_PROTOCOL_41 = 0"; cases "err_error_message p = []")
    (simp_all add: err_encode_def store_puts put_bytes_append err_payload_def store_fix_length_string_def)

section \<open>The communicator\<close>

record MysqlCommunicator =
  my_writer :: BufferedWriter
  my_authed :: bool
  my_client_capabilities_flag :: u32
  my_sequence_id :: byte

datatype BasePacket = Handshake HandshakeV10 | OkP OkPacket | EofP EofPacket | ErrP ErrPacket

fun encode :: "u32 \<Rightarrow> BasePacket \<Rightarrow> bytes option" where
  "encode caps (Handshake p) = hs_encode caps p"
| "encode caps (OkP p) = ok_encode caps p"
| "encode caps (EofP p) = eof_encode caps p"
| "encode caps (ErrP p) = err_encode caps p"

definition my_writen :: "net \<Rightarrow> bytes \<Rightarrow> MysqlCommunicator \<Rightarrow> Socket \<Rightarrow> (RC \<times> MysqlCommunicator \<times> Socket) option" where
  "my_writen net bs m sk = do {
     (rc, w, sk) \<leftarrow> wr_writen net bs (int (length bs)) (my_writer m) sk;
     Some (rc, m\<lparr>my_writer := w\<rparr>, sk)
   }"

definition my_flush :: "net \<Rightarrow> MysqlCommunicator \<Rightarrow> Socket \<Rightarrow> (MysqlCommunicator \<times> Socket) option" where
  "my_flush net m sk = do {
     (_, w, sk) \<leftarrow> wr_flush net (my_writer m) sk;
     Some (m\<lparr>my_writer := w\<rparr>, sk)
   }"

definition send_packet :: "net \<Rightarrow> BasePacket \<Rightarrow> MysqlCommunicator \<Rightarrow> Socket \<Rightarrow> (RC \<times> MysqlCommunicator \<times> Socket) option" where
  "send_packet net packet m sk = do {
     net_packet \<leftarrow> encode (my_client_capabilities_flag m) packet;
     my_writen net net_packet m sk
   }"

definition my_init :: "net \<Rightarrow> int \<Rightarrow> Socket \<Rightarrow> (RC \<times> MysqlCommunicator \<times> Socket) option" where
  "my_init net fd sk = do {
     let m = \<lparr>my_writer = wr_new fd DEFAULT_BUFFER_SIZE, my_authed = False, my_client_capabilities_flag = 0, my_sequence_id = 0\<rparr>;
     (rc, m, sk) \<leftarrow> send_packet net (Handshake (hs_new 0)) m sk;
     if rc \<noteq> SUCCESS then Some (rc, m, sk)
     else do {
       (m, sk) \<leftarrow> my_flush net m sk;
       Some (rc, m, sk)
     }
   }"

definition next_seq :: "MysqlCommunicator \<Rightarrow> MysqlCommunicator" where
  "next_seq m = m\<lparr>my_sequence_id := my_sequence_id m + 1\<rparr>"

text \<open>
  What the communicator sees of a \<^verbatim>\<open>SqlResult\<close>: its return code and state string, and of its operator,
  if it has one, the results of \<^verbatim>\<open>open\<close>, of the calls of \<^verbatim>\<open>next_tuple\<close> and of \<^verbatim>\<open>close\<close>.  A row gives its
  cells as strings, or the code with which \<^verbatim>\<open>cell_at\<close> fails.
\<close>

record QueryResult =
  qr_return_code :: RC
  qr_state_string :: bytes
  qr_has_operator :: bool
  qr_open :: RC
  qr_schema :: "(bytes \<times> bytes) list"
  qr_rows :: "(RC + bytes) list list"
  qr_end :: RC
  qr_close :: RC

text \<open>The names of the return codes, in the order of the enumeration.\<close>

definition rc_names :: "string list" where
  "rc_names = [''SUCCESS'', ''INVALID_ARGUMENT'', ''UNIMPLEMENTED'', ''SQL_SYNTAX'', ''INTERNAL'', ''NOMEM'', ''NOTFOUND'', ''EMPTY'',
     ''FULL'', ''EXIST'', ''NOT_EXIST'', ''BUFFERPOOL_OPEN'', ''BUFFERPOOL_NOBUF'', ''BUFFERPOOL_INVALID_PAGE_NUM'',
     ''RECORD_OPENNED'', ''RECORD_INVALID_RID'', ''RECORD_INVALID_KEY'', ''RECORD_DUPLICATE_KEY'', ''RECORD_NOMEM'', ''RECORD_EOF'',
     ''RECORD_NOT_EXIST'', ''RECORD_INVISIBLE'', ''SCHEMA_DB_EXIST'', ''SCHEMA_DB_NOT_EXIST'', ''SCHEMA_DB_NOT_OPENED'',
     ''SCHEMA_DB_IS_SYS'', ''SCHEMA_TABLE_NOT_EXIST'', ''SCHEMA_TABLE_EXIST'', ''SCHEMA_FIELD_NOT_EXIST'', ''SCHEMA_FIELD_MISSING'',
     ''SCHEMA_FIELD_TYPE_MISMATCH'', ''SCHEMA_INDEX_NAME_REPEAT'', ''IOERR_READ'', ''IOERR_WRITE'', ''IOERR_ACCESS'', ''IOERR_OPEN'',
     ''IOERR_CLOSE'', ''IOERR_SEEK'', ''IOERR_TOO_LONG'', ''IOERR_SYNC'', ''LOCKED_UNLOCK'', ''LOCKED_NEED_WAIT'',
     ''LOCKED_CONCURRENCY_CONFLICT'', ''FILE_EXIST'', ''FILE_NOT_EXIST'', ''FILE_NAME'', ''FILE_BOUND'', ''FILE_CREATE'', ''FILE_OPEN'',
     ''FILE_NOT_OPENED'', ''FILE_CLOSE'', ''FILE_REMOVE'', ''VARIABLE_NOT_EXISTS'', ''VARIABLE_NOT_VALID'', ''LOGBUF_FULL'',
     ''LOG_FILE_FULL'', ''LOG_ENTRY_INVALID'', ''JSON_PARSE_FAILED'', ''JSON_MEMBER_MISSING'', ''RANGE_ERROR'', ''WAL_INVALID_FILENAME'',
     ''INPUT_EOF'', ''INVALID_TOKEN'', ''UNEXPECTED_END_OF_STRING'', ''SYNTAX_ERROR'', ''UNSUPPORTED'']"

definition strrc :: "RC \<Rightarrow> string" where
  "strrc rc = (if 0 \<le> rc \<and> rc < int (length rc_names) then rc_names ! nat rc else ''unknown'')"

text \<open>\<^verbatim>\<open>snprintf\<close> into the buffer of 2048 bytes.\<close>

definition state_message :: "QueryResult \<Rightarrow> bytes" where
  "state_message r =
     take 2047 (if qr_state_string r = [] then str (strrc (qr_return_code r))
                else str (strrc (qr_return_code r)) @ str '' > '' @ c_str (qr_state_string r))"

definition write_state :: "net \<Rightarrow> QueryResult \<Rightarrow> MysqlCommunicator \<Rightarrow> Socket \<Rightarrow> (RC \<times> bool \<times> MysqlCommunicator \<times> Socket) option" where
  "write_state net r m sk = do {
     let buf = state_message r;
     (rc, m, sk) \<leftarrow>
       (if qr_return_code r = SUCCESS then send_packet net (OkP ((ok_new (my_sequence_id m))\<lparr>ok_info := buf\<rparr>)) (next_seq m) sk
        else send_packet net
          (ErrP ((err_new (my_sequence_id m))\<lparr>err_error_code := word_of_int (qr_return_code r), err_error_message := buf\<rparr>)) (next_seq m) sk);
     (m, sk) \<leftarrow> my_flush net m sk;
     Some (rc, rc \<noteq> SUCCESS, m, sk)
   }"

definition column_count_packet :: "u32 \<Rightarrow> byte \<Rightarrow> nat \<Rightarrow> bytes \<Rightarrow> bytes option" where
  "column_count_packet caps seq cell_num buf = do {
     c \<leftarrow> store_int1 seq (buf, 3);
     c \<leftarrow> (if caps AND CLIENT_OPTIONAL_RESULTSET_METADATA \<noteq> 0 then store_int1 1 c else Some c);
     c \<leftarrow> store_lenenc_int (word_of_nat cell_num) c;
     finish_packet c
   }"

definition column_packet :: "byte \<Rightarrow> bytes \<times> bytes \<Rightarrow> bytes \<Rightarrow> bytes option" where
  "column_packet seq spec buf = (case spec of (table, alias) \<Rightarrow> do {
     c \<leftarrow> store_int1 seq (buf, 3);
     c \<leftarrow> store_lenenc_string (str ''def'') c;
     c \<leftarrow> store_lenenc_string (str ''sys'') c;
     c \<leftarrow> store_lenenc_string table c;
     c \<leftarrow> store_lenenc_string table c;
     c \<leftarrow> store_lenenc_string alias c;
     c \<leftarrow> store_lenenc_string alias c;
     c \<leftarrow> store_lenenc_int 0x0c c;
     c \<leftarrow> store_int2 33 c;
     c \<leftarrow> store_int4 16384 c;
     c \<leftarrow> store_int1 253 c;
     c \<leftarrow> store_int2 0 c;
     c \<leftarrow> store_int1 0x1f c;
     c \<leftarrow> store_int2 0 c;
     finish_packet c
   })"

text \<open>\<^verbatim>\<open>net_packet.resize(n)\<close> keeps the bytes that are there.\<close>

definition resize :: "nat \<Rightarrow> bytes \<Rightarrow> bytes" where
  "resize n b = take n b @ replicate (n - length b) 0"

fun send_columns :: "net \<Rightarrow> (bytes \<times> bytes) list \<Rightarrow> bytes \<Rightarrow> MysqlCommunicator \<Rightarrow> Socket \<Rightarrow> (RC \<times> MysqlCommunicator \<times> Socket) option" where
  "send_columns net [] net_packet m sk = Some (SUCCESS, m, sk)"
| "send_columns net (spec # specs) net_packet m sk = do {
     net_packet \<leftarrow> column_packet (my_sequence_id m) spec (resize 1024 net_packet);
     (rc, m, sk) \<leftarrow> my_writen net net_packet (next_seq m) sk;
     if rc \<noteq> SUCCESS then Some (rc, m, sk) else send_columns net specs net_packet m sk
   }"

definition send_column_definition :: "net \<Rightarrow> (bytes \<times> bytes) list \<Rightarrow> bool \<Rightarrow> MysqlCommunicator \<Rightarrow> Socket
    \<Rightarrow> (RC \<times> bool \<times> MysqlCommunicator \<times> Socket) option" where
  "send_column_definition net schema need_disconnect m sk =
     (if schema = [] then Some (SUCCESS, need_disconnect, m, sk)
      else do {
        net_packet \<leftarrow> column_count_packet (my_client_capabilities_flag m) (my_sequence_id m) (length schema) (resize 1024 []);
        (rc, m, sk) \<leftarrow> my_writen net net_packet (next_seq m) sk;
        if rc \<noteq> SUCCESS then Some (rc, True, m, sk)
        else do {
          (rc, m, sk) \<leftarrow> send_columns net schema net_packet m sk;
          if rc \<noteq> SUCCESS then Some (rc, True, m, sk)
          else do {
            (m, sk) \<leftarrow>
              (if my_client_capabilities_flag m AND CLIENT_DEPRECATE_EOF = 0 then
                 map_option (\<lambda>(rc, m, sk). (m, sk))
                   (send_packet net (EofP ((eof_new (my_sequence_id m))\<lparr>eof_status_flags := 0x02\<rparr>)) (next_seq m) sk)
               else Some (m, sk));
            Some (SUCCESS, False, m, sk)
          }
        }
      })"

fun store_cells :: "(RC + bytes) list \<Rightarrow> cursor \<Rightarrow> cursor option" where
  "store_cells [] c = Some c"
| "store_cells (Inl rc # cells) c = Some c"
| "store_cells (Inr s # cells) c = Option.bind (store_lenenc_string s c) (store_cells cells)"

fun write_tuple_result :: "net \<Rightarrow> RC \<Rightarrow> (RC + bytes) list list \<Rightarrow> bytes \<Rightarrow> u32 \<Rightarrow> MysqlCommunicator \<Rightarrow> Socket
    \<Rightarrow> (RC \<times> u32 \<times> MysqlCommunicator \<times> Socket) option" where
  "write_tuple_result net end_rc [] packet affected_rows m sk = Some (end_rc, affected_rows, m, sk)"
| "write_tuple_result net end_rc (row # rows) packet affected_rows m sk =
     (if row = [] then write_tuple_result net end_rc rows packet (affected_rows + 1) m sk
      else do {
        c \<leftarrow> store_int1 (my_sequence_id m) (packet, 3);
        (packet, pos) \<leftarrow> store_cells row c;
        (packet, _) \<leftarrow> store_int3 (word_of_int (int pos - 4)) (packet, 0);
        (rc, m, sk) \<leftarrow> my_writen net (take pos packet) (next_seq m) sk;
        if rc \<noteq> SUCCESS then Some (rc, affected_rows + 1, m, sk)
        else write_tuple_result net end_rc rows packet (affected_rows + 1) m sk
      })"

text \<open>The result of \<^verbatim>\<open>write_tuple_result\<close> is overwritten by that of the last packet.\<close>

definition send_result_rows :: "net \<Rightarrow> QueryResult \<Rightarrow> bool \<Rightarrow> MysqlCommunicator \<Rightarrow> Socket \<Rightarrow> (RC \<times> bool \<times> MysqlCommunicator \<times> Socket) option" where
  "send_result_rows net r no_column_def m sk = do {
     (_, affected_rows, m, sk) \<leftarrow> write_tuple_result net (qr_end r) (qr_rows r) (replicate (4 * 1024 * 1024) 0) 0 m sk;
     (rc, m, sk) \<leftarrow>
       (if my_client_capabilities_flag m AND CLIENT_DEPRECATE_EOF \<noteq> 0 \<or> no_column_def then
          send_packet net (OkP ((ok_new (my_sequence_id m))\<lparr>ok_affected_rows := affected_rows\<rparr>)) (next_seq m) sk
        else send_packet net (EofP (eof_new (my_sequence_id m))) (next_seq m) sk);
     Some (rc, False, m, sk)
   }"

text \<open>Without a result the code sends a packet and then calls \<^verbatim>\<open>close\<close> on the null pointer.  The result
  of \<^verbatim>\<open>send_result_rows\<close> goes to a second variable \<^verbatim>\<open>rc\<close> of the inner block, so the function returns
  the one of \<^verbatim>\<open>close\<close>.\<close>

definition write_result :: "net \<Rightarrow> QueryResult option \<Rightarrow> MysqlCommunicator \<Rightarrow> Socket \<Rightarrow> (RC \<times> bool \<times> MysqlCommunicator \<times> Socket) option" where
  "write_result net result m sk =
     (case result of
        None \<Rightarrow> do {
          (rc, m, sk) \<leftarrow> send_packet net (OkP ((ok_new 0)\<lparr>ok_info := str ''Unexpected error: no result''\<rparr>)) m sk;
          if rc \<noteq> SUCCESS then Some (rc, True, m, sk) else None
        }
      | Some r \<Rightarrow>
          if qr_return_code r \<noteq> SUCCESS \<or> \<not> qr_has_operator r then write_state net r m sk
          else if qr_open r \<noteq> SUCCESS then write_state net (r\<lparr>qr_return_code := qr_open r\<rparr>) m sk
          else do {
            (rc, need_disconnect, m, sk) \<leftarrow>
              (if qr_schema r = [] then Some (SUCCESS, True, m, sk) else send_column_definition net (qr_schema r) True m sk);
            if rc \<noteq> SUCCESS then Some (rc, need_disconnect, m, sk)
            else do {
              (rc, need_disconnect, m, sk) \<leftarrow> send_result_rows net r (qr_schema r = []) m sk;
              (m, sk) \<leftarrow> my_flush net m sk;
              Some (qr_close r, need_disconnect, m, sk)
            }
          })"

definition version_comment_result :: QueryResult where
  "version_comment_result = \<lparr>qr_return_code = SUCCESS, qr_state_string = [], qr_has_operator = True, qr_open = SUCCESS,
     qr_schema = [([], str ''@@version_comment'')], qr_rows = [[Inr (str ''MiniOB'')]], qr_end = RECORD_EOF, qr_close = SUCCESS\<rparr>"

definition contains :: "bytes \<Rightarrow> bytes \<Rightarrow> bool" where
  "contains pat s = list_ex (\<lambda>i. take (length pat) (drop i s) = pat) [0 ..< length s + 1]"

text \<open>\<^verbatim>\<open>payload_length\<close> is a signed bit field of 24 bits.\<close>

definition payload_length :: "bytes \<Rightarrow> int" where
  "payload_length hdr = (let v = int (le_value (take 3 hdr)) in if v < 2 ^ 23 then v else v - 2 ^ 24)"

text \<open>
  \<^verbatim>\<open>read_event\<close> on the bytes \<open>inp\<close> that the peer sends before it closes the connection.  The result is
  the return code, the query of the event if there is one, and the state; a negative length makes
  the constructor of the buffer throw, and an empty one is read at its first byte.
\<close>

definition read_event :: "net \<Rightarrow> bytes \<Rightarrow> MysqlCommunicator \<Rightarrow> Socket
    \<Rightarrow> (RC \<times> bytes option \<times> bytes \<times> MysqlCommunicator \<times> Socket) option" where
  "read_event net inp m sk =
     (if length inp < 4 then Some (IOERR_READ, None, [], m, sk)
      else let n = payload_length inp; m = m\<lparr>my_sequence_id := inp ! 3 + 1\<rparr>; inp = drop 4 inp
      in if n < 0 then None
         else if length inp < nat n then Some (IOERR_READ, None, [], m, sk)
         else let buf = take (nat n) inp; inp = drop (nat n) inp
         in if \<not> my_authed m then
              if length buf < 4 then None
              else do {
                let m = m\<lparr>my_client_capabilities_flag := get_word (take 4 buf) AND NOT CLIENT_DEPRECATE_EOF\<rparr>;
                (rc, m, sk) \<leftarrow> send_packet net (OkP (ok_new (my_sequence_id m))) m sk;
                (m, sk) \<leftarrow> my_flush net m sk;
                Some (rc, None, inp, m\<lparr>my_authed := True\<rparr>, sk)
              }
            else if buf = [] then None
            else if hd buf = 3 then
              let query = tl buf @ str '';''
              in if contains (str ''select @@version_comment'') query then do {
                   (rc, need_disconnect, m, sk) \<leftarrow> write_result net (Some version_comment_result) m sk;
                   Some (rc, None, inp, m, sk)
                 } else Some (SUCCESS, Some query, inp, m, sk)
            else do {
              (rc, m, sk) \<leftarrow> send_packet net (OkP (ok_new (my_sequence_id m))) m sk;
              if rc \<noteq> SUCCESS then Some (rc, None, inp, m, sk)
              else do {
                (m, sk) \<leftarrow> my_flush net m sk;
                Some (rc, None, inp, m, sk)
              }
            })"

section \<open>Length-encoded integers\<close>

text \<open>How a client reads a length-encoded integer: its value and the number of bytes.\<close>

definition read_lenenc :: "bytes \<Rightarrow> nat \<times> nat" where
  "read_lenenc bs =
     (if hd bs = 0xFC then (le_value (take 2 (tl bs)), 3)
      else if hd bs = 0xFD then (le_value (take 3 (tl bs)), 4)
      else if hd bs = 0xFE then (le_value (take 8 (tl bs)), 9)
      else (unat (hd bs), 1))"

lemma lenenc_bytes:
  "lenenc v = (if unat v < 251 then [ucast v] else if unat v < 2 ^ 17 then 0xFC # le_bytes 2 (unat v)
     else if unat v < 2 ^ 25 then 0xFD # le_bytes 3 (unat v) else 0xFE # le_bytes 8 (unat v))"
proof -
  have "v < 251 \<longleftrightarrow> unat v < 251" "v < push_bit 16 2 \<longleftrightarrow> unat v < 2 ^ 17" "v < push_bit 24 2 \<longleftrightarrow> unat v < 2 ^ 25"
    by (simp_all add: word_less_nat_alt push_bit_eq_mult)
  then show ?thesis by (simp add: lenenc_def put_word_def take_le_bytes)
qed

lemma read_lenenc_lenenc:
  "read_lenenc (lenenc v @ rest) =
     (unat v mod (if unat v < 251 then 256 else if unat v < 2 ^ 17 then 2 ^ 16 else if unat v < 2 ^ 25 then 2 ^ 24 else 2 ^ 64), length (lenenc v))"
proof -
  have one: "hd (lenenc v @ rest) = ucast v" "(ucast v :: byte) \<notin> {0xFC, 0xFD, 0xFE}"
    "unat (ucast v :: byte) = unat v" if "unat v < 251"
  proof -
    show u: "unat (ucast v :: byte) = unat v" using that by (simp add: unsigned_ucast_eq take_bit_eq_mod)
    show "hd (lenenc v @ rest) = ucast v" using that by (simp add: lenenc_bytes)
    show "(ucast v :: byte) \<notin> {0xFC, 0xFD, 0xFE}"
    proof
      assume "(ucast v :: byte) \<in> {0xFC, 0xFD, 0xFE}"
      then have "unat (ucast v :: byte) \<in> {252, 253, 254}" by auto
      then show False using u that by auto
    qed
  qed
  show ?thesis
  proof (cases "unat v < 251")
    case True
    then show ?thesis using one by (simp add: read_lenenc_def lenenc_bytes)
  next
    case False
    have "unat v < 2 ^ 64" using unsigned_less [of v] by simp
    then show ?thesis using False by (simp add: read_lenenc_def lenenc_bytes le_value_le_bytes)
  qed
qed

text \<open>
  C31. Length-encoded integers.  \<^verbatim>\<open>store_lenenc_int\<close> writes inside a buffer with nine free bytes, a
  client finds the end of what it wrote, and it reads the value back except in two ranges: the code
  compares with \<open>2 << 16\<close> and \<open>2 << 24\<close> where the two- and three-byte forms end at \<open>1 << 16\<close> and
  \<open>1 << 24\<close>, and there the upper bit is lost.
\<close>

theorem lenenc_int_roundtrip:
  assumes "pos + 9 \<le> length buf"
  shows "\<exists>buf' k. store_lenenc_int v (buf, pos) = Some (buf', pos + k) \<and> take pos buf' = take pos buf \<and>
    (\<exists>x. read_lenenc (drop pos buf') = (x, k) \<and>
      (x = unat v \<longleftrightarrow> \<not> (2 ^ 16 \<le> unat v \<and> unat v < 2 ^ 17) \<and> \<not> (2 ^ 24 \<le> unat v \<and> unat v < 2 ^ 25)))"
proof -
  have v: "unat v < 2 ^ 64" using unsigned_less [of v] by simp
  have l: "length (lenenc v) \<le> 9" by (simp add: lenenc_bytes)
  let ?b = "blit pos (lenenc v) buf"
  have "store_lenenc_int v (buf, pos) = Some (?b, pos + length (lenenc v))"
    using assms l by (simp add: store_lenenc_int_put put_bytes_def)
  moreover have "take pos ?b = take pos buf" "drop pos ?b = lenenc v @ drop (pos + length (lenenc v)) buf"
    using assms l by (simp_all add: blit_def)
  moreover have "x mod m = x \<longleftrightarrow> x < m" if "0 < m" for x m :: nat using that by (metis mod_less mod_less_divisor)
  then have "unat v mod (if unat v < 251 then 256 else if unat v < 2 ^ 17 then 2 ^ 16 else if unat v < 2 ^ 25 then 2 ^ 24 else 2 ^ 64) = unat v
      \<longleftrightarrow> \<not> (2 ^ 16 \<le> unat v \<and> unat v < 2 ^ 17) \<and> \<not> (2 ^ 24 \<le> unat v \<and> unat v < 2 ^ 25)"
    using v by auto
  ultimately show ?thesis using read_lenenc_lenenc [of v] by auto
qed

theorem lenenc_int_roundtrip_witness:
  "\<exists>buf' k. store_lenenc_int 70000 (replicate 9 0, 0) = Some (buf', k) \<and> fst (read_lenenc buf') \<noteq> 70000"
  using lenenc_int_roundtrip [of 0 "replicate 9 0" 70000] by fastforce

section \<open>A result set on the wire\<close>

text \<open>The payloads of the packets that answer a query with columns.\<close>

definition count_payload :: "u32 \<Rightarrow> nat \<Rightarrow> bytes" where
  "count_payload caps n = (if caps AND CLIENT_OPTIONAL_RESULTSET_METADATA \<noteq> 0 then [1] else []) @ lenenc (word_of_nat n)"

definition column_payload :: "bytes \<times> bytes \<Rightarrow> bytes" where
  "column_payload = (\<lambda>(table, alias). lenenc_str (str ''def'') @ lenenc_str (str ''sys'') @ lenenc_str table @ lenenc_str table @
     lenenc_str alias @ lenenc_str alias @ lenenc 0x0c @ put_word (33 :: u16) @ put_word (16384 :: u32) @ [253] @ put_word (0 :: u16) @
     [0x1f] @ put_word (0 :: u16))"

fun row_payload :: "(RC + bytes) list \<Rightarrow> bytes" where
  "row_payload [] = []"
| "row_payload (Inl rc # cells) = []"
| "row_payload (Inr s # cells) = lenenc_str s @ row_payload cells"

definition end_payload :: "u32 \<Rightarrow> bool \<Rightarrow> nat \<Rightarrow> bytes" where
  "end_payload caps no_columns n =
     (if caps AND CLIENT_DEPRECATE_EOF \<noteq> 0 \<or> no_columns then ok_payload caps ((ok_new 0)\<lparr>ok_affected_rows := word_of_nat n\<rparr>)
      else eof_payload caps (eof_new 0))"

definition result_payloads :: "u32 \<Rightarrow> QueryResult \<Rightarrow> bytes list" where
  "result_payloads caps r =
     (if qr_schema r = [] then []
      else count_payload caps (length (qr_schema r)) # map column_payload (qr_schema r) @
        (if caps AND CLIENT_DEPRECATE_EOF = 0 then [eof_payload caps ((eof_new 0)\<lparr>eof_status_flags := 0x02\<rparr>)] else [])) @
     map row_payload (filter (\<lambda>row. row \<noteq> []) (qr_rows r)) @ [end_payload caps (qr_schema r = []) (length (qr_rows r))]"

text \<open>Payloads numbered from \<open>s\<close> on; the sequence number of a packet is one byte and wraps around.\<close>

fun numbered :: "byte \<Rightarrow> bytes list \<Rightarrow> (byte \<times> bytes) list" where
  "numbered s [] = []"
| "numbered s (p # ps) = (s, p) # numbered (s + 1) ps"

lemma numbered_append: "numbered s (ps @ qs) = numbered s ps @ numbered (s + word_of_nat (length ps)) qs"
  by (induction ps arbitrary: s) (simp_all add: add.assoc add.commute [of 1])

text \<open>The communicator has sent the payloads \<open>ps\<close> under the next sequence numbers.\<close>

definition my_ok :: "MysqlCommunicator \<Rightarrow> bool" where
  "my_ok m \<longleftrightarrow> wr_ok (my_writer m)"

definition sent :: "MysqlCommunicator \<Rightarrow> Socket \<Rightarrow> bytes list \<Rightarrow> MysqlCommunicator \<Rightarrow> Socket \<Rightarrow> bool" where
  "sent m sk ps m' sk' \<longleftrightarrow> my_ok m' \<and> my_client_capabilities_flag m' = my_client_capabilities_flag m \<and> my_authed m' = my_authed m \<and>
     my_sequence_id m' = my_sequence_id m + word_of_nat (length ps) \<and>
     wr_stream (my_writer m') sk' = wr_stream (my_writer m) sk @ concat (map frame (numbered (my_sequence_id m) ps))"

lemma sent_trans: "sent m sk ps m1 sk1 \<Longrightarrow> sent m1 sk1 qs m2 sk2 \<Longrightarrow> sent m sk (ps @ qs) m2 sk2"
  by (simp add: sent_def numbered_append add.assoc)

lemma sent_Nil: "my_ok m \<Longrightarrow> sent m sk [] m sk"
  by (simp add: sent_def)

lemma my_writen_sent:
  assumes fair: "net_fair net" and ok: "my_ok m"
  obtains m' sk' where "my_writen net (frame (my_sequence_id m, p)) (next_seq m) sk = Some (SUCCESS, m', sk')" "sent m sk [p] m' sk'"
proof -
  let ?bs = "frame (my_sequence_id m, p)" and ?w = "my_writer m"
  obtain w' sk' where r: "wr_writen net ?bs (int (length ?bs)) ?w sk = Some (SUCCESS, w', sk')" "wr_ok w'"
    "wr_stream w' sk' = wr_stream ?w sk @ ?bs"
    using wr_writen_fair [OF fair] ok by (metis my_ok_def)
  then show thesis using that [of "(next_seq m)\<lparr>my_writer := w'\<rparr>" sk'] by (simp add: my_writen_def next_seq_def sent_def my_ok_def)
qed

lemma my_flush_ok:
  assumes fair: "net_fair net" and ok: "my_ok m"
  obtains m' sk' where "my_flush net m sk = Some (m', sk')" "sk_out sk' = wr_stream (my_writer m) sk" "my_ok m'"
    "my_sequence_id m' = my_sequence_id m"
proof -
  obtain w' sk' where f: "wr_flush net (my_writer m) sk = Some (SUCCESS, w', sk')" "wr_ok w'" "sk_out sk' = wr_stream (my_writer m) sk"
    using wr_flush_fair [OF fair] ok by (metis my_ok_def)
  then show thesis using that [of "m\<lparr>my_writer := w'\<rparr>" sk'] by (simp add: my_flush_def my_ok_def)
qed

lemma send_packet_sent:
  assumes "net_fair net" "my_ok m" "encode (my_client_capabilities_flag m) pk = Some (frame (my_sequence_id m, p))"
  obtains m' sk' where "send_packet net pk (next_seq m) sk = Some (SUCCESS, m', sk')" "sent m sk [p] m' sk'"
  using my_writen_sent [OF assms(1,2), of p sk] assms(3) by (auto simp: send_packet_def next_seq_def)

lemma column_packet_frame:
  assumes "4 + length (column_payload spec) \<le> 1024" "length buf = 1024"
  shows "column_packet seq spec buf = Some (frame (seq, column_payload spec))"
proof -
  obtain tab al where spec: "spec = (tab, al)" by fastforce
  show ?thesis using finish_put [of seq "column_payload spec" buf] assms
    by (simp add: spec column_packet_def column_payload_def store_puts put_bytes_append)
qed

lemma column_count_frame:
  assumes "length buf = 1024"
  shows "column_count_packet caps seq n buf = Some (frame (seq, count_payload caps n))"
proof -
  have "length (lenenc (word_of_nat n)) \<le> 9" by (simp add: lenenc_bytes)
  then show ?thesis using finish_put [of seq "count_payload caps n" buf] assms
    by (cases "caps AND CLIENT_OPTIONAL_RESULTSET_METADATA = 0")
      (simp_all add: column_count_packet_def count_payload_def store_puts put_bytes_append)
qed

lemma length_resize [simp]: "length (resize n b) = n"
  by (simp add: resize_def)

lemma send_columns_sent:
  assumes fair: "net_fair net" and "my_ok m" "\<forall>spec \<in> set specs. 4 + length (column_payload spec) \<le> 1024"
  shows "\<exists>m' sk'. send_columns net specs buf m sk = Some (SUCCESS, m', sk') \<and> sent m sk (map column_payload specs) m' sk'"
  using assms(2,3)
proof (induction specs arbitrary: buf m sk)
  case Nil
  then show ?case by (simp add: sent_Nil)
next
  case (Cons spec specs)
  obtain m1 sk1 where w: "my_writen net (frame (my_sequence_id m, column_payload spec)) (next_seq m) sk = Some (SUCCESS, m1, sk1)"
    "sent m sk [column_payload spec] m1 sk1"
    using my_writen_sent [OF fair Cons(2)] by metis
  have "my_ok m1" using w(2) by (simp add: sent_def)
  from Cons(1) [OF this, of "frame (my_sequence_id m, column_payload spec)" sk1] Cons(3)
  obtain m2 sk2 where "send_columns net specs (frame (my_sequence_id m, column_payload spec)) m1 sk1 = Some (SUCCESS, m2, sk2)"
    "sent m1 sk1 (map column_payload specs) m2 sk2" by auto
  then show ?case using w Cons(3) sent_trans [OF w(2)] by (auto simp: column_packet_frame)
qed

lemma store_cells_put: "snd c \<le> length (fst c) \<Longrightarrow> store_cells cells c = put_bytes (row_payload cells) c"
proof (induction cells c rule: store_cells.induct)
  case (3 s cells c)
  have "store_cells cells c' = put_bytes (row_payload cells) c'" if "put_bytes (lenenc_str s) c = Some c'" for c'
    by (rule 3(1)) (use that 3(2) in \<open>auto simp: store_lenenc_string_put put_bytes_def split: prod.splits if_splits\<close>)
  then have "store_cells (Inr s # cells) c = Option.bind (put_bytes (lenenc_str s) c) (put_bytes (row_payload cells))"
    by (cases "put_bytes (lenenc_str s) c") (simp_all add: store_lenenc_string_put)
  then show ?case by (simp add: put_bytes_append2)
qed simp_all

lemma write_tuple_result_sent:
  assumes fair: "net_fair net" and "my_ok m" "\<forall>row \<in> set rows. 4 + length (row_payload row) \<le> length packet"
  shows "\<exists>m' sk'. write_tuple_result net e rows packet n m sk = Some (e, n + word_of_nat (length rows), m', sk') \<and>
    sent m sk (map row_payload (filter (\<lambda>row. row \<noteq> []) rows)) m' sk'"
  using assms(2,3)
proof (induction rows arbitrary: packet n m sk)
  case Nil
  then show ?case by (simp add: sent_Nil)
next
  case (Cons row rows)
  show ?case
  proof (cases "row = []")
    case True
    then show ?thesis using Cons(1) [OF Cons(2), of packet "n + 1" sk] Cons(3) by (simp add: add.assoc)
  next
    case False
    let ?s = "my_sequence_id m" and ?p = "row_payload row"
    obtain c where c: "put_bytes (?s # ?p) (packet, 3) = Some c" using Cons(3) by (auto simp: put_bytes_def)
    then obtain buf1 pos where c1: "put_bytes (?s # ?p) (packet, 3) = Some (buf1, pos)" by (cases c) simp
    obtain buf2 where b: "store_int3 (word_of_int (int pos - 4)) (buf1, 0) = Some (buf2, 3)" "take pos buf2 = frame (?s, ?p)"
      "length buf2 = length packet"
      using store_length(3) [OF c1] by blast
    have "Option.bind (store_int1 ?s (packet, 3)) (store_cells row) = Some (buf1, pos)"
    proof -
      obtain c0 where c0: "put_bytes [?s] (packet, 3) = Some c0" "snd c0 \<le> length (fst c0)" using Cons(3) by (auto simp: put_bytes_def)
      then show ?thesis using c1 put_bytes_append2 [of "[?s]" "(packet, 3)" ?p] by (simp add: store_int1_def store_cells_put)
    qed
    then obtain c0 where c0: "store_int1 ?s (packet, 3) = Some c0" "store_cells row c0 = Some (buf1, pos)" by (auto split: bind_splits)
    obtain m1 sk1 where w: "my_writen net (frame (?s, ?p)) (next_seq m) sk = Some (SUCCESS, m1, sk1)" "sent m sk [?p] m1 sk1"
      using my_writen_sent [OF fair Cons(2)] by metis
    have "my_ok m1" using w(2) by (simp add: sent_def)
    from Cons(1) [OF this, of buf2 "n + 1" sk1] Cons(3) b(3)
    obtain m2 sk2 where "write_tuple_result net e rows buf2 (n + 1) m1 sk1 = Some (e, n + 1 + word_of_nat (length rows), m2, sk2)"
      "sent m1 sk1 (map row_payload (filter (\<lambda>row. row \<noteq> []) rows)) m2 sk2" by auto
    then show ?thesis using False c0 b w sent_trans [OF w(2)] by (auto simp: add.assoc)
  qed
qed

lemma eof_sent:
  assumes fair: "net_fair net" and ok: "my_ok m"
  obtains m' sk' where "send_packet net (EofP ((eof_new (my_sequence_id m))\<lparr>eof_status_flags := f\<rparr>)) (next_seq m) sk = Some (SUCCESS, m', sk')"
    "sent m sk [eof_payload (my_client_capabilities_flag m) ((eof_new 0)\<lparr>eof_status_flags := f\<rparr>)] m' sk'"
proof (rule send_packet_sent [OF fair ok, of "EofP ((eof_new (my_sequence_id m))\<lparr>eof_status_flags := f\<rparr>)"])
  show "encode (my_client_capabilities_flag m) (EofP ((eof_new (my_sequence_id m))\<lparr>eof_status_flags := f\<rparr>)) =
      Some (frame (my_sequence_id m, eof_payload (my_client_capabilities_flag m) ((eof_new 0)\<lparr>eof_status_flags := f\<rparr>)))"
    by (simp add: eof_encode_frame eof_payload_def eof_new_def)
qed (rule that)

lemma send_columns_part:
  assumes fair: "net_fair net" and ok: "my_ok m" and cols: "schema \<noteq> []" "\<forall>spec \<in> set schema. 4 + length (column_payload spec) \<le> 1024"
  obtains m' sk' where "send_column_definition net schema d m sk = Some (SUCCESS, False, m', sk')"
    "sent m sk (count_payload (my_client_capabilities_flag m) (length schema) # map column_payload schema @
       (if my_client_capabilities_flag m AND CLIENT_DEPRECATE_EOF = 0
        then [eof_payload (my_client_capabilities_flag m) ((eof_new 0)\<lparr>eof_status_flags := 0x02\<rparr>)] else [])) m' sk'"
proof -
  let ?caps = "my_client_capabilities_flag m" and ?n = "length schema"
  let ?b = "frame (my_sequence_id m, count_payload ?caps ?n)"
  obtain m1 sk1 where a: "my_writen net ?b (next_seq m) sk = Some (SUCCESS, m1, sk1)" "sent m sk [count_payload ?caps ?n] m1 sk1"
    using my_writen_sent [OF fair ok] by metis
  then have ok1: "my_ok m1" "my_client_capabilities_flag m1 = ?caps" by (simp_all add: sent_def)
  obtain m2 sk2 where b: "send_columns net schema ?b m1 sk1 = Some (SUCCESS, m2, sk2)" "sent m1 sk1 (map column_payload schema) m2 sk2"
    using send_columns_sent [OF fair ok1(1) cols(2)] by blast
  then have ok2: "my_ok m2" "my_client_capabilities_flag m2 = ?caps" using ok1 by (simp_all add: sent_def)
  note ab = sent_trans [OF a(2) b(2)]
  show thesis
  proof (cases "?caps AND CLIENT_DEPRECATE_EOF = 0")
    case True
    obtain m3 sk3 where c: "send_packet net (EofP ((eof_new (my_sequence_id m2))\<lparr>eof_status_flags := 0x02\<rparr>)) (next_seq m2) sk2 = Some (SUCCESS, m3, sk3)"
      "sent m2 sk2 [eof_payload ?caps ((eof_new 0)\<lparr>eof_status_flags := 0x02\<rparr>)] m3 sk3"
      using eof_sent [OF fair ok2(1), where f = 2 and sk = sk2] ok2(2) by metis
    have "send_column_definition net schema d m sk = Some (SUCCESS, False, m3, sk3)"
      using cols(1) a(1) b(1) c(1) ok2 True by (simp add: send_column_definition_def column_count_frame)
    moreover note sent_trans [OF ab c(2)]
    ultimately show thesis using that [of m3 sk3] True by simp
  next
    case False
    then have "send_column_definition net schema d m sk = Some (SUCCESS, False, m2, sk2)"
      using cols(1) a(1) b(1) ok2 by (simp add: send_column_definition_def column_count_frame)
    then show thesis using that [of m2 sk2] ab False by simp
  qed
qed

lemma ok_payload_small: "4 + length (ok_payload caps ((ok_new s)\<lparr>ok_affected_rows := n\<rparr>)) \<le> 100"
proof -
  have "length (lenenc v) \<le> 9" for v by (simp add: lenenc_bytes)
  from this [of "scast n"] this [of "scast (0 :: u32)"] show ?thesis
    by (simp add: ok_payload_def ok_new_def lenenc_str_def c_str_def lenenc_bytes)
qed

lemma send_rows_part:
  assumes fair: "net_fair net" and ok: "my_ok m" and rows: "\<forall>row \<in> set (qr_rows r). 4 + length (row_payload row) \<le> 4 * 1024 * 1024"
  obtains m' sk' where "send_result_rows net r no_cols m sk = Some (SUCCESS, False, m', sk')"
    "sent m sk (map row_payload (filter (\<lambda>row. row \<noteq> []) (qr_rows r)) @
       [end_payload (my_client_capabilities_flag m) no_cols (length (qr_rows r))]) m' sk'"
proof -
  let ?caps = "my_client_capabilities_flag m" and ?n = "length (qr_rows r)"
  obtain m1 sk1 where a: "write_tuple_result net (qr_end r) (qr_rows r) (replicate (4 * 1024 * 1024) 0) 0 m sk =
      Some (qr_end r, word_of_nat ?n, m1, sk1)"
    "sent m sk (map row_payload (filter (\<lambda>row. row \<noteq> []) (qr_rows r))) m1 sk1"
    using write_tuple_result_sent [OF fair ok, of "qr_rows r" "replicate (4 * 1024 * 1024) 0" "qr_end r" 0 sk] rows by auto
  then have ok1: "my_ok m1" "my_client_capabilities_flag m1 = ?caps" by (simp_all add: sent_def)
  show thesis
  proof (cases "?caps AND CLIENT_DEPRECATE_EOF \<noteq> 0 \<or> no_cols")
    case True
    let ?p = "OkP ((ok_new (my_sequence_id m1))\<lparr>ok_affected_rows := word_of_nat ?n\<rparr>)"
    have "encode ?caps ?p = Some (frame (my_sequence_id m1, end_payload ?caps no_cols ?n))"
      using True ok_payload_small [of ?caps "word_of_nat ?n" "my_sequence_id m1"]
      by (simp add: ok_encode_frame end_payload_def ok_payload_def ok_new_def)
    then obtain m2 sk2 where b: "send_packet net ?p (next_seq m1) sk1 = Some (SUCCESS, m2, sk2)" "sent m1 sk1 [end_payload ?caps no_cols ?n] m2 sk2"
      using send_packet_sent [OF fair ok1(1), of ?p] ok1(2) by metis
    have "send_result_rows net r no_cols m sk = Some (SUCCESS, False, m2, sk2)"
      using a(1) b(1) ok1(2) True by (simp add: send_result_rows_def)
    then show thesis using that sent_trans [OF a(2) b(2)] by blast
  next
    case False
    have e: "eof_new s = (eof_new s)\<lparr>eof_status_flags := 0x22\<rparr>" for s by (simp add: eof_new_def)
    obtain m2 sk2 where b: "send_packet net (EofP (eof_new (my_sequence_id m1))) (next_seq m1) sk1 = Some (SUCCESS, m2, sk2)"
      "sent m1 sk1 [end_payload ?caps no_cols ?n] m2 sk2"
      using eof_sent [OF fair ok1(1), where f = "0x22" and sk = sk1] ok1(2) False by (metis e end_payload_def)
    have "send_result_rows net r no_cols m sk = Some (SUCCESS, False, m2, sk2)"
      using a(1) b(1) ok1(2) False by (simp add: send_result_rows_def)
    then show thesis using that sent_trans [OF a(2) b(2)] by blast
  qed
qed

lemma snd_numbered: "map snd (numbered s ps) = ps"
  by (induction ps arbitrary: s) simp_all

lemma result_payloads_small:
  assumes "\<forall>spec \<in> set (qr_schema r). 4 + length (column_payload spec) \<le> 1024"
    "\<forall>row \<in> set (qr_rows r). 4 + length (row_payload row) \<le> 4 * 1024 * 1024"
  shows "\<forall>f \<in> set (numbered s (result_payloads caps r)). length (snd f) < 2 ^ 24"
proof -
  have "length (count_payload caps n) \<le> 10" for n by (simp add: count_payload_def lenenc_bytes)
  then have c: "length (count_payload caps n) < 2 ^ 24" for n by (rule le_less_trans) simp
  have e: "length (eof_payload caps p) < 2 ^ 24" for p by (simp add: eof_payload_def)
  have f: "length (end_payload caps no_cols n) < 2 ^ 24" for no_cols n
    using e ok_payload_small [of caps "word_of_nat n" 0] by (simp add: end_payload_def)
  have a: "length (column_payload spec) < 2 ^ 24" if "spec \<in> set (qr_schema r)" for spec using bspec [OF assms(1) that] by simp
  have b: "length (row_payload row) < 2 ^ 24" if "row \<in> set (qr_rows r)" for row using bspec [OF assms(2) that] by simp
  have "\<forall>p \<in> set (result_payloads caps r). length p < 2 ^ 24"
    unfolding result_payloads_def using a b c e f by (simp add: ball_Un)
  then show ?thesis using snd_numbered [of s "result_payloads caps r"] by (metis image_eqI set_map)
qed

text \<open>
  C9. A result set reaches the client.  When the network goes on, \<^verbatim>\<open>write_result\<close> for a result with
  columns and rows returns the code of \<^verbatim>\<open>close\<close>, and what the client has received since then is, after
  what was still in the buffer, a sequence of frames which it can take apart: the column count, one
  definition per column, an EOF packet unless it is deprecated, the rows with their cells, and a
  closing packet, with consecutive sequence numbers.
\<close>

theorem result_set_on_the_wire:
  assumes fair: "net_fair net" and ok: "my_ok m"
    and r: "qr_return_code r = SUCCESS" "qr_has_operator r" "qr_open r = SUCCESS"
    and fit: "\<forall>spec \<in> set (qr_schema r). 4 + length (column_payload spec) \<le> 1024"
      "\<forall>row \<in> set (qr_rows r). 4 + length (row_payload row) \<le> 4 * 1024 * 1024"
  shows "\<exists>m' sk' new. write_result net (Some r) m sk = Some (qr_close r, False, m', sk') \<and>
    sk_out sk' = wr_stream (my_writer m) sk @ new \<and>
    unframe new = numbered (my_sequence_id m) (result_payloads (my_client_capabilities_flag m) r)"
proof -
  let ?caps = "my_client_capabilities_flag m" and ?s = "my_sequence_id m"
  let ?head = "if qr_schema r = [] then [] else count_payload ?caps (length (qr_schema r)) # map column_payload (qr_schema r) @
        (if ?caps AND CLIENT_DEPRECATE_EOF = 0 then [eof_payload ?caps ((eof_new 0)\<lparr>eof_status_flags := 0x02\<rparr>)] else [])"
  let ?cols = "if qr_schema r = [] then Some (SUCCESS, True, m, sk) else send_column_definition net (qr_schema r) True m sk"
  obtain d m1 sk1 where a: "?cols = Some (SUCCESS, d, m1, sk1)" "sent m sk ?head m1 sk1"
  proof (cases "qr_schema r = []")
    case True
    then show ?thesis using that [of True m sk] sent_Nil [OF ok, of sk] by simp
  next
    case False
    show ?thesis by (rule send_columns_part [OF fair ok False fit(1), where d = True and sk = sk]) (use that False in auto)
  qed
  then have ok1: "my_ok m1" "my_client_capabilities_flag m1 = ?caps" by (simp_all add: sent_def)
  obtain m2 sk2 where b: "send_result_rows net r (qr_schema r = []) m1 sk1 = Some (SUCCESS, False, m2, sk2)"
    "sent m1 sk1 (map row_payload (filter (\<lambda>row. row \<noteq> []) (qr_rows r)) @ [end_payload ?caps (qr_schema r = []) (length (qr_rows r))]) m2 sk2"
    using send_rows_part [OF fair ok1(1) fit(2)] ok1(2) by metis
  have all: "sent m sk (result_payloads ?caps r) m2 sk2" using sent_trans [OF a(2) b(2)] by (simp add: result_payloads_def)
  then have "my_ok m2" by (simp add: sent_def)
  then obtain m3 sk3 where f: "my_flush net m2 sk2 = Some (m3, sk3)" "sk_out sk3 = wr_stream (my_writer m2) sk2"
    using my_flush_ok [OF fair] by metis
  have "write_result net (Some r) m sk = Some (qr_close r, False, m3, sk3)"
    using r a(1) b(1) f(1) by (simp add: write_result_def split: if_splits)
  then show ?thesis
    using all f(2) unframe_frames [OF result_payloads_small [OF fit, where s = ?s and caps = ?caps]] by (auto simp: sent_def)
qed

definition my_start :: "u32 \<Rightarrow> MysqlCommunicator" where
  "my_start caps = \<lparr>my_writer = wr_new 5 DEFAULT_BUFFER_SIZE, my_authed = True, my_client_capabilities_flag = caps, my_sequence_id = 1\<rparr>"

lemma my_start_ok: "my_ok (my_start caps)"
  by (simp add: my_ok_def my_start_def wr_ok_def wr_new_def rb_new_wf DEFAULT_BUFFER_SIZE_def)

lemma net_fair_plain: "n' > 0 \<Longrightarrow> net_fair (\<lambda>i n. Wrote n')"
  by (auto simp: net_fair_def)

lemma str_small: "length (lenenc_str (str s)) \<le> 9 + length s"
proof -
  have "length (c_str (str s)) \<le> length s" using length_takeWhile_le [of "\<lambda>b. b \<noteq> 0" "str s"] by (simp add: c_str_def str_def)
  then show ?thesis by (simp add: lenenc_str_def lenenc_bytes)
qed

theorem result_set_on_the_wire_witness:
  "\<exists>m' sk' new. write_result (\<lambda>i n. Wrote 100) (Some version_comment_result) (my_start 512) \<lparr>sk_out = [], sk_calls = 0\<rparr> =
      Some (SUCCESS, False, m', sk') \<and> sk_out sk' = new \<and> unframe new = numbered 1 (result_payloads 512 version_comment_result)"
proof -
  let ?r = version_comment_result and ?sk = "\<lparr>sk_out = [], sk_calls = 0\<rparr>"
  have "length (lenenc_str []) = 1" by (simp add: lenenc_str_def c_str_def lenenc_bytes)
  then have "\<forall>spec \<in> set (qr_schema ?r). 4 + length (column_payload spec) \<le> 1024"
    using str_small [of "''def''"] str_small [of "''sys''"] str_small [of "''@@version_comment''"]
    by (simp add: version_comment_result_def column_payload_def lenenc_bytes)
  moreover have "\<forall>row \<in> set (qr_rows ?r). 4 + length (row_payload row) \<le> 4 * 1024 * 1024"
    using str_small [of "''MiniOB''"] by (simp add: version_comment_result_def)
  moreover have "wr_stream (my_writer (my_start 512)) ?sk = []"
    by (simp add: wr_stream_def my_start_def wr_new_def rb_new_wf)
  ultimately show ?thesis
    using result_set_on_the_wire [OF net_fair_plain my_start_ok, of 100 ?r 512 ?sk]
    by (simp add: version_comment_result_def my_start_def)
qed

text \<open>
  An error message must be short.  For a failed statement the answer is one error packet with the
  return code and the message, if the message has at most 987 bytes; a longer one, which
  \<^verbatim>\<open>write_state\<close> allows up to 2047 bytes, is written past the end of the packet buffer.
\<close>

theorem error_message_bound:
  assumes fair: "net_fair net" and ok: "my_ok m" and rc: "qr_return_code r \<noteq> SUCCESS"
    and caps: "my_client_capabilities_flag m AND CLIENT_PROTOCOL_41 \<noteq> 0"
  shows "if length (state_message r) \<le> 987
    then \<exists>m' sk' new. write_result net (Some r) m sk = Some (SUCCESS, False, m', sk') \<and>
      sk_out sk' = wr_stream (my_writer m) sk @ new \<and>
      unframe new = [(my_sequence_id m, 0xFF # put_word (word_of_int (qr_return_code r) :: u16) @ str ''#HY000'' @ state_message r)]
    else write_result net (Some r) m sk = None"
proof -
  let ?p = "(err_new (my_sequence_id m))\<lparr>err_error_code := word_of_int (qr_return_code r), err_error_message := state_message r\<rparr>"
  let ?pl = "0xFF # put_word (word_of_int (qr_return_code r) :: u16) @ str ''#HY000'' @ state_message r"
  have pl: "err_payload (my_client_capabilities_flag m) ?p = ?pl" "err_sequence_id ?p = my_sequence_id m"
    using caps by (simp_all add: err_payload_def err_new_def str_def)
  have "length (err_sql_state_marker ?p) = 1" "length (err_sql_state ?p) = 5" by (simp_all add: err_new_def str_def)
  from err_encode_frame [OF this, of "my_client_capabilities_flag m"]
  have e: "encode (my_client_capabilities_flag m) (ErrP ?p) = (if length (state_message r) \<le> 987 then Some (frame (my_sequence_id m, ?pl)) else None)"
    unfolding pl by (simp add: str_def)
  show ?thesis
  proof (cases "length (state_message r) \<le> 987")
    case True
    obtain m1 sk1 where s: "send_packet net (ErrP ?p) (next_seq m) sk = Some (SUCCESS, m1, sk1)" "sent m sk [?pl] m1 sk1"
      using send_packet_sent [OF fair ok, of "ErrP ?p" ?pl sk] e True by auto
    then have "my_ok m1" by (simp add: sent_def)
    then obtain m2 sk2 where f: "my_flush net m1 sk1 = Some (m2, sk2)" "sk_out sk2 = wr_stream (my_writer m1) sk1"
      using my_flush_ok [OF fair] by metis
    have "write_result net (Some r) m sk = Some (SUCCESS, False, m2, sk2)"
      using rc s(1) f(1) by (simp add: write_result_def write_state_def)
    moreover have "unframe (frame (my_sequence_id m, ?pl)) = [(my_sequence_id m, ?pl)]"
      using unframe_frames [of "[(my_sequence_id m, ?pl)]"] True by (simp add: str_def)
    ultimately show ?thesis using s(2) f(2) True by (auto simp: sent_def)
  next
    case False
    then show ?thesis using rc e by (simp add: write_result_def write_state_def send_packet_def next_seq_def)
  qed
qed

theorem error_message_bound_witness:
  "write_result (\<lambda>i n. Wrote 1) (Some (version_comment_result\<lparr>qr_return_code := SQL_SYNTAX, qr_state_string := replicate 1000 97\<rparr>))
     (my_start 512) \<lparr>sk_out = [], sk_calls = 0\<rparr> = None"
proof -
  let ?r = "version_comment_result\<lparr>qr_return_code := SQL_SYNTAX, qr_state_string := replicate 1000 (97 :: byte)\<rparr>"
  have "takeWhile (\<lambda>b. b \<noteq> 0) (replicate n (97 :: byte)) = replicate n 97" for n by (induction n) simp_all
  then have "length (state_message ?r) > 987" by (simp add: state_message_def c_str_def str_def)
  then show ?thesis
    using error_message_bound [OF net_fair_plain my_start_ok, of 1 ?r 512 "\<lparr>sk_out = [], sk_calls = 0\<rparr>"]
    by (simp add: my_start_def CLIENT_PROTOCOL_41_def rc_defs)
qed

end
