(* ===== verification/Ob_Plain.thy ===== *)
theory Ob_Plain
  imports Ob_Mysql
begin

text \<open>
  The plain text protocol (\<^verbatim>\<open>observer/net/plain_communicator.cpp\<close>): a request is a string that ends with a NUL
  byte, an answer is text that ends with one.  Reading is modelled on a script of what the socket delivers, so the
  theorems hold for every way the network cuts a message into pieces; answers go through the buffered writer of
  \<^verbatim>\<open>Ob_Net\<close> and take their rows from a \<^typ>\<open>QueryResult\<close>, as those of the MySQL protocol do.
\<close>

section \<open>Reading a request\<close>

text \<open>What the calls of \<^verbatim>\<open>read\<close> find: bytes that have arrived (none of them when the peer has closed the
  connection), nothing yet, or an error.  A call takes at most the bytes it has room for and leaves the others for the
  next one; with no room it returns 0.  At the end of the script the call blocks.\<close>

datatype arrival = Arrived bytes | NotYet | Broken

datatype sys_read = Got bytes | ReadAgain | ReadFailed

fun sock_read :: "nat \<Rightarrow> arrival list \<Rightarrow> (sys_read \<times> arrival list) option" where
  "sock_read len [] = (if len = 0 then Some (Got [], []) else None)"
| "sock_read len (a # as) =
     (if len = 0 then Some (Got [], a # as)
      else case a of
        Arrived bs \<Rightarrow> Some (Got (take len bs), if length bs \<le> len then as else Arrived (drop len bs) # as)
      | NotYet \<Rightarrow> Some (ReadAgain, as)
      | Broken \<Rightarrow> Some (ReadFailed, as))"

definition max_packet_size :: nat where "max_packet_size = 8192"

fun arrival_weight :: "arrival \<Rightarrow> nat" where
  "arrival_weight (Arrived bs) = length bs + 1"
| "arrival_weight NotYet = 1"
| "arrival_weight Broken = 1"

definition arrivals_weight :: "arrival list \<Rightarrow> nat" where
  "arrivals_weight as = sum_list (map arrival_weight as)"

lemma sock_read_weight:
  assumes "sock_read len as = Some (r, as')" "r \<noteq> Got []"
  shows "arrivals_weight as' < arrivals_weight as"
  using assms by (cases as) (auto simp: arrivals_weight_def split: if_splits arrival.splits)

text \<open>
  The loop keeps the bytes in the buffer, of which \<^verbatim>\<open>data_len\<close> have been searched for the NUL byte.  It ends
  with the buffer, \<^verbatim>\<open>data_len\<close> and the sign of the last \<^verbatim>\<open>read_len\<close>.
\<close>

function read_loop :: "bytes \<Rightarrow> nat \<Rightarrow> arrival list \<Rightarrow> (bytes \<times> nat \<times> int \<times> arrival list) option" where
  "read_loop buf data_len as =
     (case sock_read (max_packet_size - data_len) as of
        None \<Rightarrow> None
      | Some (ReadAgain, as') \<Rightarrow> read_loop buf data_len as'
      | Some (ReadFailed, as') \<Rightarrow> Some (buf, data_len, - 1, as')
      | Some (Got bs, as') \<Rightarrow>
          if bs = [] then Some (buf, data_len, 0, as')
          else if length bs + data_len > max_packet_size then Some (buf @ bs, data_len + length bs, int (length bs), as')
          else if 0 \<in> set bs then Some (buf @ bs, data_len + length (takeWhile (\<lambda>b. b \<noteq> 0) bs) + 1, int (length bs), as')
          else read_loop (buf @ bs) (data_len + length bs) as')"
  by pat_completeness auto
termination
  by (relation "measure (\<lambda>(_, _, as). arrivals_weight as)") (auto dest: sock_read_weight)

declare read_loop.simps [simp del]

definition read_request :: "arrival list \<Rightarrow> (RC \<times> bytes option \<times> arrival list) option" where
  "read_request as = do {
     (buf, data_len, read_len, as) \<leftarrow> read_loop [] 0 as;
     if data_len > max_packet_size then Some (IOERR_TOO_LONG, None, as)
     else if read_len = 0 then Some (IOERR_CLOSE, None, as)
     else if read_len < 0 then Some (IOERR_READ, None, as)
     else Some (SUCCESS, Some (c_str buf), as)
   }"

section \<open>Writing an answer\<close>

record PlainCommunicator =
  pc_writer :: BufferedWriter
  send_message_delimiter :: bytes
  debug_message_prefix :: bytes

definition pc_new :: "int \<Rightarrow> PlainCommunicator" where
  "pc_new fd = \<lparr>pc_writer = wr_new fd DEFAULT_BUFFER_SIZE, send_message_delimiter = [0], debug_message_prefix = str ''# ''\<rparr>"

definition pc_writen :: "net \<Rightarrow> bytes \<Rightarrow> PlainCommunicator \<Rightarrow> Socket \<Rightarrow> (RC \<times> PlainCommunicator \<times> Socket) option" where
  "pc_writen net bs p sk = do {
     (rc, w, sk) \<leftarrow> wr_writen net bs (int (length bs)) (pc_writer p) sk;
     Some (rc, p\<lparr>pc_writer := w\<rparr>, sk)
   }"

definition pc_flush :: "net \<Rightarrow> PlainCommunicator \<Rightarrow> Socket \<Rightarrow> (PlainCommunicator \<times> Socket) option" where
  "pc_flush net p sk = do {
     (_, w, sk) \<leftarrow> wr_flush net (pc_writer p) sk;
     Some (p\<lparr>pc_writer := w\<rparr>, sk)
   }"

definition newline :: bytes where "newline = [10]"

definition delim :: bytes where "delim = str '' | ''"

definition pc_state_text :: "QueryResult \<Rightarrow> bytes" where
  "pc_state_text r =
     take 2047 (if qr_state_string r = [] then str (if qr_return_code r = SUCCESS then ''SUCCESS'' else ''FAILURE'') @ newline
                else str (strrc (qr_return_code r)) @ str '' > '' @ c_str (qr_state_string r) @ newline)"

definition pc_write_state :: "net \<Rightarrow> QueryResult \<Rightarrow> PlainCommunicator \<Rightarrow> Socket
    \<Rightarrow> (RC \<times> bool \<times> PlainCommunicator \<times> Socket) option" where
  "pc_write_state net r p sk = do {
     (rc, p, sk) \<leftarrow> pc_writen net (pc_state_text r) p sk;
     if rc \<noteq> SUCCESS then Some (IOERR_WRITE, True, p, sk) else Some (SUCCESS, False, p, sk)
   }"

text \<open>\<^verbatim>\<open>Session::sql_debug_on\<close> is the constant false; the rest of the function is kept.\<close>

definition sql_debug_on :: bool where "sql_debug_on = False"

fun write_debug_infos :: "net \<Rightarrow> bytes list \<Rightarrow> PlainCommunicator \<Rightarrow> Socket \<Rightarrow> (RC \<times> bool \<times> PlainCommunicator \<times> Socket) option" where
  "write_debug_infos net [] p sk = Some (SUCCESS, False, p, sk)"
| "write_debug_infos net (debug_info # infos) p sk = do {
     (rc, p, sk) \<leftarrow> pc_writen net (debug_message_prefix p) p sk;
     if rc \<noteq> SUCCESS then Some (IOERR_WRITE, True, p, sk)
     else do {
       (rc, p, sk) \<leftarrow> pc_writen net debug_info p sk;
       if rc \<noteq> SUCCESS then Some (IOERR_WRITE, True, p, sk)
       else do {
         (rc, p, sk) \<leftarrow> pc_writen net newline p sk;
         if rc \<noteq> SUCCESS then Some (IOERR_WRITE, True, p, sk) else write_debug_infos net infos p sk
       }
     }
   }"

definition write_debug :: "net \<Rightarrow> bytes list \<Rightarrow> bool \<Rightarrow> PlainCommunicator \<Rightarrow> Socket
    \<Rightarrow> (RC \<times> bool \<times> PlainCommunicator \<times> Socket) option" where
  "write_debug net infos need_disconnect p sk =
     (if \<not> sql_debug_on then Some (SUCCESS, need_disconnect, p, sk) else write_debug_infos net infos p sk)"

fun pc_write_header :: "net \<Rightarrow> bool \<Rightarrow> (bytes \<times> bytes) list \<Rightarrow> PlainCommunicator \<Rightarrow> Socket \<Rightarrow> (RC \<times> PlainCommunicator \<times> Socket) option" where
  "pc_write_header net first [] p sk = Some (SUCCESS, p, sk)"
| "pc_write_header net first (spec # specs) p sk = do {
     (rc, p, sk) \<leftarrow> (if first then Some (SUCCESS, p, sk) else pc_writen net delim p sk);
     if rc \<noteq> SUCCESS then Some (rc, p, sk)
     else do {
       (rc, p, sk) \<leftarrow> pc_writen net (c_str (snd spec)) p sk;
       if rc \<noteq> SUCCESS then Some (rc, p, sk) else pc_write_header net False specs p sk
     }
   }"

fun pc_write_cells :: "net \<Rightarrow> bool \<Rightarrow> (RC + bytes) list \<Rightarrow> PlainCommunicator \<Rightarrow> Socket \<Rightarrow> (RC \<times> PlainCommunicator \<times> Socket) option" where
  "pc_write_cells net first [] p sk = Some (SUCCESS, p, sk)"
| "pc_write_cells net first (cell # cells) p sk = do {
     (rc, p, sk) \<leftarrow> (if first then Some (SUCCESS, p, sk) else pc_writen net delim p sk);
     if rc \<noteq> SUCCESS then Some (rc, p, sk)
     else case cell of
       Inl rc \<Rightarrow> Some (rc, p, sk)
     | Inr cell_str \<Rightarrow> do {
         (rc, p, sk) \<leftarrow> pc_writen net cell_str p sk;
         if rc \<noteq> SUCCESS then Some (rc, p, sk) else pc_write_cells net False cells p sk
       }
   }"

fun pc_write_tuple_result :: "net \<Rightarrow> RC \<Rightarrow> (RC + bytes) list list \<Rightarrow> PlainCommunicator \<Rightarrow> Socket
    \<Rightarrow> (RC \<times> PlainCommunicator \<times> Socket) option" where
  "pc_write_tuple_result net end_rc [] p sk = Some (if end_rc = RECORD_EOF then SUCCESS else end_rc, p, sk)"
| "pc_write_tuple_result net end_rc (row # rows) p sk = do {
     (rc, p, sk) \<leftarrow> pc_write_cells net True row p sk;
     if rc \<noteq> SUCCESS then Some (rc, p, sk)
     else do {
       (rc, p, sk) \<leftarrow> pc_writen net newline p sk;
       if rc \<noteq> SUCCESS then Some (rc, p, sk) else pc_write_tuple_result net end_rc rows p sk
     }
   }"

definition write_result_internal :: "net \<Rightarrow> QueryResult \<Rightarrow> PlainCommunicator \<Rightarrow> Socket
    \<Rightarrow> (RC \<times> bool \<times> PlainCommunicator \<times> Socket) option" where
  "write_result_internal net r p sk =
     (if qr_return_code r \<noteq> SUCCESS \<or> \<not> qr_has_operator r then pc_write_state net r p sk
      else if qr_open r \<noteq> SUCCESS then pc_write_state net (r\<lparr>qr_return_code := qr_open r\<rparr>) p sk
      else do {
        (rc, p, sk) \<leftarrow> pc_write_header net True (qr_schema r) p sk;
        if rc \<noteq> SUCCESS then Some (rc, True, p, sk)
        else do {
          (rc, p, sk) \<leftarrow> (if qr_schema r = [] then Some (SUCCESS, p, sk) else pc_writen net newline p sk);
          if rc \<noteq> SUCCESS then Some (rc, True, p, sk)
          else do {
            (rc, p, sk) \<leftarrow> pc_write_tuple_result net (qr_end r) (qr_rows r) p sk;
            if rc \<noteq> SUCCESS then Some (rc, True, p, sk)
            else if qr_schema r = [] then pc_write_state net (r\<lparr>qr_return_code := qr_close r\<rparr>) p sk
            else Some (qr_close r, False, p, sk)
          }
        }
      })"

definition pc_write_result :: "net \<Rightarrow> bytes list \<Rightarrow> QueryResult \<Rightarrow> PlainCommunicator \<Rightarrow> Socket
    \<Rightarrow> (RC \<times> bool \<times> PlainCommunicator \<times> Socket) option" where
  "pc_write_result net infos r p sk = do {
     (rc, need_disconnect, p, sk) \<leftarrow> write_result_internal net r p sk;
     (need_disconnect, p, sk) \<leftarrow>
       (if need_disconnect then Some (need_disconnect, p, sk)
        else do { (_, need_disconnect, p, sk) \<leftarrow> write_debug net infos need_disconnect p sk; Some (need_disconnect, p, sk) });
     if need_disconnect then do { (p, sk) \<leftarrow> pc_flush net p sk; Some (rc, need_disconnect, p, sk) }
     else do {
       (rc, p, sk) \<leftarrow> pc_writen net (send_message_delimiter p) p sk;
       if rc \<noteq> SUCCESS then Some (rc, True, p, sk)
       else do { (p, sk) \<leftarrow> pc_flush net p sk; Some (rc, need_disconnect, p, sk) }
     }
   }"

section \<open>Requests\<close>

text \<open>The bytes of a script, and scripts that bring bytes but no NUL among them.\<close>

definition arrived :: "arrival list \<Rightarrow> bytes" where
  "arrived as = concat (map (\<lambda>a. case a of Arrived bs \<Rightarrow> bs | _ \<Rightarrow> []) as)"

fun unfinished :: "arrival \<Rightarrow> bool" where
  "unfinished (Arrived bs) \<longleftrightarrow> bs \<noteq> [] \<and> 0 \<notin> set bs"
| "unfinished NotYet \<longleftrightarrow> True"
| "unfinished Broken \<longleftrightarrow> False"

lemma arrived_simps [simp]:
  "arrived [] = []" "arrived (Arrived bs # as) = bs @ arrived as" "arrived (NotYet # as) = arrived as"
  "arrived (Broken # as) = arrived as" "arrived (as @ as') = arrived as @ arrived as'"
  by (simp_all add: arrived_def)

lemma read_loop_unfinished:
  assumes "list_all unfinished pre" "n + length (arrived pre) < max_packet_size"
  shows "read_loop buf n (pre @ as) = read_loop (buf @ arrived pre) (n + length (arrived pre)) as"
  using assms
proof (induction pre arbitrary: buf n)
  case (Cons a pre)
  show ?case
  proof (cases a)
    case (Arrived bs)
    then have "length bs \<le> max_packet_size - n" "bs \<noteq> []" "0 \<notin> set bs" using Cons.prems by auto
    then show ?thesis using Cons.prems Cons.IH [of "n + length bs" "buf @ bs"] Arrived
      by (subst read_loop.simps) (simp add: add.assoc)
  next
    case NotYet
    then show ?thesis using Cons by (subst read_loop.simps) simp
  next
    case Broken
    then show ?thesis using Cons.prems by simp
  qed
qed simp

lemma take_message:
  fixes a :: bytes
  assumes "length a < k"
  obtains b' where "take k (a @ 0 # b) = a @ 0 # b'"
  using assms that by (cases "k - length a") simp_all

lemma takeWhile_message:
  "0 \<notin> set a \<Longrightarrow> takeWhile (\<lambda>x. x \<noteq> 0) (a @ 0 # b) = a" for a :: bytes
  by (subst takeWhile_append2) auto

lemma read_loop_end:
  assumes n: "n + length a < max_packet_size" and a: "0 \<notin> set a"
  obtains b' where "read_loop buf n (Arrived (a @ 0 # b) # post) =
    Some (buf @ a @ 0 # b', n + length a + 1, int (length a + 1 + length b'),
      let rest = drop (max_packet_size - n) (a @ 0 # b) in if rest = [] then post else Arrived rest # post)"
proof -
  let ?k = "max_packet_size - n"
  obtain b' where b': "take ?k (a @ 0 # b) = a @ 0 # b'" using take_message [of a ?k b] n by fastforce
  have len: "length (a @ 0 # b') \<le> ?k" by (metis b' length_take min.cobounded2)
  have k: "?k \<noteq> 0" using n by simp
  have "sock_read ?k (Arrived (a @ 0 # b) # post) =
    Some (Got (a @ 0 # b'), let rest = drop ?k (a @ 0 # b) in if rest = [] then post else Arrived rest # post)"
    using k b' by (simp only: sock_read.simps arrival.case if_False Let_def drop_eq_Nil)
  moreover have "length (a @ 0 # b') + n \<le> max_packet_size" using len n by linarith
  ultimately have "read_loop buf n (Arrived (a @ 0 # b) # post) =
    Some (buf @ a @ 0 # b', n + length a + 1, int (length a + 1 + length b'),
      let rest = drop ?k (a @ 0 # b) in if rest = [] then post else Arrived rest # post)"
    using takeWhile_message [OF a, of b'] by (subst read_loop.simps) (simp only: option.case prod.case sys_read.case, simp)
  then show thesis by (rule that)
qed

lemma read_loop_length:
  "read_loop buf n as = Some (buf', n', r, as') \<Longrightarrow> n \<le> max_packet_size \<Longrightarrow> n' \<le> max_packet_size"
proof (induction buf n as arbitrary: buf' n' r as' rule: read_loop.induct)
  case (1 buf n as)
  have bound: "length bs \<le> max_packet_size - n" if "sock_read (max_packet_size - n) as = Some (Got bs, as'')" for bs as''
    using that by (cases as) (auto split: if_splits arrival.splits)
  have tw: "length (takeWhile (\<lambda>b. b \<noteq> 0) bs) < length bs" if "0 \<in> set bs" for bs :: bytes
    using that by (metis (mono_tags, lifting) length_takeWhile_le linorder_le_less_linear order.antisym takeWhile_eq_all_conv takeWhile_eq_take take_all_iff)
  show ?case
  proof (cases "sock_read (max_packet_size - n) as")
    case None
    then show ?thesis using "1.prems" by (subst (asm) read_loop.simps) simp
  next
    case (Some ra)
    obtain s as'' where ra: "ra = (s, as'')" by force
    show ?thesis
    proof (cases s)
      case (Got bs)
      note b = bound [OF Some [unfolded ra Got]]
      show ?thesis using "1.prems" "1.IH" (1) [OF Some ra [symmetric] Got] Some ra Got b tw [of bs]
        by (subst (asm) read_loop.simps) (auto split: if_splits)
    next
      case ReadAgain
      then show ?thesis using "1.prems" "1.IH" (2) [OF Some ra [symmetric]] Some ra by (subst (asm) read_loop.simps) simp
    next
      case ReadFailed
      then show ?thesis using "1.prems" Some ra by (subst (asm) read_loop.simps) simp
    qed
  qed
qed

text \<open>
  C12. However the network cuts a request into pieces and however often nothing has arrived yet, a request of fewer than 8192
  bytes without a NUL byte is handed on unchanged once its NUL byte has arrived.  What came in the same call of
  \<^verbatim>\<open>read\<close> behind the NUL byte is thrown away: of the piece that holds it only the part survives for which the
  buffer had no room.
\<close>
theorem plain_request_read:
  assumes pre: "list_all unfinished pre" and a: "0 \<notin> set a" and len: "length (arrived pre @ a) < 8192"
  shows "read_request (pre @ Arrived (a @ 0 # b) # post) =
    Some (SUCCESS, Some (arrived pre @ a),
      let rest = drop (8192 - length (arrived pre)) (a @ 0 # b) in if rest = [] then post else Arrived rest # post)"
proof -
  have pre0: "0 \<notin> set (arrived pre)" using pre by (induction pre) (auto elim: unfinished.elims)
  have n: "length (arrived pre) + length a < max_packet_size" using len by (simp add: max_packet_size_def)
  obtain b' where e: "read_loop (arrived pre) (length (arrived pre)) (Arrived (a @ 0 # b) # post) =
    Some (arrived pre @ a @ 0 # b', length (arrived pre) + length a + 1, int (length a + 1 + length b'),
      let rest = drop (max_packet_size - length (arrived pre)) (a @ 0 # b) in if rest = [] then post else Arrived rest # post)"
    by (rule read_loop_end [OF n a])
  have "c_str (arrived pre @ a @ 0 # b') = arrived pre @ a"
    using takeWhile_message [of "arrived pre @ a" b'] a pre0 by (simp add: c_str_def)
  moreover have "read_loop [] 0 (pre @ Arrived (a @ 0 # b) # post) = read_loop (arrived pre) (length (arrived pre)) (Arrived (a @ 0 # b) # post)"
    using read_loop_unfinished [OF pre, of 0 "[]"] n by simp
  ultimately show ?thesis using n unfolding read_request_def e by (simp add: max_packet_size_def)
qed

theorem plain_request_read_witness:
  "read_request [Arrived [115, 101], NotYet, Arrived [108, 0, 120]] = Some (SUCCESS, Some [115, 101, 108], [])"
  using plain_request_read [of "[Arrived [115, 101], NotYet]" "[108]" "[120]" "[]"] by simp

text \<open>The check for a request that is too long never fires: a request of 8192 bytes or more is taken for a closed
  connection, since the call of \<^verbatim>\<open>read\<close> with no room left returns 0.\<close>

theorem plain_request_too_long:
  "read_request as = Some (rc, q, as') \<Longrightarrow> rc \<noteq> IOERR_TOO_LONG"
  "0 \<notin> set bs \<Longrightarrow> length bs \<ge> 8192 \<Longrightarrow> \<exists>as'. read_request [Arrived bs] = Some (IOERR_CLOSE, None, as')"
proof -
  show "read_request as = Some (rc, q, as') \<Longrightarrow> rc \<noteq> IOERR_TOO_LONG"
    by (auto simp: read_request_def bind_eq_Some_conv rc_defs dest!: read_loop_length split: if_splits)
  assume bs: "0 \<notin> set bs" "length bs \<ge> 8192"
  let ?bs = "take max_packet_size bs"
  have c: "length ?bs = max_packet_size" "?bs \<noteq> []" "0 \<notin> set ?bs" using bs by (auto simp: max_packet_size_def dest: in_set_takeD)
  obtain as where 1: "sock_read max_packet_size [Arrived bs] = Some (Got ?bs, as)" using bs by (auto simp: max_packet_size_def)
  have 2: "sock_read 0 as = Some (Got [], as)" for as by (cases as) simp_all
  have "read_loop ?bs max_packet_size as = Some (?bs, max_packet_size, 0, as)" using 2 by (subst read_loop.simps) simp
  then have "read_loop [] 0 [Arrived bs] = Some (?bs, max_packet_size, 0, as)" using 1 c by (subst read_loop.simps) simp
  then show "\<exists>as'. read_request [Arrived bs] = Some (IOERR_CLOSE, None, as')" by (simp add: read_request_def)
qed

section \<open>Answers\<close>

text \<open>The text of an answer, as a client should see it.\<close>

fun joined :: "bool \<Rightarrow> bytes list \<Rightarrow> bytes" where
  "joined first [] = []"
| "joined first (c # cs) = (if first then [] else delim) @ c @ joined False cs"

definition line_text :: "bytes list \<Rightarrow> bytes" where
  "line_text cells = joined True cells @ newline"

fun delivered :: "RC + bytes \<Rightarrow> bool" where
  "delivered (Inl rc) \<longleftrightarrow> False"
| "delivered (Inr cell_str) \<longleftrightarrow> True"

definition answer_text :: "QueryResult \<Rightarrow> bytes" where
  "answer_text r =
     (if qr_return_code r \<noteq> SUCCESS \<or> \<not> qr_has_operator r then pc_state_text r
      else if qr_open r \<noteq> SUCCESS then pc_state_text (r\<lparr>qr_return_code := qr_open r\<rparr>)
      else (if qr_schema r = [] then [] else line_text (map (\<lambda>s. c_str (snd s)) (qr_schema r))) @
        concat (map (\<lambda>row. line_text (map projr row)) (qr_rows r)) @
        (if qr_schema r = [] then pc_state_text (r\<lparr>qr_return_code := qr_close r\<rparr>) else []))"

definition pc_sent :: "PlainCommunicator \<Rightarrow> Socket \<Rightarrow> bytes \<Rightarrow> PlainCommunicator \<Rightarrow> Socket \<Rightarrow> bool" where
  "pc_sent p sk bs p' sk' \<longleftrightarrow> wr_ok (pc_writer p') \<and> wr_stream (pc_writer p') sk' = wr_stream (pc_writer p) sk @ bs \<and>
     send_message_delimiter p' = send_message_delimiter p"

lemma pc_sent_trans:
  "pc_sent p sk bs p' sk' \<Longrightarrow> pc_sent p' sk' cs p'' sk'' \<Longrightarrow> pc_sent p sk (bs @ cs) p'' sk''"
  by (simp add: pc_sent_def)

lemma pc_sent_refl: "wr_ok (pc_writer p) \<Longrightarrow> pc_sent p sk [] p sk"
  by (simp add: pc_sent_def)

lemma pc_sent_ok: "pc_sent p sk bs p' sk' \<Longrightarrow> wr_ok (pc_writer p')"
  by (simp add: pc_sent_def)

lemma pc_writen_fair:
  assumes "net_fair net" "wr_ok (pc_writer p)"
  obtains p' sk' where "pc_writen net bs p sk = Some (SUCCESS, p', sk')" "pc_sent p sk bs p' sk'"
proof -
  obtain w' sk' where "wr_writen net bs (int (length bs)) (pc_writer p) sk = Some (SUCCESS, w', sk')" "wr_ok w'"
    "wr_stream w' sk' = wr_stream (pc_writer p) sk @ bs" by (rule wr_writen_fair [OF assms])
  then show thesis using that [of "p\<lparr>pc_writer := w'\<rparr>" sk'] by (simp add: pc_writen_def pc_sent_def)
qed

lemma pc_flush_fair:
  assumes "net_fair net" "wr_ok (pc_writer p)"
  obtains p' sk' where "pc_flush net p sk = Some (p', sk')" "sk_out sk' = wr_stream (pc_writer p) sk"
proof -
  obtain w' sk' where "wr_flush net (pc_writer p) sk = Some (SUCCESS, w', sk')" "sk_out sk' = wr_stream (pc_writer p) sk"
    by (rule wr_flush_fair [OF assms])
  then show thesis using that [of "p\<lparr>pc_writer := w'\<rparr>" sk'] by (simp add: pc_flush_def)
qed

lemma pc_maybe_fair:
  assumes "net_fair net" "wr_ok (pc_writer p)"
  obtains p' sk' where "(if skip then Some (SUCCESS, p, sk) else pc_writen net bs p sk) = Some (SUCCESS, p', sk')"
    "pc_sent p sk (if skip then [] else bs) p' sk'"
proof (cases skip)
  case True
  then show thesis using that [of p sk] pc_sent_refl [OF assms (2)] by simp
next
  case False
  obtain p' sk' where "pc_writen net bs p sk = Some (SUCCESS, p', sk')" "pc_sent p sk bs p' sk'" by (rule pc_writen_fair [OF assms])
  then show thesis using that [of p' sk'] False by simp
qed

lemma pc_write_header_fair:
  assumes "net_fair net" "wr_ok (pc_writer p)"
  shows "\<exists>p' sk'. pc_write_header net first specs p sk = Some (SUCCESS, p', sk') \<and> pc_sent p sk (joined first (map (\<lambda>s. c_str (snd s)) specs)) p' sk'"
  using assms (2)
proof (induction specs arbitrary: first p sk)
  case (Cons spec specs)
  obtain p1 sk1 where 1: "(if first then Some (SUCCESS, p, sk) else pc_writen net delim p sk) = Some (SUCCESS, p1, sk1)"
    "pc_sent p sk (if first then [] else delim) p1 sk1" by (rule pc_maybe_fair [OF assms (1) Cons.prems])
  obtain p2 sk2 where 2: "pc_writen net (c_str (snd spec)) p1 sk1 = Some (SUCCESS, p2, sk2)" "pc_sent p1 sk1 (c_str (snd spec)) p2 sk2"
    by (rule pc_writen_fair [OF assms (1) pc_sent_ok [OF 1(2)]])
  obtain p3 sk3 where 3: "pc_write_header net False specs p2 sk2 = Some (SUCCESS, p3, sk3)"
    "pc_sent p2 sk2 (joined False (map (\<lambda>s. c_str (snd s)) specs)) p3 sk3" using Cons.IH [OF pc_sent_ok [OF 2(2)], of False sk2] by blast
  show ?case using 1(1) 2(1) 3(1) pc_sent_trans [OF 1(2) pc_sent_trans [OF 2(2) 3(2)]] by (simp add: Let_def)
qed (simp add: pc_sent_refl)

lemma pc_write_cells_fair:
  assumes "net_fair net" "wr_ok (pc_writer p)" "list_all delivered cells"
  shows "\<exists>p' sk'. pc_write_cells net first cells p sk = Some (SUCCESS, p', sk') \<and> pc_sent p sk (joined first (map projr cells)) p' sk'"
  using assms (2,3)
proof (induction cells arbitrary: first p sk)
  case (Cons cell cells)
  obtain s where s: "cell = Inr s" using Cons.prems by (cases cell) auto
  obtain p1 sk1 where 1: "(if first then Some (SUCCESS, p, sk) else pc_writen net delim p sk) = Some (SUCCESS, p1, sk1)"
    "pc_sent p sk (if first then [] else delim) p1 sk1" by (rule pc_maybe_fair [OF assms (1) Cons.prems (1)])
  obtain p2 sk2 where 2: "pc_writen net s p1 sk1 = Some (SUCCESS, p2, sk2)" "pc_sent p1 sk1 s p2 sk2"
    by (rule pc_writen_fair [OF assms (1) pc_sent_ok [OF 1(2)]])
  obtain p3 sk3 where 3: "pc_write_cells net False cells p2 sk2 = Some (SUCCESS, p3, sk3)"
    "pc_sent p2 sk2 (joined False (map projr cells)) p3 sk3"
    using Cons.IH [OF pc_sent_ok [OF 2(2)], of False sk2] Cons.prems by auto
  show ?case using s 1(1) 2(1) 3(1) pc_sent_trans [OF 1(2) pc_sent_trans [OF 2(2) 3(2)]] by (simp add: Let_def)
qed (simp add: pc_sent_refl)

lemma pc_write_tuple_result_fair:
  assumes "net_fair net" "wr_ok (pc_writer p)" "list_all (list_all delivered) rows"
  shows "\<exists>p' sk'. pc_write_tuple_result net RECORD_EOF rows p sk = Some (SUCCESS, p', sk') \<and>
    pc_sent p sk (concat (map (\<lambda>row. line_text (map projr row)) rows)) p' sk'"
  using assms (2,3)
proof (induction rows arbitrary: p sk)
  case (Cons row rows)
  obtain p1 sk1 where 1: "pc_write_cells net True row p sk = Some (SUCCESS, p1, sk1)" "pc_sent p sk (joined True (map projr row)) p1 sk1"
    using pc_write_cells_fair [OF assms (1) Cons.prems (1), of row True sk] Cons.prems by auto
  obtain p2 sk2 where 2: "pc_writen net newline p1 sk1 = Some (SUCCESS, p2, sk2)" "pc_sent p1 sk1 newline p2 sk2"
    by (rule pc_writen_fair [OF assms (1) pc_sent_ok [OF 1(2)]])
  obtain p3 sk3 where 3: "pc_write_tuple_result net RECORD_EOF rows p2 sk2 = Some (SUCCESS, p3, sk3)"
    "pc_sent p2 sk2 (concat (map (\<lambda>row. line_text (map projr row)) rows)) p3 sk3"
    using Cons.IH [OF pc_sent_ok [OF 2(2)], of sk2] Cons.prems by auto
  show ?case using 1(1) 2(1) 3(1) pc_sent_trans [OF 1(2) pc_sent_trans [OF 2(2) 3(2)]] by (simp add: line_text_def)
qed (simp add: pc_sent_refl)

lemma pc_write_state_fair:
  assumes "net_fair net" "wr_ok (pc_writer p)"
  obtains p' sk' where "pc_write_state net r p sk = Some (SUCCESS, False, p', sk')" "pc_sent p sk (pc_state_text r) p' sk'"
proof -
  obtain p' sk' where "pc_writen net (pc_state_text r) p sk = Some (SUCCESS, p', sk')" "pc_sent p sk (pc_state_text r) p' sk'"
    by (rule pc_writen_fair [OF assms])
  then show thesis using that [of p' sk'] by (simp add: pc_write_state_def)
qed

lemma write_result_internal_fair:
  assumes fair: "net_fair net" and ok: "wr_ok (pc_writer p)" and rows: "list_all (list_all delivered) (qr_rows r)" "qr_end r = RECORD_EOF"
  obtains rc p' sk' where "write_result_internal net r p sk = Some (rc, False, p', sk')" "pc_sent p sk (answer_text r) p' sk'"
proof (cases "qr_return_code r \<noteq> SUCCESS \<or> \<not> qr_has_operator r \<or> qr_open r \<noteq> SUCCESS")
  case True
  let ?r = "if qr_return_code r \<noteq> SUCCESS \<or> \<not> qr_has_operator r then r else r\<lparr>qr_return_code := qr_open r\<rparr>"
  obtain p1 sk1 where "pc_write_state net ?r p sk = Some (SUCCESS, False, p1, sk1)" "pc_sent p sk (pc_state_text ?r) p1 sk1"
    by (rule pc_write_state_fair [OF fair ok])
  then show thesis using that [of SUCCESS p1 sk1] True by (simp add: write_result_internal_def answer_text_def split: if_splits)
next
  case run: False
  let ?h = "joined True (map (\<lambda>s. c_str (snd s)) (qr_schema r))" and ?nl = "if qr_schema r = [] then [] else newline"
  obtain p1 sk1 where 1: "pc_write_header net True (qr_schema r) p sk = Some (SUCCESS, p1, sk1)" "pc_sent p sk ?h p1 sk1"
    using pc_write_header_fair [OF fair ok] by blast
  obtain p2 sk2 where 2: "(if qr_schema r = [] then Some (SUCCESS, p1, sk1) else pc_writen net newline p1 sk1) = Some (SUCCESS, p2, sk2)"
    "pc_sent p1 sk1 ?nl p2 sk2"
    by (rule pc_maybe_fair [OF fair pc_sent_ok [OF 1(2)]])
  obtain p3 sk3 where 3: "pc_write_tuple_result net RECORD_EOF (qr_rows r) p2 sk2 = Some (SUCCESS, p3, sk3)"
    "pc_sent p2 sk2 (concat (map (\<lambda>row. line_text (map projr row)) (qr_rows r))) p3 sk3"
    using pc_write_tuple_result_fair [OF fair pc_sent_ok [OF 2(2)] rows(1)] by blast
  note sent = pc_sent_trans [OF 1(2) pc_sent_trans [OF 2(2) 3(2)]]
  obtain p4 sk4 where 4: "pc_write_state net (r\<lparr>qr_return_code := qr_close r\<rparr>) p3 sk3 = Some (SUCCESS, False, p4, sk4)"
    "pc_sent p3 sk3 (pc_state_text (r\<lparr>qr_return_code := qr_close r\<rparr>)) p4 sk4"
    by (rule pc_write_state_fair [OF fair pc_sent_ok [OF 3(2)]])
  show thesis
  proof (cases "qr_schema r = []")
    case True
    then show thesis using that [of SUCCESS p4 sk4] run rows(2) 1(1) 2(1) 3(1) 4(1) pc_sent_trans [OF sent 4(2)]
      by (simp add: write_result_internal_def answer_text_def)
  next
    case False
    then show thesis using that [of "qr_close r" p3 sk3] run rows(2) 1(1) 2(1) 3(1) sent
      by (simp add: write_result_internal_def answer_text_def line_text_def)
  qed
qed

text \<open>
  C11. On a network that keeps accepting bytes the answer of the plain protocol always goes out whole: the client gets what
  was buffered before, the text of the answer - the header line, one line per row with the cells separated by bars, or the
  state - and one NUL byte, and the connection stays open.
\<close>
theorem plain_answer_delivered:
  assumes fair: "net_fair net" and ok: "wr_ok (pc_writer p)" and rows: "list_all (list_all delivered) (qr_rows r)" "qr_end r = RECORD_EOF"
    and d: "send_message_delimiter p = [0]"
  shows "\<exists>p' sk'. pc_write_result net infos r p sk = Some (SUCCESS, False, p', sk') \<and>
    sk_out sk' = wr_stream (pc_writer p) sk @ answer_text r @ [0]"
proof -
  obtain rc p1 sk1 where 1: "write_result_internal net r p sk = Some (rc, False, p1, sk1)" "pc_sent p sk (answer_text r) p1 sk1"
    by (rule write_result_internal_fair [OF fair ok rows])
  obtain p2 sk2 where 2: "pc_writen net [0] p1 sk1 = Some (SUCCESS, p2, sk2)" "pc_sent p1 sk1 [0] p2 sk2"
    by (rule pc_writen_fair [OF fair pc_sent_ok [OF 1(2)]])
  obtain p3 sk3 where 3: "pc_flush net p2 sk2 = Some (p3, sk3)" "sk_out sk3 = wr_stream (pc_writer p2) sk2"
    by (rule pc_flush_fair [OF fair pc_sent_ok [OF 2(2)]])
  have "send_message_delimiter p1 = [0]" using 1(2) d by (simp add: pc_sent_def)
  then show ?thesis using 1 2 3 by (simp add: pc_write_result_def write_debug_def sql_debug_on_def pc_sent_def)
qed

theorem plain_answer_delivered_witness:
  "\<exists>p' sk'. pc_write_result (\<lambda>_ _. Wrote 1) [] version_comment_result (pc_new 3) \<lparr>sk_out = [], sk_calls = 0\<rparr> = Some (SUCCESS, False, p', sk') \<and>
    sk_out sk' = str ''@@version_comment'' @ newline @ str ''MiniOB'' @ newline @ [0]"
proof -
  have fair: "net_fair (\<lambda>_ _. Wrote 1)" unfolding net_fair_def by (simp, blast)
  have w: "wr_ok (pc_writer (pc_new 3))" "wr_stream (pc_writer (pc_new 3)) \<lparr>sk_out = [], sk_calls = 0\<rparr> = []"
    "send_message_delimiter (pc_new 3) = [0]"
    by (simp_all add: pc_new_def wr_stream_def wr_ok_def wr_new_def rb_new_wf DEFAULT_BUFFER_SIZE_def)
  have r: "list_all (list_all delivered) (qr_rows version_comment_result)" "qr_end version_comment_result = RECORD_EOF"
    by (simp_all add: version_comment_result_def)
  have "c_str (str ''@@version_comment'') = str ''@@version_comment''" by (simp add: c_str_def str_def)
  then have t: "answer_text version_comment_result = str ''@@version_comment'' @ newline @ str ''MiniOB'' @ newline"
    by (simp add: version_comment_result_def answer_text_def line_text_def)
  show ?thesis
    using plain_answer_delivered [OF fair w(1) r w(3), of "[]" "\<lparr>sk_out = [], sk_calls = 0\<rparr>"]
    unfolding t w(2) by (simp only: append.simps append_assoc)
qed

end
