(* ===== verification/Ob_Plan.thy ===== *)
theory Ob_Plan
  imports Ob_Value
begin

text \<open>
  Expressions and logical plans of the SQL layer and the rewriting of plans: \<^verbatim>\<open>observer/sql/expr/expression.h\<close> and
  \<^verbatim>\<open>.cpp\<close>, \<^verbatim>\<open>observer/sql/operator/logical_operator.h\<close>, the rewrite rules of \<^verbatim>\<open>observer/sql/optimizer\<close> and the loop of
  \<^verbatim>\<open>OptimizeStage::rewrite\<close>.

  An expression is a tree; each node carries the \<^verbatim>\<open>pos_\<close> of its class, names are left out.  A constant is what its
  \<^verbatim>\<open>Value\<close> holds.  A null \<^verbatim>\<open>unique_ptr\<close> occurs in two places only: the second operand of a unary arithmetic expression,
  and an expression that was moved out, which the pushdown returns as \<^term>\<open>None\<close>.
\<close>

section \<open>Expressions\<close>

datatype CompOp = EQUAL_TO | LESS_EQUAL | NOT_EQUAL | LESS_THAN | GREAT_EQUAL | GREAT_THAN | NO_OP

datatype conj_type = CONJ_AND | CONJ_OR

datatype arith_type = ARITH_ADD | ARITH_SUB | ARITH_MUL | ARITH_DIV | ARITH_NEGATIVE

datatype agg_type = AGG_COUNT | AGG_SUM | AGG_AVG | AGG_MAX | AGG_MIN

datatype expr =
    StarExpr int bytes
  | UnboundFieldExpr int bytes bytes
  | FieldExpr int bytes bytes int AttrType int
  | ValueExpr int pval
  | CastExpr int expr AttrType
  | ComparisonExpr int CompOp expr expr
  | ConjunctionExpr int conj_type "expr list"
  | ArithmeticExpr int arith_type expr "expr option"
  | UnboundAggregateExpr int bytes expr
  | AggregateExpr int agg_type expr

datatype ExprType = ET_STAR | ET_UNBOUND_FIELD | ET_UNBOUND_AGGREGATION | ET_FIELD | ET_VALUE | ET_CAST | ET_COMPARISON
  | ET_CONJUNCTION | ET_ARITHMETIC | ET_AGGREGATION

fun expr_type :: "expr \<Rightarrow> ExprType" where
  "expr_type (StarExpr p t) = ET_STAR"
| "expr_type (UnboundFieldExpr p t f) = ET_UNBOUND_FIELD"
| "expr_type (FieldExpr p t f i ty l) = ET_FIELD"
| "expr_type (ValueExpr p v) = ET_VALUE"
| "expr_type (CastExpr p e ty) = ET_CAST"
| "expr_type (ComparisonExpr p c l r) = ET_COMPARISON"
| "expr_type (ConjunctionExpr p c es) = ET_CONJUNCTION"
| "expr_type (ArithmeticExpr p a l r) = ET_ARITHMETIC"
| "expr_type (UnboundAggregateExpr p n e) = ET_UNBOUND_AGGREGATION"
| "expr_type (AggregateExpr p a e) = ET_AGGREGATION"

fun value_type :: "expr \<Rightarrow> AttrType" where
  "value_type (StarExpr p t) = UNDEFINED"
| "value_type (UnboundFieldExpr p t f) = UNDEFINED"
| "value_type (FieldExpr p t f i ty l) = ty"
| "value_type (ValueExpr p v) = ptype v"
| "value_type (CastExpr p e ty) = ty"
| "value_type (ComparisonExpr p c l r) = BOOLEANS"
| "value_type (ConjunctionExpr p c es) = BOOLEANS"
| "value_type (ArithmeticExpr p a l r) = UNDEFINED"
| "value_type (UnboundAggregateExpr p n e) = value_type e"
| "value_type (AggregateExpr p a e) = (case a of AGG_COUNT \<Rightarrow> INTS | AGG_AVG \<Rightarrow> FLOATS | _ \<Rightarrow> value_type e)"

fun expr_pos :: "expr \<Rightarrow> int" where
  "expr_pos (StarExpr p t) = p"
| "expr_pos (UnboundFieldExpr p t f) = p"
| "expr_pos (FieldExpr p t f i ty l) = p"
| "expr_pos (ValueExpr p v) = p"
| "expr_pos (CastExpr p e ty) = p"
| "expr_pos (ComparisonExpr p c l r) = p"
| "expr_pos (ConjunctionExpr p c es) = p"
| "expr_pos (ArithmeticExpr p a l r) = p"
| "expr_pos (UnboundAggregateExpr p n e) = p"
| "expr_pos (AggregateExpr p a e) = p"

fun set_pos :: "int \<Rightarrow> expr \<Rightarrow> expr" where
  "set_pos q (StarExpr p t) = StarExpr q t"
| "set_pos q (UnboundFieldExpr p t f) = UnboundFieldExpr q t f"
| "set_pos q (FieldExpr p t f i ty l) = FieldExpr q t f i ty l"
| "set_pos q (ValueExpr p v) = ValueExpr q v"
| "set_pos q (CastExpr p e ty) = CastExpr q e ty"
| "set_pos q (ComparisonExpr p c l r) = ComparisonExpr q c l r"
| "set_pos q (ConjunctionExpr p c es) = ConjunctionExpr q c es"
| "set_pos q (ArithmeticExpr p a l r) = ArithmeticExpr q a l r"
| "set_pos q (UnboundAggregateExpr p n e) = UnboundAggregateExpr q n e"
| "set_pos q (AggregateExpr p a e) = AggregateExpr q a e"

text \<open>\<^verbatim>\<open>copy\<close> builds the tree anew; every \<^verbatim>\<open>pos_\<close> starts at -1 again.\<close>

fun expr_copy :: "expr \<Rightarrow> expr" where
  "expr_copy (StarExpr p t) = StarExpr (- 1) t"
| "expr_copy (UnboundFieldExpr p t f) = UnboundFieldExpr (- 1) t f"
| "expr_copy (FieldExpr p t f i ty l) = FieldExpr (- 1) t f i ty l"
| "expr_copy (ValueExpr p v) = ValueExpr (- 1) v"
| "expr_copy (CastExpr p e ty) = CastExpr (- 1) (expr_copy e) ty"
| "expr_copy (ComparisonExpr p c l r) = ComparisonExpr (- 1) c (expr_copy l) (expr_copy r)"
| "expr_copy (ConjunctionExpr p c es) = ConjunctionExpr (- 1) c (map expr_copy es)"
| "expr_copy (ArithmeticExpr p a l r) = ArithmeticExpr (- 1) a (expr_copy l) (map_option expr_copy r)"
| "expr_copy (UnboundAggregateExpr p n e) = UnboundAggregateExpr (- 1) n (expr_copy e)"
| "expr_copy (AggregateExpr p a e) = AggregateExpr (- 1) a (expr_copy e)"

fun expr_equal :: "float_ops \<Rightarrow> expr \<Rightarrow> expr \<Rightarrow> bool option" where
  "expr_equal fo (FieldExpr p t f i ty l) other = Some (case other of FieldExpr _ _ _ j _ _ \<Rightarrow> i = j | _ \<Rightarrow> False)"
| "expr_equal fo (ValueExpr p v) other =
     (case other of ValueExpr _ w \<Rightarrow> map_option (\<lambda>c. c = 0) (v_compare fo v w) | _ \<Rightarrow> Some False)"
| "expr_equal fo e other = Some False"

fun try_get_value :: "expr \<Rightarrow> RC \<times> pval option" where
  "try_get_value (ValueExpr p v) = (SUCCESS, Some v)"
| "try_get_value e = (UNIMPLEMENTED, None)"

text \<open>The value of an expression on a tuple, whose cells are the parameter \<open>cell_at\<close>.  Comparisons, conjunctions,
  arithmetic and casts report success and leave the result as it was.\<close>

fun get_value :: "(int \<Rightarrow> RC \<times> pval) \<Rightarrow> expr \<Rightarrow> pval \<Rightarrow> RC \<times> pval" where
  "get_value cell_at (FieldExpr p t f i ty l) v = cell_at i"
| "get_value cell_at (ValueExpr p w) v = (SUCCESS, w)"
| "get_value cell_at (StarExpr p t) v = (UNIMPLEMENTED, v)"
| "get_value cell_at (UnboundFieldExpr p t f) v = (INTERNAL, v)"
| "get_value cell_at (UnboundAggregateExpr p n e) v = (INTERNAL, v)"
| "get_value cell_at e v = (SUCCESS, v)"

section \<open>Logical plans\<close>

datatype LogicalOperatorType =
    CALC
  | TABLE_GET
  | PREDICATE
  | PROJECTION
  | JOIN
  | INSERT "pval list"
  | DELETE
  | EXPLAIN
  | GROUP_BY "expr list" "expr list"

datatype LogicalOperator = LOper (lo_type: LogicalOperatorType) (expressions: "expr list") (children: "LogicalOperator list")

section \<open>Simplification of expressions\<close>

definition comparison_rewrite :: "expr \<Rightarrow> expr \<times> bool" where
  "comparison_rewrite e =
     (if expr_type e = ET_COMPARISON then
        (case try_get_value e of (rc, Some v) \<Rightarrow> if rc = SUCCESS then (ValueExpr (- 1) v, True) else (e, False) | _ \<Rightarrow> (e, False))
      else (e, False))"

fun try_to_get_bool_constant :: "expr \<Rightarrow> bool option" where
  "try_to_get_bool_constant (ValueExpr p (PBooleans b)) = Some b"
| "try_to_get_bool_constant e = None"

text \<open>The loop over the children: \<open>kept\<close> are those the iterator has passed.  A neutral constant is erased; an absorbing
  one ends the loop with the child that is in front at that moment.\<close>

fun conj_scan :: "conj_type \<Rightarrow> expr list \<Rightarrow> expr list \<Rightarrow> expr + expr list" where
  "conj_scan ct kept [] = Inr kept"
| "conj_scan ct kept (e # rest) =
     (case try_to_get_bool_constant e of
        None \<Rightarrow> conj_scan ct (kept @ [e]) rest
      | Some b \<Rightarrow> if b = (ct = CONJ_AND) then conj_scan ct kept rest else Inl (hd (kept @ e # rest)))"

fun conjunction_rewrite :: "expr \<Rightarrow> expr \<times> bool" where
  "conjunction_rewrite (ConjunctionExpr p ct es) =
     (case conj_scan ct [] es of
        Inl e \<Rightarrow> (e, False)
      | Inr kept \<Rightarrow> if length kept = 1 then (hd kept, True) else (ConjunctionExpr p ct kept, False))"
| "conjunction_rewrite e = (e, False)"

text \<open>The number of nodes, which every change decreases.\<close>

fun esize :: "expr \<Rightarrow> nat" where
  "esize (CastExpr p e ty) = 1 + esize e"
| "esize (ComparisonExpr p c l r) = 1 + esize l + esize r"
| "esize (ConjunctionExpr p c es) = 1 + sum_list (map esize es)"
| "esize (ArithmeticExpr p a l r) = 1 + esize l + (case r of None \<Rightarrow> 0 | Some r \<Rightarrow> esize r)"
| "esize (UnboundAggregateExpr p n e) = 1 + esize e"
| "esize (AggregateExpr p a e) = 1 + esize e"
| "esize e = 1"

lemma esize_pos: "0 < esize e"
  by (cases e) simp_all

lemma conj_scan_size:
  "(case conj_scan ct kept es of
      Inl e \<Rightarrow> esize e \<le> sum_list (map esize kept) + sum_list (map esize es)
    | Inr kept' \<Rightarrow> sum_list (map esize kept') \<le> sum_list (map esize kept) + sum_list (map esize es))"
proof (induction es arbitrary: kept)
  case (Cons e es)
  have "esize (hd (kept @ e # es)) \<le> sum_list (map esize kept) + (esize e + sum_list (map esize es))" by (cases kept) simp_all
  then show ?case using Cons.IH [of "kept @ [e]"] Cons.IH [of kept] by (auto split: option.splits sum.splits)
qed simp

lemma conjunction_rewrite_size:
  "esize (fst (conjunction_rewrite e)) \<le> esize e \<and> (snd (conjunction_rewrite e) \<longrightarrow> esize (fst (conjunction_rewrite e)) < esize e)"
proof (cases e)
  case (ConjunctionExpr p ct es)
  have "esize (hd kept) \<le> sum_list (map esize kept)" if "length kept = 1" for kept using that by (cases kept) simp_all
  then show ?thesis using conj_scan_size [where ct = ct and kept = "[]" and es = es] ConjunctionExpr by (fastforce split: sum.splits)
qed simp_all

lemma comparison_rewrite_id: "comparison_rewrite e = (e, False)"
  by (cases e) (simp_all add: comparison_rewrite_def)

lemma rewrite_step_size:
  "fst (conjunction_rewrite (fst (comparison_rewrite e))) = e2 \<Longrightarrow> esize e2 \<le> esize e"
  using conjunction_rewrite_size [of e] by (auto simp: comparison_rewrite_id)

lemma esize_member: "e \<in> set es \<Longrightarrow> esize e \<le> sum_list (map esize es)"
  by (simp add: member_le_sum_list)

function rewrite_expression :: "expr \<Rightarrow> expr \<times> bool" where
  "rewrite_expression e =
     (let r1 = comparison_rewrite e;
          r2 = conjunction_rewrite (fst r1)
      in if snd r1 \<or> snd r2 then (fst r2, True)
         else case fst r2 of
           CastExpr p ch ty \<Rightarrow> (let (ch, c) = rewrite_expression ch in (CastExpr p ch ty, c))
         | ComparisonExpr p op l r \<Rightarrow>
             (let (l, cl) = rewrite_expression l; (r, cr) = rewrite_expression r in (ComparisonExpr p op l r, cl \<or> cr))
         | ConjunctionExpr p ct es \<Rightarrow>
             (let rs = map rewrite_expression es in (ConjunctionExpr p ct (map fst rs), list_ex snd rs))
         | _ \<Rightarrow> (fst r2, False))"
  by pat_completeness auto
termination
  by (relation "measure esize") (auto dest!: rewrite_step_size esize_member)

declare rewrite_expression.simps [simp del]

section \<open>Rewriting of plans\<close>

text \<open>The simplification of the expressions of every operator; it always reports success.\<close>

fun expression_rewriter :: "LogicalOperator \<Rightarrow> LogicalOperator \<times> bool" where
  "expression_rewriter (LOper t es ch) =
     (let rs = map rewrite_expression es;
          cs = map expression_rewriter ch
      in (LOper t (map fst rs) (map fst cs), list_ex snd rs \<or> list_ex snd cs))"

text \<open>A filter whose condition is a constant is removed: with its input when the constant is false, otherwise its inputs
  take its place.\<close>

definition predicate_rewrite :: "float_ops \<Rightarrow> LogicalOperator \<Rightarrow> (LogicalOperator \<times> bool) option" where
  "predicate_rewrite fo oper =
     (case children oper of
        [LOper PREDICATE [ValueExpr p v] grand] \<Rightarrow>
          (case get_boolean fo v of
             None \<Rightarrow> None
           | Some b \<Rightarrow> Some (LOper (lo_type oper) (expressions oper) (if b then grand else []), True))
      | _ \<Rightarrow> Some (oper, False))"

text \<open>The comparisons that are moved out of a conjunction, or the error for a disjunction.\<close>

fun get_exprs_can_pushdown :: "expr \<Rightarrow> RC + expr option \<times> expr list"
  and pushdown_children :: "expr list \<Rightarrow> RC + expr list \<times> expr list" where
  "get_exprs_can_pushdown (ConjunctionExpr p ct es) =
     (if ct = CONJ_OR then Inl UNIMPLEMENTED
      else case pushdown_children es of
        Inl rc \<Rightarrow> Inl rc
      | Inr (es', pushed) \<Rightarrow> Inr (Some (ConjunctionExpr p ct es'), pushed))"
| "get_exprs_can_pushdown (ComparisonExpr p op l r) = Inr (None, [ComparisonExpr p op l r])"
| "get_exprs_can_pushdown e = Inr (Some e, [])"
| "pushdown_children [] = Inr ([], [])"
| "pushdown_children (e # es) =
     (case get_exprs_can_pushdown e of
        Inl rc \<Rightarrow> Inl rc
      | Inr (e', pushed) \<Rightarrow>
          (case pushdown_children es of
             Inl rc \<Rightarrow> Inl rc
           | Inr (es', pushed') \<Rightarrow> Inr ((case e' of None \<Rightarrow> es' | Some x \<Rightarrow> x # es'), pushed @ pushed')))"

fun is_empty_predicate :: "expr option \<Rightarrow> bool" where
  "is_empty_predicate None \<longleftrightarrow> True"
| "is_empty_predicate (Some (ConjunctionExpr p ct es)) \<longleftrightarrow> es = []"
| "is_empty_predicate (Some e) \<longleftrightarrow> False"

definition true_expr :: expr where
  "true_expr = ValueExpr (- 1) (PBooleans True)"

definition remaining_predicate :: "expr option \<Rightarrow> expr" where
  "remaining_predicate e = (case e of Some x \<Rightarrow> if is_empty_predicate e then true_expr else x | None \<Rightarrow> true_expr)"

text \<open>The expressions that were moved out are dropped when the function returns.\<close>

definition predicate_pushdown :: "LogicalOperator \<Rightarrow> RC + LogicalOperator \<times> bool" where
  "predicate_pushdown oper =
     (case oper of
        LOper PREDICATE [e] [LOper TABLE_GET ces cch] \<Rightarrow>
          (case get_exprs_can_pushdown e of
             Inl rc \<Rightarrow> Inl rc
           | Inr (e', pushed) \<Rightarrow> Inr (LOper PREDICATE [remaining_predicate e'] [LOper TABLE_GET ces cch], pushed \<noteq> []))
      | _ \<Rightarrow> Inr (oper, False))"

text \<open>The three rules on one operator, in the order of the constructor of \<^verbatim>\<open>Rewriter\<close>.\<close>

definition rewrite_rules :: "float_ops \<Rightarrow> LogicalOperator \<Rightarrow> (RC + LogicalOperator \<times> bool) option" where
  "rewrite_rules fo oper =
     (let r1 = expression_rewriter oper
      in case predicate_rewrite fo (fst r1) of
           None \<Rightarrow> None
         | Some r2 \<Rightarrow>
             (case predicate_pushdown (fst r2) of
                Inl rc \<Rightarrow> Some (Inl rc)
              | Inr r3 \<Rightarrow> Some (Inr (fst r3, snd r1 \<or> snd r2 \<or> snd r3))))"

subsection \<open>Every change shrinks the plan\<close>

fun lsize :: "LogicalOperator \<Rightarrow> nat" where
  "lsize (LOper t es ch) = 1 + sum_list (map esize es) + sum_list (map lsize ch)"

lemma sum_list_shrink:
  fixes f g :: "'a \<Rightarrow> nat"
  assumes "\<And>x. x \<in> set xs \<Longrightarrow> g x \<le> f x \<and> (P x \<longrightarrow> g x < f x)"
  shows "sum_list (map g xs) \<le> sum_list (map f xs) \<and> (list_ex P xs \<longrightarrow> sum_list (map g xs) < sum_list (map f xs))"
  using assms by (induction xs) (simp, fastforce)

lemma rewrite_expression_unfold:
  "rewrite_expression e =
     (if snd (conjunction_rewrite e) then (fst (conjunction_rewrite e), True)
      else case fst (conjunction_rewrite e) of
        CastExpr p ch ty \<Rightarrow> (CastExpr p (fst (rewrite_expression ch)) ty, snd (rewrite_expression ch))
      | ComparisonExpr p op l r \<Rightarrow>
          (ComparisonExpr p op (fst (rewrite_expression l)) (fst (rewrite_expression r)), snd (rewrite_expression l) \<or> snd (rewrite_expression r))
      | ConjunctionExpr p ct es \<Rightarrow>
          (ConjunctionExpr p ct (map (fst \<circ> rewrite_expression) es), list_ex (snd \<circ> rewrite_expression) es)
      | e2 \<Rightarrow> (e2, False))"
  by (subst rewrite_expression.simps)
    (simp add: comparison_rewrite_id Let_def split_beta list_ex_iff comp_def split: expr.split)

lemma rewrite_expression_size:
  "esize (fst (rewrite_expression e)) \<le> esize e \<and> (snd (rewrite_expression e) \<longrightarrow> esize (fst (rewrite_expression e)) < esize e)"
proof (induction e rule: measure_induct_rule [where f = esize])
  case (less e)
  let ?e2 = "fst (conjunction_rewrite e)"
  have s: "esize ?e2 \<le> esize e" "snd (conjunction_rewrite e) \<Longrightarrow> esize ?e2 < esize e" using conjunction_rewrite_size by simp_all
  show ?case
  proof (cases "snd (conjunction_rewrite e)")
    case True
    then show ?thesis using s by (subst (1 2 3) rewrite_expression_unfold) simp
  next
    case False
    show ?thesis
    proof (cases ?e2)
      case (CastExpr p ch ty)
      then have "esize ch < esize e" using s by simp
      then show ?thesis using less.IH [of ch] s CastExpr False by (subst (1 2 3) rewrite_expression_unfold) (auto simp: CastExpr)
    next
      case (ComparisonExpr p op l r)
      then have "esize l < esize e" "esize r < esize e" using s by simp_all
      then show ?thesis using less.IH [of l] less.IH [of r] s ComparisonExpr False
        by (subst (1 2 3) rewrite_expression_unfold) (auto simp: ComparisonExpr)
    next
      case (ConjunctionExpr p ct es)
      have lt: "esize x < esize e" if "x \<in> set es" for x using esize_member [OF that] s(1) ConjunctionExpr by simp
      have "sum_list (map (esize \<circ> fst \<circ> rewrite_expression) es) \<le> sum_list (map esize es) \<and>
        (list_ex (snd \<circ> rewrite_expression) es \<longrightarrow> sum_list (map (esize \<circ> fst \<circ> rewrite_expression) es) < sum_list (map esize es))"
        using less.IH [OF lt] by (intro sum_list_shrink) simp
      then show ?thesis using s False ConjunctionExpr
        by (subst (1 2 3) rewrite_expression_unfold) (simp add: ConjunctionExpr comp_assoc, linarith)
    qed (use s False in \<open>subst (1 2 3) rewrite_expression_unfold, simp\<close>)+
  qed
qed

lemma expression_rewriter_size:
  "lsize (fst (expression_rewriter oper)) \<le> lsize oper \<and> (snd (expression_rewriter oper) \<longrightarrow> lsize (fst (expression_rewriter oper)) < lsize oper)"
proof (induction oper)
  case (LOper t es ch)
  have "sum_list (map (esize \<circ> fst \<circ> rewrite_expression) es) \<le> sum_list (map esize es) \<and>
    (list_ex (snd \<circ> rewrite_expression) es \<longrightarrow> sum_list (map (esize \<circ> fst \<circ> rewrite_expression) es) < sum_list (map esize es))"
    using rewrite_expression_size by (intro sum_list_shrink) simp
  moreover have "sum_list (map (lsize \<circ> fst \<circ> expression_rewriter) ch) \<le> sum_list (map lsize ch) \<and>
    (list_ex (snd \<circ> expression_rewriter) ch \<longrightarrow> sum_list (map (lsize \<circ> fst \<circ> expression_rewriter) ch) < sum_list (map lsize ch))"
    using LOper.IH by (intro sum_list_shrink) simp
  ultimately show ?case by (auto simp: Let_def comp_def list_ex_iff)
qed

lemma predicate_rewrite_cases:
  assumes "predicate_rewrite fo oper = Some (oper', c)"
  obtains "oper' = oper" "\<not> c"
  | p v grand b where "children oper = [LOper PREDICATE [ValueExpr p v] grand]" "get_boolean fo v = Some b"
    "oper' = LOper (lo_type oper) (expressions oper) (if b then grand else [])" "c"
  using assms unfolding predicate_rewrite_def
  by (auto split: list.splits LogicalOperator.splits LogicalOperatorType.splits expr.splits option.splits)

lemma predicate_rewrite_size:
  assumes "predicate_rewrite fo oper = Some (oper', c)"
  shows "lsize oper' \<le> lsize oper \<and> (c \<longrightarrow> lsize oper' < lsize oper)"
  using assms
proof (cases rule: predicate_rewrite_cases)
  case (2 p v grand b)
  then show ?thesis by (cases oper) auto
qed simp

definition opt_size :: "expr option \<Rightarrow> nat" where
  "opt_size e = (case e of None \<Rightarrow> 0 | Some x \<Rightarrow> esize x)"

lemma pushdown_size:
  "get_exprs_can_pushdown e = Inr (e', pushed) \<Longrightarrow> opt_size e' + sum_list (map esize pushed) \<le> esize e \<and> (\<forall>x \<in> set pushed. 3 \<le> esize x)"
  "pushdown_children es = Inr (es', pushed') \<Longrightarrow>
    sum_list (map esize es') + sum_list (map esize pushed') \<le> sum_list (map esize es) \<and> (\<forall>x \<in> set pushed'. 3 \<le> esize x)"
proof (induction e and es arbitrary: e' pushed and es' pushed' rule: get_exprs_can_pushdown_pushdown_children.induct, goal_cases)
  case (1 p ct es)
  then show ?case by (auto simp: opt_size_def split: if_splits sum.splits)
next
  case (2 p op l r)
  then show ?case using esize_pos [of l] esize_pos [of r] by (auto simp: opt_size_def)
next
  case (12 e es)
  then show ?case by (fastforce simp: opt_size_def split: sum.splits option.splits)
qed (auto simp: opt_size_def)

lemma remaining_size:
  assumes "get_exprs_can_pushdown e = Inr (e', pushed)"
  shows "esize (remaining_predicate e') \<le> esize e" "pushed \<noteq> [] \<Longrightarrow> esize (remaining_predicate e') < esize e"
proof -
  note s = pushdown_size (1) [OF assms]
  have p: "3 \<le> sum_list (map esize pushed)" if "pushed \<noteq> []" using s that by (cases pushed) auto
  have r: "esize (remaining_predicate e') \<le> max 1 (opt_size e')"
    by (auto simp: remaining_predicate_def true_expr_def opt_size_def split: option.splits)
  show "esize (remaining_predicate e') \<le> esize e" using r s esize_pos [of e] by linarith
  show "pushed \<noteq> [] \<Longrightarrow> esize (remaining_predicate e') < esize e" using r s p by linarith
qed

lemma predicate_pushdown_size:
  assumes "predicate_pushdown oper = Inr (oper', c)"
  shows "lsize oper' \<le> lsize oper \<and> (c \<longrightarrow> lsize oper' < lsize oper)"
proof -
  have "lsize oper' \<le> lsize oper \<and> (c \<longrightarrow> lsize oper' < lsize oper)" if "oper = LOper PREDICATE [e] [LOper TABLE_GET ces cch]" for e ces cch
    using assms that remaining_size [of e] by (auto simp: predicate_pushdown_def split: sum.splits prod.splits)
  then show ?thesis
    using assms by (auto simp: predicate_pushdown_def split: list.splits LogicalOperator.splits LogicalOperatorType.splits)
qed

lemma rewrite_rules_size:
  assumes "rewrite_rules fo oper = Some (Inr (oper', c))"
  shows "lsize oper' \<le> lsize oper" "c \<Longrightarrow> lsize oper' < lsize oper"
proof -
  let ?r1 = "expression_rewriter oper"
  obtain r2 r3 where r: "predicate_rewrite fo (fst ?r1) = Some r2" "predicate_pushdown (fst r2) = Inr r3"
    "oper' = fst r3" "c = (snd ?r1 \<or> snd r2 \<or> snd r3)"
    using assms by (auto simp: rewrite_rules_def Let_def split: option.splits sum.splits)
  have "predicate_rewrite fo (fst ?r1) = Some (fst r2, snd r2)" "predicate_pushdown (fst r2) = Inr (fst r3, snd r3)" using r by simp_all
  note s = expression_rewriter_size [of oper] predicate_rewrite_size [OF this(1)] predicate_pushdown_size [OF this(2)]
  show "lsize oper' \<le> lsize oper" using s r by simp
  assume "c"
  then consider "snd ?r1" | "snd r2" | "snd r3" using r(4) by blast
  then show "lsize oper' < lsize oper" using s r(3) by cases auto
qed

subsection \<open>The rewriter and its loop\<close>

lemma children_size: "lsize oper \<le> n \<Longrightarrow> Suc (2 * sum_list (map lsize (children oper))) < 2 * n"
  by (cases oper) simp

lemma lsize_pos: "0 < lsize oper"
  by (cases oper) simp

function rewriter_rewrite :: "float_ops \<Rightarrow> LogicalOperator \<Rightarrow> (RC + LogicalOperator \<times> bool) option"
  and rewriter_children :: "float_ops \<Rightarrow> LogicalOperator list \<Rightarrow> (RC + LogicalOperator list \<times> bool) option" where
  "rewriter_rewrite fo oper =
     (case rewrite_rules fo oper of
        None \<Rightarrow> None
      | Some (Inl rc) \<Rightarrow> Some (Inl rc)
      | Some (Inr (oper', c)) \<Rightarrow>
          (case rewriter_children fo (children oper') of
             None \<Rightarrow> None
           | Some (Inl rc) \<Rightarrow> Some (Inl rc)
           | Some (Inr (ch, c')) \<Rightarrow> Some (Inr (LOper (lo_type oper') (expressions oper') ch, c \<or> c'))))"
| "rewriter_children fo [] = Some (Inr ([], False))"
| "rewriter_children fo (oper # opers) =
     (case rewriter_rewrite fo oper of
        None \<Rightarrow> None
      | Some (Inl rc) \<Rightarrow> Some (Inl rc)
      | Some (Inr (oper', c)) \<Rightarrow>
          (case rewriter_children fo opers of
             None \<Rightarrow> None
           | Some (Inl rc) \<Rightarrow> Some (Inl rc)
           | Some (Inr (opers', c')) \<Rightarrow> Some (Inr (oper' # opers', c \<or> c'))))"
  by pat_completeness auto
termination
  by (relation "measure (\<lambda>x. case x of Inl (fo, oper) \<Rightarrow> 2 * lsize oper | Inr (fo, opers) \<Rightarrow> 2 * sum_list (map lsize opers) + 1)")
    (auto dest!: rewrite_rules_size(1) children_size simp: lsize_pos)

declare rewriter_rewrite.simps [simp del]

partial_function (option) rewrite_loop :: "float_ops \<Rightarrow> LogicalOperator \<Rightarrow> (RC + LogicalOperator) option" where
  "rewrite_loop fo oper =
     (case rewriter_rewrite fo oper of
        None \<Rightarrow> None
      | Some (Inl rc) \<Rightarrow> Some (Inl rc)
      | Some (Inr (oper', change_made)) \<Rightarrow> if change_made then rewrite_loop fo oper' else Some (Inr oper'))"

subsection \<open>Constants of a plan\<close>

fun constants :: "expr \<Rightarrow> pval set" where
  "constants (ValueExpr p v) = {v}"
| "constants (CastExpr p e ty) = constants e"
| "constants (ComparisonExpr p c l r) = constants l \<union> constants r"
| "constants (ConjunctionExpr p c es) = (\<Union>e \<in> set es. constants e)"
| "constants (ArithmeticExpr p a l r) = constants l \<union> (case r of None \<Rightarrow> {} | Some r \<Rightarrow> constants r)"
| "constants (UnboundAggregateExpr p n e) = constants e"
| "constants (AggregateExpr p a e) = constants e"
| "constants e = {}"

fun lconsts :: "LogicalOperator \<Rightarrow> pval set" where
  "lconsts (LOper t es ch) = (\<Union>e \<in> set es. constants e) \<union> (\<Union>x \<in> set ch. lconsts x)"

lemma conj_scan_subset:
  "(case conj_scan ct kept es of Inl e \<Rightarrow> e \<in> set (kept @ es) | Inr kept' \<Rightarrow> set kept' \<subseteq> set (kept @ es))"
proof (induction es arbitrary: kept)
  case (Cons e es)
  have "hd (kept @ e # es) \<in> set (kept @ e # es)" by (rule hd_in_set) simp
  then show ?case using Cons.IH [of "kept @ [e]"] Cons.IH [of kept] by (auto split: option.splits sum.splits)
qed simp

lemma conjunction_rewrite_consts: "constants (fst (conjunction_rewrite e)) \<subseteq> constants e"
proof (cases e)
  case (ConjunctionExpr p ct es)
  note sub = conj_scan_subset [where ct = ct and kept = "[]" and es = es]
  show ?thesis
  proof (cases "conj_scan ct [] es")
    case (Inl x)
    then show ?thesis using sub ConjunctionExpr by auto
  next
    case (Inr kept)
    then show ?thesis using sub ConjunctionExpr by (cases kept) auto
  qed
qed simp_all

lemma rewrite_expression_consts: "constants (fst (rewrite_expression e)) \<subseteq> constants e"
proof (induction e rule: measure_induct_rule [where f = esize])
  case (less e)
  let ?e2 = "fst (conjunction_rewrite e)"
  have s: "esize ?e2 \<le> esize e" "constants ?e2 \<subseteq> constants e" using conjunction_rewrite_size conjunction_rewrite_consts by simp_all
  show ?case
  proof (cases "snd (conjunction_rewrite e)")
    case True
    then show ?thesis using s by (subst rewrite_expression_unfold) simp
  next
    case False
    show ?thesis
    proof (cases ?e2)
      case (CastExpr p ch ty)
      then show ?thesis using less.IH [of ch] s False by (subst rewrite_expression_unfold) auto
    next
      case (ComparisonExpr p op l r)
      then have "esize l < esize e" "esize r < esize e" using s by simp_all
      then show ?thesis using less.IH [of l] less.IH [of r] s False ComparisonExpr by (subst rewrite_expression_unfold) auto
    next
      case (ConjunctionExpr p ct es)
      have "constants (fst (rewrite_expression x)) \<subseteq> constants x" if "x \<in> set es" for x
        using less.IH [of x] esize_member [OF that] s(1) ConjunctionExpr by simp
      then show ?thesis using s False ConjunctionExpr by (subst rewrite_expression_unfold) fastforce
    qed (use s False in \<open>subst rewrite_expression_unfold, simp\<close>)+
  qed
qed

lemma expression_rewriter_consts: "lconsts (fst (expression_rewriter oper)) \<subseteq> lconsts oper"
proof (induction oper)
  case (LOper t es ch)
  show ?case using LOper.IH rewrite_expression_consts by (fastforce simp: Let_def)
qed

lemma predicate_rewrite_consts:
  assumes "predicate_rewrite fo oper = Some (oper', c)"
  shows "lconsts oper' \<subseteq> lconsts oper"
  using assms
proof (cases rule: predicate_rewrite_cases)
  case (2 p v grand b)
  then show ?thesis by (cases oper) auto
qed simp

definition opt_consts :: "expr option \<Rightarrow> pval set" where
  "opt_consts e = (case e of None \<Rightarrow> {} | Some x \<Rightarrow> constants x)"

lemma pushdown_consts:
  "get_exprs_can_pushdown e = Inr (e', pushed) \<Longrightarrow> opt_consts e' \<subseteq> constants e"
  "pushdown_children es = Inr (es', pushed') \<Longrightarrow> (\<Union>e \<in> set es'. constants e) \<subseteq> (\<Union>e \<in> set es. constants e)"
proof (induction e and es arbitrary: e' pushed and es' pushed' rule: get_exprs_can_pushdown_pushdown_children.induct, goal_cases)
  case (1 p ct es e' pushed)
  then obtain es' where "ct \<noteq> CONJ_OR" "pushdown_children es = Inr (es', pushed)" "e' = Some (ConjunctionExpr p ct es')"
    by (auto split: if_splits sum.splits)
  then show ?case using 1(1) by (simp add: opt_consts_def)
next
  case (12 e es)
  then show ?case by (fastforce simp: opt_consts_def split: sum.splits option.splits)
qed (auto simp: opt_consts_def)

lemma predicate_pushdown_consts:
  assumes "predicate_pushdown oper = Inr (oper', c)"
  shows "lconsts oper' \<subseteq> lconsts oper \<union> {PBooleans True}"
proof -
  have r: "constants (remaining_predicate e') \<subseteq> opt_consts e' \<union> {PBooleans True}" for e'
    by (auto simp: remaining_predicate_def true_expr_def opt_consts_def split: option.splits)
  have "lconsts oper' \<subseteq> lconsts oper \<union> {PBooleans True}" if "oper = LOper PREDICATE [e] [LOper TABLE_GET ces cch]" for e ces cch
    using assms that pushdown_consts (1) [of e] r by (fastforce simp: predicate_pushdown_def split: sum.splits prod.splits)
  then show ?thesis
    using assms by (auto simp: predicate_pushdown_def split: list.splits LogicalOperator.splits LogicalOperatorType.splits)
qed

lemma rewrite_rules_consts:
  assumes "rewrite_rules fo oper = Some (Inr (oper', c))"
  shows "lconsts oper' \<subseteq> lconsts oper \<union> {PBooleans True}"
proof -
  let ?r1 = "expression_rewriter oper"
  obtain r2 r3 where r: "predicate_rewrite fo (fst ?r1) = Some r2" "predicate_pushdown (fst r2) = Inr r3" "oper' = fst r3"
    using assms by (auto simp: rewrite_rules_def Let_def split: option.splits sum.splits)
  have "predicate_rewrite fo (fst ?r1) = Some (fst r2, snd r2)" "predicate_pushdown (fst r2) = Inr (fst r3, snd r3)" using r by simp_all
  from predicate_rewrite_consts [OF this(1)] predicate_pushdown_consts [OF this(2)] show ?thesis
    using expression_rewriter_consts [of oper] r(3) by blast
qed

text \<open>A plan is fine when no constant in it is a null string.\<close>

definition plain_consts :: "pval set \<Rightarrow> bool" where
  "plain_consts S \<longleftrightarrow> PChars None \<notin> S"

lemma plain_consts_mono: "plain_consts S \<Longrightarrow> T \<subseteq> S \<union> {PBooleans True} \<Longrightarrow> plain_consts T"
  by (auto simp: plain_consts_def)

lemma get_boolean_None: "get_boolean fo v = None \<longleftrightarrow> v = PChars None"
  by (auto simp: get_boolean_def split: pval.splits option.splits)

lemma rewrite_rules_defined:
  assumes "plain_consts (lconsts oper)"
  shows "rewrite_rules fo oper \<noteq> None"
proof -
  let ?o = "fst (expression_rewriter oper)"
  have "plain_consts (lconsts ?o)" using assms plain_consts_mono expression_rewriter_consts [of oper] by blast
  then have "predicate_rewrite fo ?o \<noteq> None"
    by (cases ?o) (auto simp: predicate_rewrite_def plain_consts_def get_boolean_None
        split: list.splits LogicalOperator.splits LogicalOperatorType.splits expr.splits option.splits)
  then show ?thesis by (auto simp: rewrite_rules_def Let_def split: sum.splits)
qed

definition shrunk :: "LogicalOperator list \<Rightarrow> LogicalOperator list \<Rightarrow> bool \<Rightarrow> bool" where
  "shrunk os os' c \<longleftrightarrow> sum_list (map lsize os') \<le> sum_list (map lsize os) \<and>
     (c \<longrightarrow> sum_list (map lsize os') < sum_list (map lsize os)) \<and>
     (\<Union>x \<in> set os'. lconsts x) \<subseteq> (\<Union>x \<in> set os. lconsts x) \<union> {PBooleans True}"

lemma rewriter_shrinks:
  "rewriter_rewrite fo oper = Some (Inr (oper', c)) \<Longrightarrow> shrunk [oper] [oper'] c"
  "rewriter_children fo opers = Some (Inr (opers', c')) \<Longrightarrow> shrunk opers opers' c'"
proof (induction fo oper and fo opers arbitrary: oper' c and opers' c' rule: rewriter_rewrite_rewriter_children.induct, goal_cases)
  case (1 fo oper oper' c)
  obtain o1 c1 ch c2 where r: "rewrite_rules fo oper = Some (Inr (o1, c1))" "rewriter_children fo (children o1) = Some (Inr (ch, c2))"
    "oper' = LOper (lo_type o1) (expressions o1) ch" "c \<longrightarrow> c1 \<or> c2"
    using 1(2) by (subst (asm) rewriter_rewrite.simps) (auto split: option.splits sum.splits, blast+)
  have s: "shrunk (children o1) ch c2" using 1(1) r by simp
  have o1: "lsize o1 = 1 + sum_list (map esize (expressions o1)) + sum_list (map lsize (children o1))"
    "lconsts o1 = (\<Union>e \<in> set (expressions o1). constants e) \<union> (\<Union>x \<in> set (children o1). lconsts x)"
    by (cases o1, simp)+
  have op: "lconsts oper' = (\<Union>e \<in> set (expressions o1). constants e) \<union> (\<Union>x \<in> set ch. lconsts x)" using r(3) by simp
  have "lconsts oper' \<subseteq> lconsts oper \<union> {PBooleans True}"
  proof -
    have "(\<Union>x \<in> set ch. lconsts x) \<subseteq> (\<Union>x \<in> set (children o1). lconsts x) \<union> {PBooleans True}" using s by (simp add: shrunk_def)
    moreover have "lconsts o1 \<subseteq> lconsts oper \<union> {PBooleans True}" by (rule rewrite_rules_consts [OF r(1)])
    ultimately show ?thesis unfolding o1(2) op by (meson Un_least Un_upper1 Un_upper2 order_trans)
  qed
  moreover have "lsize oper' \<le> lsize oper" "c \<longrightarrow> lsize oper' < lsize oper"
    using s r(3,4) rewrite_rules_size [OF r(1)] o1(1) by (auto simp: shrunk_def)
  ultimately show ?case by (simp add: shrunk_def)
next
  case (2 fo opers' c')
  then show ?case by (simp add: shrunk_def)
next
  case (3 fo oper opers opers' c')
  obtain o1 c1 os c2 where r: "rewriter_rewrite fo oper = Some (Inr (o1, c1))" "rewriter_children fo opers = Some (Inr (os, c2))"
    "opers' = o1 # os" "c' \<longrightarrow> c1 \<or> c2"
    using 3(3) by (auto split: option.splits sum.splits, blast+)
  have "shrunk [oper] [o1] c1" "shrunk opers os c2" using 3(1,2) r by simp_all
  then have "lsize o1 + sum_list (map lsize os) \<le> lsize oper + sum_list (map lsize opers)"
    "c' \<longrightarrow> lsize o1 + sum_list (map lsize os) < lsize oper + sum_list (map lsize opers)"
    "lconsts o1 \<union> (\<Union>x \<in> set os. lconsts x) \<subseteq> lconsts oper \<union> (\<Union>x \<in> set opers. lconsts x) \<union> {PBooleans True}"
    using r(4) by (auto simp: shrunk_def)
  then show ?case using r(3) by (simp add: shrunk_def)
qed

lemma rewriter_defined:
  "plain_consts (lconsts oper) \<Longrightarrow> rewriter_rewrite fo oper \<noteq> None"
  "plain_consts (\<Union>x \<in> set opers. lconsts x) \<Longrightarrow> rewriter_children fo opers \<noteq> None"
proof (induction fo oper and fo opers rule: rewriter_rewrite_rewriter_children.induct, goal_cases)
  case (1 fo oper)
  show ?case
  proof (cases "rewrite_rules fo oper")
    case None
    then show ?thesis using rewrite_rules_defined [OF 1(2)] by simp
  next
    case (Some r)
    show ?thesis
    proof (cases r)
      case (Inl rc)
      then show ?thesis using Some by (subst rewriter_rewrite.simps) simp
    next
      case (Inr oc)
      obtain o1 c1 where oc: "oc = (o1, c1)" by force
      have "lconsts o1 \<subseteq> lconsts oper \<union> {PBooleans True}" using rewrite_rules_consts Some Inr oc by simp
      then have "plain_consts (\<Union>x \<in> set (children o1). lconsts x)"
        using plain_consts_mono [OF 1(2)] by (cases o1) auto
      then have "rewriter_children fo (children o1) \<noteq> None" using 1(1) Some Inr oc by simp
      then show ?thesis using Some Inr oc by (subst rewriter_rewrite.simps) (auto split: sum.splits)
    qed
  qed
next
  case (2 fo)
  then show ?case by simp
next
  case (3 fo oper opers)
  have "plain_consts (lconsts oper)" "plain_consts (\<Union>x \<in> set opers. lconsts x)" using 3(3) by (auto simp: plain_consts_def)
  then show ?case using 3(1,2) by (auto split: option.splits sum.splits, blast+)
qed

text \<open>
  C6. The optimizer stops.  The loop of \<^verbatim>\<open>OptimizeStage::rewrite\<close> applies the rewriter until no rule reports a change; since
  every reported change removes a node of the plan, it ends for every plan without a null string among its constants, with an
  error or a plan that is no larger.
\<close>
theorem rewrite_loop_terminates:
  assumes "plain_consts (lconsts oper)"
  shows "\<exists>r. rewrite_loop fo oper = Some r \<and> (\<forall>oper'. r = Inr oper' \<longrightarrow> lsize oper' \<le> lsize oper)"
  using assms
proof (induction oper rule: measure_induct_rule [where f = lsize])
  case (less oper)
  obtain r where r: "rewriter_rewrite fo oper = Some r" using rewriter_defined (1) [OF less.prems] by auto
  show ?case
  proof (cases r)
    case (Inl rc)
    then show ?thesis using r by (subst rewrite_loop.simps) simp
  next
    case (Inr oc)
    obtain o1 c where oc: "oc = (o1, c)" by force
    have s: "shrunk [oper] [o1] c" using rewriter_shrinks (1) r Inr oc by simp
    then have "plain_consts (lconsts o1)" using plain_consts_mono [OF less.prems] by (simp add: shrunk_def)
    moreover have l: "lsize o1 \<le> lsize oper" "c \<longrightarrow> lsize o1 < lsize oper" using s by (simp_all add: shrunk_def)
    ultimately have "c \<longrightarrow> (\<exists>r. rewrite_loop fo o1 = Some r \<and> (\<forall>oper'. r = Inr oper' \<longrightarrow> lsize oper' \<le> lsize o1))"
      using less.IH [of o1] by blast
    then show ?thesis using r Inr oc l by (subst rewrite_loop.simps) (cases c, auto)
  qed
qed

theorem rewrite_loop_terminates_witness:
  "\<forall>fo. \<exists>r. rewrite_loop fo (LOper PROJECTION [] [LOper PREDICATE [ConjunctionExpr 0 CONJ_AND [true_expr, true_expr]] [LOper TABLE_GET [] []]]) = Some r \<and>
    (\<forall>oper'. r = Inr oper' \<longrightarrow> lsize oper' \<le> lsize (LOper PROJECTION [] [LOper PREDICATE [ConjunctionExpr 0 CONJ_AND [true_expr, true_expr]] [LOper TABLE_GET [] []]]))"
  by (intro allI rewrite_loop_terminates) (simp add: plain_consts_def true_expr_def)

section \<open>Meaning of expressions\<close>

text \<open>A reference meaning.  What fields, arithmetic and aggregates, casts and comparisons mean is a parameter; a constant
  means itself, and a conjunction or disjunction what its children say.\<close>

record meaning =
  mn_leaf :: "expr \<Rightarrow> pval"
  mn_cast :: "pval \<Rightarrow> AttrType \<Rightarrow> pval"
  mn_comp :: "CompOp \<Rightarrow> pval \<Rightarrow> pval \<Rightarrow> bool"

fun mean :: "meaning \<Rightarrow> expr \<Rightarrow> pval" where
  "mean I (ValueExpr p v) = v"
| "mean I (CastExpr p e ty) = mn_cast I (mean I e) ty"
| "mean I (ComparisonExpr p op l r) = PBooleans (mn_comp I op (mean I l) (mean I r))"
| "mean I (ConjunctionExpr p ct es) =
     PBooleans (if ct = CONJ_AND then list_all (\<lambda>e. mean I e = PBooleans True) es else list_ex (\<lambda>e. mean I e = PBooleans True) es)"
| "mean I e = mn_leaf I e"

text \<open>Every child of a conjunction is of type boolean, and no constant that decides it stands behind another child that is
  not a constant.\<close>

fun decided_first :: "conj_type \<Rightarrow> expr list \<Rightarrow> bool" where
  "decided_first ct [] \<longleftrightarrow> True"
| "decided_first ct (e # es) \<longleftrightarrow>
     (case try_to_get_bool_constant e of
        Some b \<Rightarrow> b \<noteq> (ct = CONJ_AND) \<or> decided_first ct es
      | None \<Rightarrow> list_all (\<lambda>x. try_to_get_bool_constant x \<noteq> Some (ct \<noteq> CONJ_AND)) es)"

fun simplifiable :: "meaning \<Rightarrow> expr \<Rightarrow> bool" where
  "simplifiable I (CastExpr p e ty) \<longleftrightarrow> simplifiable I e"
| "simplifiable I (ComparisonExpr p op l r) \<longleftrightarrow> simplifiable I l \<and> simplifiable I r"
| "simplifiable I (ConjunctionExpr p ct es) \<longleftrightarrow>
     decided_first ct es \<and> list_all (\<lambda>e. mean I e \<in> {PBooleans True, PBooleans False}) es \<and> list_all (simplifiable I) es"
| "simplifiable I e \<longleftrightarrow> True"

definition conj_mean :: "meaning \<Rightarrow> conj_type \<Rightarrow> expr list \<Rightarrow> bool" where
  "conj_mean I ct es = (if ct = CONJ_AND then list_all (\<lambda>e. mean I e = PBooleans True) es else list_ex (\<lambda>e. mean I e = PBooleans True) es)"

lemma bool_constant: "try_to_get_bool_constant e = Some b \<Longrightarrow> mean I e = PBooleans b"
  by (cases e rule: try_to_get_bool_constant.cases) simp_all

lemma conj_scan_undecided:
  assumes "list_all (\<lambda>x. try_to_get_bool_constant x \<noteq> Some (ct \<noteq> CONJ_AND)) es"
  shows "\<exists>kept'. conj_scan ct kept es = Inr kept' \<and> conj_mean I ct kept' = conj_mean I ct (kept @ es)"
  using assms
proof (induction es arbitrary: kept)
  case (Cons e es)
  show ?case
  proof (cases "try_to_get_bool_constant e")
    case None
    then show ?thesis using Cons.IH [of "kept @ [e]"] Cons.prems by simp
  next
    case (Some b)
    then have b: "b = (ct = CONJ_AND)" using Cons.prems by auto
    have "conj_mean I ct (kept @ e # es) = conj_mean I ct (kept @ es)"
      using bool_constant [OF Some, of I] b by (simp add: conj_mean_def)
    then show ?thesis using Cons.IH [of kept] Cons.prems Some b by simp
  qed
qed simp

lemma conj_scan_mean:
  assumes "decided_first ct es"
  shows "case conj_scan ct [] es of
      Inl e \<Rightarrow> mean I e = PBooleans (conj_mean I ct es)
    | Inr kept \<Rightarrow> conj_mean I ct kept = conj_mean I ct es"
  using assms
proof (induction es)
  case (Cons e es)
  show ?case
  proof (cases "try_to_get_bool_constant e")
    case None
    then show ?thesis using Cons.prems conj_scan_undecided [of ct es "[e]" I] by auto
  next
    case (Some b)
    note m = bool_constant [OF Some, of I]
    show ?thesis
    proof (cases "b = (ct = CONJ_AND)")
      case True
      have "conj_mean I ct (e # es) = conj_mean I ct es" using m True by (simp add: conj_mean_def)
      then show ?thesis using Some True Cons by (simp split: sum.splits)
    next
      case False
      then show ?thesis using Some m by (auto simp: conj_mean_def)
    qed
  qed
qed simp

lemma conjunction_rewrite_mean:
  assumes "simplifiable I e"
  shows "mean I (fst (conjunction_rewrite e)) = mean I e"
proof (cases e)
  case (ConjunctionExpr p ct es)
  then have d: "decided_first ct es" "list_all (\<lambda>e. mean I e \<in> {PBooleans True, PBooleans False}) es" using assms by simp_all
  have me: "mean I e = PBooleans (conj_mean I ct es)" using ConjunctionExpr by (simp add: conj_mean_def)
  note m = conj_scan_mean [OF d(1), of I] and sub = conj_scan_subset [where ct = ct and kept = "[]" and es = es]
  show ?thesis
  proof (cases "conj_scan ct [] es")
    case (Inl x)
    then show ?thesis using m me ConjunctionExpr by simp
  next
    case (Inr kept)
    show ?thesis
    proof (cases "length kept = 1")
      case True
      then obtain x where x: "kept = [x]" by (cases kept) simp_all
      then have "mean I x \<in> {PBooleans True, PBooleans False}" using sub Inr d(2) by (auto simp: list_all_iff)
      then have "mean I x = PBooleans (conj_mean I ct [x])" by (auto simp: conj_mean_def)
      then show ?thesis using m me Inr x ConjunctionExpr by simp
    next
      case False
      then have "mean I (fst (conjunction_rewrite e)) = PBooleans (conj_mean I ct kept)"
        using Inr ConjunctionExpr by (simp add: conj_mean_def)
      then show ?thesis using m me Inr by simp
    qed
  qed
qed simp_all

lemma conjunction_rewrite_simplifiable:
  assumes "simplifiable I e"
  shows "(\<exists>p ct es. fst (conjunction_rewrite e) = ConjunctionExpr p ct es \<and> list_all (simplifiable I) es) \<or> simplifiable I (fst (conjunction_rewrite e))"
proof (cases e)
  case (ConjunctionExpr p ct es)
  then have d: "list_all (simplifiable I) es" using assms by simp
  note sub = conj_scan_subset [where ct = ct and kept = "[]" and es = es]
  show ?thesis
  proof (cases "conj_scan ct [] es")
    case (Inl x)
    then show ?thesis using sub d ConjunctionExpr by (auto simp: list_all_iff)
  next
    case (Inr kept)
    then show ?thesis using sub d ConjunctionExpr by (cases kept) (auto simp: list_all_iff)
  qed
qed (use assms in simp_all)

text \<open>
  C7. Simplified conditions mean the same.  Whatever fields, casts and comparisons mean, one pass of the expression rewriter
  leaves the meaning of an expression unchanged, if the children of its conjunctions are boolean and no deciding constant -
  false in a conjunction, true in a disjunction - stands behind a child that is not a constant.
\<close>
theorem simplification_equivalent:
  assumes "simplifiable I e"
  shows "mean I (fst (rewrite_expression e)) = mean I e"
  using assms
proof (induction e rule: measure_induct_rule [where f = esize])
  case (less e)
  let ?e2 = "fst (conjunction_rewrite e)"
  note m = conjunction_rewrite_mean [OF less.prems] and s = conjunction_rewrite_simplifiable [OF less.prems]
  have size: "esize ?e2 \<le> esize e" using conjunction_rewrite_size by simp
  show ?case
  proof (cases "snd (conjunction_rewrite e)")
    case True
    then show ?thesis using m by (subst rewrite_expression_unfold) simp
  next
    case False
    show ?thesis
    proof (cases ?e2)
      case (CastExpr p ch ty)
      then have "esize ch < esize e" "simplifiable I ch" using size s by auto
      from less.IH [OF this] show ?thesis using m False CastExpr by (subst rewrite_expression_unfold) auto
    next
      case (ComparisonExpr p op l r)
      then have "esize l < esize e" "esize r < esize e" "simplifiable I l" "simplifiable I r" using size s by auto
      then show ?thesis using less.IH [of l] less.IH [of r] m False ComparisonExpr by (subst rewrite_expression_unfold) auto
    next
      case (ConjunctionExpr p ct es)
      have "mean I (fst (rewrite_expression x)) = mean I x" if "x \<in> set es" for x
        using less.IH [of x] esize_member [OF that] size ConjunctionExpr s that by (auto simp: list_all_iff)
      then show ?thesis using m False ConjunctionExpr by (subst rewrite_expression_unfold) (auto simp: list_all_iff list_ex_iff)
    qed (use m False in \<open>subst rewrite_expression_unfold, simp\<close>)+
  qed
qed

theorem simplification_equivalent_witness:
  "\<forall>I. mean I (fst (rewrite_expression (ConjunctionExpr 0 CONJ_AND [true_expr, ComparisonExpr 0 EQUAL_TO (ValueExpr 0 (PInts 1)) (ValueExpr 0 (PInts 2))]))) =
    PBooleans (mn_comp I EQUAL_TO (PInts 1) (PInts 2))"
proof
  fix I
  let ?e = "ConjunctionExpr 0 CONJ_AND [true_expr, ComparisonExpr 0 EQUAL_TO (ValueExpr 0 (PInts 1)) (ValueExpr 0 (PInts 2))]"
  have "simplifiable I ?e" by (cases "mn_comp I EQUAL_TO (PInts 1) (PInts 2)") (simp_all add: true_expr_def)
  from simplification_equivalent [OF this]
  show "mean I (fst (rewrite_expression ?e)) = PBooleans (mn_comp I EQUAL_TO (PInts 1) (PInts 2))" by (simp add: true_expr_def)
qed

text \<open>The condition is needed: a conjunction with the constant false behind another child becomes that child.\<close>

theorem conjunction_with_false:
  "fst (rewrite_expression (ConjunctionExpr p CONJ_AND [FieldExpr q t f i BOOLEANS l, ValueExpr r (PBooleans False)])) =
    FieldExpr q t f i BOOLEANS l"
  by (subst rewrite_expression_unfold) simp

end
