(* ===== verification/Ob_Planner.thy ===== *)
theory Ob_Planner
  imports Ob_Plan
begin

text \<open>
  From statements to plans: \<^verbatim>\<open>logical_plan_generator.cpp\<close>, \<^verbatim>\<open>expression_iterator.cpp\<close> and \<^verbatim>\<open>physical_plan_generator.cpp\<close> of
  \<^verbatim>\<open>observer/sql\<close>, and how \<^verbatim>\<open>OptimizeStage::handle_request\<close> composes them with the rewriter.

  Tables are pointers that the constructors of the operators ignore, so a plan does not name them.  A failed
  \<^verbatim>\<open>ASSERT\<close> and a null pointer that is followed are \<^term>\<open>None\<close>; an error code is \<^term>\<open>Inl\<close>.
\<close>

type_synonym 'a rc_result = "(RC + 'a) option"

definition rc_bind :: "'a rc_result \<Rightarrow> ('a \<Rightarrow> 'b rc_result) \<Rightarrow> 'b rc_result" where
  "rc_bind m f = (case m of None \<Rightarrow> None | Some (Inl rc) \<Rightarrow> Some (Inl rc) | Some (Inr x) \<Rightarrow> f x)"

lemma rc_bind_simps [simp]:
  "rc_bind None f = None" "rc_bind (Some (Inl rc)) f = Some (Inl rc)" "rc_bind (Some (Inr x)) f = f x"
  by (simp_all add: rc_bind_def)

lemma rc_bind_cong [fundef_cong]:
  "m = m' \<Longrightarrow> (\<And>x. m' = Some (Inr x) \<Longrightarrow> f x = g x) \<Longrightarrow> rc_bind m f = rc_bind m' g"
  by (auto simp: rc_bind_def split: option.splits sum.splits)

lemma rc_bind_Inr: "rc_bind m f = Some (Inr y) \<longleftrightarrow> (\<exists>x. m = Some (Inr x) \<and> f x = Some (Inr y))"
  by (auto simp: rc_bind_def split: option.splits sum.splits)

section \<open>Statements\<close>

datatype FilterObj = AttrObj | ValueObj pval

record FilterUnit =
  fu_comp :: CompOp
  fu_left :: FilterObj
  fu_right :: FilterObj

text \<open>A filter may be a null pointer.\<close>

record SelectStmt =
  ss_query_expressions :: "expr list"
  ss_tables :: nat
  ss_filter_stmt :: "FilterUnit list option"
  ss_group_by :: "expr list"

datatype Stmt =
    CalcStmt "expr list"
  | SelectS SelectStmt
  | InsertStmt "pval list"
  | DeleteStmt "FilterUnit list option"
  | ExplainStmt Stmt
  | OtherStmt

section \<open>Logical plans\<close>

fun obj_expr :: "FilterObj \<Rightarrow> expr" where
  "obj_expr AttrObj = FieldExpr (- 1) [] [] 0 UNDEFINED 0"
| "obj_expr (ValueObj v) = ValueExpr (- 1) v"

definition implicit_cast_cost :: "AttrType \<Rightarrow> AttrType \<Rightarrow> int" where
  "implicit_cast_cost own to = (if own = to then 0 else cast_cost own to)"

text \<open>One operand cast to the type of the other: a constant is evaluated at once, through \<^verbatim>\<open>CastExpr::try_get_value\<close>.\<close>

definition cast_operand :: "expr \<Rightarrow> AttrType \<Rightarrow> RC + expr" where
  "cast_operand e to =
     (let cast_expr = CastExpr (- 1) e to
      in if expr_type e = ET_VALUE then
           (case try_get_value cast_expr of
              (rc, Some v) \<Rightarrow> if rc \<noteq> SUCCESS then Inl rc else Inr (ValueExpr (- 1) v)
            | (rc, None) \<Rightarrow> Inl rc)
         else Inr cast_expr)"

definition unit_expr :: "FilterUnit \<Rightarrow> RC + expr" where
  "unit_expr u =
     (let left = obj_expr (fu_left u); right = obj_expr (fu_right u)
      in if value_type left = value_type right then Inr (ComparisonExpr (- 1) (fu_comp u) left right)
         else let left_to_right_cost = implicit_cast_cost (value_type left) (value_type right);
                  right_to_left_cost = implicit_cast_cost (value_type right) (value_type left)
              in if left_to_right_cost \<le> right_to_left_cost \<and> left_to_right_cost \<noteq> INT32_MAX then
                   (case cast_operand left (value_type right) of
                      Inl rc \<Rightarrow> Inl rc | Inr left \<Rightarrow> Inr (ComparisonExpr (- 1) (fu_comp u) left right))
                 else if right_to_left_cost < left_to_right_cost \<and> right_to_left_cost \<noteq> INT32_MAX then
                   (case cast_operand right (value_type left) of
                      Inl rc \<Rightarrow> Inl rc | Inr right \<Rightarrow> Inr (ComparisonExpr (- 1) (fu_comp u) left right))
                 else Inl UNSUPPORTED)"

fun unit_exprs :: "FilterUnit list \<Rightarrow> RC + expr list" where
  "unit_exprs [] = Inr []"
| "unit_exprs (u # us) =
     (case unit_expr u of
        Inl rc \<Rightarrow> Inl rc
      | Inr e \<Rightarrow> (case unit_exprs us of Inl rc \<Rightarrow> Inl rc | Inr es \<Rightarrow> Inr (e # es)))"

text \<open>The filter operator, if there are conditions, still without its input.\<close>

definition create_filter_plan :: "FilterUnit list option \<Rightarrow> LogicalOperator option rc_result" where
  "create_filter_plan filter_stmt =
     (case filter_stmt of
        None \<Rightarrow> None
      | Some units \<Rightarrow>
          (case unit_exprs units of
             Inl rc \<Rightarrow> Some (Inl rc)
           | Inr [] \<Rightarrow> Some (Inr None)
           | Inr cmp_exprs \<Rightarrow> Some (Inr (Some (LOper PREDICATE [ConjunctionExpr (- 1) CONJ_AND cmp_exprs] [])))))"

definition add_child :: "LogicalOperator \<Rightarrow> LogicalOperator \<Rightarrow> LogicalOperator" where
  "add_child oper child = LOper (lo_type oper) (expressions oper) (children oper @ [child])"

definition over :: "LogicalOperator \<Rightarrow> LogicalOperator option \<Rightarrow> LogicalOperator" where
  "over oper child = (case child of None \<Rightarrow> oper | Some c \<Rightarrow> add_child oper c)"

definition table_get :: LogicalOperator where
  "table_get = LOper TABLE_GET [] []"

fun join_tables :: "nat \<Rightarrow> LogicalOperator option \<Rightarrow> LogicalOperator option" where
  "join_tables 0 table_oper = table_oper"
| "join_tables (Suc n) None = join_tables n (Some table_get)"
| "join_tables (Suc n) (Some oper) = join_tables n (Some (LOper JOIN [] [oper, table_get]))"

subsection \<open>Grouping\<close>

text \<open>
  \<^verbatim>\<open>iterate_child_expr\<close> hands the children of a node to a function that may change them.  The null second operand of a
  unary expression is handed on as well and followed there; an unbound aggregate fails an assertion.
\<close>

fun iterate_child_expr :: "(expr \<Rightarrow> expr option) \<Rightarrow> expr \<Rightarrow> expr option" where
  "iterate_child_expr f (CastExpr p e ty) = do { e \<leftarrow> f e; Some (CastExpr p e ty) }"
| "iterate_child_expr f (ComparisonExpr p op l r) = do { l \<leftarrow> f l; r \<leftarrow> f r; Some (ComparisonExpr p op l r) }"
| "iterate_child_expr f (ConjunctionExpr p ct es) = map_option (ConjunctionExpr p ct) (those (map f es))"
| "iterate_child_expr f (ArithmeticExpr p a l r) =
     do { l \<leftarrow> f l; r \<leftarrow> r; r \<leftarrow> f r; Some (ArithmeticExpr p a l (Some r)) }"
| "iterate_child_expr f (AggregateExpr p a e) = do { e \<leftarrow> f e; Some (AggregateExpr p a e) }"
| "iterate_child_expr f (UnboundAggregateExpr p n e) = None"
| "iterate_child_expr f e = Some e"

text \<open>The recursive lambdas, with the depth of the expression as fuel; \<^term>\<open>esize e\<close> is enough for \<^term>\<open>e\<close>.\<close>

fun bind_loop :: "(expr \<Rightarrow> expr option) \<Rightarrow> float_ops \<Rightarrow> expr list \<Rightarrow> int \<Rightarrow> expr \<Rightarrow> expr option" where
  "bind_loop f fo [] i e = Some e"
| "bind_loop f fo (g # gs) i e =
     (if expr_type e = ET_AGGREGATION then Some e
      else do {
        eq \<leftarrow> expr_equal fo e g;
        e \<leftarrow> (if eq then Some (set_pos i e) else iterate_child_expr f e);
        bind_loop f fo gs (i + 1) e
      })"

fun bind_group_by_expr :: "nat \<Rightarrow> float_ops \<Rightarrow> expr list \<Rightarrow> expr \<Rightarrow> expr option" where
  "bind_group_by_expr 0 fo gs e = None"
| "bind_group_by_expr (Suc d) fo gs e = bind_loop (bind_group_by_expr d fo gs) fo gs 0 e"

text \<open>Whether there is an unbound column below an expression.\<close>

fun find_unbound_column :: "expr \<Rightarrow> bool option" where
  "find_unbound_column (AggregateExpr p a e) = Some False"
| "find_unbound_column (FieldExpr p t f i ty l) = Some (p = - 1)"
| "find_unbound_column (CastExpr p e ty) = (if p \<noteq> - 1 then Some False else find_unbound_column e)"
| "find_unbound_column (ComparisonExpr p op l r) =
     (if p \<noteq> - 1 then Some False else do { a \<leftarrow> find_unbound_column l; b \<leftarrow> find_unbound_column r; Some (a \<or> b) })"
| "find_unbound_column (ConjunctionExpr p ct es) =
     (if p \<noteq> - 1 then Some False else map_option (list_ex id) (those (map find_unbound_column es)))"
| "find_unbound_column (ArithmeticExpr p a l r) =
     (if p \<noteq> - 1 then Some False
      else case r of None \<Rightarrow> None
           | Some r \<Rightarrow> do { a \<leftarrow> find_unbound_column l; b \<leftarrow> find_unbound_column r; Some (a \<or> b) })"
| "find_unbound_column (UnboundAggregateExpr p n e) = (if p \<noteq> - 1 then Some False else None)"
| "find_unbound_column e = Some False"

text \<open>The collector numbers the aggregates from \<open>n\<close> on, a parent before what is inside it, and lists them.\<close>

fun collect :: "nat \<Rightarrow> expr \<Rightarrow> (expr \<times> expr list) option"
  and collect_all :: "nat \<Rightarrow> expr list \<Rightarrow> (expr list \<times> expr list) option" where
  "collect n (AggregateExpr p a e) = do {
     (e, as) \<leftarrow> collect (n + 1) e;
     let x = AggregateExpr (int n) a e;
     Some (x, x # as)
   }"
| "collect n (CastExpr p e ty) = do { (e, as) \<leftarrow> collect n e; Some (CastExpr p e ty, as) }"
| "collect n (ComparisonExpr p op l r) = do {
     (l, as) \<leftarrow> collect n l;
     (r, bs) \<leftarrow> collect (n + length as) r;
     Some (ComparisonExpr p op l r, as @ bs)
   }"
| "collect n (ConjunctionExpr p ct es) = do { (es, as) \<leftarrow> collect_all n es; Some (ConjunctionExpr p ct es, as) }"
| "collect n (ArithmeticExpr p a l r) =
     (case r of
        None \<Rightarrow> None
      | Some r \<Rightarrow> do {
          (l, as) \<leftarrow> collect n l;
          (r, bs) \<leftarrow> collect (n + length as) r;
          Some (ArithmeticExpr p a l (Some r), as @ bs)
        })"
| "collect n (UnboundAggregateExpr p nm e) = None"
| "collect n e = Some (e, [])"
| "collect_all n [] = Some ([], [])"
| "collect_all n (e # es) = do {
     (e, as) \<leftarrow> collect n e;
     (es, bs) \<leftarrow> collect_all (n + length as) es;
     Some (e # es, as @ bs)
   }"

text \<open>The group operator, if one is needed, and the changed query expressions.\<close>

definition create_group_by_plan :: "float_ops \<Rightarrow> expr list \<Rightarrow> expr list \<Rightarrow> (LogicalOperator option \<times> expr list) rc_result" where
  "create_group_by_plan fo group_by query =
     (case those (map (\<lambda>e. bind_group_by_expr (esize e) fo group_by e) query) of
        None \<Rightarrow> None
      | Some query \<Rightarrow>
          (case those (map find_unbound_column query) of
             None \<Rightarrow> None
           | Some found \<Rightarrow>
               (case collect_all (length group_by) query of
                  None \<Rightarrow> None
                | Some (query, aggregates) \<Rightarrow>
                    if group_by = [] \<and> aggregates = [] then Some (Inr (None, query))
                    else if list_ex (\<lambda>b. b) found then Some (Inl INVALID_ARGUMENT)
                    else Some (Inr (Some (LOper (GROUP_BY group_by aggregates) [] []), query)))))"

definition create_select_plan :: "float_ops \<Rightarrow> SelectStmt \<Rightarrow> LogicalOperator rc_result" where
  "create_select_plan fo stmt =
     rc_bind (create_filter_plan (ss_filter_stmt stmt)) (\<lambda>predicate_oper.
       let table_oper = join_tables (ss_tables stmt) None;
           last_oper = (case predicate_oper of None \<Rightarrow> table_oper | Some p \<Rightarrow> Some (over p table_oper))
       in rc_bind (create_group_by_plan fo (ss_group_by stmt) (ss_query_expressions stmt)) (\<lambda>(group_by_oper, query).
            let last_oper = (case group_by_oper of None \<Rightarrow> last_oper | Some g \<Rightarrow> Some (over g last_oper))
            in Some (Inr (over (LOper PROJECTION query []) last_oper))))"

definition create_delete_plan :: "FilterUnit list option \<Rightarrow> LogicalOperator rc_result" where
  "create_delete_plan filter_stmt =
     rc_bind (create_filter_plan filter_stmt) (\<lambda>predicate_oper.
       Some (Inr (LOper DELETE [] [case predicate_oper of None \<Rightarrow> table_get | Some p \<Rightarrow> add_child p table_get])))"

fun create_logical :: "float_ops \<Rightarrow> Stmt \<Rightarrow> LogicalOperator rc_result" where
  "create_logical fo (CalcStmt es) = Some (Inr (LOper CALC es []))"
| "create_logical fo (SelectS stmt) = create_select_plan fo stmt"
| "create_logical fo (InsertStmt vs) = Some (Inr (LOper (INSERT vs) [] []))"
| "create_logical fo (DeleteStmt filter_stmt) = create_delete_plan filter_stmt"
| "create_logical fo (ExplainStmt child) =
     rc_bind (create_logical fo child) (\<lambda>child_oper. Some (Inr (LOper EXPLAIN [] [child_oper])))"
| "create_logical fo OtherStmt = Some (Inl UNIMPLEMENTED)"

section \<open>Physical plans\<close>

datatype PhysicalOperatorType =
    P_TABLE_SCAN
  | P_TABLE_SCAN_VEC
  | P_INDEX_SCAN
  | P_NESTED_LOOP_JOIN
  | P_HASH_JOIN
  | P_EXPLAIN
  | P_PREDICATE expr
  | P_PREDICATE_VEC
  | P_PROJECT "expr list"
  | P_PROJECT_VEC "expr list"
  | P_CALC "expr list"
  | P_STRING_LIST
  | P_DELETE
  | P_INSERT "pval list"
  | P_SCALAR_GROUP_BY "expr list"
  | P_HASH_GROUP_BY "expr list" "expr list"
  | P_GROUP_BY_VEC "expr list" "expr list"
  | P_AGGREGATE_VEC "expr list"
  | P_EXPR_VEC

datatype PhysicalOperator = POper (po_type: PhysicalOperatorType) (po_children: "PhysicalOperator list")

text \<open>The overloads of \<^verbatim>\<open>create_plan\<close>, given what \<^verbatim>\<open>create\<close> returns for each input.\<close>

definition predicate_plan :: "expr list \<Rightarrow> PhysicalOperator rc_result list \<Rightarrow> PhysicalOperator rc_result" where
  "predicate_plan es rs =
     (case rs of
        [r] \<Rightarrow> rc_bind r (\<lambda>p.
          case es of
            [e] \<Rightarrow> if value_type e = BOOLEANS then Some (Inr (POper (P_PREDICATE e) [p])) else None
          | _ \<Rightarrow> None)
      | _ \<Rightarrow> None)"

definition project_plan :: "expr list \<Rightarrow> PhysicalOperator rc_result list \<Rightarrow> PhysicalOperator rc_result" where
  "project_plan es rs =
     (case rs of
        [] \<Rightarrow> Some (Inr (POper (P_PROJECT es) []))
      | r # _ \<Rightarrow> rc_bind r (\<lambda>p. Some (Inr (POper (P_PROJECT es) [p]))))"

definition delete_plan :: "PhysicalOperator rc_result list \<Rightarrow> PhysicalOperator rc_result" where
  "delete_plan rs =
     (case rs of
        [] \<Rightarrow> Some (Inr (POper P_DELETE []))
      | r # _ \<Rightarrow> rc_bind r (\<lambda>p. Some (Inr (POper P_DELETE [p]))))"

fun rc_seq :: "'a rc_result list \<Rightarrow> 'a list rc_result" where
  "rc_seq [] = Some (Inr [])"
| "rc_seq (r # rs) = rc_bind r (\<lambda>p. rc_bind (rc_seq rs) (\<lambda>ps. Some (Inr (p # ps))))"

definition explain_plan :: "PhysicalOperator rc_result list \<Rightarrow> PhysicalOperator rc_result" where
  "explain_plan rs = rc_bind (rc_seq rs) (\<lambda>ps. Some (Inr (POper P_EXPLAIN ps)))"

definition join_plan :: "PhysicalOperator rc_result list \<Rightarrow> PhysicalOperator rc_result" where
  "join_plan rs =
     (if length rs \<noteq> 2 then Some (Inl INTERNAL)
      else rc_bind (rc_seq rs) (\<lambda>ps. Some (Inr (POper P_NESTED_LOOP_JOIN ps))))"

definition group_by_plan :: "expr list \<Rightarrow> expr list \<Rightarrow> PhysicalOperator rc_result list \<Rightarrow> PhysicalOperator rc_result" where
  "group_by_plan gs as rs =
     (case rs of
        [r] \<Rightarrow> rc_bind r (\<lambda>p.
          Some (Inr (POper (if gs = [] then P_SCALAR_GROUP_BY as else P_HASH_GROUP_BY gs as) [p])))
      | _ \<Rightarrow> None)"

fun create_physical :: "LogicalOperator \<Rightarrow> PhysicalOperator rc_result" where
  "create_physical (LOper t es ch) =
     (let rs = map create_physical ch
      in case t of
           CALC \<Rightarrow> Some (Inr (POper (P_CALC es) []))
         | TABLE_GET \<Rightarrow> Some (Inr (POper P_TABLE_SCAN []))
         | PREDICATE \<Rightarrow> predicate_plan es rs
         | PROJECTION \<Rightarrow> project_plan es rs
         | INSERT vs \<Rightarrow> Some (Inr (POper (P_INSERT []) []))
         | DELETE \<Rightarrow> delete_plan rs
         | EXPLAIN \<Rightarrow> explain_plan rs
         | JOIN \<Rightarrow> join_plan rs
         | GROUP_BY gs as \<Rightarrow> group_by_plan gs as rs)"

text \<open>The vectorised plans, which only a part of the operators has.\<close>

definition group_by_vec_plan :: "expr list \<Rightarrow> expr list \<Rightarrow> PhysicalOperator rc_result list \<Rightarrow> PhysicalOperator rc_result" where
  "group_by_vec_plan gs as rs =
     (case rs of
        [r] \<Rightarrow> rc_bind r (\<lambda>p. Some (Inr (POper (if gs = [] then P_AGGREGATE_VEC as else P_GROUP_BY_VEC gs as) [p])))
      | _ \<Rightarrow> None)"

definition project_vec_plan :: "expr list \<Rightarrow> PhysicalOperator rc_result list \<Rightarrow> PhysicalOperator rc_result" where
  "project_vec_plan es rs =
     (case rs of
        [] \<Rightarrow> Some (Inr (POper (P_PROJECT_VEC es) []))
      | r # _ \<Rightarrow> rc_bind r (\<lambda>p. Some (Inr (POper (P_PROJECT_VEC es) [p]))))"

fun create_vec :: "LogicalOperator \<Rightarrow> PhysicalOperator rc_result" where
  "create_vec (LOper t es ch) =
     (let rs = map create_vec ch
      in case t of
           TABLE_GET \<Rightarrow> Some (Inr (POper P_TABLE_SCAN_VEC []))
         | PROJECTION \<Rightarrow> project_vec_plan es rs
         | GROUP_BY gs as \<Rightarrow> group_by_vec_plan gs as rs
         | EXPLAIN \<Rightarrow> explain_plan rs
         | _ \<Rightarrow> Some (Inl INVALID_ARGUMENT))"

text \<open>
  \<^verbatim>\<open>OptimizeStage::handle_request\<close>; the statement may be a null pointer.  \<^verbatim>\<open>Session::use_cascade\<close> is constantly false, so the
  cascade branch is never taken.
\<close>

definition handle_request :: "float_ops \<Rightarrow> Stmt option \<Rightarrow> PhysicalOperator rc_result" where
  "handle_request fo stmt =
     rc_bind (case stmt of None \<Rightarrow> Some (Inl UNIMPLEMENTED) | Some s \<Rightarrow> create_logical fo s) (\<lambda>logical.
       rc_bind (rewrite_loop fo logical) create_physical)"

section \<open>Conditions\<close>

definition operand_type :: "FilterObj \<Rightarrow> AttrType" where
  "operand_type x = value_type (obj_expr x)"

lemma cast_operand_value: "cast_operand (ValueExpr p v) to = Inl UNIMPLEMENTED"
  by (simp add: cast_operand_def)

lemma unit_expr_same:
  "operand_type (fu_left u) = operand_type (fu_right u) \<Longrightarrow>
    unit_expr u = Inr (ComparisonExpr (- 1) (fu_comp u) (obj_expr (fu_left u)) (obj_expr (fu_right u)))"
  by (simp add: unit_expr_def operand_type_def Let_def)

lemma unit_expr_differ:
  "operand_type (fu_left u) \<noteq> operand_type (fu_right u) \<Longrightarrow>
    unit_expr u = Inl (if {operand_type (fu_left u), operand_type (fu_right u)} = {INTS, FLOATS} then UNIMPLEMENTED else UNSUPPORTED)"
proof -
  have t: "operand_type AttrObj = UNDEFINED" "operand_type (ValueObj v) = ptype v" for v by (simp_all add: operand_type_def)
  note d = unit_expr_def operand_type_def Let_def implicit_cast_cost_def cast_cost_def char_cast_cost_def integer_cast_cost_def
    default_cast_cost_def cast_operand_value INT32_MAX_def doubleton_eq_iff
  assume ne: "operand_type (fu_left u) \<noteq> operand_type (fu_right u)"
  show ?thesis
  proof (cases "fu_left u"; cases "fu_right u")
    assume "fu_left u = AttrObj" "fu_right u = AttrObj"
    then show ?thesis using ne by simp
  next
    fix w assume "fu_left u = AttrObj" "fu_right u = ValueObj w"
    then show ?thesis using ne by (cases w) (simp_all add: d)
  next
    fix v assume "fu_left u = ValueObj v" "fu_right u = AttrObj"
    then show ?thesis using ne by (cases v) (simp_all add: d)
  next
    fix v w assume "fu_left u = ValueObj v" "fu_right u = ValueObj w"
    then show ?thesis using ne by (cases v; cases w) (simp_all add: d)
  qed
qed

definition mismatched :: "FilterUnit \<Rightarrow> bool" where
  "mismatched u \<longleftrightarrow> operand_type (fu_left u) \<noteq> operand_type (fu_right u)"

definition mismatch_error :: "FilterUnit \<Rightarrow> RC" where
  "mismatch_error u = (if {operand_type (fu_left u), operand_type (fu_right u)} = {INTS, FLOATS} then UNIMPLEMENTED else UNSUPPORTED)"

definition plain_comparison :: "FilterUnit \<Rightarrow> expr" where
  "plain_comparison u = ComparisonExpr (- 1) (fu_comp u) (obj_expr (fu_left u)) (obj_expr (fu_right u))"

lemma unit_expr_eq: "unit_expr u = (if mismatched u then Inl (mismatch_error u) else Inr (plain_comparison u))"
  by (simp add: mismatched_def mismatch_error_def plain_comparison_def unit_expr_same unit_expr_differ)

lemma unit_exprs_eq:
  "unit_exprs us = (case find mismatched us of Some u \<Rightarrow> Inl (mismatch_error u) | None \<Rightarrow> Inr (map plain_comparison us))"
  by (induction us) (auto simp: unit_expr_eq split: option.splits)

text \<open>
  C15.  A list of conditions becomes a filter exactly when the two sides of every condition have the same type, and then
  the filter is the conjunction of the comparisons as they were written: no implicit cast ever succeeds.  Otherwise the
  first condition with different types decides the error, \<^verbatim>\<open>UNIMPLEMENTED\<close> for an integer and a float and
  \<^verbatim>\<open>UNSUPPORTED\<close> for the rest, a column and a constant among them.
\<close>

theorem filter_plan_characterised:
  "create_filter_plan (Some us) =
     (case find mismatched us of
        Some u \<Rightarrow> Some (Inl (mismatch_error u))
      | None \<Rightarrow> Some (Inr (if us = [] then None
                           else Some (LOper PREDICATE [ConjunctionExpr (- 1) CONJ_AND (map plain_comparison us)] []))))"
  by (cases us) (auto simp: create_filter_plan_def unit_exprs_eq split: option.splits)

section \<open>Queries on one table\<close>

fun leaf :: "expr \<Rightarrow> bool" where
  "leaf (StarExpr p t) \<longleftrightarrow> True"
| "leaf (UnboundFieldExpr p t f) \<longleftrightarrow> True"
| "leaf (FieldExpr p t f i ty l) \<longleftrightarrow> True"
| "leaf (ValueExpr p v) \<longleftrightarrow> True"
| "leaf e \<longleftrightarrow> False"

lemma leaf_rewrite: "leaf e \<Longrightarrow> rewrite_expression e = (e, False)"
  by (cases e) (simp_all add: rewrite_expression_unfold)

lemma leaf_obj: "leaf (obj_expr x)"
  by (cases x) simp_all

lemma plain_comparison_rewrite: "rewrite_expression (plain_comparison u) = (plain_comparison u, False)"
  by (subst rewrite_expression_unfold) (simp add: plain_comparison_def leaf_rewrite leaf_obj)

lemma plain_comparison_bool: "try_to_get_bool_constant (plain_comparison u) = None"
  by (simp add: plain_comparison_def)

lemma conj_scan_plain: "conj_scan ct kept (map plain_comparison us) = Inr (kept @ map plain_comparison us)"
  by (induction us arbitrary: kept) (simp_all add: plain_comparison_bool)

text \<open>What a conjunction of plain comparisons is rewritten to: one comparison takes its place.\<close>

definition conjoined :: "FilterUnit list \<Rightarrow> expr" where
  "conjoined us = (case us of [u] \<Rightarrow> plain_comparison u | _ \<Rightarrow> ConjunctionExpr (- 1) CONJ_AND (map plain_comparison us))"

lemma conjunction_plain_rewrite:
  "rewrite_expression (ConjunctionExpr (- 1) CONJ_AND (map plain_comparison us)) = (conjoined us, length us = 1)"
  by (subst rewrite_expression_unfold)
    (auto simp: conj_scan_plain conjoined_def plain_comparison_rewrite list_ex_iff length_Suc_conv split: list.splits)

lemma conjoined_rewrite: "rewrite_expression (conjoined us) = (conjoined us, False)"
proof (cases "length us = 1")
  case True
  then show ?thesis by (auto simp: conjoined_def length_Suc_conv plain_comparison_rewrite)
next
  case False
  then have "conjoined us = ConjunctionExpr (- 1) CONJ_AND (map plain_comparison us)"
    by (auto simp: conjoined_def split: list.splits)
  then show ?thesis using conjunction_plain_rewrite [of us] False by simp
qed

lemma pushdown_one: "get_exprs_can_pushdown (plain_comparison u) = Inr (None, [plain_comparison u])"
  by (simp add: plain_comparison_def)

lemma pushdown_plain: "pushdown_children (map plain_comparison us) = Inr ([], map plain_comparison us)"
  by (induction us) (simp_all add: pushdown_one)

lemma pushdown_conjoined:
  "us \<noteq> [] \<Longrightarrow> predicate_pushdown (LOper PREDICATE [conjoined us] [LOper TABLE_GET es ch]) =
     Inr (LOper PREDICATE [true_expr] [LOper TABLE_GET es ch], True)"
  by (cases us) (auto simp: predicate_pushdown_def conjoined_def pushdown_one pushdown_plain remaining_predicate_def split: list.splits)

text \<open>One table: three passes of the rewriter.\<close>

lemma leaves_rewrite:
  assumes "list_all leaf es"
  shows "map (fst \<circ> rewrite_expression) es = es" "list_ex snd (map rewrite_expression es) = False"
  using assms by (induction es) (auto simp: leaf_rewrite)

lemma get_table_rewrite: "rewriter_rewrite fo table_get = Some (Inr (table_get, False))"
  by (simp add: rewriter_rewrite.simps rewrite_rules_def predicate_rewrite_def predicate_pushdown_def table_get_def)

lemma true_expr_rewrite: "rewrite_expression true_expr = (true_expr, False)"
  by (simp add: leaf_rewrite true_expr_def)

lemma filter_rewrite:
  "us \<noteq> [] \<Longrightarrow> rewriter_rewrite fo (LOper PREDICATE [conjoined us] [table_get]) = Some (Inr (LOper PREDICATE [true_expr] [table_get], True))"
  using get_table_rewrite [of fo]
  by (subst rewriter_rewrite.simps)
    (simp add: rewrite_rules_def predicate_rewrite_def table_get_def Let_def conjoined_rewrite pushdown_conjoined)

lemma project_pass1:
  assumes "list_all leaf es" "us \<noteq> []"
  shows "rewriter_rewrite fo (LOper PROJECTION es [LOper PREDICATE [ConjunctionExpr (- 1) CONJ_AND (map plain_comparison us)] [table_get]]) =
    Some (Inr (LOper PROJECTION es [LOper PREDICATE [true_expr] [table_get]], True))"
proof -
  have c: "predicate_rewrite fo (LOper PROJECTION es [LOper PREDICATE [conjoined us] [table_get]]) =
    Some (LOper PROJECTION es [LOper PREDICATE [conjoined us] [table_get]], False)"
    by (auto simp: predicate_rewrite_def conjoined_def plain_comparison_def split: list.splits)
  have t: "expression_rewriter table_get = (table_get, False)" by (simp add: table_get_def)
  have "expression_rewriter (LOper PROJECTION es [LOper PREDICATE [ConjunctionExpr (- 1) CONJ_AND (map plain_comparison us)] [table_get]]) =
    (LOper PROJECTION es [LOper PREDICATE [conjoined us] [table_get]], length us = 1)"
    by (simp add: Let_def leaves_rewrite [OF assms(1)] conjunction_plain_rewrite t)
  then show ?thesis
    by (subst rewriter_rewrite.simps) (simp add: rewrite_rules_def c predicate_pushdown_def filter_rewrite [OF assms(2)])
qed

lemma project_pass2:
  assumes "list_all leaf es"
  shows "rewriter_rewrite fo (LOper PROJECTION es [LOper PREDICATE [true_expr] [table_get]]) = Some (Inr (LOper PROJECTION es [table_get], True))"
  using get_table_rewrite [of fo]
  by (subst rewriter_rewrite.simps)
    (simp add: rewrite_rules_def Let_def leaves_rewrite [OF assms] true_expr_rewrite table_get_def predicate_rewrite_def
      predicate_pushdown_def true_expr_def leaf_rewrite get_boolean_def)

lemma project_pass3:
  assumes "list_all leaf es"
  shows "rewriter_rewrite fo (LOper PROJECTION es [table_get]) = Some (Inr (LOper PROJECTION es [table_get], False))"
  using get_table_rewrite [of fo]
  by (subst rewriter_rewrite.simps)
    (simp add: rewrite_rules_def Let_def leaves_rewrite [OF assms] table_get_def predicate_rewrite_def predicate_pushdown_def)

lemma project_filter_loop:
  assumes "list_all leaf es" "us \<noteq> []"
  shows "rewrite_loop fo (LOper PROJECTION es [LOper PREDICATE [ConjunctionExpr (- 1) CONJ_AND (map plain_comparison us)] [table_get]]) =
    Some (Inr (LOper PROJECTION es [table_get]))"
  by (subst rewrite_loop.simps, simp add: project_pass1 [OF assms], subst rewrite_loop.simps, simp add: project_pass2 [OF assms(1)],
      subst rewrite_loop.simps, simp add: project_pass3 [OF assms(1)])

lemma project_loop:
  "list_all leaf es \<Longrightarrow> rewrite_loop fo (LOper PROJECTION es [table_get]) = Some (Inr (LOper PROJECTION es [table_get]))"
  by (subst rewrite_loop.simps) (simp add: project_pass3)

lemma leaves_group_by:
  assumes "list_all leaf es"
  shows "create_group_by_plan fo [] es = Some (Inr (None, es))"
proof -
  have b: "bind_group_by_expr (esize e) fo [] e = Some e" for e using esize_pos [of e] by (cases "esize e") simp_all
  have f: "\<exists>x. find_unbound_column e = Some x" if "leaf e" for e using that by (cases e) auto
  have c: "collect n e = Some (e, [])" if "leaf e" for n e using that by (cases e) simp_all
  have "those (map (\<lambda>e. bind_group_by_expr (esize e) fo [] e) es) = Some es" by (induction es) (simp_all add: b)
  moreover have "\<exists>found. those (map find_unbound_column es) = Some found" using assms f by (induction es) fastforce+
  moreover have "collect_all n es = Some (es, [])" for n using assms c by (induction es) simp_all
  ultimately show ?thesis by (auto simp: create_group_by_plan_def)
qed



section \<open>Every planned statement gets a physical plan\<close>

text \<open>Conditions as the generator and the rewriter leave them, and the number of inputs each operator has.\<close>

fun is_comparison :: "expr \<Rightarrow> bool" where
  "is_comparison (ComparisonExpr p op l r) \<longleftrightarrow> True"
| "is_comparison e \<longleftrightarrow> False"

fun pred_ok :: "expr \<Rightarrow> bool" where
  "pred_ok (ConjunctionExpr p ct es) \<longleftrightarrow> ct = CONJ_AND \<and> list_all is_comparison es"
| "pred_ok (ComparisonExpr p op l r) \<longleftrightarrow> True"
| "pred_ok (ValueExpr p v) \<longleftrightarrow> v = PBooleans True"
| "pred_ok e \<longleftrightarrow> False"

definition arity_ok :: "LogicalOperatorType \<Rightarrow> expr list \<Rightarrow> nat \<Rightarrow> bool" where
  "arity_ok t es n \<longleftrightarrow>
     (case t of
        PREDICATE \<Rightarrow> n = 1 \<and> length es = 1 \<and> list_all pred_ok es
      | PROJECTION \<Rightarrow> n = 1
      | JOIN \<Rightarrow> n = 2
      | GROUP_BY gs as \<Rightarrow> n = 1
      | _ \<Rightarrow> True)"

fun plan_ok :: "LogicalOperator \<Rightarrow> bool" where
  "plan_ok (LOper t es ch) \<longleftrightarrow> arity_ok t es (length ch) \<and> list_all plan_ok ch"

lemma comparison_rewrite_comparison: "is_comparison e \<Longrightarrow> is_comparison (fst (rewrite_expression e))"
  by (cases e) (simp_all add: rewrite_expression_unfold)

lemma conj_scan_comparisons: "list_all is_comparison es \<Longrightarrow> conj_scan ct kept es = Inr (kept @ es)"
proof (induction es arbitrary: kept)
  case (Cons e es)
  then show ?case by (cases e) simp_all
qed simp

lemma comparison_pred_ok: "is_comparison e \<Longrightarrow> pred_ok e"
  by (cases e) simp_all

lemma pred_ok_rewrite: "pred_ok e \<Longrightarrow> pred_ok (fst (rewrite_expression e))"
proof (cases e)
  case (ConjunctionExpr p ct es)
  assume "pred_ok e"
  then show ?thesis
    by (subst rewrite_expression_unfold)
      (auto simp: ConjunctionExpr conj_scan_comparisons list_all_iff comparison_rewrite_comparison comparison_pred_ok length_Suc_conv)
qed (simp_all add: rewrite_expression_unfold)

lemma arity_ok_rewrite: "arity_ok t es n \<Longrightarrow> arity_ok t (map (fst \<circ> rewrite_expression) es) n"
  by (auto simp: arity_ok_def list_all_iff pred_ok_rewrite split: LogicalOperatorType.splits)

lemma expression_rewriter_ok: "plan_ok oper \<Longrightarrow> plan_ok (fst (expression_rewriter oper))"
  by (induction oper) (auto simp: Let_def list_all_iff arity_ok_rewrite)

lemma predicate_rewrite_ok:
  assumes "plan_ok oper"
  obtains oper' c where "predicate_rewrite fo oper = Some (oper', c)" "plan_ok oper'"
proof (cases "\<exists>p v grand. children oper = [LOper PREDICATE [ValueExpr p v] grand]")
  case True
  then obtain p v grand where c: "children oper = [LOper PREDICATE [ValueExpr p v] grand]" by blast
  obtain t es where o: "oper = LOper t es [LOper PREDICATE [ValueExpr p v] grand]" using c by (cases oper) simp
  then have "v = PBooleans True" "length grand = 1" "list_all plan_ok grand" "arity_ok t es 1"
    using assms by (simp_all add: arity_ok_def)
  then show ?thesis using that o by (simp add: predicate_rewrite_def get_boolean_def)
next
  case False
  then have "predicate_rewrite fo oper = Some (oper, False)"
    by (auto simp: predicate_rewrite_def split: list.splits LogicalOperator.splits LogicalOperatorType.splits expr.splits)
  then show ?thesis using that assms by blast
qed

lemma pushdown_comparisons: "list_all is_comparison es \<Longrightarrow> pushdown_children es = Inr ([], es)"
proof (induction es)
  case (Cons e es)
  then show ?case by (cases e) simp_all
qed simp

lemma pred_ok_pushdown:
  assumes "pred_ok e"
  obtains e' pushed where "get_exprs_can_pushdown e = Inr (e', pushed)" "pred_ok (remaining_predicate e')"
  using assms by (cases e) (auto simp: pushdown_comparisons remaining_predicate_def true_expr_def)

lemma predicate_pushdown_ok:
  assumes "plan_ok oper"
  obtains oper' c where "predicate_pushdown oper = Inr (oper', c)" "plan_ok oper'"
proof (cases "\<exists>e es ch. oper = LOper PREDICATE [e] [LOper TABLE_GET es ch]")
  case True
  then obtain e es ch where o: "oper = LOper PREDICATE [e] [LOper TABLE_GET es ch]" by blast
  then have "pred_ok e" using assms by (simp add: arity_ok_def)
  then obtain e' pushed where "get_exprs_can_pushdown e = Inr (e', pushed)" "pred_ok (remaining_predicate e')" by (rule pred_ok_pushdown)
  then show ?thesis using that assms o by (simp add: predicate_pushdown_def arity_ok_def)
next
  case False
  then have "predicate_pushdown oper = Inr (oper, False)"
    by (auto simp: predicate_pushdown_def split: list.splits LogicalOperator.splits LogicalOperatorType.splits)
  then show ?thesis using that assms by blast
qed

lemma rewrite_rules_ok:
  assumes "plan_ok oper"
  obtains oper' c where "rewrite_rules fo oper = Some (Inr (oper', c))" "plan_ok oper'"
proof -
  obtain o2 c2 where 2: "predicate_rewrite fo (fst (expression_rewriter oper)) = Some (o2, c2)" "plan_ok o2"
    using predicate_rewrite_ok [OF expression_rewriter_ok [OF assms]] by metis
  obtain o3 c3 where 3: "predicate_pushdown o2 = Inr (o3, c3)" "plan_ok o3" using predicate_pushdown_ok [OF 2(2)] by metis
  show ?thesis using that 2 3 by (simp add: rewrite_rules_def Let_def)
qed

lemma rewriter_ok:
  "plan_ok oper \<Longrightarrow> \<exists>oper' c. rewriter_rewrite fo oper = Some (Inr (oper', c)) \<and> plan_ok oper'"
  "list_all plan_ok opers \<Longrightarrow> \<exists>opers' c. rewriter_children fo opers = Some (Inr (opers', c)) \<and> list_all plan_ok opers' \<and> length opers' = length opers"
proof (induction fo oper and fo opers rule: rewriter_rewrite_rewriter_children.induct, goal_cases)
  case (1 fo oper)
  obtain o1 c1 where r: "rewrite_rules fo oper = Some (Inr (o1, c1))" "plan_ok o1" using rewrite_rules_ok [OF 1(2)] by metis
  obtain t es ch where o1: "o1 = LOper t es ch" by (cases o1)
  then obtain ch' c' where "rewriter_children fo ch = Some (Inr (ch', c'))" "list_all plan_ok ch'" "length ch' = length ch"
    using 1(1) [OF r(1), unfolded] r by fastforce
  then show ?case using r o1 by (subst rewriter_rewrite.simps) simp
next
  case (3 fo oper opers)
  then show ?case by fastforce
qed auto

text \<open>No rule brings in an operator of a new type.\<close>

fun lop_types :: "LogicalOperator \<Rightarrow> LogicalOperatorType set" where
  "lop_types (LOper t es ch) = insert t (\<Union> (set (map lop_types ch)))"

lemma expression_rewriter_types: "lop_types (fst (expression_rewriter oper)) = lop_types oper"
  by (induction oper) (simp add: Let_def)

lemma predicate_rewrite_types:
  assumes "predicate_rewrite fo oper = Some (oper', c)"
  shows "lop_types oper' \<subseteq> lop_types oper"
  using assms
proof (cases rule: predicate_rewrite_cases)
  case (2 p v grand b)
  then show ?thesis by (cases oper) auto
qed simp

lemma predicate_pushdown_types: "predicate_pushdown oper = Inr (oper', c) \<Longrightarrow> lop_types oper' = lop_types oper"
  by (auto simp: predicate_pushdown_def split: list.splits LogicalOperator.splits LogicalOperatorType.splits sum.splits)

lemma rewrite_rules_types:
  assumes "rewrite_rules fo oper = Some (Inr (oper', c))"
  shows "lop_types oper' \<subseteq> lop_types oper"
proof -
  obtain r2 r3 where r: "predicate_rewrite fo (fst (expression_rewriter oper)) = Some r2" "predicate_pushdown (fst r2) = Inr r3" "oper' = fst r3"
    using assms by (auto simp: rewrite_rules_def Let_def split: option.splits sum.splits)
  have "predicate_rewrite fo (fst (expression_rewriter oper)) = Some (fst r2, snd r2)" "predicate_pushdown (fst r2) = Inr (fst r3, snd r3)"
    using r by simp_all
  then show ?thesis using predicate_rewrite_types predicate_pushdown_types expression_rewriter_types r(3) by blast
qed

lemma rewriter_types:
  "rewriter_rewrite fo oper = Some (Inr (oper', c)) \<Longrightarrow> lop_types oper' \<subseteq> lop_types oper"
  "rewriter_children fo opers = Some (Inr (opers', c')) \<Longrightarrow> \<Union> (set (map lop_types opers')) \<subseteq> \<Union> (set (map lop_types opers))"
proof (induction fo oper and fo opers arbitrary: oper' c and opers' c' rule: rewriter_rewrite_rewriter_children.induct, goal_cases)
  case (1 fo oper oper' c)
  obtain o1 c1 where r: "rewrite_rules fo oper = Some (Inr (o1, c1))"
    using 1(2) by (subst (asm) rewriter_rewrite.simps) (auto split: option.splits sum.splits)
  obtain t es ch where o1: "o1 = LOper t es ch" by (cases o1)
  obtain ch' c' where ch: "rewriter_children fo ch = Some (Inr (ch', c'))" "oper' = LOper t es ch'"
    using 1(2) r o1 by (subst (asm) rewriter_rewrite.simps) (auto split: option.splits sum.splits)
  have "\<Union> (set (map lop_types ch')) \<subseteq> \<Union> (set (map lop_types ch))" using 1(1) [OF r] o1 ch(1) by fastforce
  then have "lop_types oper' \<subseteq> lop_types o1" using ch(2) o1 by auto
  then show ?case using rewrite_rules_types [OF r] by blast
next
  case (3 fo oper opers opers' c')
  obtain o1 c1 os1 cs1 where r: "rewriter_rewrite fo oper = Some (Inr (o1, c1))" "rewriter_children fo opers = Some (Inr (os1, cs1))" "opers' = o1 # os1"
    using 3(3) by (auto split: option.splits sum.splits prod.splits)
  have "lop_types o1 \<subseteq> lop_types oper" using 3(1) [OF r(1)] .
  moreover have "\<Union> (set (map lop_types os1)) \<subseteq> \<Union> (set (map lop_types opers))" using 3(2) r by fastforce
  ultimately show ?case using r(3) by auto
qed simp

lemma rewrite_loop_ok:
  "plan_ok oper \<Longrightarrow> \<exists>oper'. rewrite_loop fo oper = Some (Inr oper') \<and> plan_ok oper' \<and> lop_types oper' \<subseteq> lop_types oper"
proof (induction oper rule: measure_induct_rule [where f = lsize])
  case (less oper)
  obtain o1 c where r: "rewriter_rewrite fo oper = Some (Inr (o1, c))" "plan_ok o1" using rewriter_ok (1) [OF less.prems] by metis
  note t = rewriter_types (1) [OF r(1)]
  have s: "c \<longrightarrow> lsize o1 < lsize oper" using rewriter_shrinks (1) [OF r(1)] by (simp add: shrunk_def)
  show ?case
  proof (cases c)
    case True
    then obtain o2 where "rewrite_loop fo o1 = Some (Inr o2)" "plan_ok o2" "lop_types o2 \<subseteq> lop_types o1" using less.IH [of o1] s r(2) by auto
    then show ?thesis using r t True by (subst rewrite_loop.simps) auto
  next
    case False
    then show ?thesis using r t by (subst rewrite_loop.simps) simp
  qed
qed

lemma rc_seq_ok: "\<forall>r \<in> set rs. \<exists>p. r = Some (Inr p) \<Longrightarrow> \<exists>ps. rc_seq rs = Some (Inr ps)"
  by (induction rs) fastforce+

lemma pred_ok_boolean: "pred_ok e \<Longrightarrow> value_type e = BOOLEANS"
  by (cases e) simp_all

lemma create_physical_ok: "plan_ok oper \<Longrightarrow> \<exists>p. create_physical oper = Some (Inr p)"
proof (induction oper)
  case (LOper t es ch)
  have ch: "\<forall>r \<in> set (map create_physical ch). \<exists>p. r = Some (Inr p)" using LOper by (auto simp: list_all_iff)
  obtain ps where ps: "rc_seq (map create_physical ch) = Some (Inr ps)" using rc_seq_ok [OF ch] by blast
  have ar: "arity_ok t es (length ch)" using LOper.prems by simp
  have one: "\<exists>c p. ch = [c] \<and> create_physical c = Some (Inr p)" if "length ch = 1" using that ch by (auto simp: length_Suc_conv)
  show ?case
  proof (cases t)
    case PREDICATE
    then obtain e where "es = [e]" "pred_ok e" "length ch = 1" using ar by (auto simp: arity_ok_def length_Suc_conv)
    then show ?thesis using one PREDICATE by (auto simp: predicate_plan_def pred_ok_boolean)
  next
    case (GROUP_BY gs as)
    then show ?thesis using one ar by (auto simp: group_by_plan_def arity_ok_def)
  next
    case JOIN
    then show ?thesis using ps ar by (simp add: join_plan_def arity_ok_def)
  qed (use ch ps in \<open>auto simp: project_plan_def delete_plan_def explain_plan_def split: list.splits\<close>)
qed

lemma join_tables_ok:
  "pred_option plan_ok t \<Longrightarrow> pred_option plan_ok (join_tables n t)"
  "0 < n \<or> t \<noteq> None \<Longrightarrow> join_tables n t \<noteq> None"
  by (induction n t rule: join_tables.induct) (simp_all add: table_get_def arity_ok_def)

text \<open>A query needs a table for its filter and its groups to read.\<close>

fun has_tables :: "Stmt \<Rightarrow> bool" where
  "has_tables (SelectS stmt) \<longleftrightarrow> 0 < ss_tables stmt"
| "has_tables (ExplainStmt child) \<longleftrightarrow> has_tables child"
| "has_tables stmt \<longleftrightarrow> True"

lemma filter_plan_shape:
  assumes "create_filter_plan f = Some (Inr (Some p))" "plan_ok c"
  shows "plan_ok (add_child p c)"
proof -
  obtain us where us: "f = Some us" using assms(1) by (auto simp: create_filter_plan_def split: option.splits)
  have c: "list_all is_comparison (map plain_comparison us)" by (induction us) (simp_all add: plain_comparison_def)
  have "p = LOper PREDICATE [ConjunctionExpr (- 1) CONJ_AND (map plain_comparison us)] []"
    using assms(1) us by (auto simp: create_filter_plan_def unit_exprs_eq split: option.splits list.splits)
  then show ?thesis using assms(2) c by (simp add: add_child_def arity_ok_def)
qed

lemma group_by_plan_shape:
  assumes "create_group_by_plan fo gs es = Some (Inr (Some g, es'))" "plan_ok c"
  shows "plan_ok (add_child g c)"
  using assms by (auto simp: create_group_by_plan_def add_child_def arity_ok_def split: option.splits prod.splits if_splits)

lemma create_select_ok:
  assumes "create_select_plan fo stmt = Some (Inr l)" "0 < ss_tables stmt"
  shows "plan_ok l"
proof -
  obtain t where t: "join_tables (ss_tables stmt) None = Some t" "plan_ok t"
    using join_tables_ok [where t = None and n = "ss_tables stmt"] assms(2) by (auto simp: pred_option_def)
  obtain f where f: "create_filter_plan (ss_filter_stmt stmt) = Some (Inr f)"
    using assms(1) by (auto simp: create_select_plan_def rc_bind_Inr)
  define c1 where "c1 = (case f of None \<Rightarrow> t | Some p \<Rightarrow> add_child p t)"
  have 1: "plan_ok c1" using f t filter_plan_shape by (auto simp: c1_def split: option.splits)
  obtain g q where g: "create_group_by_plan fo (ss_group_by stmt) (ss_query_expressions stmt) = Some (Inr (g, q))"
    using assms(1) by (auto simp: create_select_plan_def rc_bind_Inr Let_def)
  define c2 where "c2 = (case g of None \<Rightarrow> c1 | Some g \<Rightarrow> add_child g c1)"
  have 2: "plan_ok c2" using g 1 group_by_plan_shape by (auto simp: c2_def split: option.splits)
  have "l = add_child (LOper PROJECTION q []) c2"
    using assms(1) f g t(1) by (auto simp: create_select_plan_def over_def c1_def c2_def Let_def split: option.splits)
  then show ?thesis using 2 by (simp add: add_child_def arity_ok_def)
qed

lemma create_logical_ok:
  "create_logical fo stmt = Some (Inr l) \<Longrightarrow> has_tables stmt \<Longrightarrow> plan_ok l"
proof (induction fo stmt arbitrary: l rule: create_logical.induct)
  case (4 fo f)
  have t: "plan_ok table_get" by (simp add: table_get_def arity_ok_def)
  show ?case using 4 t filter_plan_shape [OF _ t, of f]
    by (auto simp: create_delete_plan_def rc_bind_Inr arity_ok_def split: option.splits)
next
  case (5 fo child)
  then show ?case by (auto simp: rc_bind_Inr arity_ok_def)
qed (auto simp: arity_ok_def create_select_ok)

text \<open>A plan for a query is made of these operators, over the scans of its tables.\<close>

fun query_type :: "LogicalOperatorType \<Rightarrow> bool" where
  "query_type TABLE_GET \<longleftrightarrow> True"
| "query_type PREDICATE \<longleftrightarrow> True"
| "query_type PROJECTION \<longleftrightarrow> True"
| "query_type JOIN \<longleftrightarrow> True"
| "query_type (GROUP_BY gs as) \<longleftrightarrow> True"
| "query_type t \<longleftrightarrow> False"

fun query_tree :: "PhysicalOperator \<Rightarrow> bool" where
  "query_tree (POper t ch) \<longleftrightarrow>
     list_all query_tree ch \<and>
     (case t of
        P_TABLE_SCAN \<Rightarrow> ch = []
      | P_PREDICATE e \<Rightarrow> length ch = 1
      | P_PROJECT es \<Rightarrow> length ch = 1
      | P_NESTED_LOOP_JOIN \<Rightarrow> length ch = 2
      | P_SCALAR_GROUP_BY as \<Rightarrow> length ch = 1
      | P_HASH_GROUP_BY gs as \<Rightarrow> length ch = 1
      | _ \<Rightarrow> False)"

lemma rc_seq_list: "rc_seq rs = Some (Inr ps) \<Longrightarrow> rs = map (Some \<circ> Inr) ps"
  by (induction rs arbitrary: ps) (auto simp: rc_bind_Inr)

lemma create_physical_query:
  "plan_ok oper \<Longrightarrow> \<forall>t \<in> lop_types oper. query_type t \<Longrightarrow> create_physical oper = Some (Inr p) \<Longrightarrow> query_tree p"
proof (induction oper arbitrary: p)
  case (LOper t es ch)
  have ih: "query_tree q" if "c \<in> set ch" "create_physical c = Some (Inr q)" for c q
    using LOper that by (fastforce simp: list_all_iff)
  have q: "query_type t" "arity_ok t es (length ch)" using LOper.prems by simp_all
  show ?case
  proof (cases t)
    case JOIN
    obtain ps where ps: "rc_seq (map create_physical ch) = Some (Inr ps)" "p = POper P_NESTED_LOOP_JOIN ps"
      using LOper.prems(3) JOIN by (auto simp: join_plan_def rc_bind_Inr split: if_splits)
    have m: "map create_physical ch = map (Some \<circ> Inr) ps" using rc_seq_list [OF ps(1)] .
    then have "length ps = 2" using q(2) JOIN by (auto simp: arity_ok_def dest: map_eq_imp_length_eq)
    moreover have "query_tree x" if "x \<in> set ps" for x
    proof -
      have "Some (Inr x) \<in> set (map create_physical ch)" unfolding m using that by simp
      then show ?thesis using ih by auto
    qed
    ultimately show ?thesis using ps(2) by (simp add: list_all_iff)
  next
    case (GROUP_BY gs as)
    then obtain c where "ch = [c]" using q(2) by (auto simp: arity_ok_def length_Suc_conv)
    then show ?thesis using LOper.prems(3) GROUP_BY ih by (auto simp: group_by_plan_def rc_bind_Inr)
  next
    case PREDICATE
    then obtain c e where "ch = [c]" "es = [e]" using q(2) by (auto simp: arity_ok_def length_Suc_conv)
    then show ?thesis using LOper.prems(3) PREDICATE ih by (auto simp: predicate_plan_def rc_bind_Inr split: if_splits)
  next
    case PROJECTION
    then obtain c where "ch = [c]" using q(2) by (auto simp: arity_ok_def length_Suc_conv)
    then show ?thesis using LOper.prems(3) PROJECTION ih by (auto simp: project_plan_def rc_bind_Inr)
  qed (use q(1) LOper.prems(3) in auto)
qed

lemma join_tables_types: "(\<forall>o'. t = Some o' \<longrightarrow> (\<forall>x \<in> lop_types o'. query_type x)) \<Longrightarrow> join_tables n t = Some oper \<Longrightarrow> x \<in> lop_types oper \<Longrightarrow> query_type x"
  by (induction n t rule: join_tables.induct) (auto simp: table_get_def)

definition opt_query :: "LogicalOperator option \<Rightarrow> bool" where
  "opt_query c \<longleftrightarrow> (\<forall>oper. c = Some oper \<longrightarrow> (\<forall>t \<in> lop_types oper. query_type t))"

lemma over_query:
  assumes "\<forall>t \<in> lop_types p. query_type t" "opt_query c"
  shows "\<forall>t \<in> lop_types (over p c). query_type t"
proof (cases c)
  case None
  then show ?thesis using assms(1) by (simp add: over_def)
next
  case (Some oper)
  then show ?thesis using assms by (cases p) (auto simp: over_def add_child_def opt_query_def)
qed

lemma opt_over_query:
  assumes "opt_query p" "opt_query c"
  shows "opt_query (case p of None \<Rightarrow> c | Some p \<Rightarrow> Some (over p c))"
proof (cases p)
  case (Some oper)
  then have "\<forall>t \<in> lop_types oper. query_type t" using assms(1) by (simp add: opt_query_def)
  then show ?thesis using over_query [OF _ assms(2)] Some by (simp add: opt_query_def)
qed (use assms in simp)

lemma create_select_types:
  assumes "create_select_plan fo stmt = Some (Inr l)"
  shows "\<forall>t \<in> lop_types l. query_type t"
proof -
  obtain f where f: "create_filter_plan (ss_filter_stmt stmt) = Some (Inr f)"
    using assms by (auto simp: create_select_plan_def rc_bind_Inr)
  obtain g q where g: "create_group_by_plan fo (ss_group_by stmt) (ss_query_expressions stmt) = Some (Inr (g, q))"
    using assms by (auto simp: create_select_plan_def rc_bind_Inr Let_def)
  have pf: "opt_query f"
    using f by (auto simp: opt_query_def create_filter_plan_def split: option.splits sum.splits list.splits)
  have pg: "opt_query g"
    using g by (auto simp: opt_query_def create_group_by_plan_def split: option.splits prod.splits if_splits)
  have t: "opt_query (join_tables (ss_tables stmt) None)" unfolding opt_query_def using join_tables_types [of None] by blast
  define c1 where "c1 = (case f of None \<Rightarrow> join_tables (ss_tables stmt) None | Some p \<Rightarrow> Some (over p (join_tables (ss_tables stmt) None)))"
  define c2 where "c2 = (case g of None \<Rightarrow> c1 | Some p \<Rightarrow> Some (over p c1))"
  have "opt_query c2" unfolding c2_def c1_def by (intro opt_over_query pf pg t)
  moreover have "l = over (LOper PROJECTION q []) c2" unfolding c2_def c1_def using assms f g by (simp add: create_select_plan_def Let_def)
  ultimately show ?thesis using over_query [of "LOper PROJECTION q []" c2] by simp
qed

lemma planned_query_tree:
  assumes "create_logical fo (SelectS stmt) = Some (Inr l)" "0 < ss_tables stmt" "handle_request fo (Some (SelectS stmt)) = Some (Inr p)"
  shows "query_tree p"
proof -
  have l: "plan_ok l" "\<forall>t \<in> lop_types l. query_type t" using create_logical_ok [OF assms(1)] create_select_types assms(1,2) by simp_all
  obtain l' where l': "rewrite_loop fo l = Some (Inr l')" "plan_ok l'" "lop_types l' \<subseteq> lop_types l" using rewrite_loop_ok [OF l(1)] by metis
  then have "create_physical l' = Some (Inr p)" using assms(1,3) by (simp add: handle_request_def)
  then show ?thesis using create_physical_query l' l(2) by blast
qed

text \<open>
  C13.  Once the logical plan of a statement exists, the rest of planning cannot fail: the rewriter ends without an
  error and the physical plan is built, with no failed assertion on the way.  A query needs at least one table.
\<close>

theorem planned_statement_gets_physical_plan:
  assumes "create_logical fo stmt = Some (Inr l)" "has_tables stmt"
  shows "\<exists>p. handle_request fo (Some stmt) = Some (Inr p)"
proof -
  obtain l' where "rewrite_loop fo l = Some (Inr l')" "plan_ok l'" using rewrite_loop_ok create_logical_ok [OF assms] by metis
  then show ?thesis using create_physical_ok assms(1) by (simp add: handle_request_def)
qed

theorem planned_statement_gets_physical_plan_witness:
  "\<forall>fo. \<exists>p. handle_request fo (Some (ExplainStmt (SelectS \<lparr>ss_query_expressions = [AggregateExpr (- 1) AGG_COUNT (ValueExpr (- 1) (PInts 1))],
      ss_tables = 2, ss_filter_stmt = Some [\<lparr>fu_comp = EQUAL_TO, fu_left = AttrObj, fu_right = AttrObj\<rparr>], ss_group_by = []\<rparr>))) = Some (Inr p)"
  by (intro allI planned_statement_gets_physical_plan)
    (auto simp: create_select_plan_def create_filter_plan_def create_group_by_plan_def unit_expr_def over_def add_child_def Let_def numeral_2_eq_2)

subsection \<open>The fuel of the binding\<close>

definition keeps_size :: "(expr \<Rightarrow> expr option) \<Rightarrow> bool" where
  "keeps_size f \<longleftrightarrow> (\<forall>x y. f x = Some y \<longrightarrow> esize y = esize x)"

lemma those_size: "keeps_size f \<Longrightarrow> those (map f es) = Some es' \<Longrightarrow> map esize es' = map esize es"
  by (induction es arbitrary: es') (auto simp: keeps_size_def split: option.splits)

lemma set_pos_size: "esize (set_pos i e) = esize e"
  by (cases e) simp_all

lemma iterate_size: "keeps_size f \<Longrightarrow> iterate_child_expr f e = Some e' \<Longrightarrow> esize e' = esize e"
  by (cases e) (auto simp: keeps_size_def those_size split: bind_splits)

lemma bind_loop_size: "keeps_size f \<Longrightarrow> bind_loop f fo gs i e = Some e' \<Longrightarrow> esize e' = esize e"
proof (induction gs arbitrary: i e)
  case (Cons g gs)
  then show ?case using iterate_size [OF Cons.prems(1)] by (fastforce simp: set_pos_size split: if_splits bind_splits)
qed simp

lemma bind_keeps_size: "keeps_size (bind_group_by_expr d fo gs)"
proof (induction d)
  case (Suc d)
  then show ?case using bind_loop_size [OF Suc] unfolding keeps_size_def by simp
qed (simp add: keeps_size_def)

lemma iterate_cong:
  assumes "\<And>x. esize x < esize e \<Longrightarrow> f x = g x"
  shows "iterate_child_expr f e = iterate_child_expr g e"
proof (cases e)
  case (ConjunctionExpr p ct es)
  then have "map f es = map g es" using assms esize_member by (fastforce simp: less_Suc_eq_le)
  then show ?thesis using ConjunctionExpr by (simp del: map_eq_conv)
next
  case (ArithmeticExpr p a l r)
  then show ?thesis using assms esize_pos by (cases r) (auto cong: Option.bind_cong)
qed (use assms esize_pos in \<open>auto cong: Option.bind_cong\<close>)

lemma bind_loop_cong:
  assumes "keeps_size f" "\<And>x. esize x < esize e \<Longrightarrow> f x = g x"
  shows "bind_loop f fo gs i e = bind_loop g fo gs i e"
  using assms(2)
proof (induction gs arbitrary: i e)
  case (Cons h gs)
  have it: "iterate_child_expr f e = iterate_child_expr g e" by (rule iterate_cong) (rule Cons.prems)
  have "bind_loop f fo gs (i + 1) e' = bind_loop g fo gs (i + 1) e'" if "esize e' = esize e" for e'
    using Cons.IH [of e' "i + 1"] Cons.prems that by simp
  then show ?case using it iterate_size [OF assms(1), of e]
    by (auto simp: set_pos_size intro!: Option.bind_cong split: if_splits)
qed simp

lemma bind_fuel_enough: "esize e \<le> d \<Longrightarrow> bind_group_by_expr d fo gs e = bind_group_by_expr (esize e) fo gs e"
proof (induction "esize e" arbitrary: d e rule: less_induct)
  case less
  obtain n where n: "esize e = Suc n" using esize_pos [of e] by (cases "esize e") simp_all
  obtain d' where d: "d = Suc d'" "n \<le> d'" using less.prems n by (cases d) simp_all
  have "bind_group_by_expr d' fo gs x = bind_group_by_expr n fo gs x" if "esize x < esize e" for x
    using less.hyps [OF that, of d'] less.hyps [OF that, of n] that n d by simp
  then show ?case using bind_loop_cong [OF bind_keeps_size, of e] d n by (metis bind_group_by_expr.simps(2))
qed

section \<open>Further consequences\<close>

text \<open>The inserted values do not reach the physical plan.\<close>

theorem inserted_values_lost: "handle_request fo (Some (InsertStmt vs)) = Some (Inr (POper (P_INSERT []) []))"
proof -
  have "rewriter_rewrite fo (LOper (INSERT vs) [] []) = Some (Inr (LOper (INSERT vs) [] [], False))"
    by (simp add: rewriter_rewrite.simps rewrite_rules_def predicate_rewrite_def predicate_pushdown_def)
  then have "rewrite_loop fo (LOper (INSERT vs) [] []) = Some (Inr (LOper (INSERT vs) [] []))" by (subst rewrite_loop.simps) simp
  then show ?thesis by (simp add: handle_request_def)
qed

text \<open>A null filter is followed.\<close>

theorem null_filter_undefined: "ss_filter_stmt stmt = None \<Longrightarrow> handle_request fo (Some (SelectS stmt)) = None"
  by (simp add: handle_request_def create_select_plan_def create_filter_plan_def)

text \<open>So is the missing second operand of a unary expression in the list of a query.\<close>

theorem unary_query_undefined: "create_group_by_plan fo [] (ArithmeticExpr (- 1) a l None # es) = None"
proof -
  have b: "bind_group_by_expr (esize e) fo [] e = Some e" for e using esize_pos [of e] by (cases "esize e") simp_all
  have "those (map (\<lambda>e. bind_group_by_expr (esize e) fo [] e) es) = Some es" by (induction es) (simp_all add: b)
  then show ?thesis using b by (simp add: create_group_by_plan_def)
qed

end
