(* ===== verification/Ob_Exec.thy ===== *)
theory Ob_Exec
  imports Ob_Planner
begin

text \<open>
  The execution of plans: the tuples of \<^verbatim>\<open>observer/sql/expr\<close> (\<^verbatim>\<open>tuple.h\<close>, \<^verbatim>\<open>expression_tuple.h\<close>, \<^verbatim>\<open>composite_tuple.cpp\<close>,
  \<^verbatim>\<open>tuple_cell.cpp\<close>), the physical operators of \<^verbatim>\<open>observer/sql/operator\<close>, and \<^verbatim>\<open>SqlResult\<close>.

  A pointer to a tuple is the tuple it leads to, or \<^term>\<open>None\<close> when it is null; an operator that keeps the tuple of one of
  its inputs does not move that input while it uses the tuple.  An operator calls its inputs through virtual functions:
  they are a record of four functions over the state of the input.  The name of an expression, which the tree of
  \<open>Ob_Plan\<close> leaves out, is a parameter \<open>nm\<close>.  A copy of a value holds what the value holds, which is so for every value but
  the empty string (\<open>empty_string_copy_undefined\<close> of \<open>Ob_Value\<close>).
\<close>

definition NOTFOUND :: RC where "NOTFOUND = 6"

lemma NOTFOUND_neq [simp]: "NOTFOUND \<noteq> SUCCESS" "SUCCESS \<noteq> NOTFOUND"
  by (simp_all add: NOTFOUND_def SUCCESS_def)

section \<open>Tuples\<close>

record TupleCellSpec =
  tcs_table_name :: bytes
  tcs_field_name :: bytes
  tcs_alias :: bytes

definition spec_new :: TupleCellSpec where
  "spec_new = \<lparr>tcs_table_name = [], tcs_field_name = [], tcs_alias = []\<rparr>"

definition spec_field :: "bytes option \<Rightarrow> bytes option \<Rightarrow> bytes option \<Rightarrow> TupleCellSpec" where
  "spec_field table_name field_name alias_name =
     (let t = (case table_name of Some s \<Rightarrow> c_str s | None \<Rightarrow> []);
          f = (case field_name of Some s \<Rightarrow> c_str s | None \<Rightarrow> [])
      in \<lparr>tcs_table_name = t, tcs_field_name = f,
          tcs_alias = (case alias_name of Some s \<Rightarrow> c_str s | None \<Rightarrow> if t = [] then f else t @ str ''.'' @ f)\<rparr>)"

definition spec_alias :: "bytes \<Rightarrow> TupleCellSpec" where
  "spec_alias alias_name = spec_new\<lparr>tcs_alias := c_str alias_name\<rparr>"

definition spec_equals :: "TupleCellSpec \<Rightarrow> TupleCellSpec \<Rightarrow> bool" where
  "spec_equals a b \<longleftrightarrow> tcs_table_name a = tcs_table_name b \<and> tcs_field_name a = tcs_field_name b \<and> tcs_alias a = tcs_alias b"

datatype Tuple =
    RowTuple bytes "pval list" "bytes list"
  | ProjectTuple "expr list" "Tuple option"
  | ValueListTuple "pval list" "TupleCellSpec list"
  | JoinedTuple "Tuple option" "Tuple option"
  | ExpressionTuple "expr list" "Tuple option"
  | CompositeTuple "Tuple list"

definition set_schema :: "bytes \<Rightarrow> TupleCellSpec list \<Rightarrow> pval list \<Rightarrow> Tuple" where
  "set_schema table_name specs values = RowTuple table_name values (map (\<lambda>s. c_str (tcs_field_name s)) specs)"

fun cell_num :: "Tuple \<Rightarrow> int option" where
  "cell_num (RowTuple t vs fs) = Some (int (length fs))"
| "cell_num (ProjectTuple es c) = Some (int (length es))"
| "cell_num (ValueListTuple vs ss) = Some (int (length vs))"
| "cell_num (JoinedTuple l r) =
     (case l of None \<Rightarrow> None | Some l \<Rightarrow> (case r of None \<Rightarrow> None | Some r \<Rightarrow> do { m \<leftarrow> cell_num l; n \<leftarrow> cell_num r; Some (m + n) }))"
| "cell_num (ExpressionTuple es c) = Some (int (length es))"
| "cell_num (CompositeTuple ts) = map_option sum_list (those (map cell_num ts))"

text \<open>The value of an expression on a tuple; only a field looks at the tuple.\<close>

definition value_on :: "(int \<Rightarrow> pval \<Rightarrow> (RC \<times> pval) option) \<Rightarrow> expr \<Rightarrow> pval \<Rightarrow> (RC \<times> pval) option" where
  "value_on cell e v = (case e of FieldExpr p t f i ty l \<Rightarrow> cell i v | _ \<Rightarrow> Some (get_value (\<lambda>_. (SUCCESS, v)) e v))"

definition value_alone :: "expr \<Rightarrow> pval \<Rightarrow> RC \<times> pval" where
  "value_alone e v = (case try_get_value e of (rc, Some w) \<Rightarrow> (rc, w) | (rc, None) \<Rightarrow> (rc, v))"

definition in_range :: "int \<Rightarrow> nat \<Rightarrow> bool" where
  "in_range i n \<longleftrightarrow> 0 \<le> i \<and> i < int n"

fun cell_at :: "Tuple \<Rightarrow> int \<Rightarrow> pval \<Rightarrow> (RC \<times> pval) option"
  and composite_cell_at :: "Tuple list \<Rightarrow> int \<Rightarrow> pval \<Rightarrow> (RC \<times> pval) option" where
  "cell_at (RowTuple t vs fs) i v = Some (if in_range i (length vs) then (SUCCESS, vs ! nat i) else (INVALID_ARGUMENT, v))"
| "cell_at (ProjectTuple es c) i v =
     (if \<not> in_range i (length es) then Some (INTERNAL, v)
      else case c of None \<Rightarrow> Some (INTERNAL, v) | Some t \<Rightarrow> value_on (cell_at t) (es ! nat i) v)"
| "cell_at (ValueListTuple vs ss) i v = Some (if in_range i (length vs) then (SUCCESS, vs ! nat i) else (NOTFOUND, v))"
| "cell_at (JoinedTuple l r) i v =
     (case l of None \<Rightarrow> None | Some l \<Rightarrow>
        (case cell_num l of None \<Rightarrow> None | Some m \<Rightarrow>
           if 0 \<le> i \<and> i < m then cell_at l i v
           else if m \<le> i then
             (case r of None \<Rightarrow> None | Some r \<Rightarrow>
                (case cell_num r of None \<Rightarrow> None | Some n \<Rightarrow> if i < m + n then cell_at r (i - m) v else Some (NOTFOUND, v)))
           else Some (NOTFOUND, v)))"
| "cell_at (ExpressionTuple es c) i v =
     (if \<not> in_range i (length es) then Some (INVALID_ARGUMENT, v)
      else case c of None \<Rightarrow> Some (value_alone (es ! nat i) v) | Some t \<Rightarrow> value_on (cell_at t) (es ! nat i) v)"
| "cell_at (CompositeTuple ts) i v = composite_cell_at ts i v"
| "composite_cell_at [] i v = Some (NOTFOUND, v)"
| "composite_cell_at (t # ts) i v =
     (case cell_num t of None \<Rightarrow> None | Some n \<Rightarrow> if i < n then cell_at t i v else composite_cell_at ts (i - n) v)"

text \<open>Indexing a vector of names outside its range has no meaning.\<close>

definition at_opt :: "'a list \<Rightarrow> int \<Rightarrow> 'a option" where
  "at_opt xs i = (if in_range i (length xs) then Some (xs ! nat i) else None)"

fun spec_at :: "(expr \<Rightarrow> bytes) \<Rightarrow> Tuple \<Rightarrow> int \<Rightarrow> TupleCellSpec \<Rightarrow> (RC \<times> TupleCellSpec) option"
  and composite_spec_at :: "(expr \<Rightarrow> bytes) \<Rightarrow> Tuple list \<Rightarrow> int \<Rightarrow> TupleCellSpec \<Rightarrow> (RC \<times> TupleCellSpec) option" where
  "spec_at nm (RowTuple t vs fs) i s = map_option (\<lambda>f. (SUCCESS, spec_field (Some t) (Some f) None)) (at_opt fs i)"
| "spec_at nm (ProjectTuple es c) i s = map_option (\<lambda>e. (SUCCESS, spec_alias (nm e))) (at_opt es i)"
| "spec_at nm (ValueListTuple vs ss) i s =
     (if in_range i (length vs) then map_option (\<lambda>s. (SUCCESS, s)) (at_opt ss i) else Some (NOTFOUND, s))"
| "spec_at nm (JoinedTuple l r) i s =
     (case l of None \<Rightarrow> None | Some l \<Rightarrow>
        (case cell_num l of None \<Rightarrow> None | Some m \<Rightarrow>
           if 0 \<le> i \<and> i < m then spec_at nm l i s
           else if m \<le> i then
             (case r of None \<Rightarrow> None | Some r \<Rightarrow>
                (case cell_num r of None \<Rightarrow> None | Some n \<Rightarrow> if i < m + n then spec_at nm r (i - m) s else Some (NOTFOUND, s)))
           else Some (NOTFOUND, s)))"
| "spec_at nm (ExpressionTuple es c) i s =
     (if in_range i (length es) then Some (SUCCESS, spec_alias (nm (es ! nat i))) else Some (INVALID_ARGUMENT, s))"
| "spec_at nm (CompositeTuple ts) i s = composite_spec_at nm ts i s"
| "composite_spec_at nm [] i s = Some (NOTFOUND, s)"
| "composite_spec_at nm (t # ts) i s =
     (case cell_num t of None \<Rightarrow> None | Some n \<Rightarrow> if i < n then spec_at nm t i s else composite_spec_at nm ts (i - n) s)"

text \<open>\<^verbatim>\<open>find_cell\<close>; a null tuple is followed, except by an expression tuple.\<close>

fun find_index :: "('a \<Rightarrow> bool) \<Rightarrow> 'a list \<Rightarrow> int \<Rightarrow> int option" where
  "find_index P [] i = None"
| "find_index P (x # xs) i = (if P x then Some i else find_index P xs (i + 1))"

fun find_cell :: "(expr \<Rightarrow> bytes) \<Rightarrow> Tuple \<Rightarrow> TupleCellSpec \<Rightarrow> pval \<Rightarrow> (RC \<times> pval) option"
  and composite_find :: "(expr \<Rightarrow> bytes) \<Rightarrow> Tuple list \<Rightarrow> TupleCellSpec \<Rightarrow> RC \<Rightarrow> pval \<Rightarrow> (RC \<times> pval) option" where
  "find_cell nm (RowTuple t vs fs) s v =
     (case find_index (\<lambda>f. c_str (tcs_field_name s) = c_str f) fs 0 of
        None \<Rightarrow> Some (NOTFOUND, v) | Some i \<Rightarrow> cell_at (RowTuple t vs fs) i v)"
| "find_cell nm (ProjectTuple es c) s v = (case c of None \<Rightarrow> None | Some t \<Rightarrow> find_cell nm t s v)"
| "find_cell nm (ValueListTuple vs ss) s v =
     (if length vs \<noteq> length ss then None
      else case find_index (\<lambda>s'. spec_equals s' s) ss 0 of
             None \<Rightarrow> Some (NOTFOUND, v) | Some i \<Rightarrow> Some (SUCCESS, vs ! nat i))"
| "find_cell nm (JoinedTuple l r) s v =
     (case l of None \<Rightarrow> None | Some l \<Rightarrow>
        (case find_cell nm l s v of
           None \<Rightarrow> None
         | Some (rc, w) \<Rightarrow>
             if rc = SUCCESS \<or> rc \<noteq> NOTFOUND then Some (rc, w)
             else (case r of None \<Rightarrow> None | Some r \<Rightarrow> find_cell nm r s w)))"
| "find_cell nm (ExpressionTuple es c) s v =
     (case (case c of None \<Rightarrow> Some (NOTFOUND, v) | Some t \<Rightarrow> find_cell nm t s v) of
        None \<Rightarrow> None
      | Some (rc, w) \<Rightarrow>
          if rc = SUCCESS then Some (rc, w)
          else (case find_index (\<lambda>e. c_str (tcs_alias s) = c_str (nm e)) es 0 of
                  None \<Rightarrow> Some (NOTFOUND, w)
                | Some i \<Rightarrow> (case c of None \<Rightarrow> Some (value_alone (es ! nat i) w) | Some t \<Rightarrow> value_on (cell_at t) (es ! nat i) w)))"
| "find_cell nm (CompositeTuple ts) s v = composite_find nm ts s NOTFOUND v"
| "composite_find nm [] s rc v = Some (rc, v)"
| "composite_find nm (t # ts) s rc v =
     (case find_cell nm t s v of
        None \<Rightarrow> None | Some (rc, w) \<Rightarrow> if rc = SUCCESS then Some (rc, w) else composite_find nm ts s rc w)"

text \<open>The lexicographic comparison: a shorter tuple comes first.\<close>

fun compare_loop :: "float_ops \<Rightarrow> Tuple \<Rightarrow> Tuple \<Rightarrow> nat \<Rightarrow> int \<Rightarrow> pval \<Rightarrow> pval \<Rightarrow> int \<Rightarrow> (RC \<times> int) option" where
  "compare_loop fo a b 0 i v w result = Some (SUCCESS, 0)"
| "compare_loop fo a b (Suc n) i v w result =
     (case cell_at a i v of
        None \<Rightarrow> None
      | Some (rc, v) \<Rightarrow>
          if rc \<noteq> SUCCESS then Some (rc, result)
          else (case cell_at b i w of
                  None \<Rightarrow> None
                | Some (rc, w) \<Rightarrow>
                    if rc \<noteq> SUCCESS then Some (rc, result)
                    else (case v_compare fo v w of
                            None \<Rightarrow> None
                          | Some r \<Rightarrow> if r \<noteq> 0 then Some (SUCCESS, r) else compare_loop fo a b n (i + 1) v w r)))"

definition tuple_compare :: "float_ops \<Rightarrow> Tuple \<Rightarrow> Tuple \<Rightarrow> int \<Rightarrow> (RC \<times> int) option" where
  "tuple_compare fo a b result = do {
     m \<leftarrow> cell_num a;
     n \<leftarrow> cell_num b;
     if m < n then Some (SUCCESS, - 1)
     else if n < m then Some (SUCCESS, 1)
     else compare_loop fo a b (nat m) 0 PUndefined PUndefined result
   }"

text \<open>\<^verbatim>\<open>ValueListTuple::make\<close> evaluates the cells of a tuple and copies their names.\<close>

fun make_loop :: "(expr \<Rightarrow> bytes) \<Rightarrow> Tuple \<Rightarrow> nat \<Rightarrow> int \<Rightarrow> (RC \<times> pval list \<times> TupleCellSpec list) option" where
  "make_loop nm t 0 i = Some (SUCCESS, [], [])"
| "make_loop nm t (Suc n) i =
     (case cell_at t i PUndefined of
        None \<Rightarrow> None
      | Some (rc, v) \<Rightarrow>
          if rc \<noteq> SUCCESS then Some (rc, [], [])
          else (case spec_at nm t i spec_new of
                  None \<Rightarrow> None
                | Some (rc, s) \<Rightarrow>
                    if rc \<noteq> SUCCESS then Some (rc, [], [])
                    else map_option (\<lambda>(rc, vs, ss). (rc, v # vs, s # ss)) (make_loop nm t n (i + 1))))"

definition make_values :: "(expr \<Rightarrow> bytes) \<Rightarrow> Tuple \<Rightarrow> (RC \<times> Tuple) option" where
  "make_values nm t = do {
     n \<leftarrow> cell_num t;
     (rc, vs, ss) \<leftarrow> make_loop nm t (nat n) 0;
     Some (rc, ValueListTuple vs ss)
   }"

section \<open>Operators\<close>

text \<open>The virtual functions of an operator over its state.\<close>

record 's Oper =
  op_open :: "'s \<Rightarrow> (RC \<times> 's) option"
  op_next :: "'s \<Rightarrow> (RC \<times> 's) option"
  op_close :: "'s \<Rightarrow> (RC \<times> 's) option"
  op_current :: "'s \<Rightarrow> Tuple option option"

text \<open>Calling a virtual function of the input at an index; there must be one.\<close>

definition on_child :: "('c \<Rightarrow> (RC \<times> 'c) option) \<Rightarrow> nat \<Rightarrow> 'c list \<Rightarrow> (RC \<times> 'c list) option" where
  "on_child f i cs = (if i < length cs then map_option (\<lambda>(rc, c). (rc, cs[i := c])) (f (cs ! i)) else None)"

definition child_tuple :: "'c Oper \<Rightarrow> nat \<Rightarrow> 'c list \<Rightarrow> Tuple option option" where
  "child_tuple C i cs = (if i < length cs then op_current C (cs ! i) else None)"

subsection \<open>Leaves\<close>

text \<open>Table scans, insertions, deletions and explanations deliver nothing.\<close>

definition eof_oper :: "'s Oper" where
  "eof_oper = \<lparr>op_open = \<lambda>s. Some (SUCCESS, s), op_next = \<lambda>s. Some (RECORD_EOF, s), op_close = \<lambda>s. Some (SUCCESS, s),
     op_current = \<lambda>s. Some None\<rparr>"

datatype StringList = StringList (sl_strings: "bytes list list") (sl_iterator: "nat option") (sl_started: bool)

definition string_list_new :: StringList where
  "string_list_new = StringList [] None False"

definition sl_append :: "bytes list \<Rightarrow> StringList \<Rightarrow> StringList" where
  "sl_append row s = StringList (sl_strings s @ [row]) (sl_iterator s) (sl_started s)"

definition sl_next :: "StringList \<Rightarrow> (RC \<times> StringList) option" where
  "sl_next s =
     (let n = length (sl_strings s)
      in case (if \<not> sl_started s then Some 0 else map_option (\<lambda>i. if i \<noteq> n then i + 1 else i) (sl_iterator s)) of
           None \<Rightarrow> None
         | Some i \<Rightarrow> Some (if i = n then RECORD_EOF else SUCCESS, StringList (sl_strings s) (Some i) True))"

definition sl_close :: "StringList \<Rightarrow> (RC \<times> StringList) option" where
  "sl_close s = Some (SUCCESS, StringList (sl_strings s) (Some (length (sl_strings s))) (sl_started s))"

definition string_value :: "bytes \<Rightarrow> pval" where
  "string_value s = PChars (Some (c_str s))"

definition sl_current :: "StringList \<Rightarrow> Tuple option option" where
  "sl_current s =
     (case sl_iterator s of
        None \<Rightarrow> None
      | Some i \<Rightarrow> if i = length (sl_strings s) then Some None
                  else Some (Some (ValueListTuple (map string_value (sl_strings s ! i)) [])))"

definition string_list_oper :: "StringList Oper" where
  "string_list_oper = \<lparr>op_open = \<lambda>s. Some (SUCCESS, s), op_next = sl_next, op_close = sl_close, op_current = sl_current\<rparr>"

datatype Calc = Calc (ca_expressions: "expr list") (ca_emitted: bool)

fun calc_cells :: "expr list \<Rightarrow> RC" where
  "calc_cells [] = SUCCESS"
| "calc_cells (e # es) = (let (rc, v) = value_alone e PUndefined in if rc \<noteq> SUCCESS then rc else calc_cells es)"

definition calc_next :: "Calc \<Rightarrow> (RC \<times> Calc) option" where
  "calc_next s =
     (if ca_emitted s then Some (RECORD_EOF, s) else Some (calc_cells (ca_expressions s), Calc (ca_expressions s) True))"

definition calc_oper :: "Calc Oper" where
  "calc_oper = \<lparr>op_open = \<lambda>s. Some (SUCCESS, s), op_next = calc_next, op_close = \<lambda>s. Some (SUCCESS, s),
     op_current = \<lambda>s. Some (Some (ExpressionTuple (ca_expressions s) None))\<rparr>"

subsection \<open>Filter and projection\<close>

datatype 'c Predicate = Predicate (pr_expression: expr) (pr_children: "'c list")

definition pr_open :: "'c Oper \<Rightarrow> 'c Predicate \<Rightarrow> (RC \<times> 'c Predicate) option" where
  "pr_open C s =
     (if length (pr_children s) \<noteq> 1 then Some (INTERNAL, s)
      else map_option (map_prod id (Predicate (pr_expression s))) (on_child (op_open C) 0 (pr_children s)))"

partial_function (option) pr_loop :: "float_ops \<Rightarrow> 'c Oper \<Rightarrow> expr \<Rightarrow> 'c list \<Rightarrow> (RC \<times> 'c list) option" where
  "pr_loop fo C e cs =
     (case on_child (op_next C) 0 cs of
        None \<Rightarrow> None
      | Some (rc, cs) \<Rightarrow>
          if rc \<noteq> SUCCESS then Some (rc, cs)
          else (case child_tuple C 0 cs of
                  None \<Rightarrow> None
                | Some None \<Rightarrow> Some (INTERNAL, cs)
                | Some (Some t) \<Rightarrow>
                    (case value_on (cell_at t) e PUndefined of
                       None \<Rightarrow> None
                     | Some (rc, v) \<Rightarrow>
                         if rc \<noteq> SUCCESS then Some (rc, cs)
                         else (case get_boolean fo v of
                                 None \<Rightarrow> None
                               | Some b \<Rightarrow> if b then Some (SUCCESS, cs) else pr_loop fo C e cs))))"

definition pr_next :: "float_ops \<Rightarrow> 'c Oper \<Rightarrow> 'c Predicate \<Rightarrow> (RC \<times> 'c Predicate) option" where
  "pr_next fo C s = map_option (map_prod id (Predicate (pr_expression s))) (pr_loop fo C (pr_expression s) (pr_children s))"

definition pr_close :: "'c Oper \<Rightarrow> 'c Predicate \<Rightarrow> (RC \<times> 'c Predicate) option" where
  "pr_close C s = map_option (\<lambda>(rc, cs). (SUCCESS, Predicate (pr_expression s) cs)) (on_child (op_close C) 0 (pr_children s))"

definition predicate_oper :: "float_ops \<Rightarrow> 'c Oper \<Rightarrow> 'c Predicate Oper" where
  "predicate_oper fo C = \<lparr>op_open = pr_open C, op_next = pr_next fo C, op_close = pr_close C, op_current = \<lambda>s. child_tuple C 0 (pr_children s)\<rparr>"

datatype 'c Project = Project (pj_expressions: "expr list") (pj_children: "'c list")

definition pj_open :: "'c Oper \<Rightarrow> 'c Project \<Rightarrow> (RC \<times> 'c Project) option" where
  "pj_open C s =
     (if pj_children s = [] then Some (SUCCESS, s)
      else map_option (map_prod id (Project (pj_expressions s))) (on_child (op_open C) 0 (pj_children s)))"

definition pj_next :: "'c Oper \<Rightarrow> 'c Project \<Rightarrow> (RC \<times> 'c Project) option" where
  "pj_next C s =
     (if pj_children s = [] then Some (RECORD_EOF, s)
      else map_option (map_prod id (Project (pj_expressions s))) (on_child (op_next C) 0 (pj_children s)))"

definition pj_close :: "'c Oper \<Rightarrow> 'c Project \<Rightarrow> (RC \<times> 'c Project) option" where
  "pj_close C s =
     (if pj_children s = [] then Some (SUCCESS, s)
      else map_option (\<lambda>(rc, cs). (SUCCESS, Project (pj_expressions s) cs)) (on_child (op_close C) 0 (pj_children s)))"

definition pj_current :: "'c Oper \<Rightarrow> 'c Project \<Rightarrow> Tuple option option" where
  "pj_current C s = map_option (\<lambda>t. Some (ExpressionTuple (pj_expressions s) t)) (child_tuple C 0 (pj_children s))"

definition project_oper :: "'c Oper \<Rightarrow> 'c Project Oper" where
  "project_oper C = \<lparr>op_open = pj_open C, op_next = pj_next C, op_close = pj_close C, op_current = pj_current C\<rparr>"

definition pj_tuple_schema :: "(expr \<Rightarrow> bytes) \<Rightarrow> 'c Project \<Rightarrow> TupleCellSpec list \<Rightarrow> RC \<times> TupleCellSpec list" where
  "pj_tuple_schema nm s schema = (SUCCESS, schema @ map (\<lambda>e. spec_alias (nm e)) (pj_expressions s))"

subsection \<open>Nested loop join\<close>

text \<open>\<^verbatim>\<open>left_\<close> and \<^verbatim>\<open>right_\<close> are the two inputs; they are set by \<^verbatim>\<open>open\<close>, which comes before the other calls.\<close>

datatype 'c Join =
  Join (nl_children: "'c list") (nl_left_tuple: "Tuple option") (nl_right_tuple: "Tuple option")
    (nl_joined: "Tuple option \<times> Tuple option") (nl_round_done: bool) (nl_right_closed: bool)

definition join_new :: "'c list \<Rightarrow> 'c Join" where
  "join_new cs = Join cs None None (None, None) True True"

definition nl_open :: "'c Oper \<Rightarrow> 'c Join \<Rightarrow> (RC \<times> 'c Join) option" where
  "nl_open C s =
     (if length (nl_children s) \<noteq> 2 then Some (INTERNAL, s)
      else map_option (\<lambda>(rc, cs). (rc, Join cs (nl_left_tuple s) (nl_right_tuple s) (nl_joined s) True True))
             (on_child (op_open C) 0 (nl_children s)))"

definition nl_left_next :: "'c Oper \<Rightarrow> 'c Join \<Rightarrow> (RC \<times> 'c Join) option" where
  "nl_left_next C s =
     (case on_child (op_next C) 0 (nl_children s) of
        None \<Rightarrow> None
      | Some (rc, cs) \<Rightarrow>
          if rc \<noteq> SUCCESS then Some (rc, Join cs (nl_left_tuple s) (nl_right_tuple s) (nl_joined s) (nl_round_done s) (nl_right_closed s))
          else map_option (\<lambda>t. (rc, Join cs t (nl_right_tuple s) (t, snd (nl_joined s)) (nl_round_done s) (nl_right_closed s)))
                 (child_tuple C 0 cs))"

text \<open>The start of a round closes and opens the second input.\<close>

definition nl_round :: "'c Oper \<Rightarrow> 'c Join \<Rightarrow> (RC \<times> 'c Join) option" where
  "nl_round C s =
     (if \<not> nl_round_done s then Some (SUCCESS, s)
      else case (if nl_right_closed s then Some (SUCCESS, nl_children s) else on_child (op_close C) 1 (nl_children s)) of
             None \<Rightarrow> None
           | Some (rc, cs) \<Rightarrow>
               if rc \<noteq> SUCCESS then Some (rc, Join cs (nl_left_tuple s) (nl_right_tuple s) (nl_joined s) True True)
               else map_option (\<lambda>(rc, cs). (rc, Join cs (nl_left_tuple s) (nl_right_tuple s) (nl_joined s) (rc \<noteq> SUCCESS) (rc \<noteq> SUCCESS)))
                      (on_child (op_open C) 1 cs))"

definition nl_right_next :: "'c Oper \<Rightarrow> 'c Join \<Rightarrow> (RC \<times> 'c Join) option" where
  "nl_right_next C s =
     (case nl_round C s of
        None \<Rightarrow> None
      | Some (rc, s) \<Rightarrow>
          if rc \<noteq> SUCCESS then Some (rc, s)
          else (case on_child (op_next C) 1 (nl_children s) of
                  None \<Rightarrow> None
                | Some (rc, cs) \<Rightarrow>
                    if rc \<noteq> SUCCESS then
                      Some (rc, Join cs (nl_left_tuple s) (nl_right_tuple s) (nl_joined s) (nl_round_done s \<or> rc = RECORD_EOF) (nl_right_closed s))
                    else map_option (\<lambda>t. (rc, Join cs (nl_left_tuple s) t (fst (nl_joined s), t) (nl_round_done s) (nl_right_closed s)))
                           (child_tuple C 1 cs)))"

partial_function (option) nl_next :: "'c Oper \<Rightarrow> 'c Join \<Rightarrow> (RC \<times> 'c Join) option" where
  "nl_next C s =
     (case (if nl_left_tuple s = None \<or> nl_round_done s then nl_left_next C s else Some (SUCCESS, s)) of
        None \<Rightarrow> None
      | Some (rc, s) \<Rightarrow>
          if rc \<noteq> SUCCESS then Some (rc, s)
          else (case nl_right_next C s of
                  None \<Rightarrow> None
                | Some (rc, s) \<Rightarrow>
                    if rc \<noteq> SUCCESS \<and> rc \<noteq> RECORD_EOF then Some (rc, s)
                    else nl_next C (if rc = RECORD_EOF
                      then Join (nl_children s) (nl_left_tuple s) (nl_right_tuple s) (nl_joined s) True (nl_right_closed s) else s)))"

definition nl_close :: "'c Oper \<Rightarrow> 'c Join \<Rightarrow> (RC \<times> 'c Join) option" where
  "nl_close C s =
     (case on_child (op_close C) 0 (nl_children s) of
        None \<Rightarrow> None
      | Some (rc, cs) \<Rightarrow>
          if nl_right_closed s then Some (rc, Join cs (nl_left_tuple s) (nl_right_tuple s) (nl_joined s) (nl_round_done s) True)
          else map_option (\<lambda>(rc, cs). (rc, Join cs (nl_left_tuple s) (nl_right_tuple s) (nl_joined s) (nl_round_done s) (rc = SUCCESS)))
                 (on_child (op_close C) 1 cs))"

definition join_oper :: "'c Oper \<Rightarrow> 'c Join Oper" where
  "join_oper C = \<lparr>op_open = nl_open C, op_next = nl_next C, op_close = nl_close C,
     op_current = \<lambda>s. Some (Some (JoinedTuple (fst (nl_joined s)) (snd (nl_joined s))))\<rparr>"

subsection \<open>Grouping\<close>

text \<open>The only aggregator is the sum.  An aggregator is reached through a pointer, and \<^verbatim>\<open>create_aggregator\<close> returns null.\<close>

datatype Aggregator = SumAggregator (ag_value: pval)

definition sum_accumulate :: "float_ops \<Rightarrow> Aggregator \<Rightarrow> pval \<Rightarrow> (RC \<times> Aggregator) option" where
  "sum_accumulate fo a v =
     (if ptype (ag_value a) = UNDEFINED then Some (SUCCESS, SumAggregator v)
      else if ptype v \<noteq> ptype (ag_value a) then None
      else map_option (\<lambda>(rc, w). (SUCCESS, SumAggregator w)) (value_add fo v (ag_value a) (ag_value a)))"

definition sum_evaluate :: "Aggregator \<Rightarrow> RC \<times> pval" where
  "sum_evaluate a = (SUCCESS, ag_value a)"

definition create_aggregator :: "expr \<Rightarrow> Aggregator option" where
  "create_aggregator e = None"

definition create_aggregator_list :: "expr list \<Rightarrow> Aggregator option list" where
  "create_aggregator_list aggregate_expressions = map create_aggregator aggregate_expressions"

text \<open>The input of an aggregate; the collector of the planner lists nothing but aggregates.\<close>

fun agg_child :: "expr \<Rightarrow> expr" where
  "agg_child (AggregateExpr p a e) = e"
| "agg_child e = e"

type_synonym group_value = "Aggregator option list \<times> Tuple list"

fun agg_loop :: "float_ops \<Rightarrow> Aggregator option list \<Rightarrow> Tuple \<Rightarrow> int \<Rightarrow> pval \<Rightarrow> (RC \<times> Aggregator option list) option" where
  "agg_loop fo [] t i v = Some (SUCCESS, [])"
| "agg_loop fo (a # as) t i v =
     (case cell_at t i v of
        None \<Rightarrow> None
      | Some (rc, v) \<Rightarrow>
          if rc \<noteq> SUCCESS then Some (rc, a # as)
          else (case a of
                  None \<Rightarrow> None
                | Some a \<Rightarrow>
                    (case sum_accumulate fo a v of
                       None \<Rightarrow> None
                     | Some (rc, a) \<Rightarrow>
                         if rc \<noteq> SUCCESS then Some (rc, Some a # as)
                         else map_option (map_prod id ((#) (Some a))) (agg_loop fo as t (i + 1) v))))"

definition gb_aggregate :: "float_ops \<Rightarrow> Aggregator option list \<Rightarrow> Tuple \<Rightarrow> (RC \<times> Aggregator option list) option" where
  "gb_aggregate fo as t = do {
     n \<leftarrow> cell_num t;
     if int (length as) \<noteq> n then None else agg_loop fo as t 0 PUndefined
   }"

text \<open>\<^verbatim>\<open>evaluate\<close> appends the results to the tuple of the group, under the names of the aggregates.\<close>

definition gb_evaluate :: "(expr \<Rightarrow> bytes) \<Rightarrow> expr list \<Rightarrow> group_value \<Rightarrow> (RC \<times> group_value) option" where
  "gb_evaluate nm aggregate_expressions g =
     map_option (\<lambda>as. (SUCCESS, fst g, snd g @ [ValueListTuple (map ag_value as) (map (\<lambda>e. spec_alias (nm e)) aggregate_expressions)]))
       (those (fst g))"

datatype 'c ScalarGroupBy =
  ScalarGroupBy (sg_aggregates: "expr list") (sg_children: "'c list") (sg_group_value: "group_value option") (sg_emitted: bool)

text \<open>One row of the input: the first one starts the group.\<close>

definition sg_row :: "float_ops \<Rightarrow> (expr \<Rightarrow> bytes) \<Rightarrow> expr list \<Rightarrow> Tuple \<Rightarrow> group_value option \<Rightarrow> (RC \<times> group_value option) option" where
  "sg_row fo nm aggs t g =
     (case (case g of
              Some g \<Rightarrow> Some (SUCCESS, Some g)
            | None \<Rightarrow> map_option (\<lambda>(rc, w). (rc, if rc = SUCCESS then Some (create_aggregator_list aggs, [w]) else None)) (make_values nm t)) of
        None \<Rightarrow> None
      | Some (rc, None) \<Rightarrow> Some (rc, None)
      | Some (rc, Some g) \<Rightarrow>
          map_option (\<lambda>(rc, as). (rc, Some (as, snd g))) (gb_aggregate fo (fst g) (ExpressionTuple (map agg_child aggs) (Some t))))"

partial_function (option) sg_loop ::
  "float_ops \<Rightarrow> (expr \<Rightarrow> bytes) \<Rightarrow> 'c Oper \<Rightarrow> expr list \<Rightarrow> 'c list \<Rightarrow> group_value option \<Rightarrow> (RC \<times> 'c list \<times> group_value option) option" where
  "sg_loop fo nm C aggs cs g =
     (case on_child (op_next C) 0 cs of
        None \<Rightarrow> None
      | Some (rc, cs) \<Rightarrow>
          if rc = RECORD_EOF then Some (SUCCESS, cs, g)
          else if rc \<noteq> SUCCESS then Some (rc, cs, g)
          else (case child_tuple C 0 cs of
                  None \<Rightarrow> None
                | Some None \<Rightarrow> Some (INTERNAL, cs, g)
                | Some (Some t) \<Rightarrow>
                    (case sg_row fo nm aggs t g of
                       None \<Rightarrow> None
                     | Some (rc, g) \<Rightarrow> if rc \<noteq> SUCCESS then Some (rc, cs, g) else sg_loop fo nm C aggs cs g)))"

definition sg_open :: "float_ops \<Rightarrow> (expr \<Rightarrow> bytes) \<Rightarrow> 'c Oper \<Rightarrow> 'c ScalarGroupBy \<Rightarrow> (RC \<times> 'c ScalarGroupBy) option" where
  "sg_open fo nm C s =
     (if length (sg_children s) \<noteq> 1 then None
      else case on_child (op_open C) 0 (sg_children s) of
             None \<Rightarrow> None
           | Some (rc, cs) \<Rightarrow>
               if rc \<noteq> SUCCESS then Some (rc, ScalarGroupBy (sg_aggregates s) cs (sg_group_value s) (sg_emitted s))
               else (case sg_loop fo nm C (sg_aggregates s) cs (sg_group_value s) of
                       None \<Rightarrow> None
                     | Some (rc, cs, g) \<Rightarrow>
                         if rc \<noteq> SUCCESS then Some (rc, ScalarGroupBy (sg_aggregates s) cs g (sg_emitted s))
                         else (case g of
                                 None \<Rightarrow> Some (SUCCESS, ScalarGroupBy (sg_aggregates s) cs None False)
                               | Some g \<Rightarrow> map_option (\<lambda>(rc, g). (rc, ScalarGroupBy (sg_aggregates s) cs (Some g) False))
                                             (gb_evaluate nm (sg_aggregates s) g))))"

definition sg_next :: "'c ScalarGroupBy \<Rightarrow> (RC \<times> 'c ScalarGroupBy) option" where
  "sg_next s =
     Some (if sg_group_value s = None \<or> sg_emitted s then (RECORD_EOF, s)
           else (SUCCESS, ScalarGroupBy (sg_aggregates s) (sg_children s) (sg_group_value s) True))"

definition sg_close :: "'c Oper \<Rightarrow> 'c ScalarGroupBy \<Rightarrow> (RC \<times> 'c ScalarGroupBy) option" where
  "sg_close C s = map_option (\<lambda>(rc, cs). (SUCCESS, ScalarGroupBy (sg_aggregates s) cs None False)) (on_child (op_close C) 0 (sg_children s))"

definition scalar_group_by_oper :: "float_ops \<Rightarrow> (expr \<Rightarrow> bytes) \<Rightarrow> 'c Oper \<Rightarrow> 'c ScalarGroupBy Oper" where
  "scalar_group_by_oper fo nm C = \<lparr>op_open = sg_open fo nm C, op_next = sg_next, op_close = sg_close C,
     op_current = \<lambda>s. Some (map_option (\<lambda>g. CompositeTuple (snd g)) (sg_group_value s))\<rparr>"

type_synonym group = "Tuple \<times> group_value"

datatype 'c HashGroupBy =
  HashGroupBy (hg_group_by: "expr list") (hg_aggregates: "expr list") (hg_children: "'c list") (hg_groups: "group list")
    (hg_current: nat) (hg_first_emited: bool)

text \<open>The index of the group with an equal key, the number of groups when there is none.\<close>

fun search_group :: "float_ops \<Rightarrow> Tuple \<Rightarrow> group list \<Rightarrow> (RC \<times> nat) option" where
  "search_group fo key [] = Some (SUCCESS, 0)"
| "search_group fo key (g # gs) =
     (case tuple_compare fo key (fst g) 0 of
        None \<Rightarrow> None
      | Some (rc, r) \<Rightarrow>
          if rc \<noteq> SUCCESS then Some (rc, 0)
          else if r = 0 then Some (SUCCESS, 0)
          else map_option (map_prod id Suc) (search_group fo key gs))"

definition find_group :: "float_ops \<Rightarrow> (expr \<Rightarrow> bytes) \<Rightarrow> expr list \<Rightarrow> expr list \<Rightarrow> Tuple \<Rightarrow> group list \<Rightarrow> (RC \<times> nat \<times> group list) option" where
  "find_group fo nm gbs aggs t groups =
     (case make_values nm (ExpressionTuple gbs (Some t)) of
        None \<Rightarrow> None
      | Some (rc, key) \<Rightarrow>
          if rc \<noteq> SUCCESS then Some (rc, 0, groups)
          else (case search_group fo key groups of
                  None \<Rightarrow> None
                | Some (rc, i) \<Rightarrow>
                    if rc \<noteq> SUCCESS then Some (rc, i, groups)
                    else if i < length groups then Some (SUCCESS, i, groups)
                    else map_option (\<lambda>(rc, w). (rc, i, if rc = SUCCESS then groups @ [(key, create_aggregator_list aggs, [w])] else groups))
                           (make_values nm t)))"

definition hg_row :: "float_ops \<Rightarrow> (expr \<Rightarrow> bytes) \<Rightarrow> expr list \<Rightarrow> expr list \<Rightarrow> Tuple \<Rightarrow> group list \<Rightarrow> (RC \<times> group list) option" where
  "hg_row fo nm gbs aggs t groups =
     (case find_group fo nm gbs aggs t groups of
        None \<Rightarrow> None
      | Some (rc, i, groups) \<Rightarrow>
          if rc \<noteq> SUCCESS then Some (rc, groups)
          else map_option (\<lambda>(rc, as). (rc, groups[i := (fst (groups ! i), as, snd (snd (groups ! i)))]))
                 (gb_aggregate fo (fst (snd (groups ! i))) (ExpressionTuple (map agg_child aggs) (Some t))))"

partial_function (option) hg_loop ::
  "float_ops \<Rightarrow> (expr \<Rightarrow> bytes) \<Rightarrow> 'c Oper \<Rightarrow> expr list \<Rightarrow> expr list \<Rightarrow> 'c list \<Rightarrow> group list \<Rightarrow> (RC \<times> 'c list \<times> group list) option" where
  "hg_loop fo nm C gbs aggs cs groups =
     (case on_child (op_next C) 0 cs of
        None \<Rightarrow> None
      | Some (rc, cs) \<Rightarrow>
          if rc = RECORD_EOF then Some (SUCCESS, cs, groups)
          else if rc \<noteq> SUCCESS then Some (rc, cs, groups)
          else (case child_tuple C 0 cs of
                  None \<Rightarrow> None
                | Some None \<Rightarrow> Some (INTERNAL, cs, groups)
                | Some (Some t) \<Rightarrow>
                    (case hg_row fo nm gbs aggs t groups of
                       None \<Rightarrow> None
                     | Some (rc, groups) \<Rightarrow> if rc \<noteq> SUCCESS then Some (rc, cs, groups) else hg_loop fo nm C gbs aggs cs groups)))"

text \<open>An evaluation always reports success.\<close>

definition hg_evaluate :: "(expr \<Rightarrow> bytes) \<Rightarrow> expr list \<Rightarrow> group list \<Rightarrow> group list option" where
  "hg_evaluate nm aggs groups = those (map (\<lambda>(key, g). map_option (\<lambda>(rc, g). (key, g)) (gb_evaluate nm aggs g)) groups)"

definition hg_open :: "float_ops \<Rightarrow> (expr \<Rightarrow> bytes) \<Rightarrow> 'c Oper \<Rightarrow> 'c HashGroupBy \<Rightarrow> (RC \<times> 'c HashGroupBy) option" where
  "hg_open fo nm C s =
     (let upd = HashGroupBy (hg_group_by s) (hg_aggregates s)
      in if length (hg_children s) \<noteq> 1 then None
         else case on_child (op_open C) 0 (hg_children s) of
                None \<Rightarrow> None
              | Some (rc, cs) \<Rightarrow>
                  if rc \<noteq> SUCCESS then Some (rc, upd cs (hg_groups s) (hg_current s) (hg_first_emited s))
                  else (case hg_loop fo nm C (hg_group_by s) (hg_aggregates s) cs (hg_groups s) of
                          None \<Rightarrow> None
                        | Some (rc, cs, groups) \<Rightarrow>
                            if rc \<noteq> SUCCESS then Some (rc, upd cs groups (hg_current s) (hg_first_emited s))
                            else map_option (\<lambda>groups. (SUCCESS, upd cs groups 0 False)) (hg_evaluate nm (hg_aggregates s) groups)))"

definition hg_next :: "'c HashGroupBy \<Rightarrow> (RC \<times> 'c HashGroupBy) option" where
  "hg_next s =
     (let n = length (hg_groups s);
          i = (if hg_first_emited s then hg_current s + 1 else hg_current s)
      in Some (if hg_current s = n then (RECORD_EOF, s)
               else (if i = n then RECORD_EOF else SUCCESS,
                     HashGroupBy (hg_group_by s) (hg_aggregates s) (hg_children s) (hg_groups s) i True)))"

definition hg_close :: "'c Oper \<Rightarrow> 'c HashGroupBy \<Rightarrow> (RC \<times> 'c HashGroupBy) option" where
  "hg_close C s =
     map_option (\<lambda>(rc, cs). (SUCCESS, HashGroupBy (hg_group_by s) (hg_aggregates s) cs (hg_groups s) (hg_current s) (hg_first_emited s)))
       (on_child (op_close C) 0 (hg_children s))"

definition hg_current_tuple :: "'c HashGroupBy \<Rightarrow> Tuple option option" where
  "hg_current_tuple s =
     Some (if hg_current s \<noteq> length (hg_groups s) then Some (CompositeTuple (snd (snd (hg_groups s ! hg_current s)))) else None)"

definition hash_group_by_oper :: "float_ops \<Rightarrow> (expr \<Rightarrow> bytes) \<Rightarrow> 'c Oper \<Rightarrow> 'c HashGroupBy Oper" where
  "hash_group_by_oper fo nm C = \<lparr>op_open = hg_open fo nm C, op_next = hg_next, op_close = hg_close C, op_current = hg_current_tuple\<rparr>"

section \<open>Whole plans\<close>

text \<open>The state of any operator.\<close>

datatype node =
    LeafN
  | StringListN StringList
  | CalcN Calc
  | PredicateN "node Predicate"
  | ProjectN "node Project"
  | JoinN "node Join"
  | ScalarGroupByN "node ScalarGroupBy"
  | HashGroupByN "node HashGroupBy"

text \<open>The dispatch on the type of an operator; \<open>C\<close> serves its inputs.\<close>

definition lift_call :: "('s \<Rightarrow> node) \<Rightarrow> (RC \<times> 's) option \<Rightarrow> (RC \<times> node) option" where
  "lift_call N r = map_option (map_prod id N) r"

fun node_open :: "float_ops \<Rightarrow> (expr \<Rightarrow> bytes) \<Rightarrow> node Oper \<Rightarrow> node \<Rightarrow> (RC \<times> node) option" where
  "node_open fo nm C LeafN = op_open eof_oper LeafN"
| "node_open fo nm C (StringListN s) = lift_call StringListN (op_open string_list_oper s)"
| "node_open fo nm C (CalcN s) = lift_call CalcN (op_open calc_oper s)"
| "node_open fo nm C (PredicateN s) = lift_call PredicateN (op_open (predicate_oper fo C) s)"
| "node_open fo nm C (ProjectN s) = lift_call ProjectN (op_open (project_oper C) s)"
| "node_open fo nm C (JoinN s) = lift_call JoinN (op_open (join_oper C) s)"
| "node_open fo nm C (ScalarGroupByN s) = lift_call ScalarGroupByN (op_open (scalar_group_by_oper fo nm C) s)"
| "node_open fo nm C (HashGroupByN s) = lift_call HashGroupByN (op_open (hash_group_by_oper fo nm C) s)"

fun node_next :: "float_ops \<Rightarrow> (expr \<Rightarrow> bytes) \<Rightarrow> node Oper \<Rightarrow> node \<Rightarrow> (RC \<times> node) option" where
  "node_next fo nm C LeafN = op_next eof_oper LeafN"
| "node_next fo nm C (StringListN s) = lift_call StringListN (op_next string_list_oper s)"
| "node_next fo nm C (CalcN s) = lift_call CalcN (op_next calc_oper s)"
| "node_next fo nm C (PredicateN s) = lift_call PredicateN (op_next (predicate_oper fo C) s)"
| "node_next fo nm C (ProjectN s) = lift_call ProjectN (op_next (project_oper C) s)"
| "node_next fo nm C (JoinN s) = lift_call JoinN (op_next (join_oper C) s)"
| "node_next fo nm C (ScalarGroupByN s) = lift_call ScalarGroupByN (op_next (scalar_group_by_oper fo nm C) s)"
| "node_next fo nm C (HashGroupByN s) = lift_call HashGroupByN (op_next (hash_group_by_oper fo nm C) s)"

fun node_close :: "float_ops \<Rightarrow> (expr \<Rightarrow> bytes) \<Rightarrow> node Oper \<Rightarrow> node \<Rightarrow> (RC \<times> node) option" where
  "node_close fo nm C LeafN = op_close eof_oper LeafN"
| "node_close fo nm C (StringListN s) = lift_call StringListN (op_close string_list_oper s)"
| "node_close fo nm C (CalcN s) = lift_call CalcN (op_close calc_oper s)"
| "node_close fo nm C (PredicateN s) = lift_call PredicateN (op_close (predicate_oper fo C) s)"
| "node_close fo nm C (ProjectN s) = lift_call ProjectN (op_close (project_oper C) s)"
| "node_close fo nm C (JoinN s) = lift_call JoinN (op_close (join_oper C) s)"
| "node_close fo nm C (ScalarGroupByN s) = lift_call ScalarGroupByN (op_close (scalar_group_by_oper fo nm C) s)"
| "node_close fo nm C (HashGroupByN s) = lift_call HashGroupByN (op_close (hash_group_by_oper fo nm C) s)"

fun node_current :: "float_ops \<Rightarrow> (expr \<Rightarrow> bytes) \<Rightarrow> node Oper \<Rightarrow> node \<Rightarrow> Tuple option option" where
  "node_current fo nm C LeafN = op_current eof_oper LeafN"
| "node_current fo nm C (StringListN s) = op_current string_list_oper s"
| "node_current fo nm C (CalcN s) = op_current calc_oper s"
| "node_current fo nm C (PredicateN s) = op_current (predicate_oper fo C) s"
| "node_current fo nm C (ProjectN s) = op_current (project_oper C) s"
| "node_current fo nm C (JoinN s) = op_current (join_oper C) s"
| "node_current fo nm C (ScalarGroupByN s) = op_current (scalar_group_by_oper fo nm C) s"
| "node_current fo nm C (HashGroupByN s) = op_current (hash_group_by_oper fo nm C) s"

text \<open>Trees up to a height; higher ones are left undefined.\<close>

primrec node_oper :: "float_ops \<Rightarrow> (expr \<Rightarrow> bytes) \<Rightarrow> nat \<Rightarrow> node Oper" where
  "node_oper fo nm 0 = \<lparr>op_open = \<lambda>_. None, op_next = \<lambda>_. None, op_close = \<lambda>_. None, op_current = \<lambda>_. None\<rparr>"
| "node_oper fo nm (Suc d) =
     (let C = node_oper fo nm d
      in \<lparr>op_open = node_open fo nm C, op_next = node_next fo nm C, op_close = node_close fo nm C, op_current = node_current fo nm C\<rparr>)"

text \<open>The operators of a physical plan as their constructors leave them.  The vectorised ones are not modelled.\<close>

fun build :: "PhysicalOperator \<Rightarrow> node option" where
  "build (POper t ch) =
     (case those (map build ch) of
        None \<Rightarrow> None
      | Some cs \<Rightarrow>
          (case t of
             P_TABLE_SCAN \<Rightarrow> Some LeafN
           | P_INSERT vs \<Rightarrow> Some LeafN
           | P_DELETE \<Rightarrow> Some LeafN
           | P_EXPLAIN \<Rightarrow> Some LeafN
           | P_CALC es \<Rightarrow> Some (CalcN (Calc es False))
           | P_STRING_LIST \<Rightarrow> Some (StringListN string_list_new)
           | P_PREDICATE e \<Rightarrow> Some (PredicateN (Predicate e cs))
           | P_PROJECT es \<Rightarrow> Some (ProjectN (Project es cs))
           | P_NESTED_LOOP_JOIN \<Rightarrow> Some (JoinN (join_new cs))
           | P_SCALAR_GROUP_BY as \<Rightarrow> Some (ScalarGroupByN (ScalarGroupBy as cs None False))
           | P_HASH_GROUP_BY gs as \<Rightarrow> Some (HashGroupByN (HashGroupBy gs as cs [] 0 False))
           | _ \<Rightarrow> None))"

section \<open>What an operator delivers\<close>

text \<open>The tuples that calls of \<^verbatim>\<open>next\<close> and \<^verbatim>\<open>current_tuple\<close> give until the end of the data.\<close>

inductive yields :: "'s Oper \<Rightarrow> 's \<Rightarrow> Tuple list \<Rightarrow> bool" for I where
  yields_end: "op_next I s = Some (RECORD_EOF, s') \<Longrightarrow> yields I s []"
| yields_more: "op_next I s = Some (SUCCESS, s') \<Longrightarrow> op_current I s' = Some (Some t) \<Longrightarrow> yields I s' ts \<Longrightarrow> yields I s (t # ts)"

inductive_cases yields_NilE: "yields I s []"
inductive_cases yields_ConsE: "yields I s (t # ts)"

definition delivers :: "'s Oper \<Rightarrow> 's \<Rightarrow> Tuple list \<Rightarrow> bool" where
  "delivers I s ts \<longleftrightarrow> (\<exists>s'. op_open I s = Some (SUCCESS, s') \<and> yields I s' ts)"

lemma deliversE:
  assumes "delivers I s ts"
  obtains s' where "op_open I s = Some (SUCCESS, s')" "yields I s' ts"
  using assms unfolding delivers_def by blast

lemma yields_same_next: "yields I s ts \<Longrightarrow> op_next I s = op_next I s0 \<Longrightarrow> yields I s0 ts"
  by (erule yields.cases) (metis yields.intros)+

text \<open>What a condition says of a tuple.\<close>

definition verdict :: "float_ops \<Rightarrow> expr \<Rightarrow> Tuple \<Rightarrow> bool option" where
  "verdict fo e t =
     (case value_on (cell_at t) e PUndefined of
        None \<Rightarrow> None
      | Some (rc, v) \<Rightarrow> if rc = SUCCESS then get_boolean fo v else None)"

lemma pr_next_end:
  "op_next C c = Some (RECORD_EOF, c') \<Longrightarrow> pr_next fo C (Predicate e [c]) = Some (RECORD_EOF, Predicate e [c'])"
  by (simp add: pr_next_def pr_loop.simps [of fo C e "[c]"] on_child_def)

lemma pr_next_more:
  assumes "op_next C c = Some (SUCCESS, c')" "op_current C c' = Some (Some t)" "verdict fo e t = Some b"
  shows "pr_next fo C (Predicate e [c]) = (if b then Some (SUCCESS, Predicate e [c']) else pr_next fo C (Predicate e [c']))"
proof -
  obtain v where "value_on (cell_at t) e PUndefined = Some (SUCCESS, v)" "get_boolean fo v = Some b"
    using assms(3) by (auto simp: verdict_def split: option.splits if_splits)
  then show ?thesis using assms(1,2)
    by (simp add: pr_next_def pr_loop.simps [of fo C e "[c]"] on_child_def child_tuple_def)
qed

text \<open>What an operator promises the one that reads it.\<close>

locale input =
  fixes C :: "'c Oper" and c :: 'c and ts :: "Tuple list"
  assumes delivered: "delivers C c ts"
begin

lemma project_delivers: "delivers (project_oper C) (Project es [c]) (map (\<lambda>t. ExpressionTuple es (Some t)) ts)"
proof -
  obtain c' where c': "op_open C c = Some (SUCCESS, c')" "yields C c' ts" using delivered by (rule deliversE)
  have "yields (project_oper C) (Project es [c']) (map (\<lambda>t. ExpressionTuple es (Some t)) ts)"
    using c'(2)
  proof (induction rule: yields.induct)
    case (yields_end s s')
    then show ?case by (auto intro!: yields.yields_end [where s' = "Project es [s']"] simp: project_oper_def pj_next_def on_child_def)
  next
    case (yields_more s s' t ts)
    then show ?case
      by (auto intro!: yields.yields_more [where s' = "Project es [s']"] simp: project_oper_def pj_next_def pj_current_def child_tuple_def on_child_def)
  qed
  then show ?thesis using c'(1) by (auto simp: delivers_def project_oper_def pj_open_def on_child_def)
qed

lemma predicate_delivers:
  assumes "\<forall>t \<in> set ts. verdict fo e t \<noteq> None"
  shows "delivers (predicate_oper fo C) (Predicate e [c]) (filter (\<lambda>t. verdict fo e t = Some True) ts)"
proof -
  obtain c' where c': "op_open C c = Some (SUCCESS, c')" "yields C c' ts" using delivered by (rule deliversE)
  have "yields (predicate_oper fo C) (Predicate e [c']) (filter (\<lambda>t. verdict fo e t = Some True) ts)"
    using c'(2) assms
  proof (induction rule: yields.induct)
    case (yields_end s s')
    then show ?case by (auto intro!: yields.yields_end simp: predicate_oper_def pr_next_end)
  next
    case (yields_more s s' t ts)
    then obtain b where b: "verdict fo e t = Some b" by auto
    note n = pr_next_more [OF yields_more(1,2) b]
    have ih: "yields (predicate_oper fo C) (Predicate e [s']) (filter (\<lambda>t. verdict fo e t = Some True) ts)"
      using yields_more by simp
    show ?case
    proof (cases b)
      case True
      then show ?thesis using n b ih yields_more(2)
        by (auto intro!: yields.yields_more [where s' = "Predicate e [s']"] simp: predicate_oper_def child_tuple_def)
    next
      case False
      then have "op_next (predicate_oper fo C) (Predicate e [s']) = op_next (predicate_oper fo C) (Predicate e [s])"
        using n by (simp add: predicate_oper_def)
      then show ?thesis using yields_same_next [OF ih] False b by simp
    qed
  qed
  then show ?thesis using c'(1) by (auto simp: delivers_def predicate_oper_def pr_open_def on_child_def)
qed

end

subsection \<open>Leaves deliver\<close>

lemma eof_delivers: "delivers eof_oper s []"
  by (auto simp: delivers_def eof_oper_def intro!: yields_end)

lemma sl_yields:
  "i < length rows \<Longrightarrow> yields string_list_oper (StringList rows (Some i) True) (map (\<lambda>r. ValueListTuple (map string_value r) []) (drop (Suc i) rows))"
proof (induction "length rows - i" arbitrary: i)
  case (Suc n)
  show ?case
  proof (cases "Suc i = length rows")
    case True
    then show ?thesis by (auto intro!: yields_end simp: string_list_oper_def sl_next_def)
  next
    case False
    then have i: "Suc i < length rows" using Suc by simp
    then have "yields string_list_oper (StringList rows (Some (Suc i)) True) (map (\<lambda>r. ValueListTuple (map string_value r) []) (drop (Suc (Suc i)) rows))"
      using Suc by simp
    then show ?thesis using i
      by (subst Cons_nth_drop_Suc [symmetric, of "Suc i"])
        (auto intro!: yields_more [where s' = "StringList rows (Some (Suc i)) True"] simp: string_list_oper_def sl_next_def sl_current_def)
  qed
qed simp

lemma string_list_delivers:
  "delivers string_list_oper (StringList rows it False) (map (\<lambda>r. ValueListTuple (map string_value r) []) rows)"
proof (cases rows)
  case Nil
  then show ?thesis by (auto simp: delivers_def string_list_oper_def sl_next_def intro!: yields_end)
next
  case (Cons r rs)
  have "yields string_list_oper (StringList rows (Some 0) True) (map (\<lambda>r. ValueListTuple (map string_value r) []) rs)"
    using sl_yields [of 0 rows] Cons by simp
  then have "yields string_list_oper (StringList rows it False) (map (\<lambda>r. ValueListTuple (map string_value r) []) rows)"
    using Cons by (auto intro!: yields_more [where s' = "StringList rows (Some 0) True"] simp: string_list_oper_def sl_next_def sl_current_def)
  then show ?thesis by (simp add: delivers_def string_list_oper_def)
qed

lemma calc_cells_values: "calc_cells (map (ValueExpr p) vs) = SUCCESS"
  by (induction vs) (simp_all add: value_alone_def)

lemma calc_delivers: "delivers calc_oper (Calc (map (ValueExpr p) vs) False) [ExpressionTuple (map (ValueExpr p) vs) None]"
  by (auto simp: delivers_def calc_oper_def calc_next_def calc_cells_values
      intro!: yields_more [where s' = "Calc (map (ValueExpr p) vs) True"] yields_end)

interpretation scan: input eof_oper s "[]" for s :: 's
  by unfold_locales (rule eof_delivers)

interpretation strings: input string_list_oper "StringList rows it False" "map (\<lambda>r. ValueListTuple (map string_value r) []) rows"
  for rows it
  by unfold_locales (rule string_list_delivers)

interpretation constants: input calc_oper "Calc (map (ValueExpr p) vs) False" "[ExpressionTuple (map (ValueExpr p) vs) None]" for p vs
  by unfold_locales (rule calc_delivers)

section \<open>Joins deliver nothing\<close>

text \<open>An input that can be read to its end, closed and opened again, any number of times.\<close>

inductive drains :: "'s Oper \<Rightarrow> ('s \<Rightarrow> bool) \<Rightarrow> 's \<Rightarrow> bool" for I R where
  drains_end: "op_next I s = Some (RECORD_EOF, s') \<Longrightarrow> op_close I s' = Some (SUCCESS, s'') \<Longrightarrow> R s'' \<Longrightarrow> drains I R s"
| drains_more: "op_next I s = Some (SUCCESS, s') \<Longrightarrow> op_current I s' = Some t \<Longrightarrow> drains I R s' \<Longrightarrow> drains I R s"

definition reopens :: "'s Oper \<Rightarrow> ('s \<Rightarrow> bool) \<Rightarrow> bool" where
  "reopens I R \<longleftrightarrow> (\<forall>s. R s \<longrightarrow> (\<exists>s'. op_open I s = Some (SUCCESS, s') \<and> drains I R s'))"

definition ready :: "'s Oper \<Rightarrow> ('s \<Rightarrow> bool) \<Rightarrow> bool \<Rightarrow> 's \<Rightarrow> bool" where
  "ready I R closed r \<longleftrightarrow> (if closed then R r else \<exists>r'. op_close I r = Some (SUCCESS, r') \<and> R r')"

lemma nl_next_in_round:
  "nl_next C (Join cs (Some t) rt j False cl) =
     (case nl_right_next C (Join cs (Some t) rt j False cl) of
        None \<Rightarrow> None
      | Some (rc, s) \<Rightarrow>
          if rc \<noteq> SUCCESS \<and> rc \<noteq> RECORD_EOF then Some (rc, s)
          else nl_next C (if rc = RECORD_EOF
            then Join (nl_children s) (nl_left_tuple s) (nl_right_tuple s) (nl_joined s) True (nl_right_closed s) else s))"
  by (subst nl_next.simps) simp

lemma nl_round_consumed:
  assumes "drains C R r"
  shows "\<exists>r' rt' j'. nl_next C (Join [l, r] (Some t) rt j False False) = nl_next C (Join [l, r'] (Some t) rt' j' True False) \<and> ready C R False r'"
  using assms
proof (induction arbitrary: rt j rule: drains.induct)
  case (drains_end s s' s'')
  then have "nl_next C (Join [l, s] (Some t) rt j False False) = nl_next C (Join [l, s'] (Some t) rt j True False)"
    by (subst nl_next_in_round) (simp add: nl_right_next_def nl_round_def on_child_def)
  moreover have "ready C R False s'" using drains_end by (simp add: ready_def)
  ultimately show ?case by blast
next
  case (drains_more s s' t')
  have "nl_next C (Join [l, s] (Some t) rt j False False) = nl_next C (Join [l, s'] (Some t) t' (fst j, t') False False)"
    using drains_more by (subst nl_next_in_round) (simp add: nl_right_next_def nl_round_def on_child_def child_tuple_def)
  then show ?case using drains_more.IH by simp
qed

lemma nl_round_starts:
  assumes "reopens C R" "ready C R closed r"
  shows "\<exists>r'. nl_round C (Join [l, r] lt rt j True closed) = Some (SUCCESS, Join [l, r'] lt rt j False False) \<and> drains C R r'"
proof -
  obtain r0 where r0: "R r0" "(if closed then Some (SUCCESS, [l, r]) else on_child (op_close C) 1 [l, r]) = Some (SUCCESS, [l, r0])"
    using assms(2) by (auto simp: ready_def on_child_def split: if_splits)
  then obtain r' where "op_open C r0 = Some (SUCCESS, r')" "drains C R r'" using assms(1) by (auto simp: reopens_def)
  then show ?thesis using r0(2) by (auto simp: nl_round_def on_child_def)
qed

lemma nl_next_exhausts:
  assumes "yields C l ts" "reopens C R" "ready C R closed r"
  shows "\<exists>s'. nl_next C (Join [l, r] lt rt j True closed) = Some (RECORD_EOF, s')"
  using assms(1,3)
proof (induction arbitrary: r lt rt j closed rule: yields.induct)
  case (yields_end s s')
  then show ?case by (subst nl_next.simps) (simp add: nl_left_next_def on_child_def)
next
  case (yields_more s s' t ts)
  let ?s = "Join [s', r] (Some t) rt (Some t, snd j) True closed"
  obtain r' where r': "nl_round C ?s = Some (SUCCESS, Join [s', r'] (Some t) rt (Some t, snd j) False False)" "drains C R r'"
    using nl_round_starts [OF assms(2) yields_more.prems] by metis
  have "nl_right_next C ?s = nl_right_next C (Join [s', r'] (Some t) rt (Some t, snd j) False False)"
    using r'(1) by (simp add: nl_right_next_def nl_round_def [of C "Join _ _ _ _ False False"])
  then have "nl_next C (Join [s, r] lt rt j True closed) = nl_next C (Join [s', r'] (Some t) rt (Some t, snd j) False False)"
    using yields_more(1,2) by (subst nl_next_in_round, subst nl_next.simps) (simp add: nl_left_next_def on_child_def child_tuple_def)
  moreover obtain r2 rt2 j2 where "nl_next C (Join [s', r'] (Some t) rt (Some t, snd j) False False) = nl_next C (Join [s', r2] (Some t) rt2 j2 True False)"
    "ready C R False r2" using nl_round_consumed [OF r'(2)] by metis
  ultimately show ?case using yields_more.IH by metis
qed

text \<open>
  C19.  A nested loop join of two inputs, the second of which can be read again and again, ends and delivers no tuple at
  all, whatever the inputs hold: the loop of \<^verbatim>\<open>next\<close> goes on after a pair has been found.
\<close>

theorem join_delivers_nothing:
  assumes "delivers C l ts" "reopens C R" "R r"
  shows "delivers (join_oper C) (join_new [l, r]) []"
proof -
  obtain l' where l': "op_open C l = Some (SUCCESS, l')" "yields C l' ts" using assms(1) by (rule deliversE)
  obtain s' where "nl_next C (Join [l', r] None None (None, None) True True) = Some (RECORD_EOF, s')"
    using nl_next_exhausts [OF l'(2) assms(2), of True r None None "(None, None)"] assms(3) unfolding ready_def by auto
  then have "yields (join_oper C) (Join [l', r] None None (None, None) True True) []"
    by (intro yields_end) (simp add: join_oper_def)
  then show ?thesis using l'(1) by (auto simp: delivers_def join_oper_def nl_open_def join_new_def on_child_def)
qed

definition all_values :: "Calc \<Rightarrow> bool" where
  "all_values s \<longleftrightarrow> (\<exists>vs. ca_expressions s = map (ValueExpr (- 1)) vs)"

lemma calc_reopens: "reopens calc_oper all_values"
proof -
  have e: "drains calc_oper all_values (Calc (map (ValueExpr (- 1)) vs) True)" for vs
    by (rule drains_end) (auto simp: calc_oper_def calc_next_def all_values_def)
  have "drains calc_oper all_values (Calc (map (ValueExpr (- 1)) vs) False)" for vs
    by (rule drains_more [OF _ _ e [of vs]]) (simp_all add: calc_oper_def calc_next_def calc_cells_values)
  then have "drains calc_oper all_values (Calc (map (ValueExpr (- 1)) vs) b)" for vs b using e by (cases b) simp_all
  then show ?thesis unfolding reopens_def all_values_def by (auto simp: calc_oper_def) (metis Calc.collapse)
qed

theorem join_delivers_nothing_witness:
  "delivers calc_oper (Calc [ValueExpr (- 1) (PInts 1)] False) [ExpressionTuple [ValueExpr (- 1) (PInts 1)] None] \<and>
   delivers (join_oper calc_oper) (join_new [Calc [ValueExpr (- 1) (PInts 1)] False, Calc [ValueExpr (- 1) (PInts 2)] False]) []"
proof
  show l: "delivers calc_oper (Calc [ValueExpr (- 1) (PInts 1)] False) [ExpressionTuple [ValueExpr (- 1) (PInts 1)] None]"
    using calc_delivers [of "- 1" "[PInts 1]"] by simp
  have r: "all_values (Calc [ValueExpr (- 1) (PInts 2)] False)" unfolding all_values_def by (intro exI [of _ "[PInts 2]"]) simp
  show "delivers (join_oper calc_oper) (join_new [Calc [ValueExpr (- 1) (PInts 1)] False, Calc [ValueExpr (- 1) (PInts 2)] False]) []"
    using join_delivers_nothing [OF l calc_reopens r] .
qed

section \<open>Groups\<close>

text \<open>The rows whose key has not occurred before.\<close>

fun firsts :: "('a \<Rightarrow> 'k) \<Rightarrow> 'k set \<Rightarrow> 'a list \<Rightarrow> 'a list" where
  "firsts k seen [] = []"
| "firsts k seen (x # xs) = (if k x \<in> seen then firsts k seen xs else x # firsts k (insert (k x) seen) xs)"

definition int_tuple :: "int list \<Rightarrow> TupleCellSpec list \<Rightarrow> Tuple" where
  "int_tuple ks ss = ValueListTuple (map PInts ks) ss"

lemma compare_ints: "\<exists>r. v_compare fo (PInts a) (PInts b) = Some r \<and> (r = 0 \<longleftrightarrow> a = b)"
  by (auto simp: v_compare_def integer_compare_def compare_int_def)

lemma int_tuple_cell: "i < length ks \<Longrightarrow> cell_at (int_tuple ks ss) (int i) v = Some (SUCCESS, PInts (ks ! i))"
  by (simp add: int_tuple_def in_range_def)

lemma compare_loop_ints:
  assumes "length xs = length ys" "i + n = length xs"
  shows "\<exists>r. compare_loop fo (int_tuple xs ss) (int_tuple ys ss') n (int i) v w r0 = Some (SUCCESS, r) \<and> (r = 0 \<longleftrightarrow> drop i xs = drop i ys)"
  using assms(2)
proof (induction n arbitrary: i v w r0)
  case (Suc n)
  have i: "i < length xs" "i < length ys" "int i + 1 = int (Suc i)" using Suc.prems assms(1) by simp_all
  have d: "drop i xs = drop i ys \<longleftrightarrow> xs ! i = ys ! i \<and> drop (Suc i) xs = drop (Suc i) ys"
    using i(1,2) by (simp add: Cons_nth_drop_Suc [symmetric])
  obtain r1 where r1: "v_compare fo (PInts (xs ! i)) (PInts (ys ! i)) = Some r1" "r1 = 0 \<longleftrightarrow> xs ! i = ys ! i" using compare_ints by metis
  have step: "compare_loop fo (int_tuple xs ss) (int_tuple ys ss') (Suc n) (int i) v w r0 =
    (if r1 \<noteq> 0 then Some (SUCCESS, r1)
     else compare_loop fo (int_tuple xs ss) (int_tuple ys ss') n (int (Suc i)) (PInts (xs ! i)) (PInts (ys ! i)) r1)"
    by (simp only: compare_loop.simps int_tuple_cell [OF i(1)] int_tuple_cell [OF i(2)] r1(1) i(3) option.case prod.case) simp
  show ?case using Suc.IH [of "Suc i" "PInts (xs ! i)" "PInts (ys ! i)" r1] Suc.prems d r1(2) unfolding step by (cases "r1 = 0") simp_all
qed (use assms(1) in simp)

lemma tuple_compare_ints: "\<exists>r. tuple_compare fo (int_tuple xs ss) (int_tuple ys ss') r0 = Some (SUCCESS, r) \<and> (r = 0 \<longleftrightarrow> xs = ys)"
proof (cases "length xs = length ys")
  case True
  then have "tuple_compare fo (int_tuple xs ss) (int_tuple ys ss') r0 =
    compare_loop fo (int_tuple xs ss) (int_tuple ys ss') (length xs) (int 0) PUndefined PUndefined r0"
    by (simp add: tuple_compare_def int_tuple_def)
  then show ?thesis using compare_loop_ints [OF True, of 0 "length xs"] by simp
next
  case False
  then show ?thesis by (auto simp: tuple_compare_def int_tuple_def)
qed

lemma search_group_ints:
  "\<exists>i. search_group fo (int_tuple k ss) (map (\<lambda>t. (int_tuple (key t) (sp t), g t)) gs) = Some (SUCCESS, i) \<and>
    i \<le> length gs \<and> (i < length gs \<longleftrightarrow> k \<in> key ` set gs)"
proof (induction gs)
  case (Cons t gs)
  obtain r where r: "tuple_compare fo (int_tuple k ss) (int_tuple (key t) (sp t)) 0 = Some (SUCCESS, r)" "r = 0 \<longleftrightarrow> k = key t"
    using tuple_compare_ints by metis
  show ?case using Cons.IH r by (cases "r = 0") auto
qed simp

text \<open>The groups of a list of first rows, before and after the evaluation.\<close>

definition plain_groups :: "(Tuple \<Rightarrow> int list) \<Rightarrow> (Tuple \<Rightarrow> TupleCellSpec list) \<Rightarrow> (Tuple \<Rightarrow> Tuple) \<Rightarrow> Tuple list \<Rightarrow> group list" where
  "plain_groups key sp row gs = map (\<lambda>t. (int_tuple (key t) (sp t), [], [row t])) gs"

definition keyed :: "(expr \<Rightarrow> bytes) \<Rightarrow> expr list \<Rightarrow> (Tuple \<Rightarrow> int list) \<Rightarrow> (Tuple \<Rightarrow> TupleCellSpec list) \<Rightarrow> (Tuple \<Rightarrow> Tuple) \<Rightarrow> Tuple \<Rightarrow> bool" where
  "keyed nm gbs key sp row t \<longleftrightarrow>
     make_values nm (ExpressionTuple gbs (Some t)) = Some (SUCCESS, int_tuple (key t) (sp t)) \<and> make_values nm t = Some (SUCCESS, row t)"

lemma hg_row_plain:
  assumes "keyed nm gbs key sp row t"
  shows "hg_row fo nm gbs [] t (plain_groups key sp row gs) =
    Some (SUCCESS, plain_groups key sp row (if key t \<in> key ` set gs then gs else gs @ [t]))"
proof -
  let ?G = "plain_groups key sp row gs"
  obtain i where i: "search_group fo (int_tuple (key t) (sp t)) ?G = Some (SUCCESS, i)" "i \<le> length gs" "i < length gs \<longleftrightarrow> key t \<in> key ` set gs"
    using search_group_ints [of fo "key t" "sp t" key sp "\<lambda>t. ([], [row t])" gs] unfolding plain_groups_def by metis
  have g: "gb_aggregate fo [] (ExpressionTuple [] (Some t)) = Some (SUCCESS, [])" by (simp add: gb_aggregate_def)
  show ?thesis
  proof (cases "i < length gs")
    case True
    then have "find_group fo nm gbs [] t ?G = Some (SUCCESS, i, ?G)"
      using assms i(1) by (simp add: find_group_def keyed_def plain_groups_def)
    moreover have "?G[i := (fst (?G ! i), [], snd (snd (?G ! i)))] = ?G" "fst (snd (?G ! i)) = []"
      using True by (simp_all add: plain_groups_def list_update_same_conv)
    ultimately show ?thesis using True i(3) g by (simp add: hg_row_def)
  next
    case False
    then have "i = length gs" "key t \<notin> key ` set gs" using i(2,3) by simp_all
    then show ?thesis using assms i(1) g by (simp add: hg_row_def find_group_def keyed_def plain_groups_def create_aggregator_list_def nth_append list_update_append)
  qed
qed

lemma hg_loop_plain:
  assumes "yields C c ts" "\<forall>t \<in> set ts. keyed nm gbs key sp row t"
  shows "\<exists>c'. hg_loop fo nm C gbs [] [c] (plain_groups key sp row gs) =
    Some (SUCCESS, [c'], plain_groups key sp row (gs @ firsts key (key ` set gs) ts))"
  using assms
proof (induction arbitrary: gs rule: yields.induct)
  case (yields_end s s')
  then show ?case by (subst hg_loop.simps) (simp add: on_child_def)
next
  case (yields_more s s' t ts)
  let ?gs = "if key t \<in> key ` set gs then gs else gs @ [t]"
  have k: "keyed nm gbs key sp row t" using yields_more.prems by simp
  have "hg_loop fo nm C gbs [] [s] (plain_groups key sp row gs) = hg_loop fo nm C gbs [] [s'] (plain_groups key sp row ?gs)"
    using yields_more(1,2) by (subst hg_loop.simps) (simp add: on_child_def child_tuple_def hg_row_plain [OF k])
  moreover have "?gs @ firsts key (key ` set ?gs) ts = gs @ firsts key (key ` set gs) (t # ts)" by simp
  ultimately show ?case using yields_more.IH [of ?gs] yields_more.prems by (metis list.set_intros(2))
qed

definition group_tuple :: "(Tuple \<Rightarrow> Tuple) \<Rightarrow> Tuple \<Rightarrow> Tuple" where
  "group_tuple row t = CompositeTuple [row t, ValueListTuple [] []]"

lemma hg_evaluate_plain:
  "hg_evaluate nm [] (plain_groups key sp row gs) = Some (map (\<lambda>t. (int_tuple (key t) (sp t), [], [row t, ValueListTuple [] []])) gs)"
  by (induction gs) (simp_all add: hg_evaluate_def plain_groups_def gb_evaluate_def)

lemma hg_yields_rest:
  "i < length gs \<Longrightarrow> yields (hash_group_by_oper fo nm C) (HashGroupBy gbs as cs gs i True) (map (\<lambda>g. CompositeTuple (snd (snd g))) (drop (Suc i) gs))"
proof (induction "length gs - i" arbitrary: i)
  case (Suc n)
  show ?case
  proof (cases "Suc i = length gs")
    case True
    then show ?thesis by (auto intro!: yields_end simp: hash_group_by_oper_def hg_next_def Let_def)
  next
    case False
    then have i: "Suc i < length gs" using Suc by simp
    then have "yields (hash_group_by_oper fo nm C) (HashGroupBy gbs as cs gs (Suc i) True) (map (\<lambda>g. CompositeTuple (snd (snd g))) (drop (Suc (Suc i)) gs))"
      using Suc by simp
    then show ?thesis using i
      by (subst Cons_nth_drop_Suc [symmetric, of "Suc i"])
        (auto intro!: yields_more [where s' = "HashGroupBy gbs as cs gs (Suc i) True"] simp: hash_group_by_oper_def hg_next_def hg_current_tuple_def Let_def)
  qed
qed simp

lemma hg_yields: "yields (hash_group_by_oper fo nm C) (HashGroupBy gbs as cs gs 0 False) (map (\<lambda>g. CompositeTuple (snd (snd g))) gs)"
proof (cases gs)
  case Nil
  then show ?thesis by (auto intro!: yields_end simp: hash_group_by_oper_def hg_next_def Let_def)
next
  case (Cons g rest)
  then show ?thesis using hg_yields_rest [of 0 gs fo nm C gbs as cs]
    by (auto intro!: yields_more [where s' = "HashGroupBy gbs as cs gs 0 True"] simp: hash_group_by_oper_def hg_next_def hg_current_tuple_def Let_def)
qed

text \<open>
  C17.  Grouping by integer columns without aggregates delivers one tuple for each different key, made of the first row
  with that key, in the order in which the keys first occur.
\<close>

theorem group_by_distinct_keys:
  assumes "delivers C c ts" "\<forall>t \<in> set ts. keyed nm gbs key sp row t"
  shows "delivers (hash_group_by_oper fo nm C) (HashGroupBy gbs [] [c] [] 0 False) (map (group_tuple row) (firsts key {} ts))"
proof -
  obtain c' where c': "op_open C c = Some (SUCCESS, c')" "yields C c' ts" using assms(1) by (rule deliversE)
  let ?gs = "map (\<lambda>t. (int_tuple (key t) (sp t), [], [row t, ValueListTuple [] []])) (firsts key {} ts)"
  obtain c2 where "hg_loop fo nm C gbs [] [c'] [] = Some (SUCCESS, [c2], plain_groups key sp row (firsts key {} ts))"
    using hg_loop_plain [OF c'(2) assms(2), of fo "[]"] by (auto simp: plain_groups_def)
  then have o: "op_open (hash_group_by_oper fo nm C) (HashGroupBy gbs [] [c] [] 0 False) = Some (SUCCESS, HashGroupBy gbs [] [c2] ?gs 0 False)"
    using c'(1) by (simp add: hash_group_by_oper_def hg_open_def on_child_def hg_evaluate_plain Let_def)
  have m: "map (\<lambda>g. CompositeTuple (snd (snd g))) ?gs = map (group_tuple row) (firsts key {} ts)" by (simp add: group_tuple_def)
  have "yields (hash_group_by_oper fo nm C) (HashGroupBy gbs [] [c2] ?gs 0 False) (map (group_tuple row) (firsts key {} ts))"
    by (rule subst [OF m]) (rule hg_yields)
  then show ?thesis unfolding delivers_def using o by (intro exI conjI)
qed

definition first_field :: expr where
  "first_field = FieldExpr (- 1) [] [97] 0 CHARS 4"

definition two_rows :: "Tuple list" where
  "two_rows = map (\<lambda>t. ExpressionTuple [first_field] (Some t)) (map (\<lambda>r. ValueListTuple (map string_value r) []) [[[120]], [[121]]])"

theorem group_by_distinct_keys_witness:
  "\<forall>fo. delivers (hash_group_by_oper fo (\<lambda>e. [97]) (project_oper string_list_oper))
    (HashGroupBy [ValueExpr (- 1) (PInts 7)] [] [Project [first_field] [StringList [[[120]], [[121]]] None False]] [] 0 False)
    [CompositeTuple [ValueListTuple [string_value [120]] [spec_alias [97]], ValueListTuple [] []]]"
proof
  fix fo
  let ?key = "\<lambda>t :: Tuple. [7 :: int]" and ?sp = "\<lambda>t :: Tuple. [spec_alias [97]]"
  let ?row = "\<lambda>t :: Tuple. snd (the (make_values (\<lambda>e. [97]) t))"
  have d: "delivers (project_oper string_list_oper) (Project [first_field] [StringList [[[120]], [[121]]] None False]) two_rows"
    unfolding two_rows_def by (rule strings.project_delivers)
  have k: "\<forall>t \<in> set two_rows. keyed (\<lambda>e. [97]) [ValueExpr (- 1) (PInts 7)] ?key ?sp ?row t"
    by (simp add: two_rows_def keyed_def make_values_def int_tuple_def in_range_def value_on_def first_field_def)
  have f: "firsts ?key {} two_rows = [hd two_rows]" by (simp add: two_rows_def)
  have r: "map (group_tuple ?row) [hd two_rows] = [CompositeTuple [ValueListTuple [string_value [120]] [spec_alias [97]], ValueListTuple [] []]]"
    by (simp add: two_rows_def group_tuple_def make_values_def in_range_def value_on_def first_field_def)
  show "delivers (hash_group_by_oper fo (\<lambda>e. [97]) (project_oper string_list_oper))
    (HashGroupBy [ValueExpr (- 1) (PInts 7)] [] [Project [first_field] [StringList [[[120]], [[121]]] None False]] [] 0 False)
    [CompositeTuple [ValueListTuple [string_value [120]] [spec_alias [97]], ValueListTuple [] []]]"
    using group_by_distinct_keys [OF d k, of fo] unfolding f r .
qed

section \<open>From the statement to the answer\<close>

fun pheight :: "PhysicalOperator \<Rightarrow> nat" where
  "pheight (POper t ch) = Suc (foldr max (map pheight ch) 0)"

lemma member_height: "p \<in> set ch \<Longrightarrow> pheight p \<le> foldr max (map pheight ch) 0"
  by (induction ch) auto

lemma empty_open:
  assumes "delivers C c []"
  obtains c' c'' where "op_open C c = Some (SUCCESS, c')" "op_next C c' = Some (RECORD_EOF, c'')"
  using assms by (auto simp: delivers_def elim: yields_NilE)

lemma join_empty:
  assumes "delivers C l []"
  shows "delivers (join_oper C) (join_new [l, r]) []"
proof -
  obtain l' l'' where "op_open C l = Some (SUCCESS, l')" "op_next C l' = Some (RECORD_EOF, l'')" using assms by (rule empty_open)
  moreover from this have "yields (join_oper C) (Join [l', r] None None (None, None) True True) []"
    by (intro yields_end) (simp add: join_oper_def nl_next.simps [of C "Join [l', r] None None (None, None) True True"] nl_left_next_def on_child_def)
  ultimately show ?thesis by (auto simp: delivers_def join_oper_def nl_open_def join_new_def on_child_def)
qed

lemma scalar_empty:
  assumes "delivers C c []"
  shows "delivers (scalar_group_by_oper fo nm C) (ScalarGroupBy as [c] None False) []"
proof -
  obtain c' c'' where "op_open C c = Some (SUCCESS, c')" "op_next C c' = Some (RECORD_EOF, c'')" using assms by (rule empty_open)
  then have "op_open (scalar_group_by_oper fo nm C) (ScalarGroupBy as [c] None False) = Some (SUCCESS, ScalarGroupBy as [c''] None False)"
    by (simp add: scalar_group_by_oper_def sg_open_def on_child_def sg_loop.simps [of fo nm C as "[c']"])
  moreover have "yields (scalar_group_by_oper fo nm C) (ScalarGroupBy as [c''] None False) []"
    by (intro yields_end) (simp add: scalar_group_by_oper_def sg_next_def)
  ultimately show ?thesis by (auto simp: delivers_def)
qed

lemma hash_empty:
  assumes "delivers C c []"
  shows "delivers (hash_group_by_oper fo nm C) (HashGroupBy gs as [c] [] 0 False) []"
proof -
  obtain c' c'' where "op_open C c = Some (SUCCESS, c')" "op_next C c' = Some (RECORD_EOF, c'')" using assms by (rule empty_open)
  then have "op_open (hash_group_by_oper fo nm C) (HashGroupBy gs as [c] [] 0 False) = Some (SUCCESS, HashGroupBy gs as [c''] [] 0 False)"
    by (simp add: hash_group_by_oper_def hg_open_def on_child_def hg_loop.simps [of fo nm C gs as "[c']"] hg_evaluate_def Let_def)
  then show ?thesis using hg_yields [of fo nm C gs as "[c'']" "[]"] by (auto simp: delivers_def)
qed

text \<open>An operator inside the tree of all operators.\<close>

lemma lift_yields:
  assumes "yields J s ts" "\<And>s. op_next I (N s) = lift_call N (op_next J s)" "\<And>s. op_current I (N s) = op_current J s"
  shows "yields I (N s) ts"
  using assms(1)
proof (induction rule: yields.induct)
  case (yields_end s s')
  then show ?case using assms(2) by (auto intro!: yields.yields_end simp: lift_call_def)
next
  case (yields_more s s' t ts)
  then show ?case using assms(2,3) by (auto intro!: yields.yields_more [where s' = "N s'"] simp: lift_call_def)
qed

lemma lift_delivers:
  assumes "delivers J s ts" "\<And>s. op_open I (N s) = lift_call N (op_open J s)"
    "\<And>s. op_next I (N s) = lift_call N (op_next J s)" "\<And>s. op_current I (N s) = op_current J s"
  shows "delivers I (N s) ts"
proof -
  obtain s' where "op_open J s = Some (SUCCESS, s')" "yields J s' ts" using assms(1) by (rule deliversE)
  then show ?thesis using lift_yields [of J s' ts I N] assms(2-4) by (auto simp: delivers_def lift_call_def)
qed

lemma node_delivers:
  fixes fo nm d
  defines "C \<equiv> node_oper fo nm d" and "I \<equiv> node_oper fo nm (Suc d)"
  shows "delivers calc_oper s1 ts \<Longrightarrow> delivers I (CalcN s1) ts"
    "delivers (predicate_oper fo C) s2 ts \<Longrightarrow> delivers I (PredicateN s2) ts"
    "delivers (project_oper C) s3 ts \<Longrightarrow> delivers I (ProjectN s3) ts"
    "delivers (join_oper C) s4 ts \<Longrightarrow> delivers I (JoinN s4) ts"
    "delivers (scalar_group_by_oper fo nm C) s5 ts \<Longrightarrow> delivers I (ScalarGroupByN s5) ts"
    "delivers (hash_group_by_oper fo nm C) s6 ts \<Longrightarrow> delivers I (HashGroupByN s6) ts"
  unfolding C_def I_def by (erule lift_delivers; simp add: Let_def)+

lemma leaf_delivers: "delivers (node_oper fo nm (Suc d)) LeafN []"
  by (auto simp: delivers_def eof_oper_def Let_def intro!: yields_end)

lemma query_tree_delivers:
  "query_tree p \<Longrightarrow> pheight p \<le> d \<Longrightarrow> \<exists>n. build p = Some n \<and> delivers (node_oper fo nm d) n []"
proof (induction p arbitrary: d)
  case (POper t ch)
  obtain d' where d: "d = Suc d'" "foldr max (map pheight ch) 0 \<le> d'" using POper.prems(2) by (cases d) auto
  let ?C = "node_oper fo nm d'"
  have ih: "\<exists>n. build c = Some n \<and> delivers ?C n []" if "c \<in> set ch" for c
    using POper.IH [OF that] POper.prems(1) member_height [OF that] d(2) that by (simp add: list_all_iff)
  have one: "\<exists>n. those (map build ch) = Some [n] \<and> delivers ?C n []" if "length ch = 1"
    using that ih by (auto simp: length_Suc_conv)
  have two: "\<exists>l r. those (map build ch) = Some [l, r] \<and> delivers ?C l []" if two_inputs: "length ch = 2"
  proof -
    obtain x y where ch: "ch = [x, y]" using two_inputs by (auto simp: length_Suc_conv numeral_2_eq_2)
    then obtain l r where "build x = Some l" "delivers ?C l []" "build y = Some r" using ih [of x] ih [of y] by auto
    then show ?thesis using ch by simp
  qed
  show ?case
  proof (cases t)
    case P_TABLE_SCAN
    then show ?thesis using POper.prems(1) d(1) leaf_delivers [of fo nm d'] by simp
  next
    case (P_PREDICATE e)
    then obtain c where c: "those (map build ch) = Some [c]" "delivers ?C c []" using one POper.prems(1) by auto
    have "delivers (predicate_oper fo ?C) (Predicate e [c]) []" using input.predicate_delivers [OF input.intro [OF c(2)]] by simp
    then show ?thesis using node_delivers(2) c(1) P_PREDICATE d(1) by fastforce
  next
    case (P_PROJECT es)
    then obtain c where c: "those (map build ch) = Some [c]" "delivers ?C c []" using one POper.prems(1) by auto
    have "delivers (project_oper ?C) (Project es [c]) []" using input.project_delivers [OF input.intro [OF c(2)]] by simp
    then show ?thesis using node_delivers(3) c(1) P_PROJECT d(1) by fastforce
  next
    case P_NESTED_LOOP_JOIN
    then obtain l r where c: "those (map build ch) = Some [l, r]" "delivers ?C l []" using two POper.prems(1) by auto
    then show ?thesis using node_delivers(4) [OF join_empty [OF c(2)]] P_NESTED_LOOP_JOIN d(1) by fastforce
  next
    case (P_SCALAR_GROUP_BY as)
    then obtain c where c: "those (map build ch) = Some [c]" "delivers ?C c []" using one POper.prems(1) by auto
    then show ?thesis using node_delivers(5) [OF scalar_empty [OF c(2)]] P_SCALAR_GROUP_BY d(1) by fastforce
  next
    case (P_HASH_GROUP_BY gs as)
    then obtain c where c: "those (map build ch) = Some [c]" "delivers ?C c []" using one POper.prems(1) by auto
    then show ?thesis using node_delivers(6) [OF hash_empty [OF c(2)]] P_HASH_GROUP_BY d(1) by fastforce
  qed (use POper.prems(1) in auto)
qed

text \<open>
  C18.  From the statement to the answer: a query on tables that can be planned gets operators which open without an
  error and deliver no row, whatever its tables hold.  The scan of a table is a stub, and no operator above it makes up
  rows, an aggregate included.
\<close>

theorem planned_query_answers_nothing:
  assumes "create_logical fo (SelectS stmt) = Some (Inr l)" "0 < ss_tables stmt"
  shows "\<exists>p n. handle_request fo (Some (SelectS stmt)) = Some (Inr p) \<and> build p = Some n \<and> delivers (node_oper fo nm (pheight p)) n []"
proof -
  obtain l' where l': "rewrite_loop fo l = Some (Inr l')" "plan_ok l'" using rewrite_loop_ok create_logical_ok [OF assms(1)] assms(2) by fastforce
  obtain p where "handle_request fo (Some (SelectS stmt)) = Some (Inr p)"
    using create_physical_ok [OF l'(2)] l'(1) assms(1) by (auto simp: handle_request_def)
  then show ?thesis using query_tree_delivers planned_query_tree [OF assms] by blast
qed

theorem planned_query_answers_nothing_witness:
  "\<forall>fo. \<exists>p n. handle_request fo (Some (SelectS \<lparr>ss_query_expressions = [AggregateExpr (- 1) AGG_COUNT (ValueExpr (- 1) (PInts 1))],
      ss_tables = 2, ss_filter_stmt = Some [\<lparr>fu_comp = EQUAL_TO, fu_left = AttrObj, fu_right = AttrObj\<rparr>], ss_group_by = []\<rparr>)) = Some (Inr p) \<and>
    build p = Some n \<and> delivers (node_oper fo (\<lambda>e. []) (pheight p)) n []"
  by (intro allI planned_query_answers_nothing)
    (auto simp: create_select_plan_def create_filter_plan_def create_group_by_plan_def unit_expr_def over_def add_child_def Let_def numeral_2_eq_2)


end
