(* ===== verification/Spec2Isabelle.thy ===== *)
theory Spec2Isabelle
  imports Ob_Tablet Ob_KV_Cache Ob_Server Ob_Plain Ob_Exec
begin

text \<open>
  A verification development for the LSM storage engine of the repository: the OceanBase-style
  storage layer under \<^verbatim>\<open>src/src/storage\<close>, the schema service under \<^verbatim>\<open>src/src/share/schema\<close>, the DDL
  service under \<^verbatim>\<open>src/src/rootserver\<close>, and of the server under \<^verbatim>\<open>src/src/observer\<close> its start, sessions
  and database statements, its values, the planning and execution of statements, and its two wire protocols.

  \<^bold>\<open>The program.\<close>  A statement such as \<^verbatim>\<open>CREATE DATABASE\<close> is run by an executor, which calls the DDL
  service.  The DDL service appends a record to a log stream, changes the schema service, writes a
  macro block and adds an entry to the storage log; at start it rebuilds the schema from stream and
  storage log.  Rows go to a tablet: its table store writes them to the active memtable, which logs
  them and keeps them as version chains in a hash index and an ordered index.  A freezer turns the
  active memtable into a frozen one, and compaction writes frozen memtables as SSTables made of
  macro blocks and micro blocks.  A client speaks the plain text or the MySQL protocol; both write
  answers through a buffered writer.  Conditions of queries are expressions over values, which the
  optimizer rewrites inside a logical plan.

  \<^bold>\<open>Conventions.\<close>  A C++ object is a record with the fields of the class under a short prefix, a
  method a function from the object to its results and the new object.  Return codes are integers,
  \<^verbatim>\<open>RC\<close> codes are the constants of \<^verbatim>\<open>common/sys/rc.h\<close>.  The value \<open>None\<close> of an option-valued operation
  stands for an execution the language gives no meaning to (a null or dangling pointer, an access
  outside a buffer) or one that never returns (a mutex locked twice).  Machine integers are words
  where their width matters.  Memory that the code shares through pointers is a map from addresses.
  What the operating system answers is a parameter, a record \<open>io\<close> with the outcome of open, write,
  sync and unlink; \<open>io_good\<close> is the one where all succeed.  The content of uninitialised memory is
  a parameter as well, and so is the order in which an \<^verbatim>\<open>unordered_map\<close> is iterated.

  \<^bold>\<open>Theories.\<close>
  \<^item> \<open>Ob_Prelude\<close>: bytes, little-endian words, slices of buffers, the locale of fixed-size records
    with a byte layout (\<open>pod_layout\<close>), files, the locales \<open>kv_store\<close> and \<open>redo_log\<close>, return codes.
  \<^item> \<open>Ob_Define\<close> (\<^verbatim>\<open>ob_define.h\<close>, \<^verbatim>\<open>ob_i_store\<close>): enumerations, row keys with order and hash, rows.
  \<^item> \<open>Ob_Mvcc\<close>, \<open>Ob_Mvcc_Chain\<close>, \<open>Ob_Mvcc_Engine\<close> (\<^verbatim>\<open>memtable/mvcc\<close>): transaction nodes and rows on a
    heap, the two indexes, writes, undo, reads and scans.  The invariant \<open>mvcc_wf\<close> says that chains
    are linked in both directions and the indexes agree; the engine refines a map from hashes to
    lists of versions.
  \<^item> \<open>Ob_Palf_Log\<close>, \<open>Ob_Log_Storage\<close>, \<open>Ob_Palf_Handle\<close>, \<open>Ob_Log_Service\<close> (\<^verbatim>\<open>logservice\<close>): entry headers
    as byte codecs, block files, streams and the service.  They show that entries of a clean stream
    are read back in order, which makes the service an instance of \<open>redo_log\<close>.
  \<^item> \<open>Ob_Memtable\<close> (\<^verbatim>\<open>ob_memtable\<close>): writes with their log record, replay, reads, scans, the arena.
  \<^item> \<open>Ob_KV_Cache\<close> (\<^verbatim>\<open>cache\<close>): the block cache, which refines a least-recently-used list.
  \<^item> \<open>Ob_Slog\<close> (\<^verbatim>\<open>slog\<close>): the storage log and its torn writes, a second instance of \<open>redo_log\<close>.
  \<^item> \<open>Ob_Blocks\<close>, \<open>Ob_Block_Writer\<close>, \<open>Ob_SSTable\<close> (\<^verbatim>\<open>blocksstable\<close>, \<^verbatim>\<open>compaction\<close>): headers of blocks,
    micro and macro block writers, SSTables with their metadata, and the merges.
  \<^item> \<open>Ob_Tablet\<close> (\<^verbatim>\<open>ls\<close>, \<^verbatim>\<open>tablet\<close>, \<^verbatim>\<open>ob_record_scanner\<close>): memtable manager with its mutex, freezer, table
    store, tablet, store of tablets, and the scanner of the SQL layer.
  \<^item> \<open>Ob_Schema\<close> (\<^verbatim>\<open>share/schema\<close>), \<open>Ob_DDL\<close> (\<^verbatim>\<open>rootserver\<close>): schema objects with their codecs, the
    schema service, and the DDL service with its recovery.
  \<^item> \<open>Ob_Server\<close> (\<^verbatim>\<open>observer\<close>): \<^verbatim>\<open>init_global_objects\<close>, sessions and the executors of database and
    table statements.
  \<^item> \<open>Ob_Net\<close> (\<^verbatim>\<open>ring_buffer\<close>, \<^verbatim>\<open>buffered_writer\<close>): the ring buffer, which refines a bounded queue, and the
    writer over a socket that may take any part of what it is offered.
  \<^item> \<open>Ob_Mysql\<close>, \<open>Ob_Plain\<close> (\<^verbatim>\<open>mysql_communicator\<close>, \<^verbatim>\<open>plain_communicator\<close>): the protocols, from the bytes of
    packets to the delivery of whole result sets, and the reading of requests.
  \<^item> \<open>Ob_Value\<close> (\<^verbatim>\<open>common/value\<close>, \<^verbatim>\<open>common/type\<close>, \<^verbatim>\<open>comparator\<close>): tagged unions with owned strings, whose
    type invariant every member function keeps; conversions, comparison and arithmetic.
  \<^item> \<open>Ob_Plan\<close> (\<^verbatim>\<open>sql/expr\<close>, \<^verbatim>\<open>sql/optimizer\<close>): expressions, logical plans, the rewrite rules and their
    loop, which ends because every change removes a node; a reference meaning of expressions.
  \<^item> \<open>Ob_Planner\<close> (\<^verbatim>\<open>logical_plan_generator.cpp\<close>, \<^verbatim>\<open>physical_plan_generator.cpp\<close>, \<^verbatim>\<open>optimize_stage.cpp\<close>): the way
    of a statement to its physical plan.  Once the logical plan exists nothing fails any more; the fuel of the binding of
    group columns, the size of the expression, is enough (\<open>bind_fuel_enough\<close>).
  \<^item> \<open>Ob_Exec\<close> (\<^verbatim>\<open>tuple.h\<close>, \<^verbatim>\<open>sql/operator\<close>): tuples and the row operators, each over the virtual functions of its
    inputs.  The locale \<open>input\<close> says what an operator delivers to the one above it; projection, filter, join and
    grouping are characterised by the tuples they deliver, and whole plans by a dispatch over trees whose height is the
    fuel (\<open>pheight\<close> of the plan is enough).

  \<^bold>\<open>Bounds.\<close>  Recursions over files and lists terminate by their lengths and need no fuel.  Hypotheses
  that sizes stay below \<open>2 ^ 63\<close> keep \<^verbatim>\<open>int64_t\<close> sums from overflowing; \<open>entries_fit\<close> says that no
  log entry straddles the end of a block, where the code stops reading.

  \<^bold>\<open>Not modelled.\<close>  Threads: latches and atomics are taken as sequential, except for the mutex of the
  memtable manager and the queue of the log's I/O worker, whose interleavings are a step relation.
  Sockets are a parameter: a function that says what each call of \<^verbatim>\<open>write\<close> takes, and a script of what
  \<^verbatim>\<open>read\<close> finds.  The theorems that something is delivered assume \<open>net_fair\<close>: no call fails, and again and
  again one takes a byte.  The operations on \<^verbatim>\<open>float\<close> are a parameter.  The generated SQL parser, the
  cascade optimizer, the vectorised operators, \<^verbatim>\<open>SqlResult\<close>, the threads of the server, logging, configuration, the memory tracer and the client
  are not modelled.  \<^verbatim>\<open>storage/schema\<close> is a copy of
  \<^verbatim>\<open>share/schema\<close>.
\<close>



end
